(* ===== verification/Prelude.thy ===== *)
theory Prelude
  imports Main "HOL-Library.Word" "HOL-Library.Signed_Division"
begin

text \<open>
  What the components share: machine types, the ways a C++ statement can fail,
  programs with state and failure, and C's checked signed arithmetic.

  A C++ \<open>int\<close> is an \<^typ>\<open>int\<close> in the range of 32 bits; arithmetic that leaves the
  range is undefined behaviour in C++ and is the fault \<open>Signed_overflow\<close> here.
  Conversions from \<open>uint32_t\<close> to \<open>int\<close> reduce modulo \<open>2^32\<close> (C++20) and are \<^const>\<open>sint\<close>.
\<close>

unbundle bit_operations_syntax

named_theorems prog_simps
  \<open>unfolding of programs: sequencing, state access, failure\<close>

type_synonym byte = "8 word"

section \<open>Failures\<close>

text \<open>
  \<open>Runtime_error\<close> and \<open>Errno\<close> are the two exceptions the code throws
  (\<open>std::runtime_error\<close> and the plain \<open>int\<close> of \<open>throw errno\<close>). \<open>Assertion\<close> is a failed
  \<open>assert\<close>. The others are undefined behaviour: the language says nothing about
  the run after them, so they end the model's run and are never caught.
  \<open>Blocked\<close> is no failure of the code: the environment has no further input,
  and the program waits in its polling loop.
\<close>

datatype fault =
    Runtime_error string
  | Errno int
  | Assertion
  | Signed_overflow
  | Uninitialised_read
  | Buffer_overrun
  | Bad_format
  | Bad_shift
  | Division_by_zero
  | Bad_delete
  | Blocked

section \<open>Programs with state and failure\<close>

type_synonym ('s, 'a) prog = "'s \<Rightarrow> (fault + 'a) \<times> 's"

definition return_p :: "'a \<Rightarrow> ('s, 'a) prog" where
  [prog_simps]: "return_p a = (\<lambda>s. (Inr a, s))"

definition throw_p :: "fault \<Rightarrow> ('s, 'a) prog" where
  [prog_simps]: "throw_p e = (\<lambda>s. (Inl e, s))"

definition bind_p :: "('s, 'a) prog \<Rightarrow> ('a \<Rightarrow> ('s, 'b) prog) \<Rightarrow> ('s, 'b) prog" where
  [prog_simps]: "bind_p m f = (\<lambda>s. case m s of
     (Inl e, s') \<Rightarrow> (Inl e, s')
   | (Inr a, s') \<Rightarrow> f a s')"

definition then_p :: "('s, 'a) prog \<Rightarrow> ('s, 'b) prog \<Rightarrow> ('s, 'b) prog" where
  [prog_simps]: "then_p m n = bind_p m (\<lambda>_. n)"

definition gets_p :: "('s \<Rightarrow> 'a) \<Rightarrow> ('s, 'a) prog" where
  [prog_simps]: "gets_p f = (\<lambda>s. (Inr (f s), s))"

definition modify_p :: "('s \<Rightarrow> 's) \<Rightarrow> ('s, unit) prog" where
  [prog_simps]: "modify_p f = (\<lambda>s. (Inr (), f s))"

definition lift_p :: "fault + 'a \<Rightarrow> ('s, 'a) prog" where
  [prog_simps]: "lift_p r = (\<lambda>s. (r, s))"

definition when_p :: "bool \<Rightarrow> ('s, unit) prog \<Rightarrow> ('s, unit) prog" where
  [prog_simps]: "when_p b m = (if b then m else return_p ())"

text \<open>A program on a part of the state, run on the whole.\<close>

definition zoom_p :: "('s \<Rightarrow> 't) \<Rightarrow> ('t \<Rightarrow> 's \<Rightarrow> 's) \<Rightarrow> ('t, 'a) prog \<Rightarrow> ('s, 'a) prog" where
  [prog_simps]: "zoom_p get put m = (\<lambda>s. case m (get s) of (r, t) \<Rightarrow> (r, put t s))"

definition on_fst :: "('s, 'a) prog \<Rightarrow> ('s \<times> 't, 'a) prog" where
  [prog_simps]: "on_fst m = zoom_p fst (\<lambda>a (_, b). (a, b)) m"

definition on_snd :: "('t, 'a) prog \<Rightarrow> ('s \<times> 't, 'a) prog" where
  [prog_simps]: "on_snd m = zoom_p snd (\<lambda>b (a, _). (a, b)) m"

lemma bind_p_return [simp]: "bind_p (return_p a) f = f a"
  by (simp add: prog_simps)

lemma bind_p_assoc: "bind_p (bind_p m f) g = bind_p m (\<lambda>a. bind_p (f a) g)"
  by (auto simp: prog_simps split: prod.splits sum.splits)

lemma bind_p_InrE:
  assumes "bind_p m f s = (Inr b, s'')"
  obtains a s' where "m s = (Inr a, s')" and "f a s' = (Inr b, s'')"
  using assms by (auto simp: bind_p_def split: prod.splits sum.splits)

section \<open>C integers\<close>

abbreviation INT_MAX :: int where "INT_MAX \<equiv> 2147483647"
abbreviation INT_MIN :: int where "INT_MIN \<equiv> - 2147483648"

definition in_int :: "int \<Rightarrow> bool" where
  "in_int i \<longleftrightarrow> INT_MIN \<le> i \<and> i \<le> INT_MAX"

definition check_int :: "int \<Rightarrow> fault + int" where
  "check_int i = (if in_int i then Inr i else Inl Signed_overflow)"

lemma check_int_Inr [simp]: "check_int i = Inr j \<longleftrightarrow> in_int i \<and> j = i"
  by (auto simp: check_int_def)

lemma check_int_Inl [simp]: "check_int i = Inl e \<longleftrightarrow> \<not> in_int i \<and> e = Signed_overflow"
  by (auto simp: check_int_def)

lemma check_int_in [simp]: "in_int i \<Longrightarrow> check_int i = Inr i"
  by (simp add: check_int_def)

lemma in_int_sint [simp, intro]: "in_int (sint (w :: 32 word))"
  using sint_range_size [of w] by (simp add: in_int_def word_size)

lemma sint_of_in_int [simp]: "in_int i \<Longrightarrow> sint (word_of_int i :: 32 word) = i"
  by (simp add: in_int_def int_word_sint sint_word_ariths signed_take_bit_int_eq_self)

text \<open>C divides towards zero.\<close>

lemma sdiv_nonneg: "0 \<le> (a::int) \<Longrightarrow> 0 < b \<Longrightarrow> a sdiv b = a div b"
  by (simp add: signed_divide_int_def sgn_if)

lemma sdiv_neg: "(a::int) < 0 \<Longrightarrow> 0 < b \<Longrightarrow> a sdiv b = - ((- a) div b)"
  by (simp add: signed_divide_int_def sgn_if)

lemma sdiv_half_bounds:
  "in_int (i::int) \<Longrightarrow> - 1073741824 \<le> i sdiv 2 \<and> i sdiv 2 \<le> 1073741823"
  by (cases "0 \<le> i") (auto simp: in_int_def sdiv_nonneg sdiv_neg)

section \<open>Lists\<close>

text \<open>Writing a byte block into a buffer at an offset keeps the buffer's length.\<close>

definition write_at :: "nat \<Rightarrow> 'a list \<Rightarrow> 'a list \<Rightarrow> 'a list" where
  "write_at off bs m = take off m @ bs @ drop (off + length bs) m"

lemma length_write_at [simp]:
  "off + length bs \<le> length m \<Longrightarrow> length (write_at off bs m) = length m"
  by (simp add: write_at_def)

lemma take_write_at_le [simp]:
  "n \<le> off \<Longrightarrow> off \<le> length m \<Longrightarrow> take n (write_at off bs m) = take n m"
  by (simp add: write_at_def)

lemma write_at_get [simp]:
  "off \<le> length m \<Longrightarrow> take (length bs) (drop off (write_at off bs m)) = bs"
  by (simp add: write_at_def)

lemma take_write_at:
  "off \<le> length m \<Longrightarrow> take (off + length bs) (write_at off bs m) = take off m @ bs"
  by (simp add: write_at_def)

end
