(* ===== verification/Messages.thy ===== *)
theory Messages
  imports Prelude
begin

text \<open>
  \<open>constants/types.h\<close> and \<open>constants/messages.h\<close>: the enums, the message
  constants and the packed message structures, plus the byte-order functions of
  \<open>arpa/inet.h\<close> that the code applies to them.

  A \<open>messages::Message\<close> is a C++ object whose bytes are read from and written to
  sockets, and whose body is a union. It is modelled as what it is in memory: a list of
  bytes, with the fields at the offsets that
  \<open>#pragma pack(push, 1)\<close> gives them. The object has 88 bytes (\<open>sizeof_Message\<close>); the list has those that
  have a determined value, which are always the first ones. A field access is a load or a store of bytes in
  the host's order (little-endian); all union members start at offset 3.
\<close>

section \<open>Enums (types.h)\<close>

datatype Instrument = FUTURE | ETF

datatype Side = SELL | BUY

datatype Lifespan = FILL_AND_KILL | GOOD_FOR_DAY

text \<open>The enumerators' values.\<close>

primrec Side_value :: "Side \<Rightarrow> int" where
  "Side_value SELL = 0"
| "Side_value BUY = 1"

primrec Lifespan_value :: "Lifespan \<Rightarrow> int" where
  "Lifespan_value FILL_AND_KILL = 0"
| "Lifespan_value GOOD_FOR_DAY = 1"

section \<open>Message sizes and types (messages.h)\<close>

definition LOGIN_MESSAGE_SIZE :: nat where "LOGIN_MESSAGE_SIZE = 73"
definition CANCEL_MESSAGE_SIZE :: nat where "CANCEL_MESSAGE_SIZE = 7"
definition INSERT_MESSAGE_SIZE :: nat where "INSERT_MESSAGE_SIZE = 17"

definition CANCEL_MESSAGE_TYPE :: byte where "CANCEL_MESSAGE_TYPE = 2"
definition INSERT_MESSAGE_TYPE :: byte where "INSERT_MESSAGE_TYPE = 4"
definition LOGIN_MESSAGE_TYPE :: byte where "LOGIN_MESSAGE_TYPE = 5"
definition ORDER_BOOK_UPDATE_MESSAGE_TYPE :: byte where "ORDER_BOOK_UPDATE_MESSAGE_TYPE = 6"
definition ORDER_STATUS_UPDATE_TYPE :: byte where "ORDER_STATUS_UPDATE_TYPE = 7"
definition POSITION_UPDATE_TYPE :: byte where "POSITION_UPDATE_TYPE = 8"

lemmas message_constants =
  LOGIN_MESSAGE_SIZE_def CANCEL_MESSAGE_SIZE_def INSERT_MESSAGE_SIZE_def
  CANCEL_MESSAGE_TYPE_def INSERT_MESSAGE_TYPE_def LOGIN_MESSAGE_TYPE_def
  ORDER_BOOK_UPDATE_MESSAGE_TYPE_def ORDER_STATUS_UPDATE_TYPE_def POSITION_UPDATE_TYPE_def

section \<open>Bytes of machine words\<close>

text \<open>The bytes of a 16-bit and of a 32-bit object in memory, lowest address first.\<close>

definition bytes16 :: "16 word \<Rightarrow> byte list" where
  "bytes16 w = [ucast w, ucast (drop_bit 8 w)]"

definition bytes32 :: "32 word \<Rightarrow> byte list" where
  "bytes32 w = [ucast w, ucast (drop_bit 8 w), ucast (drop_bit 16 w), ucast (drop_bit 24 w)]"

text \<open>Reading an object from its bytes; a list of another length is not an object.\<close>

fun word16 :: "byte list \<Rightarrow> 16 word" where
  "word16 [a, b] = ucast a OR push_bit 8 (ucast b)"
| "word16 _ = 0"

fun word32 :: "byte list \<Rightarrow> 32 word" where
  "word32 [a, b, c, d] =
     ucast a OR push_bit 8 (ucast b) OR push_bit 16 (ucast c) OR push_bit 24 (ucast d)"
| "word32 _ = 0"

lemma byte_bit_high [simp]: "8 \<le> n \<Longrightarrow> \<not> bit (b :: byte) n"
  using bit_imp_le_length [of b n] by auto

lemma length_bytes16 [simp]: "length (bytes16 w) = 2"
  by (simp add: bytes16_def)

lemma length_bytes32 [simp]: "length (bytes32 w) = 4"
  by (simp add: bytes32_def)

lemma word16_bytes16 [simp]: "word16 (bytes16 w) = w"
  by (rule bit_word_eqI) (auto simp: bytes16_def bit_simps)

lemma word32_bytes32 [simp]: "word32 (bytes32 w) = w"
proof (rule bit_word_eqI)
  fix n assume "n < LENGTH(32)"
  then show "bit (word32 (bytes32 w)) n = bit w n"
    by (cases "n < 8"; cases "n < 16"; cases "n < 24") (auto simp: bytes32_def bit_simps)
qed

lemma bytes16_word16: "bytes16 (word16 [a, b]) = [a, b]"
  by (auto simp: bytes16_def bit_simps intro!: bit_word_eqI)

lemma bytes32_word32: "bytes32 (word32 [a, b, c, d]) = [a, b, c, d]"
  by (auto simp: bytes32_def bit_simps intro!: bit_word_eqI)

lemma bytes32_inj [simp]: "bytes32 v = bytes32 w \<longleftrightarrow> v = w"
  by (metis word32_bytes32)

section \<open>Byte order (arpa/inet.h on a little-endian host)\<close>

definition htons :: "16 word \<Rightarrow> 16 word" where
  "htons w = word16 (rev (bytes16 w))"

definition htonl :: "32 word \<Rightarrow> 32 word" where
  "htonl w = word32 (rev (bytes32 w))"

definition ntohs :: "16 word \<Rightarrow> 16 word" where "ntohs = htons"
definition ntohl :: "32 word \<Rightarrow> 32 word" where "ntohl = htonl"

lemma bytes16_htons [simp]: "bytes16 (htons w) = rev (bytes16 w)"
  by (simp add: htons_def bytes16_def [of w] bytes16_word16 del: word16.simps)

lemma bytes32_htonl [simp]: "bytes32 (htonl w) = rev (bytes32 w)"
  by (simp add: htonl_def bytes32_def [of w] bytes32_word32 del: word32.simps)

lemma htonl_htonl [simp]: "htonl (htonl w) = w"
  by (metis bytes32_htonl bytes32_inj rev_rev_ident)

lemma ntohl_htonl [simp]: "ntohl (htonl w) = w"
  by (simp add: ntohl_def)

lemma htonl_zero [simp]: "htonl w = 0 \<longleftrightarrow> w = 0"
proof
  assume "htonl w = 0"
  then have "htonl (htonl w) = htonl 0" by simp
  then show "w = 0" by (simp add: htonl_def [of 0] bytes32_def)
qed (simp add: htonl_def bytes32_def)

lemma ntohl_zero [simp]: "ntohl w = 0 \<longleftrightarrow> w = 0"
  by (simp add: ntohl_def)

section \<open>The packed structures\<close>

text \<open>
  Each structure is a record of its fields, each integer field as the word in memory
  (so in network order until the code converts it), with its packed bytes.
\<close>

record Login =
  login_name :: "byte list"
  login_secret :: "byte list"

record OrderBookUpdate =
  book_instrument :: byte
  book_sequence_no :: "32 word"
  book_prices :: "32 word list"

record PositionUpdate =
  pos_future_position :: "32 word"
  pos_etf_position :: "32 word"

record OrderStatusUpdate =
  status_id :: "32 word"
  status_fill_volume :: "32 word"
  status_remaining_volume :: "32 word"
  status_fees :: "32 word"

record InsertOrder =
  insert_id :: "32 word"
  insert_side :: byte
  insert_price :: "32 word"
  insert_volume :: "32 word"
  insert_lifespan :: byte

record CancelOrder =
  cancel_id :: "32 word"

definition sizeof_Login :: nat where "sizeof_Login = 20 + 50"
definition sizeof_OrderBookUpdate :: nat where "sizeof_OrderBookUpdate = 1 + 4 + 20 * 4"
definition sizeof_PositionUpdate :: nat where "sizeof_PositionUpdate = 4 + 4"
definition sizeof_OrderStatusUpdate :: nat where "sizeof_OrderStatusUpdate = 4 + 4 + 4 + 4"
definition sizeof_InsertOrder :: nat where "sizeof_InsertOrder = 4 + 1 + 4 + 4 + 1"
definition sizeof_CancelOrder :: nat where "sizeof_CancelOrder = 4"

definition sizeof_Message :: nat where
  "sizeof_Message = 2 + 1 + Max {sizeof_Login, sizeof_InsertOrder, sizeof_CancelOrder,
     sizeof_PositionUpdate, sizeof_OrderBookUpdate, sizeof_OrderStatusUpdate}"

lemmas sizeof_defs =
  sizeof_Login_def sizeof_OrderBookUpdate_def sizeof_PositionUpdate_def
  sizeof_OrderStatusUpdate_def sizeof_InsertOrder_def sizeof_CancelOrder_def

lemma sizeof_Message_88 [simp]: "sizeof_Message = 88"
  by (simp add: sizeof_Message_def sizeof_defs)

text \<open>Stores: the bytes a structure occupies.\<close>

definition Login_bytes :: "Login \<Rightarrow> byte list" where
  "Login_bytes l = login_name l @ login_secret l"

definition InsertOrder_bytes :: "InsertOrder \<Rightarrow> byte list" where
  "InsertOrder_bytes o' = bytes32 (insert_id o') @ [insert_side o'] @ bytes32 (insert_price o')
     @ bytes32 (insert_volume o') @ [insert_lifespan o']"

definition CancelOrder_bytes :: "CancelOrder \<Rightarrow> byte list" where
  "CancelOrder_bytes c = bytes32 (cancel_id c)"

text \<open>Loads: the word at an offset of a buffer, and the structures read from one.\<close>

definition load32 :: "nat \<Rightarrow> byte list \<Rightarrow> 32 word" where
  "load32 off m = word32 (take 4 (drop off m))"

definition OrderBookUpdate_at :: "nat \<Rightarrow> byte list \<Rightarrow> OrderBookUpdate" where
  "OrderBookUpdate_at off m =
     \<lparr>book_instrument = m ! off, book_sequence_no = load32 (off + 1) m,
      book_prices = map (\<lambda>i. load32 (off + 5 + 4 * i) m) [0..<20]\<rparr>"

definition PositionUpdate_at :: "nat \<Rightarrow> byte list \<Rightarrow> PositionUpdate" where
  "PositionUpdate_at off m =
     \<lparr>pos_future_position = load32 off m, pos_etf_position = load32 (off + 4) m\<rparr>"

definition OrderStatusUpdate_at :: "nat \<Rightarrow> byte list \<Rightarrow> OrderStatusUpdate" where
  "OrderStatusUpdate_at off m =
     \<lparr>status_id = load32 off m, status_fill_volume = load32 (off + 4) m,
      status_remaining_volume = load32 (off + 8) m, status_fees = load32 (off + 12) m\<rparr>"

section \<open>Message objects\<close>

type_synonym message = "byte list"

text \<open>
  \<open>messages::Message{}\<close>. The language zeroes \<open>size\<close>, \<open>type\<close> and the first union
  member, \<open>login\<close>; the last 15 bytes, which only an order book has, stay indeterminate.
\<close>

definition Message_init :: message where
  "Message_init = replicate (2 + 1 + sizeof_Login) 0"

text \<open>A message whose determined bytes include those of \<open>Message{}\<close>.\<close>

definition message_ok :: "message \<Rightarrow> bool" where
  "message_ok m \<longleftrightarrow> 2 + 1 + sizeof_Login \<le> length m \<and> length m \<le> sizeof_Message"

definition msg_size :: "message \<Rightarrow> 16 word" where
  "msg_size m = word16 (take 2 m)"

definition msg_type :: "message \<Rightarrow> byte" where
  "msg_type m = m ! 2"

abbreviation body_offset :: nat where "body_offset \<equiv> 3"

definition set_msg_size :: "16 word \<Rightarrow> message \<Rightarrow> message" where
  "set_msg_size w m = write_at 0 (bytes16 w) m"

definition set_msg_type :: "byte \<Rightarrow> message \<Rightarrow> message" where
  "set_msg_type t m = write_at 2 [t] m"

definition set_msg_body :: "byte list \<Rightarrow> message \<Rightarrow> message" where
  "set_msg_body bs m = write_at body_offset bs m"

lemma length_Message_init [simp]: "length Message_init = 73"
  by (simp add: Message_init_def sizeof_defs)

lemma message_ok_iff: "message_ok m \<longleftrightarrow> 73 \<le> length m \<and> length m \<le> 88"
  by (simp add: message_ok_def sizeof_defs)

lemma message_ok_init [simp]: "message_ok Message_init"
  by (simp add: message_ok_iff)

lemma length_InsertOrder_bytes [simp]: "length (InsertOrder_bytes r) = sizeof_InsertOrder"
  by (simp add: InsertOrder_bytes_def sizeof_defs)

lemma length_CancelOrder_bytes [simp]: "length (CancelOrder_bytes r) = sizeof_CancelOrder"
  by (simp add: CancelOrder_bytes_def sizeof_defs)

text \<open>
  A message built from scratch: header and body are its first bytes, whatever was
  in the buffer.
\<close>

lemma take_built_message:
  assumes "73 \<le> length m" and "length bs \<le> 70"
  shows "take (3 + length bs) (set_msg_body bs (set_msg_type t (set_msg_size w m)))
    = bytes16 w @ [t] @ bs"
proof -
  have "take 3 (set_msg_type t (set_msg_size w m)) = bytes16 w @ [t]"
    using assms(1) take_write_at [of 2 "write_at 0 (bytes16 w) m" "[t]"]
      take_write_at [of 0 m "bytes16 w"]
    by (simp add: set_msg_type_def set_msg_size_def eval_nat_numeral)
  then show ?thesis
    using assms take_write_at [of 3 "set_msg_type t (set_msg_size w m)" bs]
    by (simp add: set_msg_body_def set_msg_type_def set_msg_size_def)
qed

end
