(* ===== verification/Wire.thy ===== *)
theory Wire
  imports Messages
begin

text \<open>
  The wire format of the commands the trader sends, stated independently of how the
  code builds them: a big-endian 16-bit size, a type byte, and the fields big-endian.
  \<open>decode_command\<close> is the receiving side. Nothing here is translated from the code:
  it is the specification that the code's messages are compared with.
\<close>

datatype command =
    Login_command "byte list" "byte list"
  | Insert_command int Side int int Lifespan
  | Cancel_command int

definition be16 :: "16 word \<Rightarrow> byte list" where
  "be16 w = [ucast (drop_bit 8 w), ucast w]"

definition be32 :: "32 word \<Rightarrow> byte list" where
  "be32 w = [ucast (drop_bit 24 w), ucast (drop_bit 16 w), ucast (drop_bit 8 w), ucast w]"

definition be_int :: "int \<Rightarrow> byte list" where
  "be_int i = be32 (word_of_int i)"

definition int_be :: "byte list \<Rightarrow> int" where
  "int_be bs = sint (word32 (rev bs))"

lemma rev_bytes16 [simp]: "rev (bytes16 w) = be16 w"
  by (simp add: bytes16_def be16_def)

lemma rev_bytes32 [simp]: "rev (bytes32 w) = be32 w"
  by (simp add: bytes32_def be32_def)

lemma rev_be32 [simp]: "rev (be32 w) = bytes32 w"
  by (simp add: bytes32_def be32_def)

lemma length_be32 [simp]: "length (be32 w) = 4"
  by (simp add: be32_def)

lemma length_be16 [simp]: "length (be16 w) = 2"
  by (simp add: be16_def)

lemma length_be_int [simp]: "length (be_int i) = 4"
  by (simp add: be_int_def)

lemma int_be_be_int [simp]: "in_int i \<Longrightarrow> int_be (be_int i) = i"
  by (simp add: int_be_def be_int_def)

text \<open>A field of fixed width, padded with zero bytes on the right.\<close>

definition pad_to :: "nat \<Rightarrow> byte list \<Rightarrow> byte list" where
  "pad_to n bs = bs @ replicate (n - length bs) 0"

lemma length_pad_to [simp]: "length bs \<le> n \<Longrightarrow> length (pad_to n bs) = n"
  by (simp add: pad_to_def)

lemma takeWhile_pad_to:
  "0 \<notin> set bs \<Longrightarrow> length bs \<le> n \<Longrightarrow> takeWhile (\<lambda>b. b \<noteq> 0) (pad_to n bs) = bs"
  unfolding pad_to_def by (subst takeWhile_append2) (auto simp: takeWhile_replicate)

fun encode_command :: "command \<Rightarrow> byte list" where
  "encode_command (Login_command name secret) = be16 73 @ [5] @ pad_to 20 name @ pad_to 50 secret"
| "encode_command (Insert_command i side price volume lifespan) =
     be16 17 @ [4] @ be_int i @ [word_of_int (Side_value side)] @ be_int price @ be_int volume
       @ [word_of_int (Lifespan_value lifespan)]"
| "encode_command (Cancel_command i) = be16 7 @ [2] @ be_int i"

definition decode_side :: "byte \<Rightarrow> Side option" where
  "decode_side b = (if b = 0 then Some SELL else if b = 1 then Some BUY else None)"

definition decode_lifespan :: "byte \<Rightarrow> Lifespan option" where
  "decode_lifespan b =
     (if b = 0 then Some FILL_AND_KILL else if b = 1 then Some GOOD_FOR_DAY else None)"

definition decode_insert :: "byte list \<Rightarrow> command option" where
  "decode_insert bs = (case (decode_side (bs ! 4), decode_lifespan (bs ! 13)) of
     (Some side, Some lifespan) \<Rightarrow> Some (Insert_command (int_be (take 4 bs)) side
        (int_be (take 4 (drop 5 bs))) (int_be (take 4 (drop 9 bs))) lifespan)
   | _ \<Rightarrow> None)"

definition decode_command :: "byte list \<Rightarrow> command option" where
  "decode_command bs =
     (if length bs = 7 \<and> take 3 bs = be16 7 @ [2] then Some (Cancel_command (int_be (drop 3 bs)))
      else if length bs = 17 \<and> take 3 bs = be16 17 @ [4] then decode_insert (drop 3 bs)
      else if length bs = 73 \<and> take 3 bs = be16 73 @ [5] then
        Some (Login_command (takeWhile (\<lambda>b. b \<noteq> 0) (take 20 (drop 3 bs)))
                            (takeWhile (\<lambda>b. b \<noteq> 0) (drop 23 bs)))
      else None)"

text \<open>Commands whose fields fit the format.\<close>

fun wire_ok :: "command \<Rightarrow> bool" where
  "wire_ok (Login_command name secret) \<longleftrightarrow>
     0 \<notin> set name \<and> 0 \<notin> set secret \<and> length name \<le> 20 \<and> length secret \<le> 50"
| "wire_ok (Insert_command i side price volume lifespan) \<longleftrightarrow> in_int i \<and> in_int price \<and> in_int volume"
| "wire_ok (Cancel_command i) \<longleftrightarrow> in_int i"

lemma decode_side_value [simp]: "decode_side (word_of_int (Side_value s)) = Some s"
  by (cases s) (simp_all add: decode_side_def)

lemma decode_lifespan_value [simp]: "decode_lifespan (word_of_int (Lifespan_value l)) = Some l"
  by (cases l) (simp_all add: decode_lifespan_def)

lemma decode_insert_encoded:
  assumes "in_int i" and "in_int p" and "in_int v"
  shows "decode_insert (be_int i @ [word_of_int (Side_value s)] @ be_int p @ be_int v
    @ [word_of_int (Lifespan_value l)]) = Some (Insert_command i s p v l)"
  using assms by (simp add: decode_insert_def nth_append)

lemma decode_encode_command [simp]:
  "wire_ok c \<Longrightarrow> decode_command (encode_command c) = Some c"
proof (induction c rule: encode_command.induct)
  case (1 name secret)
  then show ?case
    by (simp add: decode_command_def be16_def takeWhile_pad_to)
next
  case (2 i side price volume lifespan)
  then show ?case
    by (simp add: decode_command_def be16_def decode_insert_encoded [simplified])
next
  case (3 i)
  then show ?case
    by (simp add: decode_command_def be16_def)
qed

section \<open>Market events\<close>

text \<open>
  The messages of the exchange, as it sends them and as a message buffer is to be read.
  A book update has four groups of five slots, ask prices, ask volumes, bid prices and bid volumes; an
  empty slot is 0.
\<close>

datatype market_event =
    Book_event Instrument int "int list" "int list" "int list" "int list"
  | Status_event int int int int
  | Position_event int int
  | Unknown_event byte

definition encode_levels :: "int list \<Rightarrow> byte list" where
  "encode_levels ls = concat (map be_int (ls @ replicate (5 - length ls) 0))"

fun encode_event :: "market_event \<Rightarrow> byte list" where
  "encode_event (Book_event i n aps avs bps bvs) =
     be16 88 @ [6] @ [case i of FUTURE \<Rightarrow> 0 | ETF \<Rightarrow> 1] @ be_int n @
     encode_levels aps @ encode_levels avs @ encode_levels bps @ encode_levels bvs"
| "encode_event (Status_event i fill remaining fees) =
     be16 19 @ [7] @ be_int i @ be_int fill @ be_int remaining @ be_int fees"
| "encode_event (Position_event future etf) = be16 11 @ [8] @ be_int future @ be_int etf"
| "encode_event (Unknown_event t) = be16 3 @ [t]"

definition levels_ok :: "int list \<Rightarrow> bool" where
  "levels_ok ls \<longleftrightarrow> length ls \<le> 5 \<and> (\<forall>l \<in> set ls. l \<noteq> 0 \<and> in_int l)"

fun event_ok :: "market_event \<Rightarrow> bool" where
  "event_ok (Book_event i n aps avs bps bvs) \<longleftrightarrow>
     in_int n \<and> levels_ok aps \<and> levels_ok avs \<and> levels_ok bps \<and> levels_ok bvs"
| "event_ok (Status_event i fill remaining fees) \<longleftrightarrow>
     in_int i \<and> in_int fill \<and> in_int remaining \<and> in_int fees"
| "event_ok (Position_event future etf) \<longleftrightarrow> in_int future \<and> in_int etf"
| "event_ok (Unknown_event t) \<longleftrightarrow> t \<notin> {6, 7, 8}"

definition int_at :: "nat \<Rightarrow> byte list \<Rightarrow> int" where
  "int_at off m = int_be (take 4 (drop off m))"

definition levels_at :: "nat \<Rightarrow> byte list \<Rightarrow> int list" where
  "levels_at off m = filter (\<lambda>l. l \<noteq> 0) (map (\<lambda>k. int_at (off + 4 * k) m) [0..<5])"

definition event_of :: "byte list \<Rightarrow> market_event" where
  "event_of m =
     (if m ! 2 = 6 then Book_event (if m ! 3 = 0 then FUTURE else ETF) (int_at 4 m)
        (levels_at 8 m) (levels_at 28 m) (levels_at 48 m) (levels_at 68 m)
      else if m ! 2 = 7 then Status_event (int_at 3 m) (int_at 7 m) (int_at 11 m) (int_at 15 m)
      else if m ! 2 = 8 then Position_event (int_at 3 m) (int_at 7 m)
      else Unknown_event (m ! 2))"

lemma int_at_append: "off = length xs \<Longrightarrow> in_int i \<Longrightarrow> int_at off (xs @ be_int i @ ys) = i"
  by (simp add: int_at_def)

lemma int_at_skip: "length xs \<le> off \<Longrightarrow> int_at off (xs @ ys) = int_at (off - length xs) ys"
  by (simp add: int_at_def)

lemma int_at_hd [simp]: "in_int i \<Longrightarrow> int_at 0 (be_int i @ ys) = i"
  by (simp add: int_at_def)

lemma int_at_concat:
  "k < length ls \<Longrightarrow> \<forall>l \<in> set ls. in_int l \<Longrightarrow> int_at (4 * k) (concat (map be_int ls) @ ys) = ls ! k"
proof (induction ls arbitrary: k)
  case (Cons l ls)
  show ?case
  proof (cases k)
    case 0
    with Cons.prems show ?thesis by simp
  next
    case (Suc j)
    with Cons show ?thesis by (simp add: int_at_skip)
  qed
qed simp

lemma length_encode_levels [simp]: "length ls \<le> 5 \<Longrightarrow> length (encode_levels ls) = 20"
  by (simp add: encode_levels_def length_concat o_def sum_list_triv sum_list_replicate)

lemma levels_at_encoded:
  assumes "levels_ok ls"
  shows "levels_at 0 (encode_levels ls @ ys) = ls"
proof -
  let ?ps = "ls @ replicate (5 - length ls) 0"
  have len: "length ?ps = 5" and int: "\<forall>l \<in> set ?ps. in_int l"
    using assms by (auto simp: levels_ok_def in_int_def)
  have "map (\<lambda>k. int_at (0 + 4 * k) (encode_levels ls @ ys)) [0..<5] = map ((!) ?ps) [0..<length ?ps]"
    unfolding len encode_levels_def using int_at_concat [OF _ int] len by (intro map_cong) auto
  then have "levels_at 0 (encode_levels ls @ ys) = filter (\<lambda>l. l \<noteq> 0) ?ps"
    by (simp only: levels_at_def map_nth)
  also have "\<dots> = ls"
    using assms by (auto simp: levels_ok_def filter_id_conv)
  finally show ?thesis .
qed

lemma levels_at_skip:
  "length xs \<le> off \<Longrightarrow> levels_at off (xs @ ys) = levels_at (off - length xs) ys"
  by (simp add: levels_at_def int_at_skip)

lemma int_at_Cons: "0 < off \<Longrightarrow> int_at off (x # ys) = int_at (off - 1) ys"
  by (cases off) (simp_all add: int_at_def)

lemma levels_at_Cons: "0 < off \<Longrightarrow> levels_at off (x # ys) = levels_at (off - 1) ys"
  by (simp add: levels_at_def int_at_Cons)

lemmas at_skips = int_at_skip int_at_Cons levels_at_skip levels_at_Cons

lemma levels_ok_length: "levels_ok ls \<Longrightarrow> length (encode_levels ls) = 20"
  by (simp add: levels_ok_def)

lemma length_encode_event: "event_ok ev \<Longrightarrow> length (encode_event ev) \<le> 88"
  by (cases ev) (simp_all add: levels_ok_length)

text \<open>A buffer that starts with an encoded event is read as that event.\<close>

lemma event_of_encoded: "event_ok ev \<Longrightarrow> event_of (encode_event ev @ rest) = ev"
proof (induction ev rule: encode_event.induct)
  case (1 i n aps avs bps bvs)
  then show ?case
    by (cases i) (simp_all add: event_of_def levels_ok_length levels_at_encoded at_skips nth_append)
qed (simp_all add: event_of_def at_skips nth_append)

end
