(* ===== verification/Order_Entry.thy ===== *)
theory Order_Entry
  imports Wire
begin

text \<open>
  \<open>class MarketLink\<close> (market_link.h): its fields, the effects a run leaves behind, and the
  two operations through which a trade executor reaches the exchange,
  \<open>MarketLink::cancelOrder\<close> and \<open>MarketLink::insertOrder\<close>.

  The outside world sees a list of \<open>effect\<close>s, in order. The code never looks at what
  \<open>send\<close> returns, so a call of \<open>send\<close> is only its effect: the descriptor and the bytes.
\<close>

datatype effect =
    Send int "byte list"
  | Stdout string
  | Stderr string
  | Sys_setsockopt int
  | Sys_connect int string "16 word"
  | Sys_bind int string "16 word"
  | Sys_setfl int int

text \<open>
  Fields that the constructor leaves without a value are options; reading \<^const>\<open>None\<close> is
  undefined behaviour. There is one trader and one link in the program, so the pointer
  \<open>auto_trader_\<close> is modelled by whether it has been set.
\<close>

record market_link =
  ml_auto_trader :: bool
  ml_exec_host :: string
  ml_info_host :: string
  ml_exec_port :: int
  ml_info_port :: int
  ml_exec_sock :: "int option"
  ml_info_sock :: "int option"

definition MarketLink :: "string \<Rightarrow> int \<Rightarrow> string \<Rightarrow> int \<Rightarrow> market_link" where
  "MarketLink exec_host exec_port info_host info_port =
     \<lparr>ml_auto_trader = False, ml_exec_host = exec_host, ml_info_host = info_host,
      ml_exec_port = exec_port, ml_info_port = info_port, ml_exec_sock = None, ml_info_sock = None\<rparr>"

definition read_field :: "'a option \<Rightarrow> fault + 'a" where
  [prog_simps]: "read_field v = (case v of None \<Rightarrow> Inl Uninitialised_read | Some a \<Rightarrow> Inr a)"

definition emit :: "effect \<Rightarrow> (effect list, unit) prog" where
  [prog_simps]: "emit e = modify_p (\<lambda>tr. tr @ [e])"

text \<open>\<open>send(sock, &msg, n, 0)\<close>\<close>

definition send_p :: "int \<Rightarrow> message \<Rightarrow> nat \<Rightarrow> (effect list, unit) prog" where
  [prog_simps]: "send_p sock msg n = emit (Send sock (take n msg))"

definition cancelOrder :: "market_link \<Rightarrow> int \<Rightarrow> (effect list, unit) prog" where
  "cancelOrder ml order_id =
     (let msg = Message_init;
          msg = set_msg_size (htons (of_nat CANCEL_MESSAGE_SIZE)) msg;
          msg = set_msg_type CANCEL_MESSAGE_TYPE msg;
          msg = set_msg_body (CancelOrder_bytes \<lparr>cancel_id = htonl (word_of_int order_id)\<rparr>) msg
      in bind_p (lift_p (read_field (ml_exec_sock ml)))
           (\<lambda>sock. send_p sock msg CANCEL_MESSAGE_SIZE))"

definition insertOrder ::
  "market_link \<Rightarrow> int \<Rightarrow> Side \<Rightarrow> int \<Rightarrow> int \<Rightarrow> Lifespan \<Rightarrow> (effect list, unit) prog" where
  "insertOrder ml i side price volume lifespan =
     (let msg = Message_init;
          msg = set_msg_size (htons (of_nat INSERT_MESSAGE_SIZE)) msg;
          msg = set_msg_type INSERT_MESSAGE_TYPE msg;
          msg = set_msg_body (InsertOrder_bytes
            \<lparr>insert_id = htonl (word_of_int i), insert_side = word_of_int (Side_value side),
             insert_price = htonl (word_of_int price), insert_volume = htonl (word_of_int volume),
             insert_lifespan = word_of_int (Lifespan_value lifespan)\<rparr>) msg
      in bind_p (lift_p (read_field (ml_exec_sock ml)))
           (\<lambda>sock. send_p sock msg INSERT_MESSAGE_SIZE))"

section \<open>What is sent\<close>

lemma cancelOrder_sends:
  "ml_exec_sock ml = Some sock \<Longrightarrow>
     cancelOrder ml i tr = (Inr (), tr @ [Send sock (encode_command (Cancel_command i))])"
  using take_built_message [of Message_init "CancelOrder_bytes \<lparr>cancel_id = htonl (word_of_int i)\<rparr>"
      CANCEL_MESSAGE_TYPE "htons (of_nat CANCEL_MESSAGE_SIZE)"]
  by (simp add: cancelOrder_def prog_simps message_constants sizeof_defs be_int_def
      CancelOrder_bytes_def)

lemma insertOrder_sends:
  "ml_exec_sock ml = Some sock \<Longrightarrow>
     insertOrder ml i side price volume lifespan tr =
       (Inr (), tr @ [Send sock (encode_command (Insert_command i side price volume lifespan))])"
  using take_built_message [of Message_init "InsertOrder_bytes
            \<lparr>insert_id = htonl (word_of_int i), insert_side = word_of_int (Side_value side),
             insert_price = htonl (word_of_int price), insert_volume = htonl (word_of_int volume),
             insert_lifespan = word_of_int (Lifespan_value lifespan)\<rparr>"
      INSERT_MESSAGE_TYPE "htons (of_nat INSERT_MESSAGE_SIZE)"]
  by (simp add: insertOrder_def prog_simps message_constants sizeof_defs be_int_def
      InsertOrder_bytes_def)

lemma cancelOrder_unconnected:
  "ml_exec_sock ml = None \<Longrightarrow> cancelOrder ml i tr = (Inl Uninitialised_read, tr)"
  by (simp add: cancelOrder_def prog_simps)

lemma insertOrder_unconnected:
  "ml_exec_sock ml = None \<Longrightarrow>
     insertOrder ml i side price volume lifespan tr = (Inl Uninitialised_read, tr)"
  by (simp add: insertOrder_def prog_simps)

section \<open>The commands in a trace\<close>

text \<open>What a receiver at the other end of \<open>sock\<close> decodes from the effects of a run.\<close>

fun sent_commands :: "effect list \<Rightarrow> command list" where
  "sent_commands [] = []"
| "sent_commands (Send sock bs # es) =
     (case decode_command bs of None \<Rightarrow> [] | Some c \<Rightarrow> [c]) @ sent_commands es"
| "sent_commands (_ # es) = sent_commands es"

lemma sent_commands_append [simp]:
  "sent_commands (xs @ ys) = sent_commands xs @ sent_commands ys"
  by (induction xs rule: sent_commands.induct) simp_all

section \<open>Properties\<close>

text \<open>
  Claim C13. On a connected link \<open>insertOrder\<close> succeeds and sends one message, which the
  receiver decodes, by the big-endian wire format, to exactly the order passed in.
\<close>

theorem insertOrder_decodes:
  assumes "ml_exec_sock ml = Some sock" and "in_int i" and "in_int price" and "in_int volume"
  shows "\<exists>bs. insertOrder ml i side price volume lifespan tr = (Inr (), tr @ [Send sock bs]) \<and>
    length bs = 17 \<and> decode_command bs = Some (Insert_command i side price volume lifespan)"
proof -
  let ?c = "Insert_command i side price volume lifespan"
  have "length (encode_command ?c) = 17" by simp
  moreover have "decode_command (encode_command ?c) = Some ?c"
    using assms by (intro decode_encode_command) simp
  ultimately show ?thesis using insertOrder_sends [OF assms(1)] by blast
qed

theorem insertOrder_decodes_witness:
  "\<exists>bs. insertOrder (MarketLink [] 0 [] 0\<lparr>ml_exec_sock := Some 3\<rparr>) 2 BUY (- 100) 10 GOOD_FOR_DAY []
      = (Inr (), [] @ [Send 3 bs]) \<and> length bs = 17 \<and>
    decode_command bs = Some (Insert_command 2 BUY (- 100) 10 GOOD_FOR_DAY)"
  by (rule insertOrder_decodes) (simp_all add: MarketLink_def in_int_def)

text \<open>
  Claim C14. On a connected link \<open>cancelOrder\<close> succeeds and sends one message, which the
  receiver decodes to the cancellation of exactly that order id.
\<close>

theorem cancelOrder_decodes:
  assumes "ml_exec_sock ml = Some sock" and "in_int i"
  shows "\<exists>bs. cancelOrder ml i tr = (Inr (), tr @ [Send sock bs]) \<and> length bs = 7 \<and>
    decode_command bs = Some (Cancel_command i)"
proof -
  have "length (encode_command (Cancel_command i)) = 7" by simp
  moreover have "decode_command (encode_command (Cancel_command i)) = Some (Cancel_command i)"
    using assms by (intro decode_encode_command) simp
  ultimately show ?thesis using cancelOrder_sends [OF assms(1)] by blast
qed

theorem cancelOrder_decodes_witness:
  "\<exists>bs. cancelOrder (MarketLink [] 0 [] 0\<lparr>ml_exec_sock := Some 3\<rparr>) 70000 []
      = (Inr (), [] @ [Send 3 bs]) \<and> length bs = 7 \<and>
    decode_command bs = Some (Cancel_command 70000)"
  by (rule cancelOrder_decodes) (simp_all add: MarketLink_def in_int_def)

end
