(* ===== verification/Trade_Executor.thy ===== *)
theory Trade_Executor
  imports Order_Entry
begin

text \<open>
  \<open>class TradeExecutor\<close> (trade_executor.h): the virtual functions as a record of
  operations on the executor's state \<open>'e\<close> (a virtual call is a call of the record's
  field), the two default bodies, and the contract the trader relies on.

  The contract is stated over the commands an executor has sent so far: the order
  book of the trader at the exchange is a function of them.
\<close>

record 'e trade_executor =
  ex_executeTrades :: "market_link \<Rightarrow> int \<Rightarrow> int \<Rightarrow> ('e \<times> effect list, unit) prog"
  ex_onOrderBookUpdate :: "Instrument \<Rightarrow> int \<Rightarrow> int list \<Rightarrow> int list \<Rightarrow> int list \<Rightarrow> int list \<Rightarrow> 'e \<Rightarrow> 'e"
  ex_onPositionUpdate :: "int \<Rightarrow> int \<Rightarrow> 'e \<Rightarrow> 'e"

definition TradeExecutor_onOrderBookUpdate ::
  "Instrument \<Rightarrow> int \<Rightarrow> int list \<Rightarrow> int list \<Rightarrow> int list \<Rightarrow> int list \<Rightarrow> 'e \<Rightarrow> 'e" where
  "TradeExecutor_onOrderBookUpdate instrument sequence_no ask_prices ask_volumes bid_prices
     bid_volumes e = e"

definition TradeExecutor_onPositionUpdate :: "int \<Rightarrow> int \<Rightarrow> 'e \<Rightarrow> 'e" where
  "TradeExecutor_onPositionUpdate future_position etf_position e = e"

section \<open>The orders resting at the exchange, by the commands sent\<close>

text \<open>An inserted order rests until it is cancelled (fills are the exchange's matter).\<close>

fun apply_command :: "(int \<rightharpoonup> Side \<times> int \<times> int) \<Rightarrow> command \<Rightarrow> (int \<rightharpoonup> Side \<times> int \<times> int)" where
  "apply_command m (Insert_command i side price volume lifespan) = m(i \<mapsto> (side, price, volume))"
| "apply_command m (Cancel_command i) = m(i := None)"
| "apply_command m (Login_command _ _) = m"

definition resting :: "command list \<Rightarrow> (int \<rightharpoonup> Side \<times> int \<times> int)" where
  "resting cs = foldl apply_command Map.empty cs"

lemma resting_Nil [simp]: "resting [] = Map.empty"
  by (simp add: resting_def)

lemma resting_append: "resting (cs @ ds) = foldl apply_command (resting cs) ds"
  by (simp add: resting_def)

text \<open>
  An exchange accepts a sequence of commands when every insert uses an id that is not
  resting and every cancel names a resting order.
\<close>

fun accepted :: "(int \<rightharpoonup> Side \<times> int \<times> int) \<Rightarrow> command list \<Rightarrow> bool" where
  "accepted m [] \<longleftrightarrow> True"
| "accepted m (c # cs) \<longleftrightarrow>
     (case c of Insert_command i _ _ _ _ \<Rightarrow> m i = None | Cancel_command i \<Rightarrow> m i \<noteq> None
       | Login_command _ _ \<Rightarrow> True) \<and> accepted (apply_command m c) cs"

lemma accepted_append:
  "accepted m (cs @ ds) \<longleftrightarrow> accepted m cs \<and> accepted (foldl apply_command m cs) ds"
  by (induction cs arbitrary: m) auto

lemma accepted_resting:
  "accepted Map.empty (cs @ ds) \<longleftrightarrow> accepted Map.empty cs \<and> accepted (resting cs) ds"
  by (simp add: accepted_append resting_def)

fun insert_ids :: "command list \<Rightarrow> int list" where
  "insert_ids [] = []"
| "insert_ids (Insert_command i _ _ _ _ # cs) = i # insert_ids cs"
| "insert_ids (_ # cs) = insert_ids cs"

lemma insert_ids_append [simp]: "insert_ids (xs @ ys) = insert_ids xs @ insert_ids ys"
  by (induction xs rule: insert_ids.induct) simp_all

text \<open>The effects of sending commands on a socket.\<close>

definition sends :: "int \<Rightarrow> command list \<Rightarrow> effect list" where
  "sends sock cs = map (\<lambda>c. Send sock (encode_command c)) cs"

lemma sends_simps [simp]:
  "sends sock [] = []"
  "sends sock (c # cs) = Send sock (encode_command c) # sends sock cs"
  "sends sock (cs @ ds) = sends sock cs @ sends sock ds"
  by (simp_all add: sends_def)

lemma sent_commands_sends [simp]:
  "list_all wire_ok cs \<Longrightarrow> sent_commands (sends sock cs) = cs"
  by (induction cs) simp_all

text \<open>
  A program step that only sends well-formed commands on \<open>sock\<close> and keeps an invariant
  of the state and of the commands sent, whether it succeeds or overflows the id counter.
\<close>

definition sends_ok :: "('e \<Rightarrow> command list \<Rightarrow> bool) \<Rightarrow> int \<Rightarrow> ('e \<times> effect list, unit) prog \<Rightarrow> bool" where
  "sends_ok I sock m \<longleftrightarrow> (\<forall>e cs tr r e' tr'. I e cs \<longrightarrow> m (e, tr) = (r, e', tr') \<longrightarrow>
     (\<exists>ds. tr' = tr @ sends sock ds \<and> list_all wire_ok ds \<and> I e' (cs @ ds) \<and>
       (r = Inr () \<or> r = Inl Signed_overflow)))"

lemma sends_okD:
  "sends_ok I sock m \<Longrightarrow> I e cs \<Longrightarrow> m (e, tr) = (r, e', tr') \<Longrightarrow>
     \<exists>ds. tr' = tr @ sends sock ds \<and> list_all wire_ok ds \<and> I e' (cs @ ds) \<and>
       (r = Inr () \<or> r = Inl Signed_overflow)"
  unfolding sends_ok_def by blast

lemma sends_ok_then:
  assumes m: "sends_ok I sock m" and n: "sends_ok I sock n"
  shows "sends_ok I sock (then_p m n)"
  unfolding sends_ok_def
proof (intro allI impI)
  fix e cs tr r e' tr'
  assume inv: "I e cs" and run: "then_p m n (e, tr) = (r, e', tr')"
  obtain r1 e1 tr1 where m1: "m (e, tr) = (r1, e1, tr1)" by (metis prod.exhaust)
  then obtain ds where ds: "tr1 = tr @ sends sock ds" "list_all wire_ok ds" "I e1 (cs @ ds)"
    "r1 = Inr () \<or> r1 = Inl Signed_overflow"
    using sends_okD [OF m inv] by blast
  show "\<exists>ds. tr' = tr @ sends sock ds \<and> list_all wire_ok ds \<and> I e' (cs @ ds) \<and>
       (r = Inr () \<or> r = Inl Signed_overflow)"
  proof (cases "r1 = Inr ()")
    case True
    with run m1 have "n (e1, tr1) = (r, e', tr')" by (simp add: prog_simps)
    then obtain ds' where "tr' = tr1 @ sends sock ds'" "list_all wire_ok ds'"
      "I e' ((cs @ ds) @ ds')" "r = Inr () \<or> r = Inl Signed_overflow"
      using sends_okD [OF n ds(3)] by blast
    with ds show ?thesis by (intro exI [of _ "ds @ ds'"]) simp
  next
    case False
    with ds run m1 show ?thesis by (intro exI [of _ ds]) (auto simp: prog_simps)
  qed
qed

section \<open>The contract of an executor\<close>

text \<open>
  \<open>inv e cs\<close> relates the executor's state to all commands sent so far. Trading, on a
  connected link, only sends well-formed commands, in the order the effects show, and
  keeps the invariant, also when it fails; the only failure is an exhausted id counter.
\<close>

locale executor_contract =
  fixes ops :: "'e trade_executor"
    and inv :: "'e \<Rightarrow> command list \<Rightarrow> bool"
  assumes execute_contract:
    "ml_exec_sock ml = Some sock \<Longrightarrow> in_int bid \<Longrightarrow> in_int ask \<Longrightarrow>
     sends_ok inv sock (ex_executeTrades ops ml bid ask)"
    and position_contract:
    "inv e cs \<Longrightarrow> in_int future \<Longrightarrow> in_int etf \<Longrightarrow> inv (ex_onPositionUpdate ops future etf e) cs"
begin

text \<open>What one call sends, seen from the receiver.\<close>

lemma execute_sent:
  assumes "inv e cs" and "ml_exec_sock ml = Some sock" and "in_int bid" and "in_int ask"
    and "ex_executeTrades ops ml bid ask (e, tr) = (r, e', tr')"
    and "sent_commands tr = cs"
  shows "inv e' (sent_commands tr')"
proof -
  obtain ds where "tr' = tr @ sends sock ds" "list_all wire_ok ds" "inv e' (cs @ ds)"
    using sends_okD [OF execute_contract [OF assms(2-4)] assms(1,5)] by blast
  with assms(6) show ?thesis by simp
qed

end

end
