(* ===== verification/Simple_Executor.thy ===== *)
theory Simple_Executor
  imports Trade_Executor
begin

text \<open>
  \<open>class SimpleExecutor\<close> (simple_executor.h, simple_executor.cpp): one bid and one ask,
  replaced when the wanted price moves, with a guard on the reported position.
\<close>

record simple_executor =
  bid_id :: int
  ask_id :: int
  bid_price :: int
  ask_price :: int
  order_id :: int
  position :: int

text \<open>
  \<open>SimpleExecutor()\<close> value-initialises the object: the implicit constructor is not
  user-provided, so the members are zeroed before \<open>order_id_\<close> gets its initialiser.
\<close>

definition SimpleExecutor :: simple_executor where
  "SimpleExecutor = \<lparr>bid_id = 0, ask_id = 0, bid_price = 0, ask_price = 0, order_id = 1, position = 0\<rparr>"

section \<open>executeTrades\<close>

text \<open>\<open>++order_id_\<close>\<close>

definition next_order_id :: "(simple_executor, int) prog" where
  "next_order_id = bind_p (gets_p order_id) (\<lambda>n. bind_p (lift_p (check_int (n + 1)))
     (\<lambda>i. then_p (modify_p (\<lambda>e. e\<lparr>order_id := i\<rparr>)) (return_p i)))"

text \<open>The four conditional blocks of the function body, in their order.\<close>

definition cancel_stale_bid :: "market_link \<Rightarrow> int \<Rightarrow> (simple_executor \<times> effect list, unit) prog" where
  "cancel_stale_bid ml price = bind_p (gets_p fst) (\<lambda>e.
     when_p (bid_id e \<noteq> 0 \<and> price \<noteq> bid_price e)
       (then_p (on_snd (cancelOrder ml (bid_id e)))
               (on_fst (modify_p (\<lambda>e. e\<lparr>bid_id := 0\<rparr>)))))"

definition cancel_stale_ask :: "market_link \<Rightarrow> int \<Rightarrow> (simple_executor \<times> effect list, unit) prog" where
  "cancel_stale_ask ml price = bind_p (gets_p fst) (\<lambda>e.
     when_p (ask_id e \<noteq> 0 \<and> price \<noteq> ask_price e)
       (then_p (on_snd (cancelOrder ml (ask_id e)))
               (on_fst (modify_p (\<lambda>e. e\<lparr>ask_id := 0\<rparr>)))))"

definition insert_bid :: "market_link \<Rightarrow> int \<Rightarrow> (simple_executor \<times> effect list, unit) prog" where
  "insert_bid ml price = bind_p (gets_p fst) (\<lambda>e.
     when_p (bid_id e = 0 \<and> position e < 80)
       (bind_p (on_fst next_order_id) (\<lambda>i.
          then_p (on_fst (modify_p (\<lambda>e. e\<lparr>bid_id := i, bid_price := price\<rparr>)))
                 (on_snd (insertOrder ml i BUY price 10 GOOD_FOR_DAY)))))"

definition insert_ask :: "market_link \<Rightarrow> int \<Rightarrow> (simple_executor \<times> effect list, unit) prog" where
  "insert_ask ml price = bind_p (gets_p fst) (\<lambda>e.
     when_p (ask_id e = 0 \<and> - 80 < position e)
       (bind_p (on_fst next_order_id) (\<lambda>i.
          then_p (on_fst (modify_p (\<lambda>e. e\<lparr>ask_id := i, ask_price := price\<rparr>)))
                 (on_snd (insertOrder ml i SELL price 10 GOOD_FOR_DAY)))))"

definition SimpleExecutor_executeTrades ::
  "market_link \<Rightarrow> int \<Rightarrow> int \<Rightarrow> (simple_executor \<times> effect list, unit) prog" where
  "SimpleExecutor_executeTrades ml bid ask =
     then_p (cancel_stale_bid ml bid) (then_p (cancel_stale_ask ml ask)
       (then_p (insert_bid ml bid) (insert_ask ml ask)))"

definition SimpleExecutor_onPositionUpdate :: "int \<Rightarrow> int \<Rightarrow> simple_executor \<Rightarrow> simple_executor" where
  "SimpleExecutor_onPositionUpdate future_position etf_position e = e\<lparr>position := etf_position\<rparr>"

text \<open>The class overrides two of the three virtual functions.\<close>

definition SimpleExecutor_ops :: "simple_executor trade_executor" where
  "SimpleExecutor_ops = \<lparr>ex_executeTrades = SimpleExecutor_executeTrades,
     ex_onOrderBookUpdate = TradeExecutor_onOrderBookUpdate,
     ex_onPositionUpdate = SimpleExecutor_onPositionUpdate\<rparr>"

section \<open>Specification: quotes\<close>

text \<open>
  Abstractly the executor holds at most one quote per side (an id and a price), the
  last id used and the reported position. A requote drops quotes at other prices and
  fills the free sides that the position allows.
\<close>

record quotes =
  q_bid :: "(int \<times> int) option"
  q_ask :: "(int \<times> int) option"
  q_last :: int
  q_pos :: int

definition quotes_of :: "simple_executor \<Rightarrow> quotes" where
  "quotes_of e = \<lparr>q_bid = (if bid_id e = 0 then None else Some (bid_id e, bid_price e)),
     q_ask = (if ask_id e = 0 then None else Some (ask_id e, ask_price e)),
     q_last = order_id e, q_pos = position e\<rparr>"

definition drop_stale :: "int \<Rightarrow> (int \<times> int) option \<Rightarrow> command list \<times> (int \<times> int) option" where
  "drop_stale price q = (case q of None \<Rightarrow> ([], None)
     | Some (i, p) \<Rightarrow> if p = price then ([], q) else ([Cancel_command i], None))"

definition fill_side :: "Side \<Rightarrow> bool \<Rightarrow> int \<Rightarrow> int \<times> (int \<times> int) option \<Rightarrow>
    command list \<times> int \<times> (int \<times> int) option" where
  "fill_side side allowed price = (\<lambda>(n, q).
     if q = None \<and> allowed
     then ([Insert_command (n + 1) side price 10 GOOD_FOR_DAY], n + 1, Some (n + 1, price))
     else ([], n, q))"

definition requote :: "int \<Rightarrow> int \<Rightarrow> quotes \<Rightarrow> command list \<times> quotes" where
  "requote bid ask q =
     (let (c1, b1) = drop_stale bid (q_bid q);
          (c2, a1) = drop_stale ask (q_ask q);
          (c3, n1, b2) = fill_side BUY (q_pos q < 80) bid (q_last q, b1);
          (c4, n2, a2) = fill_side SELL (- 80 < q_pos q) ask (n1, a1)
      in (c1 @ c2 @ c3 @ c4, q\<lparr>q_bid := b2, q_ask := a2, q_last := n2\<rparr>))"

section \<open>What each block does\<close>

lemma cancel_stale_bid_run:
  "ml_exec_sock ml = Some sock \<Longrightarrow> cancel_stale_bid ml price (e, tr) =
     (if bid_id e \<noteq> 0 \<and> price \<noteq> bid_price e
      then (Inr (), e\<lparr>bid_id := 0\<rparr>, tr @ sends sock [Cancel_command (bid_id e)])
      else (Inr (), e, tr))"
  by (simp add: cancel_stale_bid_def prog_simps cancelOrder_sends)

lemma cancel_stale_ask_run:
  "ml_exec_sock ml = Some sock \<Longrightarrow> cancel_stale_ask ml price (e, tr) =
     (if ask_id e \<noteq> 0 \<and> price \<noteq> ask_price e
      then (Inr (), e\<lparr>ask_id := 0\<rparr>, tr @ sends sock [Cancel_command (ask_id e)])
      else (Inr (), e, tr))"
  by (simp add: cancel_stale_ask_def prog_simps cancelOrder_sends)

lemma insert_bid_run:
  "ml_exec_sock ml = Some sock \<Longrightarrow> insert_bid ml price (e, tr) =
     (if bid_id e = 0 \<and> position e < 80
      then if in_int (order_id e + 1)
        then (Inr (), e\<lparr>order_id := order_id e + 1, bid_id := order_id e + 1, bid_price := price\<rparr>,
              tr @ sends sock [Insert_command (order_id e + 1) BUY price 10 GOOD_FOR_DAY])
        else (Inl Signed_overflow, e, tr)
      else (Inr (), e, tr))"
  by (simp add: insert_bid_def next_order_id_def prog_simps insertOrder_sends check_int_def)

lemma insert_ask_run:
  "ml_exec_sock ml = Some sock \<Longrightarrow> insert_ask ml price (e, tr) =
     (if ask_id e = 0 \<and> - 80 < position e
      then if in_int (order_id e + 1)
        then (Inr (), e\<lparr>order_id := order_id e + 1, ask_id := order_id e + 1, ask_price := price\<rparr>,
              tr @ sends sock [Insert_command (order_id e + 1) SELL price 10 GOOD_FOR_DAY])
        else (Inl Signed_overflow, e, tr)
      else (Inr (), e, tr))"
  by (simp add: insert_ask_def next_order_id_def prog_simps insertOrder_sends check_int_def)

lemmas block_runs = cancel_stale_bid_run cancel_stale_ask_run insert_bid_run insert_ask_run

section \<open>The invariant\<close>

text \<open>
  The ids are fresh and distinct, and what rests at the exchange is exactly the quotes
  the state records.
\<close>

definition own_orders :: "simple_executor \<Rightarrow> (int \<rightharpoonup> Side \<times> int \<times> int)" where
  "own_orders e = (\<lambda>i. if i = 0 then None
     else if i = bid_id e then Some (BUY, bid_price e, 10)
     else if i = ask_id e then Some (SELL, ask_price e, 10) else None)"

definition ids_ok :: "simple_executor \<Rightarrow> bool" where
  "ids_ok e \<longleftrightarrow> 1 \<le> order_id e \<and> in_int (order_id e) \<and>
     (bid_id e = 0 \<or> 1 < bid_id e \<and> bid_id e \<le> order_id e) \<and>
     (ask_id e = 0 \<or> 1 < ask_id e \<and> ask_id e \<le> order_id e) \<and>
     (bid_id e = ask_id e \<longrightarrow> bid_id e = 0)"

definition fresh_ids :: "int \<Rightarrow> command list \<Rightarrow> bool" where
  "fresh_ids n cs \<longleftrightarrow> sorted_wrt (<) (insert_ids cs) \<and> (\<forall>i \<in> set (insert_ids cs). 1 < i \<and> i \<le> n)"

definition executor_inv :: "simple_executor \<Rightarrow> command list \<Rightarrow> bool" where
  "executor_inv e cs \<longleftrightarrow> ids_ok e \<and> in_int (position e) \<and> fresh_ids (order_id e) cs \<and>
     accepted Map.empty cs \<and> resting cs = own_orders e"

lemma executor_inv_init: "executor_inv SimpleExecutor []"
  by (auto simp: executor_inv_def ids_ok_def SimpleExecutor_def in_int_def fresh_ids_def
      own_orders_def)

lemma fresh_ids_cancel [simp]: "fresh_ids n (cs @ [Cancel_command i]) = fresh_ids n cs"
  by (simp add: fresh_ids_def)

lemma fresh_ids_insert:
  "fresh_ids n cs \<Longrightarrow> 1 \<le> n \<Longrightarrow> fresh_ids (n + 1) (cs @ [Insert_command (n + 1) s p v l])"
  by (force simp: fresh_ids_def sorted_wrt_append)

lemma in_int_mono: "in_int n \<Longrightarrow> 0 \<le> i \<Longrightarrow> i \<le> n \<Longrightarrow> in_int i"
  by (simp add: in_int_def)

lemma cancel_stale_bid_ok:
  assumes "ml_exec_sock ml = Some sock"
  shows "sends_ok executor_inv sock (cancel_stale_bid ml price)"
  unfolding sends_ok_def
proof (intro allI impI)
  fix e cs tr r e' tr'
  assume inv: "executor_inv e cs" and run: "cancel_stale_bid ml price (e, tr) = (r, e', tr')"
  show "\<exists>ds. tr' = tr @ sends sock ds \<and> list_all wire_ok ds \<and> executor_inv e' (cs @ ds) \<and>
      (r = Inr () \<or> r = Inl Signed_overflow)"
  proof (cases "bid_id e \<noteq> 0 \<and> price \<noteq> bid_price e")
    case True
    have "own_orders (e\<lparr>bid_id := 0\<rparr>) = (own_orders e)(bid_id e := None)"
      using inv True by (auto simp: own_orders_def executor_inv_def ids_ok_def)
    with inv True run assms show ?thesis
      by (intro exI [of _ "[Cancel_command (bid_id e)]"])
        (auto simp: block_runs executor_inv_def ids_ok_def resting_append accepted_resting own_orders_def
          elim: in_int_mono)
  next
    case False
    with inv run assms show ?thesis by (intro exI [of _ "[]"]) (auto simp: block_runs)
  qed
qed

lemma cancel_stale_ask_ok:
  assumes "ml_exec_sock ml = Some sock"
  shows "sends_ok executor_inv sock (cancel_stale_ask ml price)"
  unfolding sends_ok_def
proof (intro allI impI)
  fix e cs tr r e' tr'
  assume inv: "executor_inv e cs" and run: "cancel_stale_ask ml price (e, tr) = (r, e', tr')"
  show "\<exists>ds. tr' = tr @ sends sock ds \<and> list_all wire_ok ds \<and> executor_inv e' (cs @ ds) \<and>
      (r = Inr () \<or> r = Inl Signed_overflow)"
  proof (cases "ask_id e \<noteq> 0 \<and> price \<noteq> ask_price e")
    case True
    have "own_orders (e\<lparr>ask_id := 0\<rparr>) = (own_orders e)(ask_id e := None)"
      using inv True by (auto simp: own_orders_def executor_inv_def ids_ok_def)
    with inv True run assms show ?thesis
      by (intro exI [of _ "[Cancel_command (ask_id e)]"])
        (auto simp: block_runs executor_inv_def ids_ok_def resting_append accepted_resting own_orders_def
          elim: in_int_mono)
  next
    case False
    with inv run assms show ?thesis by (intro exI [of _ "[]"]) (auto simp: block_runs)
  qed
qed

lemma own_orders_fresh: "ids_ok e \<Longrightarrow> own_orders e (order_id e + 1) = None"
  by (auto simp: own_orders_def ids_ok_def)

text \<open>Inserting on a free side: fresh id, and the new order joins the resting ones.\<close>

lemma executor_inv_insert_bid:
  assumes inv: "executor_inv e cs" and "bid_id e = 0" and "in_int (order_id e + 1)"
  shows "executor_inv (e\<lparr>order_id := order_id e + 1, bid_id := order_id e + 1, bid_price := price\<rparr>)
    (cs @ [Insert_command (order_id e + 1) BUY price 10 GOOD_FOR_DAY])"
proof -
  let ?e = "e\<lparr>order_id := order_id e + 1, bid_id := order_id e + 1, bid_price := price\<rparr>"
  have "own_orders ?e = (own_orders e)(order_id e + 1 \<mapsto> (BUY, price, 10))"
    using assms by (auto simp: own_orders_def executor_inv_def ids_ok_def)
  moreover have "own_orders e (order_id e + 1) = None"
    using inv by (simp add: executor_inv_def own_orders_fresh)
  ultimately show ?thesis using assms
    by (auto simp: executor_inv_def ids_ok_def resting_append accepted_resting intro: fresh_ids_insert)
qed

lemma executor_inv_insert_ask:
  assumes inv: "executor_inv e cs" and "ask_id e = 0" and "in_int (order_id e + 1)"
  shows "executor_inv (e\<lparr>order_id := order_id e + 1, ask_id := order_id e + 1, ask_price := price\<rparr>)
    (cs @ [Insert_command (order_id e + 1) SELL price 10 GOOD_FOR_DAY])"
proof -
  let ?e = "e\<lparr>order_id := order_id e + 1, ask_id := order_id e + 1, ask_price := price\<rparr>"
  have "own_orders ?e = (own_orders e)(order_id e + 1 \<mapsto> (SELL, price, 10))"
    using assms by (auto simp: own_orders_def executor_inv_def ids_ok_def)
  moreover have "own_orders e (order_id e + 1) = None"
    using inv by (simp add: executor_inv_def own_orders_fresh)
  ultimately show ?thesis using assms
    by (auto simp: executor_inv_def ids_ok_def resting_append accepted_resting intro: fresh_ids_insert)
qed

lemma insert_bid_ok:
  assumes "ml_exec_sock ml = Some sock" and "in_int price"
  shows "sends_ok executor_inv sock (insert_bid ml price)"
  unfolding sends_ok_def
proof (intro allI impI)
  fix e cs tr r e' tr'
  assume inv: "executor_inv e cs" and run: "insert_bid ml price (e, tr) = (r, e', tr')"
  show "\<exists>ds. tr' = tr @ sends sock ds \<and> list_all wire_ok ds \<and> executor_inv e' (cs @ ds) \<and>
      (r = Inr () \<or> r = Inl Signed_overflow)"
  proof (cases "bid_id e = 0 \<and> position e < 80 \<and> in_int (order_id e + 1)")
    case True
    with run assms executor_inv_insert_bid [OF inv] show ?thesis
      by (intro exI [of _ "[Insert_command (order_id e + 1) BUY price 10 GOOD_FOR_DAY]"])
        (auto simp: block_runs in_int_def)
  next
    case False
    with inv run assms show ?thesis
      by (intro exI [of _ "[]"]) (auto simp: block_runs split: if_splits)
  qed
qed

lemma insert_ask_ok:
  assumes "ml_exec_sock ml = Some sock" and "in_int price"
  shows "sends_ok executor_inv sock (insert_ask ml price)"
  unfolding sends_ok_def
proof (intro allI impI)
  fix e cs tr r e' tr'
  assume inv: "executor_inv e cs" and run: "insert_ask ml price (e, tr) = (r, e', tr')"
  show "\<exists>ds. tr' = tr @ sends sock ds \<and> list_all wire_ok ds \<and> executor_inv e' (cs @ ds) \<and>
      (r = Inr () \<or> r = Inl Signed_overflow)"
  proof (cases "ask_id e = 0 \<and> - 80 < position e \<and> in_int (order_id e + 1)")
    case True
    with run assms executor_inv_insert_ask [OF inv] show ?thesis
      by (intro exI [of _ "[Insert_command (order_id e + 1) SELL price 10 GOOD_FOR_DAY]"])
        (auto simp: block_runs in_int_def)
  next
    case False
    with inv run assms show ?thesis
      by (intro exI [of _ "[]"]) (auto simp: block_runs split: if_splits)
  qed
qed

lemma executor_inv_position:
  "executor_inv e cs \<Longrightarrow> in_int etf \<Longrightarrow> executor_inv (SimpleExecutor_onPositionUpdate future etf e) cs"
  by (auto simp: executor_inv_def SimpleExecutor_onPositionUpdate_def ids_ok_def own_orders_def fun_eq_iff)

interpretation simple: executor_contract SimpleExecutor_ops executor_inv
  by unfold_locales
    (simp_all add: SimpleExecutor_ops_def SimpleExecutor_executeTrades_def sends_ok_then cancel_stale_bid_ok
      cancel_stale_ask_ok insert_bid_ok insert_ask_ok executor_inv_position)

section \<open>Refinement of the quotes\<close>

lemma fill_side_last: "fill_side side b price (n, q) = (cs, n', q') \<Longrightarrow> n \<le> n' \<and> n' \<le> n + 1"
  by (auto simp: fill_side_def split: if_splits)

lemma executeTrades_refines:
  assumes "ml_exec_sock ml = Some sock" and "0 \<le> order_id e" and "in_int (order_id e + 2)"
  shows "\<exists>e'. SimpleExecutor_executeTrades ml bid ask (e, tr)
      = (Inr (), e', tr @ sends sock (fst (requote bid ask (quotes_of e))))
    \<and> quotes_of e' = snd (requote bid ask (quotes_of e))"
proof -
  have i: "in_int (order_id e + 1)" "in_int (1 + (order_id e + 1))" "0 < order_id e + 1"
    using assms(2,3) by (auto simp: in_int_def)
  show ?thesis
    using i assms(1)
    by (auto simp: SimpleExecutor_executeTrades_def then_p_def bind_p_def block_runs requote_def drop_stale_def
        fill_side_def quotes_of_def)
qed

section \<open>Properties\<close>

definition example_link :: market_link where
  "example_link = (MarketLink ''h'' 1 ''i'' 2)\<lparr>ml_exec_sock := Some 3\<rparr>"

text \<open>
  Claim C5. \<open>executeTrades\<close> implements the abstract requote: with two ids to spare it
  succeeds, its sends are exactly the specified cancellations and insertions in their
  order, and the new state stands for the specified quotes.
\<close>

theorem executeTrades_requotes:
  assumes "ml_exec_sock ml = Some sock" and "0 \<le> order_id e" and "in_int (order_id e + 2)"
    and "requote bid ask (quotes_of e) = (cs, q)"
  shows "\<exists>e'. SimpleExecutor_executeTrades ml bid ask (e, tr) = (Inr (), e', tr @ sends sock cs) \<and>
    quotes_of e' = q"
  using executeTrades_refines [OF assms(1-3), of bid ask tr] assms(4) by simp

theorem executeTrades_requotes_witness:
  "\<exists>e'. SimpleExecutor_executeTrades example_link 900 1100 (SimpleExecutor, []) = (Inr (), e',
      [] @ sends 3 [Insert_command 2 BUY 900 10 GOOD_FOR_DAY, Insert_command 3 SELL 1100 10 GOOD_FOR_DAY]) \<and>
    quotes_of e' = \<lparr>q_bid = Some (2, 900), q_ask = Some (3, 1100), q_last = 3, q_pos = 0\<rparr>"
  by (rule executeTrades_requotes)
    (simp_all add: example_link_def SimpleExecutor_def in_int_def requote_def quotes_of_def
      drop_stale_def fill_side_def)

text \<open>An order a position allows: buys below 80, sells above -80, ten lots at a time.\<close>

fun allowed_at :: "int \<Rightarrow> command \<Rightarrow> bool" where
  "allowed_at pos (Insert_command i BUY price volume lifespan) \<longleftrightarrow>
     pos < 80 \<and> volume = 10 \<and> lifespan = GOOD_FOR_DAY"
| "allowed_at pos (Insert_command i SELL price volume lifespan) \<longleftrightarrow>
     - 80 < pos \<and> volume = 10 \<and> lifespan = GOOD_FOR_DAY"
| "allowed_at pos (Cancel_command i) \<longleftrightarrow> True"
| "allowed_at pos (Login_command name secret) \<longleftrightarrow> False"

text \<open>A step that sends at most \<open>n\<close> commands, all allowed at the position, which it keeps.\<close>

definition guarded :: "int \<Rightarrow> int \<Rightarrow> nat \<Rightarrow> (simple_executor \<times> effect list, unit) prog \<Rightarrow> bool" where
  "guarded sock pos n m \<longleftrightarrow> (\<forall>e tr r e' tr'. position e = pos \<longrightarrow> m (e, tr) = (r, e', tr') \<longrightarrow>
     position e' = pos \<and>
     (\<exists>cs. tr' = tr @ sends sock cs \<and> length cs \<le> n \<and> list_all (allowed_at pos) cs))"

lemma guarded_one:
  assumes "\<And>e tr r e' tr'. position e = pos \<Longrightarrow> m (e, tr) = (r, e', tr') \<Longrightarrow> position e' = pos \<and>
    (tr' = tr \<or> (\<exists>c. tr' = tr @ sends sock [c] \<and> allowed_at pos c))"
  shows "guarded sock pos 1 m"
  unfolding guarded_def
proof (intro allI impI)
  fix e tr r e' tr'
  assume "position e = pos" and "m (e, tr) = (r, e', tr')"
  from assms [OF this] show "position e' = pos \<and>
     (\<exists>cs. tr' = tr @ sends sock cs \<and> length cs \<le> 1 \<and> list_all (allowed_at pos) cs)"
    by (auto intro: exI [of _ "[]"] exI [of _ "[_]"] simp del: encode_command.simps)
qed

lemma guarded_then:
  assumes m: "guarded sock pos k m" and n: "guarded sock pos l n"
  shows "guarded sock pos (k + l) (then_p m n)"
  unfolding guarded_def
proof (intro allI impI)
  fix e tr r e' tr'
  assume pos: "position e = pos" and run: "then_p m n (e, tr) = (r, e', tr')"
  obtain r1 e1 tr1 where m1: "m (e, tr) = (r1, e1, tr1)" by (metis prod.exhaust)
  then obtain cs where cs: "position e1 = pos" "tr1 = tr @ sends sock cs" "length cs \<le> k"
    "list_all (allowed_at pos) cs"
    using m pos unfolding guarded_def by blast
  show "position e' = pos \<and>
     (\<exists>cs. tr' = tr @ sends sock cs \<and> length cs \<le> k + l \<and> list_all (allowed_at pos) cs)"
  proof (cases r1)
    case (Inl f)
    with run m1 cs show ?thesis by (auto simp: prog_simps)
  next
    case (Inr u)
    with run m1 have "n (e1, tr1) = (r, e', tr')" by (simp add: prog_simps)
    then obtain ds where "position e' = pos" "tr' = tr1 @ sends sock ds" "length ds \<le> l"
      "list_all (allowed_at pos) ds"
      using n cs(1) unfolding guarded_def by blast
    with cs show ?thesis by (intro conjI exI [of _ "cs @ ds"]) auto
  qed
qed

lemma guarded_executeTrades:
  assumes "ml_exec_sock ml = Some sock"
  shows "guarded sock pos 4 (SimpleExecutor_executeTrades ml bid ask)"
proof -
  have "guarded sock pos 1 (cancel_stale_bid ml bid)" "guarded sock pos 1 (cancel_stale_ask ml ask)"
    by (rule guarded_one; use assms in \<open>auto simp: block_runs split: if_splits simp del: encode_command.simps
      intro: exI [of _ "Cancel_command _"]\<close>)+
  moreover have "guarded sock pos 1 (insert_bid ml bid)" "guarded sock pos 1 (insert_ask ml ask)"
    by (rule guarded_one; use assms in \<open>auto simp: block_runs split: if_splits simp del: encode_command.simps
      intro: exI [of _ "Insert_command _ _ _ _ _"]\<close>)+
  ultimately have "guarded sock pos (1 + (1 + (1 + 1))) (SimpleExecutor_executeTrades ml bid ask)"
    unfolding SimpleExecutor_executeTrades_def by (intro guarded_then)
  then show ?thesis by (simp add: numeral_eq_Suc)
qed

text \<open>
  Claim C6. Position guard: however \<open>executeTrades\<close> ends, overflow of the id counter
  included, it has sent at most four commands, and it inserted a buy order only while
  the reported position was below 80 and a sell order only above -80, always ten lots.
\<close>

theorem executeTrades_position_guard:
  assumes "ml_exec_sock ml = Some sock"
    and "SimpleExecutor_executeTrades ml bid ask (e, tr) = (r, e', tr')"
  shows "\<exists>cs. tr' = tr @ sends sock cs \<and> length cs \<le> 4 \<and> list_all (allowed_at (position e)) cs"
  using guarded_executeTrades [OF assms(1), of "position e" bid ask] assms(2)
  unfolding guarded_def by blast

theorem executeTrades_position_guard_witness:
  "\<exists>cs. [Send 3 (encode_command (Insert_command 2 SELL 1100 10 GOOD_FOR_DAY))] = [] @ sends 3 cs \<and>
     length cs \<le> 4 \<and> list_all (allowed_at (position (SimpleExecutor\<lparr>position := 80\<rparr>))) cs"
  by (rule executeTrades_position_guard [where ml = example_link and bid = 900 and ask = 1100
        and r = "Inr ()" and e' = "SimpleExecutor\<lparr>position := 80, order_id := 2, ask_id := 2, ask_price := 1100\<rparr>"])
    (simp_all add: example_link_def SimpleExecutor_executeTrades_def then_p_def bind_p_def block_runs
      SimpleExecutor_def in_int_def del: encode_command.simps)

text \<open>Nothing to do at these prices.\<close>

definition settled :: "int \<Rightarrow> int \<Rightarrow> simple_executor \<Rightarrow> bool" where
  "settled bid ask e \<longleftrightarrow>
     (if bid_id e = 0 then 80 \<le> position e else bid_price e = bid) \<and>
     (if ask_id e = 0 then position e \<le> - 80 else ask_price e = ask)"

lemma settled_no_op:
  "ml_exec_sock ml = Some sock \<Longrightarrow> settled bid ask e \<Longrightarrow>
     SimpleExecutor_executeTrades ml bid ask (e, tr) = (Inr (), e, tr)"
  by (auto simp: SimpleExecutor_executeTrades_def then_p_def bind_p_def block_runs settled_def
      split: if_splits)

lemma settled_executeTrades:
  assumes ml: "ml_exec_sock ml = Some sock" and "0 \<le> order_id e"
    and "SimpleExecutor_executeTrades ml bid ask (e, tr) = (Inr (), e', tr')"
  shows "settled bid ask e'"
proof -
  obtain e1 tr1 e2 tr2 e3 tr3 where
    steps: "cancel_stale_bid ml bid (e, tr) = (Inr (), e1, tr1)"
      "cancel_stale_ask ml ask (e1, tr1) = (Inr (), e2, tr2)"
      "insert_bid ml bid (e2, tr2) = (Inr (), e3, tr3)"
      "insert_ask ml ask (e3, tr3) = (Inr (), e', tr')"
    using assms(3) unfolding SimpleExecutor_executeTrades_def then_p_def
    by (auto elim!: bind_p_InrE)
  have e1: "bid_id e1 \<noteq> 0 \<longrightarrow> bid_price e1 = bid" "order_id e1 = order_id e"
    using steps(1) ml by (auto simp: block_runs split: if_splits)
  have e2: "bid_id e2 \<noteq> 0 \<longrightarrow> bid_price e2 = bid" "ask_id e2 \<noteq> 0 \<longrightarrow> ask_price e2 = ask"
    "order_id e2 = order_id e"
    using steps(2) ml e1 by (auto simp: block_runs split: if_splits)
  have e3: "if bid_id e3 = 0 then 80 \<le> position e3 else bid_price e3 = bid"
    "ask_id e3 \<noteq> 0 \<longrightarrow> ask_price e3 = ask" "order_id e \<le> order_id e3"
    using steps(3) ml e2 assms(2) by (auto simp: block_runs split: if_splits)
  show ?thesis
    using steps(4) ml e3 assms(2) by (auto simp: block_runs settled_def split: if_splits)
qed

text \<open>
  Claim C15. Requoting the same prices again sends nothing and changes nothing: after a
  successful \<open>executeTrades\<close>, a second call with the same prices has no effect, whichever
  sides the position allows.
\<close>

theorem executeTrades_idempotent:
  assumes "ml_exec_sock ml = Some sock" and "0 \<le> order_id e"
    and "SimpleExecutor_executeTrades ml bid ask (e, tr) = (Inr (), e', tr')"
  shows "SimpleExecutor_executeTrades ml bid ask (e', tr') = (Inr (), e', tr')"
  using settled_executeTrades [OF assms] settled_no_op [OF assms(1)] by simp

theorem executeTrades_idempotent_witness:
  "SimpleExecutor_executeTrades example_link 900 1100
     (SimpleExecutor\<lparr>position := 80, order_id := 2, ask_id := 2, ask_price := 1100\<rparr>, sends 3
        [Insert_command 2 SELL 1100 10 GOOD_FOR_DAY]) =
   (Inr (), SimpleExecutor\<lparr>position := 80, order_id := 2, ask_id := 2, ask_price := 1100\<rparr>, sends 3
        [Insert_command 2 SELL 1100 10 GOOD_FOR_DAY])"
  by (rule executeTrades_idempotent [where e = "SimpleExecutor\<lparr>position := 80\<rparr>" and tr = "[]" and sock = 3])
    (simp_all add: example_link_def SimpleExecutor_executeTrades_def then_p_def bind_p_def block_runs
      SimpleExecutor_def in_int_def del: encode_command.simps)

end
