(* ===== verification/Pricing_Model.thy ===== *)
theory Pricing_Model
  imports Messages
begin

text \<open>
  \<open>class PricingModel\<close> (pricing_model.h): the virtual functions as a record of operations on
  the model's state \<open>'p\<close>, the default body, and the contract the trader relies on: the
  price always leaves room for the spread the trader puts around it.
\<close>

record 'p pricing_model =
  pm_calculateTheoPrice :: "'p \<Rightarrow> int"
  pm_onOrderBookUpdate :: "Instrument \<Rightarrow> int \<Rightarrow> int list \<Rightarrow> int list \<Rightarrow> int list \<Rightarrow> int list
    \<Rightarrow> 'p \<Rightarrow> fault + 'p"

definition PricingModel_onOrderBookUpdate ::
  "Instrument \<Rightarrow> int \<Rightarrow> int list \<Rightarrow> int list \<Rightarrow> int list \<Rightarrow> int list \<Rightarrow> 'p \<Rightarrow> fault + 'p" where
  "PricingModel_onOrderBookUpdate instrument sequence_no ask_prices ask_volumes bid_prices
     bid_volumes p = Inr p"

locale pricing_contract =
  fixes ops :: "'p pricing_model"
    and inv :: "'p \<Rightarrow> bool"
  assumes price_room:
    "inv p \<Longrightarrow> in_int (pm_calculateTheoPrice ops p - 100) \<and> in_int (pm_calculateTheoPrice ops p + 100)"
    and update_contract:
    "inv p \<Longrightarrow> pm_onOrderBookUpdate ops i n aps avs bps bvs p = Inr p' \<Longrightarrow> inv p'"
    and update_fault:
    "inv p \<Longrightarrow> pm_onOrderBookUpdate ops i n aps avs bps bvs p = Inl f \<Longrightarrow> f = Signed_overflow"
begin

lemma price_in_int:
  assumes "inv p"
  shows "in_int (pm_calculateTheoPrice ops p)"
  using price_room [OF assms] by (simp add: in_int_def)

end

end
