(* ===== verification/Future_Midpoint.thy ===== *)
theory Future_Midpoint
  imports Pricing_Model
begin

text \<open>
  \<open>class FutureMidpoint\<close> (future_midpoint.h, future_midpoint.cpp): the theoretical price is
  the midpoint of the future's best ask and bid, truncated to a multiple of 100.
  The sum of the two prices is computed in \<open>int\<close> and can overflow.
\<close>

record future_midpoint =
  theo_price :: int

text \<open>\<open>FutureMidpoint()\<close> value-initialises the object, so the price starts at 0.\<close>

definition FutureMidpoint :: future_midpoint where
  "FutureMidpoint = \<lparr>theo_price = 0\<rparr>"

definition FutureMidpoint_calculateTheoPrice :: "future_midpoint \<Rightarrow> int" where
  "FutureMidpoint_calculateTheoPrice p = theo_price p"

definition FutureMidpoint_onOrderBookUpdate ::
  "Instrument \<Rightarrow> int \<Rightarrow> int list \<Rightarrow> int list \<Rightarrow> int list \<Rightarrow> int list
    \<Rightarrow> future_midpoint \<Rightarrow> fault + future_midpoint" where
  "FutureMidpoint_onOrderBookUpdate instrument sequence_no ask_prices ask_volumes bid_prices bid_volumes p =
     (if instrument \<noteq> FUTURE \<or> length ask_prices = 0 \<or> length bid_prices = 0 then Inr p
      else case check_int (ask_prices ! 0 + bid_prices ! 0) of
          Inl f \<Rightarrow> Inl f
        | Inr s \<Rightarrow> Inr (p\<lparr>theo_price := s sdiv 2 sdiv 100 * 100\<rparr>))"

definition FutureMidpoint_ops :: "future_midpoint pricing_model" where
  "FutureMidpoint_ops = \<lparr>pm_calculateTheoPrice = FutureMidpoint_calculateTheoPrice,
     pm_onOrderBookUpdate = FutureMidpoint_onOrderBookUpdate\<rparr>"

section \<open>The price\<close>

text \<open>Prices stay at half the range of \<open>int\<close>: only the sum can overflow.\<close>

definition midpoint_inv :: "future_midpoint \<Rightarrow> bool" where
  "midpoint_inv p \<longleftrightarrow> 100 dvd theo_price p \<and> \<bar>theo_price p\<bar> \<le> 1073741824"

lemma midpoint_inv_init: "midpoint_inv FutureMidpoint"
  by (simp add: midpoint_inv_def FutureMidpoint_def)

lemma tick_bounds:
  fixes m :: int
  shows "\<bar>m sdiv 100 * 100\<bar> \<le> \<bar>m\<bar>" and "\<bar>m - m sdiv 100 * 100\<bar> < 100"
    and "0 \<le> m \<Longrightarrow> m sdiv 100 * 100 \<le> m" and "m \<le> 0 \<Longrightarrow> m \<le> m sdiv 100 * 100"
proof -
  have "0 \<le> m \<Longrightarrow> m sdiv 100 = m div 100" "m < 0 \<Longrightarrow> m sdiv 100 = - ((- m) div 100)"
    by (simp_all add: sdiv_nonneg sdiv_neg)
  then show "\<bar>m sdiv 100 * 100\<bar> \<le> \<bar>m\<bar>" "\<bar>m - m sdiv 100 * 100\<bar> < 100"
    "0 \<le> m \<Longrightarrow> m sdiv 100 * 100 \<le> m" "m \<le> 0 \<Longrightarrow> m \<le> m sdiv 100 * 100"
    by (cases "0 \<le> m"; simp; linarith)+
qed

lemma half_tick:
  fixes s :: int
  shows "2 * (s div 2 div 100 * 100) \<le> s" and "s < 2 * (s div 2 div 100 * 100 + 100)"
proof -
  have "s div 2 div 100 = s div 200"
    using zdiv_zmult2_eq [of 100 s 2] by simp
  then show "2 * (s div 2 div 100 * 100) \<le> s" "s < 2 * (s div 2 div 100 * 100 + 100)"
    by simp_all
qed

lemma midpoint_inv_update:
  assumes "midpoint_inv p" and "FutureMidpoint_onOrderBookUpdate i n aps avs bps bvs p = Inr p'"
  shows "midpoint_inv p'"
proof (cases "i \<noteq> FUTURE \<or> length aps = 0 \<or> length bps = 0")
  case True
  with assms show ?thesis by (simp add: FutureMidpoint_onOrderBookUpdate_def)
next
  case False
  then obtain s where s: "in_int s" "p' = p\<lparr>theo_price := s sdiv 2 sdiv 100 * 100\<rparr>"
    using assms(2) by (auto simp: FutureMidpoint_onOrderBookUpdate_def split: sum.splits)
  have "\<bar>s sdiv 2\<bar> \<le> 1073741824"
    using sdiv_half_bounds [OF s(1)] by linarith
  with tick_bounds(1) [of "s sdiv 2"] s(2) show ?thesis
    by (simp add: midpoint_inv_def)
qed

interpretation midpoint: pricing_contract FutureMidpoint_ops midpoint_inv
proof unfold_locales
  fix p assume "midpoint_inv p"
  then show "in_int (pm_calculateTheoPrice FutureMidpoint_ops p - 100) \<and>
      in_int (pm_calculateTheoPrice FutureMidpoint_ops p + 100)"
    by (simp add: FutureMidpoint_ops_def FutureMidpoint_calculateTheoPrice_def midpoint_inv_def in_int_def abs_le_iff)
next
  fix p i n aps avs bps bvs p'
  assume "midpoint_inv p" and
    "pm_onOrderBookUpdate FutureMidpoint_ops i n aps avs bps bvs p = Inr p'"
  then show "midpoint_inv p'"
    by (auto simp: FutureMidpoint_ops_def intro: midpoint_inv_update)
next
  fix p i n aps avs bps bvs f
  assume "pm_onOrderBookUpdate FutureMidpoint_ops i n aps avs bps bvs p = Inl f"
  then show "f = Signed_overflow"
    by (auto simp: FutureMidpoint_ops_def FutureMidpoint_onOrderBookUpdate_def split: if_splits sum.splits)
qed

lemma midpoint_future:
  "aps \<noteq> [] \<Longrightarrow> bps \<noteq> [] \<Longrightarrow> in_int (hd aps + hd bps) \<Longrightarrow>
     FutureMidpoint_onOrderBookUpdate FUTURE n aps avs bps bvs p =
       Inr (p\<lparr>theo_price := (hd aps + hd bps) sdiv 2 sdiv 100 * 100\<rparr>)"
  by (simp add: FutureMidpoint_onOrderBookUpdate_def hd_conv_nth [symmetric])

lemma midpoint_unchanged:
  "i \<noteq> FUTURE \<or> aps = [] \<or> bps = [] \<Longrightarrow> FutureMidpoint_onOrderBookUpdate i n aps avs bps bvs p = Inr p"
  by (auto simp: FutureMidpoint_onOrderBookUpdate_def)

section \<open>Properties\<close>

text \<open>The two divisions truncate towards zero: the price lies between 0 and the midpoint, less than one tick from it.\<close>

lemma half_tick_sdiv:
  fixes s :: int
  defines "t \<equiv> s sdiv 2 sdiv 100 * 100"
  shows "2 * t \<le> max 0 s \<and> min 0 s \<le> 2 * t \<and> 2 * (t - 100) < s \<and> s < 2 * (t + 100)"
proof (cases "0 \<le> s")
  case True
  then have "t = s div 2 div 100 * 100" by (simp add: t_def sdiv_nonneg)
  then show ?thesis using True half_tick [of s] by simp
next
  case False
  then have "s sdiv 2 = - ((- s) div 2)" by (simp add: sdiv_neg)
  define h where "h = (- s) div 2"
  have "s sdiv 2 = - h" "0 \<le> h"
    using False \<open>s sdiv 2 = _\<close> by (simp_all add: h_def)
  then have "t = - (h div 100 * 100)"
    using sdiv_neg [of "- h" 100] by (cases "h = 0") (auto simp: t_def)
  then show ?thesis using False half_tick [of "- s"] by (auto simp: h_def)
qed

text \<open>
  Claim C10. A book update of the future with both sides present, whose best ask and best bid have a sum that fits
  an \<open>int\<close>, sets a price that is a multiple of the tick of 100, lies between 0 and the midpoint
  (the divisions truncate towards zero), and is less than one tick from the midpoint, so that the quotes 100
  below and 100 above it lie strictly on the two sides of the midpoint, for negative prices too.
\<close>

theorem midpoint_straddled:
  assumes "aps \<noteq> []" and "bps \<noteq> []" and "in_int (hd aps + hd bps)"
  shows "\<exists>p'. FutureMidpoint_onOrderBookUpdate FUTURE n aps avs bps bvs p = Inr p' \<and>
    100 dvd FutureMidpoint_calculateTheoPrice p' \<and>
    2 * FutureMidpoint_calculateTheoPrice p' \<le> max 0 (hd aps + hd bps) \<and>
    min 0 (hd aps + hd bps) \<le> 2 * FutureMidpoint_calculateTheoPrice p' \<and>
    2 * (FutureMidpoint_calculateTheoPrice p' - 100) < hd aps + hd bps \<and>
    hd aps + hd bps < 2 * (FutureMidpoint_calculateTheoPrice p' + 100)"
  using midpoint_future [OF assms] half_tick_sdiv [of "hd aps + hd bps"]
  by (simp add: FutureMidpoint_calculateTheoPrice_def)

theorem midpoint_straddled_witness:
  "\<exists>p'. FutureMidpoint_onOrderBookUpdate FUTURE 1 [10250, 10300] [5, 6] [10170] [7] FutureMidpoint = Inr p' \<and>
    100 dvd FutureMidpoint_calculateTheoPrice p' \<and>
    2 * FutureMidpoint_calculateTheoPrice p' \<le> max 0 (hd [10250, 10300 :: int] + hd [10170]) \<and>
    min 0 (hd [10250, 10300 :: int] + hd [10170]) \<le> 2 * FutureMidpoint_calculateTheoPrice p' \<and>
    2 * (FutureMidpoint_calculateTheoPrice p' - 100) < hd [10250, 10300 :: int] + hd [10170] \<and>
    hd [10250, 10300 :: int] + hd [10170] < 2 * (FutureMidpoint_calculateTheoPrice p' + 100)"
  by (rule midpoint_straddled) (simp_all add: in_int_def)

end
