(* ===== verification/AutoTrader.thy ===== *)
theory AutoTrader
  imports Simple_Executor Future_Midpoint
begin

text \<open>
  \<open>class AutoTrader\<close> (autotrader.h, autotrader.cpp): it owns a pricing model and a trade
  executor through their base classes, so its functions take the two records of
  operations, and it passes market events on to them.
\<close>

record ('p, 'e) autotrader =
  at_name :: string
  at_secret :: string
  at_pricing_model :: 'p
  at_executor :: 'e
  at_market_link :: bool

text \<open>The constructor does not set \<open>market_link_\<close>: a dereference before it is registered
  is undefined behaviour.\<close>

definition AutoTrader :: "string \<Rightarrow> string \<Rightarrow> 'p \<Rightarrow> 'e \<Rightarrow> ('p, 'e) autotrader" where
  "AutoTrader name secret pricing_model executor =
     \<lparr>at_name = name, at_secret = secret, at_pricing_model = pricing_model,
      at_executor = executor, at_market_link = False\<rparr>"

text \<open>The argument is \<^const>\<open>True\<close> for the link, \<^const>\<open>False\<close> for \<open>nullptr\<close>.\<close>

definition registerMarketLink :: "bool \<Rightarrow> ('p, 'e) autotrader \<Rightarrow> fault + ('p, 'e) autotrader" where
  "registerMarketLink market_link t =
     (if market_link then Inr (t\<lparr>at_market_link := True\<rparr>) else Inl Assertion)"

text \<open>Decimal output of an \<open>int\<close> by \<open>operator<<\<close>.\<close>

fun digits_of_nat :: "nat \<Rightarrow> string" where
  "digits_of_nat n =
     (if n < 10 then [char_of (48 + n)] else digits_of_nat (n div 10) @ [char_of (48 + n mod 10)])"

declare digits_of_nat.simps [simp del]

definition show_int :: "int \<Rightarrow> string" where
  "show_int i = (if i < 0 then ''-'' @ digits_of_nat (nat (- i)) else digits_of_nat (nat i))"

definition theo_line :: "int \<Rightarrow> effect" where
  "theo_line price = Stdout (''theo price: '' @ show_int price @ [CHR 0x0A])"

lemma sent_commands_theo_line [simp]: "sent_commands [theo_line i] = []"
  by (simp add: theo_line_def)

text \<open>\<open>executor_->executeTrades(market_link_, bid, ask)\<close>: the executor dereferences the pointer
  only when it sends, but a pointer without a value is already undefined to read.\<close>

definition AutoTrader_onOrderBookUpdate ::
  "'p pricing_model \<Rightarrow> 'e trade_executor \<Rightarrow> market_link \<Rightarrow>
   Instrument \<Rightarrow> int \<Rightarrow> int list \<Rightarrow> int list \<Rightarrow> int list \<Rightarrow> int list \<Rightarrow>
   (('p, 'e) autotrader \<times> effect list, unit) prog" where
  "AutoTrader_onOrderBookUpdate pm ex ml instrument sequence_no ask_prices ask_volumes
      bid_prices bid_volumes =
     bind_p (gets_p fst) (\<lambda>t.
     bind_p (lift_p (pm_onOrderBookUpdate pm instrument sequence_no ask_prices ask_volumes
               bid_prices bid_volumes (at_pricing_model t))) (\<lambda>p.
     then_p (on_fst (modify_p (\<lambda>t. t\<lparr>at_pricing_model := p\<rparr>)))
     (let theo_price = pm_calculateTheoPrice pm p in
     then_p (on_snd (emit (theo_line theo_price)))
     (if \<not> at_market_link t then throw_p Uninitialised_read else
     bind_p (lift_p (check_int (theo_price - 100))) (\<lambda>bid.
     bind_p (lift_p (check_int (theo_price + 100))) (\<lambda>ask.
     zoom_p (\<lambda>(t, tr). (at_executor t, tr)) (\<lambda>(e, tr) (t, _). (t\<lparr>at_executor := e\<rparr>, tr))
       (ex_executeTrades ex ml bid ask)))))))"

definition AutoTrader_onOrderStatusUpdate ::
  "int \<Rightarrow> int \<Rightarrow> int \<Rightarrow> int \<Rightarrow> ('p, 'e) autotrader \<Rightarrow> ('p, 'e) autotrader" where
  "AutoTrader_onOrderStatusUpdate i fill_volume remaining_volume fees t = t"

definition AutoTrader_onPositionUpdate ::
  "'e trade_executor \<Rightarrow> int \<Rightarrow> int \<Rightarrow> ('p, 'e) autotrader \<Rightarrow> ('p, 'e) autotrader" where
  "AutoTrader_onPositionUpdate ex future_position etf_position t =
     t\<lparr>at_executor := ex_onPositionUpdate ex future_position etf_position (at_executor t)\<rparr>"

section \<open>A trader over any pricing model and executor that keep their contracts\<close>

definition trader_inv ::
  "('p \<Rightarrow> bool) \<Rightarrow> ('e \<Rightarrow> command list \<Rightarrow> bool) \<Rightarrow> ('p, 'e) autotrader \<Rightarrow> command list \<Rightarrow> bool" where
  "trader_inv pinv einv t cs \<longleftrightarrow>
     at_market_link t \<and> pinv (at_pricing_model t) \<and> einv (at_executor t) cs"

text \<open>
  A step of the trader on a connected link: it writes to standard output or error, sends
  well-formed commands and keeps an invariant of the trader and the commands sent.
\<close>

definition trades_ok ::
  "('t \<Rightarrow> command list \<Rightarrow> bool) \<Rightarrow> int \<Rightarrow> ('t \<times> effect list, unit) prog \<Rightarrow> bool" where
  "trades_ok I sock m \<longleftrightarrow> (\<forall>t cs tr r t' tr'. I t cs \<longrightarrow> m (t, tr) = (r, t', tr') \<longrightarrow>
     (\<exists>out ds. tr' = tr @ out @ sends sock ds \<and> sent_commands out = [] \<and> list_all wire_ok ds \<and>
       I t' (cs @ ds) \<and> (r = Inr () \<or> r = Inl Signed_overflow)))"

lemma trades_okD:
  assumes "trades_ok I sock m" and "I t cs" and "m (t, tr) = (r, t', tr')"
  obtains out ds where "tr' = tr @ out @ sends sock ds" "sent_commands out = []"
    "list_all wire_ok ds" "I t' (cs @ ds)" "r = Inr () \<or> r = Inl Signed_overflow"
  using assms unfolding trades_ok_def by blast

locale trader_contract =
  p: pricing_contract pm pinv + e: executor_contract ex einv
  for pm :: "'p pricing_model" and pinv and ex :: "'e trade_executor" and einv
begin

lemma book_update_ok:
  assumes sock: "ml_exec_sock ml = Some sock"
  shows "trades_ok (trader_inv pinv einv) sock
    (AutoTrader_onOrderBookUpdate pm ex ml i n aps avs bps bvs)"
  unfolding trades_ok_def
proof (intro allI impI)
  fix t cs tr r t' tr'
  assume inv: "trader_inv pinv einv t cs"
    and run: "AutoTrader_onOrderBookUpdate pm ex ml i n aps avs bps bvs (t, tr) = (r, t', tr')"
  let ?upd = "pm_onOrderBookUpdate pm i n aps avs bps bvs (at_pricing_model t)"
  show "\<exists>out ds. tr' = tr @ out @ sends sock ds \<and> sent_commands out = [] \<and> list_all wire_ok ds \<and>
       trader_inv pinv einv t' (cs @ ds) \<and> (r = Inr () \<or> r = Inl Signed_overflow)"
  proof (cases ?upd)
    case (Inl f)
    with inv have "f = Signed_overflow" by (auto simp: trader_inv_def intro: p.update_fault)
    with Inl run inv show ?thesis
      by (intro exI [of _ "[]"]) (simp add: AutoTrader_onOrderBookUpdate_def prog_simps)
  next
    case (Inr p)
    define theo where "theo = pm_calculateTheoPrice pm p"
    have p: "pinv p" using Inr inv p.update_contract by (auto simp: trader_inv_def)
    have room: "in_int (theo - 100)" "in_int (theo + 100)"
      using p.price_room [OF p] by (simp_all add: theo_def)
    obtain r1 e1 tr1 where ex: "ex_executeTrades ex ml (theo - 100) (theo + 100)
        (at_executor t, tr @ [theo_line theo]) = (r1, e1, tr1)" by (metis prod.exhaust)
    have res: "r = r1" "tr' = tr1" "t' = t\<lparr>at_pricing_model := p, at_executor := e1\<rparr>"
      using run Inr inv room ex
      by (simp_all add: AutoTrader_onOrderBookUpdate_def prog_simps trader_inv_def Let_def
          theo_def [symmetric])
    obtain ds where "tr1 = (tr @ [theo_line theo]) @ sends sock ds" "list_all wire_ok ds"
      "einv e1 (cs @ ds)" "r1 = Inr () \<or> r1 = Inl Signed_overflow"
      using sends_okD [OF e.execute_contract [OF sock room] _ ex] inv
      unfolding trader_inv_def by blast
    with res p inv show ?thesis
      by (intro exI [of _ "[theo_line theo]"] exI [of _ ds]) (simp add: trader_inv_def)
  qed
qed

lemma position_update_inv:
  "trader_inv pinv einv t cs \<Longrightarrow> in_int future \<Longrightarrow> in_int etf \<Longrightarrow>
     trader_inv pinv einv (AutoTrader_onPositionUpdate ex future etf t) cs"
  by (simp add: trader_inv_def AutoTrader_onPositionUpdate_def e.position_contract)

end

text \<open>The trader of the program.\<close>

interpretation andy: trader_contract FutureMidpoint_ops midpoint_inv SimpleExecutor_ops executor_inv
  by unfold_locales

end
