(* ===== verification/Market_Link.thy ===== *)
theory Market_Link
  imports AutoTrader
begin

text \<open>
  The rest of \<open>class MarketLink\<close> (market_link.cpp): opening the two sockets, logging in,
  reading messages, the handlers and the loop.

  The operating system is a parameter. \<open>os\<close> holds what the calls of the connection phase
  return. Afterwards the program only reads: \<open>exec_in\<close> and \<open>info_in\<close> list what
  successive calls of \<open>read\<close> on the two sockets return, a list that ends where the run is observed
  no further.
\<close>

section \<open>Opening the sockets\<close>

datatype sock_type = SOCK_STREAM | SOCK_DGRAM

record os =
  os_socket :: "sock_type \<Rightarrow> int"
  os_inet_pton :: "string \<Rightarrow> int"
  os_setsockopt :: "int \<Rightarrow> int"
  os_connect :: "int \<Rightarrow> string \<Rightarrow> 16 word \<Rightarrow> int"
  os_bind :: "int \<Rightarrow> string \<Rightarrow> 16 word \<Rightarrow> int"
  os_getfl :: "int \<Rightarrow> int"
  os_setfl :: "int \<Rightarrow> int \<Rightarrow> int"

definition O_NONBLOCK :: int where "O_NONBLOCK = 2048"

definition fail_when :: "bool \<Rightarrow> string \<Rightarrow> (effect list, unit) prog" where
  [prog_simps]: "fail_when b what = when_p b (throw_p (Runtime_error what))"

text \<open>\<open>fcntl(sock, F_SETFL, fcntl(sock, F_GETFL) | O_NONBLOCK)\<close>, negative on failure.\<close>

definition set_nonblocking :: "os \<Rightarrow> int \<Rightarrow> (effect list, unit) prog" where
  [prog_simps]: "set_nonblocking os sock =
     (let flags = os_getfl os sock OR O_NONBLOCK in
      then_p (emit (Sys_setfl sock flags))
        (fail_when (os_setfl os sock flags < 0) ''failed to set sock to non-blocking''))"

definition createExecutionSocket :: "os \<Rightarrow> market_link \<Rightarrow> (effect list, int) prog" where
  "createExecutionSocket os ml =
     then_p (emit (Stdout ''connecting to execution channel ... ''))
     (let sock = os_socket os SOCK_STREAM in
     then_p (fail_when (sock < 0) ''failed to create socket'')
     (let sin_port = htons (word_of_int (ml_exec_port ml)) in
     then_p (fail_when (os_inet_pton os (ml_exec_host ml) \<le> 0) ''invalid address for socket'')
     (then_p (emit (Sys_connect sock (ml_exec_host ml) sin_port))
     (then_p (fail_when (os_connect os sock (ml_exec_host ml) sin_port < 0) ''socket connection failed'')
     (then_p (set_nonblocking os sock)
     (then_p (emit (Stdout (''done'' @ [CHR 0x0A])))
     (return_p sock)))))))"

definition createInformationSocket :: "os \<Rightarrow> market_link \<Rightarrow> (effect list, int) prog" where
  "createInformationSocket os ml =
     then_p (emit (Stdout ''connecting to information channel ... ''))
     (let sock = os_socket os SOCK_DGRAM in
     then_p (fail_when (sock < 0) ''socket creation error'')
     (then_p (emit (Sys_setsockopt sock))
     (then_p (fail_when (os_setsockopt os sock < 0) ''setsockopt(SO_REUSEADDR) failed'')
     (let sin_port = htons (word_of_int (ml_info_port ml)) in
     then_p (fail_when (os_inet_pton os (ml_info_host ml) \<le> 0) ''invalid address'')
     (then_p (emit (Sys_bind sock (ml_info_host ml) sin_port))
     (then_p (fail_when (os_bind os sock (ml_info_host ml) sin_port < 0) ''connection failed'')
     (then_p (set_nonblocking os sock)
     (then_p (emit (Stdout (''done'' @ [CHR 0x0A])))
     (return_p sock)))))))))"

definition initConnection :: "os \<Rightarrow> (market_link \<times> effect list, unit) prog" where
  "initConnection os =
     bind_p (gets_p fst) (\<lambda>ml.
     bind_p (on_snd (createExecutionSocket os ml)) (\<lambda>sock.
     then_p (on_fst (modify_p (\<lambda>ml. ml\<lparr>ml_exec_sock := Some sock\<rparr>)))
     (bind_p (gets_p fst) (\<lambda>ml.
     bind_p (on_snd (createInformationSocket os ml)) (\<lambda>sock.
     on_fst (modify_p (\<lambda>ml. ml\<lparr>ml_info_sock := Some sock\<rparr>)))))))"

section \<open>Logging in\<close>

text \<open>
  The strings are passed to \<open>snprintf\<close> as the format. \<open>format_plain\<close> is what a format
  without arguments prints: \<open>%%\<close> prints a percent sign and any other conversion asks for
  an argument that is not there, which is undefined. The bound passed is the string's
  own length plus one; writing past the array is undefined whatever the bound says.
\<close>

fun format_plain :: "string \<Rightarrow> string option" where
  "format_plain [] = Some []"
| "format_plain (c # cs) =
     (if c = CHR ''%'' then (case cs of
         [] \<Rightarrow> None
       | d # ds \<Rightarrow> if d = CHR ''%'' then map_option ((#) CHR ''%'') (format_plain ds) else None)
      else map_option ((#) c) (format_plain cs))"

definition c_str :: "string \<Rightarrow> string" where
  "c_str s = takeWhile (\<lambda>c. c \<noteq> CHR 0x00) s"

definition snprintf :: "byte list \<Rightarrow> nat \<Rightarrow> string \<Rightarrow> fault + byte list" where
  "snprintf buf n fmt = (case format_plain fmt of
      None \<Rightarrow> Inl Bad_format
    | Some s \<Rightarrow> let out = map of_char (take (n - 1) s) @ [0] in
        if length out \<le> length buf then Inr (write_at 0 out buf) else Inl Buffer_overrun)"

definition registerTrader ::
  "('p, 'e) autotrader option \<Rightarrow> (market_link \<times> effect list, unit) prog" where
  "registerTrader auto_trader = (case auto_trader of
      None \<Rightarrow> throw_p Assertion
    | Some t \<Rightarrow>
        then_p (on_fst (modify_p (\<lambda>ml. ml\<lparr>ml_auto_trader := True\<rparr>)))
        (let msg = Message_init;
             msg = set_msg_size (htons (of_nat LOGIN_MESSAGE_SIZE)) msg;
             msg = set_msg_type LOGIN_MESSAGE_TYPE msg
         in bind_p (lift_p (snprintf (replicate 20 0) (length (at_name t) + 1) (c_str (at_name t))))
           (\<lambda>name. bind_p (lift_p (snprintf (replicate 50 0) (length (at_secret t) + 1) (c_str (at_secret t))))
           (\<lambda>secret. bind_p (gets_p fst) (\<lambda>ml. bind_p (lift_p (read_field (ml_exec_sock ml)))
           (\<lambda>sock. on_snd (send_p sock
              (set_msg_body (Login_bytes \<lparr>login_name = name, login_secret = secret\<rparr>) msg)
              LOGIN_MESSAGE_SIZE)))))))"

section \<open>Reading the next message\<close>

text \<open>One \<open>read(fd, &msg, sizeof(msg))\<close>: the bytes it stored (fewer than asked for, or none
  at the end of a stream), or \<open>errno\<close>.\<close>

datatype read_result = Read_bytes "byte list" | Read_error int

definition EWOULDBLOCK :: int where "EWOULDBLOCK = 11"

definition read_into :: "byte list \<Rightarrow> message \<Rightarrow> message" where
  "read_into bs msg = write_at 0 (take sizeof_Message bs) msg"

text \<open>\<open>msg.size = ntohs(msg.size)\<close>, after the loop.\<close>

definition size_to_host :: "message \<Rightarrow> message" where
  "size_to_host msg = set_msg_size (ntohs (msg_size msg)) msg"

fun readNextMessage ::
  "market_link \<Rightarrow> message \<Rightarrow> read_result list \<Rightarrow> read_result list \<Rightarrow>
   (fault + message) \<times> read_result list \<times> read_result list" where
  "readNextMessage ml msg exec_in info_in =
     (if ml_exec_sock ml = None then (Inl Uninitialised_read, exec_in, info_in)
      else case exec_in of
        [] \<Rightarrow> (Inl Blocked, [], info_in)
      | Read_bytes bs # exec_in' \<Rightarrow> (Inr (size_to_host (read_into bs msg)), exec_in', info_in)
      | Read_error e # exec_in' \<Rightarrow>
          if e \<noteq> EWOULDBLOCK then (Inl (Errno e), exec_in', info_in)
          else if ml_info_sock ml = None then (Inl Uninitialised_read, exec_in', info_in)
          else (case info_in of
            [] \<Rightarrow> (Inl Blocked, exec_in', [])
          | Read_bytes bs # info_in' \<Rightarrow> (Inr (size_to_host (read_into bs msg)), exec_in', info_in')
          | Read_error e # info_in' \<Rightarrow>
              if e \<noteq> EWOULDBLOCK then (Inl (Errno e), exec_in', info_in')
              else readNextMessage ml msg exec_in' info_in'))"

declare readNextMessage.simps [simp del]

section \<open>The handlers\<close>

text \<open>The loop of \<open>handleOrderBookUpdate\<close>, from index \<open>i\<close> on.\<close>

fun build_book :: "nat \<Rightarrow> 32 word list \<Rightarrow> int list list \<Rightarrow> int list list" where
  "build_book i [] book = book"
| "build_book i (p # ps) book =
     (let book = (if i mod 5 = 0 then book @ [[]] else book);
          price = ntohl p
      in build_book (Suc i) ps
           (if price \<noteq> 0 then butlast book @ [last book @ [sint price]] else book))"

text \<open>
  An order book takes all 88 bytes. Until a read has filled the buffer that far, its last prices are
  indeterminate, and the loop's \<open>ntohl\<close> of them is undefined.
\<close>

definition handleOrderBookUpdate ::
  "'p pricing_model \<Rightarrow> 'e trade_executor \<Rightarrow> market_link \<Rightarrow> message \<Rightarrow>
   (('p, 'e) autotrader \<times> effect list, unit) prog" where
  "handleOrderBookUpdate pm ex ml msg =
     (let order_book_update = OrderBookUpdate_at body_offset msg;
          sequence_no = sint (ntohl (book_sequence_no order_book_update));
          book = build_book 0 (book_prices order_book_update) [];
          instrument = (if book_instrument order_book_update = 0 then FUTURE else ETF)
      in if length msg < body_offset + sizeof_OrderBookUpdate then throw_p Uninitialised_read
         else if \<not> ml_auto_trader ml then throw_p Uninitialised_read
         else AutoTrader_onOrderBookUpdate pm ex ml instrument sequence_no
                (book ! 0) (book ! 1) (book ! 2) (book ! 3))"

definition handlePositionUpdate ::
  "'e trade_executor \<Rightarrow> market_link \<Rightarrow> message \<Rightarrow> (('p, 'e) autotrader \<times> effect list, unit) prog" where
  "handlePositionUpdate ex ml msg =
     (let position_update = PositionUpdate_at body_offset msg;
          etf_position = sint (ntohl (pos_etf_position position_update));
          future_position = sint (ntohl (pos_future_position position_update))
      in if \<not> ml_auto_trader ml then throw_p Uninitialised_read
         else on_fst (modify_p (AutoTrader_onPositionUpdate ex future_position etf_position)))"

definition handleOrderStatusUpdate ::
  "market_link \<Rightarrow> message \<Rightarrow> (('p, 'e) autotrader \<times> effect list, unit) prog" where
  "handleOrderStatusUpdate ml msg =
     (let order_status_update = OrderStatusUpdate_at body_offset msg;
          i = sint (ntohl (status_id order_status_update));
          fill_volume = sint (ntohl (status_fill_volume order_status_update));
          remaining_volume = sint (ntohl (status_remaining_volume order_status_update));
          fees = sint (ntohl (status_fees order_status_update))
      in if \<not> ml_auto_trader ml then throw_p Uninitialised_read
         else on_fst (modify_p (AutoTrader_onOrderStatusUpdate i fill_volume remaining_volume fees)))"

section \<open>The loop\<close>

text \<open>The \<open>switch\<close> of the loop body.\<close>

definition dispatch ::
  "'p pricing_model \<Rightarrow> 'e trade_executor \<Rightarrow> market_link \<Rightarrow> message \<Rightarrow>
   (('p, 'e) autotrader \<times> effect list, unit) prog" where
  "dispatch pm ex ml msg =
     (if msg_type msg = ORDER_BOOK_UPDATE_MESSAGE_TYPE then handleOrderBookUpdate pm ex ml msg
      else if msg_type msg = ORDER_STATUS_UPDATE_TYPE then handleOrderStatusUpdate ml msg
      else if msg_type msg = POSITION_UPDATE_TYPE then handlePositionUpdate ex ml msg
      else on_snd (emit (Stderr (''unknown message type: '' @ show_int (uint (msg_type msg))
             @ [CHR 0x0A]))))"

lemma readNextMessage_consumes:
  "readNextMessage ml msg es rs = (Inr msg', es', rs') \<Longrightarrow> length es' < length es"
proof (induction es arbitrary: rs)
  case Nil
  then show ?case by (simp add: readNextMessage.simps split: if_splits)
next
  case (Cons r es)
  show ?case
    using Cons.prems Cons.IH
    by (subst (asm) readNextMessage.simps)
      (auto split: if_splits list.splits read_result.splits intro: less_SucI)
qed

text \<open>
  \<open>while (1)\<close>: the loop has no exit but a fault, so the result is one. What is left of
  the two inputs is returned too.
\<close>

function runLoop ::
  "'p pricing_model \<Rightarrow> 'e trade_executor \<Rightarrow> market_link \<Rightarrow> message \<Rightarrow>
   read_result list \<Rightarrow> read_result list \<Rightarrow> ('p, 'e) autotrader \<times> effect list \<Rightarrow>
   fault \<times> ('p, 'e) autotrader \<times> effect list" where
  "runLoop pm ex ml msg exec_in info_in s =
     (case readNextMessage ml msg exec_in info_in of
        (Inl f, _, _) \<Rightarrow> (f, s)
      | (Inr msg', exec_in', info_in') \<Rightarrow>
          (case dispatch pm ex ml msg' s of
             (Inl f, s') \<Rightarrow> (f, s')
           | (Inr _, s') \<Rightarrow> runLoop pm ex ml msg' exec_in' info_in' s'))"
  by pat_completeness auto
termination
  by (relation "measure (\<lambda>(_, _, _, _, exec_in, _, _). length exec_in)")
    (auto dest: readNextMessage_consumes [OF sym])

declare runLoop.simps [simp del]

end
