(* ===== verification/Market_Data.thy ===== *)
theory Market_Data
  imports Market_Link
begin

text \<open>
  What the handlers of \<open>MarketLink\<close> make of a message buffer: they call the trader
  with the event the buffer holds (\<open>event_of\<close>, a reading of the wire format that does not look at the
  code). Then: what reading into the reused buffer does to that event.
\<close>

section \<open>Fields in network order\<close>

lemma bytes32_word32_length: "length bs = 4 \<Longrightarrow> bytes32 (word32 bs) = bs"
  by (auto simp: length_Suc_conv eval_nat_numeral bytes32_word32 simp del: word32.simps)

lemma int_at_load:
  "off + 4 \<le> length m \<Longrightarrow> sint (ntohl (load32 off m)) = int_at off m"
  by (simp add: int_at_def int_be_def load32_def ntohl_def htonl_def bytes32_word32_length)

lemma sint_eq_0 [simp]: "sint (w :: 32 word) = 0 \<longleftrightarrow> w = 0"
  by (simp add: signed_eq_0_iff)

section \<open>The order book\<close>

definition level :: "32 word \<Rightarrow> int list" where
  "level w = filter (\<lambda>l. l \<noteq> 0) [sint (ntohl w)]"

lemma build_book_first:
  "i mod 5 = 0 \<Longrightarrow> build_book i (w # ws) book = build_book (Suc i) ws (book @ [level w])"
  by (simp add: level_def)

lemma build_book_next:
  "i mod 5 \<noteq> 0 \<Longrightarrow>
     build_book i (w # ws) (book @ [ls]) = build_book (Suc i) ws (book @ [ls @ level w])"
  by (simp add: level_def)

text \<open>One group of five slots.\<close>

lemma build_book_group:
  assumes "i mod 5 = 0"
  shows "build_book i (a # b # c # d # e # ws) book =
    build_book (i + 5) ws (book @ [filter (\<lambda>l. l \<noteq> 0) (map (\<lambda>w. sint (ntohl w)) [a, b, c, d, e])])"
proof -
  have "Suc i mod 5 \<noteq> 0" "Suc (Suc i) mod 5 \<noteq> 0" "Suc (Suc (Suc i)) mod 5 \<noteq> 0"
    "Suc (Suc (Suc (Suc i))) mod 5 \<noteq> 0"
    using assms by presburger+
  moreover have "i + 5 = Suc (Suc (Suc (Suc (Suc i))))" by simp
  moreover have "filter (\<lambda>l. l \<noteq> 0) (map (\<lambda>w. sint (ntohl w)) [a, b, c, d, e]) =
      (((level a @ level b) @ level c) @ level d) @ level e"
    by (simp add: level_def)
  ultimately show ?thesis
    using assms by (simp only: build_book_first build_book_next if_False not_False_eq_True)
qed

lemma upt_5: "[0..<5] = [0, 1, 2, 3, 4 :: nat]"
  by (simp add: upt_rec)

lemma upt_20: "[0..<20] = [0, 1, 2, 3, 4, 5, 6, 7, 8, 9, 10, 11, 12, 13, 14, 15, 16, 17, 18, 19 :: nat]"
  by (simp add: upt_rec)

lemma build_book_levels:
  assumes "length m = 88"
  shows "build_book 0 (book_prices (OrderBookUpdate_at 3 m)) [] =
    [levels_at 8 m, levels_at 28 m, levels_at 48 m, levels_at 68 m]"
  using assms
  by (simp add: OrderBookUpdate_at_def upt_20 build_book_group int_at_load levels_at_def upt_5
      del: filter.simps build_book.simps(2))

section \<open>Handlers\<close>

text \<open>What the trader is called with.\<close>

fun trader_event :: "'p pricing_model \<Rightarrow> 'e trade_executor \<Rightarrow> market_link \<Rightarrow> market_event \<Rightarrow>
    (('p, 'e) autotrader \<times> effect list, unit) prog" where
  "trader_event pm ex ml (Book_event i n aps avs bps bvs) =
     AutoTrader_onOrderBookUpdate pm ex ml i n aps avs bps bvs"
| "trader_event pm ex ml (Status_event i fill remaining fees) =
     on_fst (modify_p (AutoTrader_onOrderStatusUpdate i fill remaining fees))"
| "trader_event pm ex ml (Position_event future etf) =
     on_fst (modify_p (AutoTrader_onPositionUpdate ex future etf))"
| "trader_event pm ex ml (Unknown_event t) =
     on_snd (emit (Stderr (''unknown message type: '' @ show_int (uint t) @ [CHR 0x0A])))"

text \<open>A message that is an order book in a buffer that has not been filled yet.\<close>

definition book_undetermined :: "message \<Rightarrow> bool" where
  "book_undetermined msg \<longleftrightarrow> msg_type msg = ORDER_BOOK_UPDATE_MESSAGE_TYPE \<and> length msg < 88"

lemma dispatch_undetermined:
  assumes "book_undetermined msg"
  shows "dispatch pm ex ml msg s = (Inl Uninitialised_read, s)"
proof -
  have "msg_type msg = ORDER_BOOK_UPDATE_MESSAGE_TYPE" "length msg < body_offset + sizeof_OrderBookUpdate"
    using assms by (simp_all add: book_undetermined_def sizeof_defs)
  then show ?thesis
    by (simp add: dispatch_def handleOrderBookUpdate_def throw_p_def Let_def)
qed

lemma dispatch_event:
  assumes "message_ok msg" and "ml_auto_trader ml" and "\<not> book_undetermined msg"
  shows "dispatch pm ex ml msg = trader_event pm ex ml (event_of msg)"
proof (cases "msg_type msg = ORDER_BOOK_UPDATE_MESSAGE_TYPE")
  case True
  then have len: "length msg = 88"
    using assms(1,3) by (simp add: book_undetermined_def message_ok_iff)
  then show ?thesis
    using True assms(2) build_book_levels [OF len]
    by (simp add: dispatch_def message_constants msg_type_def event_of_def handleOrderBookUpdate_def sizeof_defs)
      (simp add: OrderBookUpdate_at_def int_at_load)
next
  case False
  then show ?thesis
    using assms(1,2)
    by (simp add: dispatch_def message_constants msg_type_def event_of_def handleOrderStatusUpdate_def
        handlePositionUpdate_def OrderStatusUpdate_at_def PositionUpdate_at_def int_at_load message_ok_iff)
qed

section \<open>Reading into the buffer\<close>

lemma length_read_into [simp]: "length (read_into bs msg) = max (min 88 (length bs)) (length msg)"
  by (simp add: read_into_def write_at_def)

lemma length_size_to_host [simp]: "2 \<le> length msg \<Longrightarrow> length (size_to_host msg) = length msg"
  by (simp add: size_to_host_def set_msg_size_def)

lemma message_ok_read_into [simp]: "message_ok msg \<Longrightarrow> message_ok (read_into bs msg)"
  by (auto simp: message_ok_iff)

lemma message_ok_size_to_host [simp]: "message_ok msg \<Longrightarrow> message_ok (size_to_host msg)"
  by (simp add: message_ok_iff)

lemma drop_2_size_to_host: "2 \<le> length msg \<Longrightarrow> drop 2 (size_to_host msg) = drop 2 msg"
  by (simp add: size_to_host_def set_msg_size_def write_at_def numeral_2_eq_2)

lemma nth_size_to_host:
  assumes "2 \<le> length msg" and "2 \<le> i"
  shows "size_to_host msg ! i = msg ! i"
proof -
  obtain j where "i = 2 + j" using assms(2) le_Suc_ex by blast
  with assms(1) show ?thesis
    by (simp add: size_to_host_def set_msg_size_def write_at_def nth_append numeral_2_eq_2)
qed

lemma int_at_size_to_host [simp]:
  "2 \<le> length msg \<Longrightarrow> 2 \<le> off \<Longrightarrow> int_at off (size_to_host msg) = int_at off msg"
  unfolding int_at_def
  by (metis drop_2_size_to_host drop_drop le_add_diff_inverse2)

lemma event_of_size_to_host [simp]:
  "2 \<le> length msg \<Longrightarrow> event_of (size_to_host msg) = event_of msg"
  by (simp add: event_of_def levels_at_def nth_size_to_host)

lemma book_undetermined_size_to_host [simp]:
  "message_ok msg \<Longrightarrow> book_undetermined (size_to_host msg) \<longleftrightarrow> book_undetermined msg"
  by (simp add: book_undetermined_def msg_type_def nth_size_to_host message_ok_iff)

lemma read_into_append:
  "length bs \<le> 88 \<Longrightarrow> read_into bs msg = bs @ drop (length bs) msg"
  by (simp add: read_into_def write_at_def)

lemma event_of_read:
  assumes "event_ok ev" and "length (encode_event ev @ junk) \<le> 88" and "message_ok msg"
  shows "event_of (size_to_host (read_into (encode_event ev @ junk) msg)) = ev"
    and "message_ok (size_to_host (read_into (encode_event ev @ junk) msg))"
    and "\<not> book_undetermined (size_to_host (read_into (encode_event ev @ junk) msg))"
proof -
  have read: "read_into (encode_event ev @ junk) msg = (encode_event ev @ junk) @ drop (length (encode_event ev @ junk)) msg"
    using assms(2) by (rule read_into_append)
  have long: "2 \<le> length (read_into (encode_event ev @ junk) msg)"
    using assms(3) by (auto simp: message_ok_iff)
  show "event_of (size_to_host (read_into (encode_event ev @ junk) msg)) = ev"
    using assms(1) by (simp only: event_of_size_to_host [OF long]) (simp add: read event_of_encoded)
  show "message_ok (size_to_host (read_into (encode_event ev @ junk) msg))"
    using assms(3) by simp
  show "\<not> book_undetermined (size_to_host (read_into (encode_event ev @ junk) msg))"
  proof
    assume "book_undetermined (size_to_host (read_into (encode_event ev @ junk) msg))"
    then have "book_undetermined (read_into (encode_event ev @ junk) msg)"
      using assms(3) by simp
    then have "msg_type (read_into (encode_event ev @ junk) msg) = ORDER_BOOK_UPDATE_MESSAGE_TYPE"
      "length (encode_event ev) < 88"
      using assms(2) by (simp_all add: book_undetermined_def)
    then show False
      using assms(1) unfolding read by (cases ev) (simp_all add: msg_type_def message_constants nth_append levels_ok_length)
  qed
qed

lemma size_to_host_read_nothing: "size_to_host (read_into [] msg) = size_to_host msg"
  by (simp add: read_into_append)

text \<open>Whatever the bytes are, the event read from a buffer is one that the format can express.\<close>

lemma in_int_int_at [simp]: "in_int (int_at off m)"
  by (simp add: int_at_def int_be_def)

lemma levels_ok_levels_at [simp]: "levels_ok (levels_at off m)"
  unfolding levels_ok_def levels_at_def
  by (auto intro: order_trans [OF length_filter_le])

lemma event_ok_event_of [simp]: "event_ok (event_of m)"
  by (simp add: event_of_def)

section \<open>The polling loop\<close>

text \<open>
  What \<open>readNextMessage\<close> can end with on a connected link: no more input, an error that a
  socket reported, or a message made by one of the reads.
\<close>

lemma read_cases:
  assumes "ml_exec_sock ml = Some sock" and "ml_info_sock ml = Some sock'"
    and "readNextMessage ml msg es rs = (res, es', rs')"
  shows "set es' \<subseteq> set es \<and> set rs' \<subseteq> set rs \<and>
    (case res of
       Inl f \<Rightarrow> f = Blocked \<or> (\<exists>e. f = Errno e \<and> e \<noteq> EWOULDBLOCK \<and> Read_error e \<in> set (es @ rs))
     | Inr msg' \<Rightarrow> \<exists>bs. Read_bytes bs \<in> set (es @ rs) \<and> msg' = size_to_host (read_into bs msg))"
  using assms(3)
proof (induction es arbitrary: rs)
  case Nil
  with assms show ?case by (auto simp: readNextMessage.simps)
next
  case (Cons r es)
  show ?case
  proof (cases "r = Read_error EWOULDBLOCK \<and> (\<exists>rs1. rs = Read_error EWOULDBLOCK # rs1)")
    case True
    then obtain rs1 where rs: "rs = Read_error EWOULDBLOCK # rs1" and r: "r = Read_error EWOULDBLOCK"
      by blast
    with Cons.prems assms have "readNextMessage ml msg es rs1 = (res, es', rs')"
      by (simp add: readNextMessage.simps [of ml msg "_ # _"])
    from Cons.IH [OF this] r rs show ?thesis by (auto split: sum.splits)
  next
    case False
    with Cons.prems assms show ?thesis
      by (subst (asm) readNextMessage.simps)
        (auto split: if_splits list.splits read_result.splits)
  qed
qed

lemma readNextMessage_exec:
  "ml_exec_sock ml = Some sock \<Longrightarrow> readNextMessage ml msg (Read_bytes bs # es) rs =
     (Inr (size_to_host (read_into bs msg)), es, rs)"
  by (simp add: readNextMessage.simps)

section \<open>Properties\<close>

text \<open>
  Claim C7. Every event that the exchange encodes is decoded by the handlers exactly:
  whatever was in the reused buffer before, and whatever else arrives in the same read,
  dispatching the buffer calls the trader with that event, its book levels in order
  and empty slots left out.
\<close>

theorem dispatch_decodes:
  assumes "ml_auto_trader ml" and "message_ok msg" and "event_ok ev"
    and "length (encode_event ev @ junk) \<le> 88"
  shows "dispatch pm ex ml (size_to_host (read_into (encode_event ev @ junk) msg))
    = trader_event pm ex ml ev"
  using dispatch_event [OF event_of_read(2) [OF assms(3,4,2)] assms(1) event_of_read(3) [OF assms(3,4,2)]]
  by (simp only: event_of_read(1) [OF assms(3,4,2)])

definition example_book :: market_event where
  "example_book = Book_event ETF 7 [10250, 10300] [5, 6] [10170] [7]"

theorem dispatch_decodes_witness:
  "dispatch FutureMidpoint_ops SimpleExecutor_ops (example_link\<lparr>ml_auto_trader := True\<rparr>)
     (size_to_host (read_into (encode_event example_book @ []) Message_init))
   = trader_event FutureMidpoint_ops SimpleExecutor_ops (example_link\<lparr>ml_auto_trader := True\<rparr>) example_book"
  by (rule dispatch_decodes)
    (simp_all add: example_book_def example_link_def levels_ok_def in_int_def)

text \<open>
  Claim C17. Messages that arrive in one read are lost: when a read of the execution socket returns a status update
  and a position update together, the loop goes on to its next read with the trader and its effects as they were,
  so after this read alone the trader is unchanged; had the two arrived in a read each, the position would have been recorded.
\<close>

theorem coalesced_position_lost:
  assumes "ml_auto_trader ml" and "ml_exec_sock ml = Some sock" and "message_ok msg"
    and "event_ok (Status_event i fill remaining fees)" and "event_ok (Position_event future etf)"
    and "first = encode_event (Status_event i fill remaining fees)" and "second = encode_event (Position_event future etf)"
  shows "runLoop pm ex ml msg (Read_bytes (first @ second) # es) rs (t, tr) =
      runLoop pm ex ml (size_to_host (read_into (first @ second) msg)) es rs (t, tr) \<and>
    runLoop pm ex ml msg [Read_bytes (first @ second)] rs (t, tr) = (Blocked, t, tr) \<and>
    runLoop pm ex ml msg [Read_bytes first, Read_bytes second] rs (t, tr) =
      (Blocked, AutoTrader_onPositionUpdate ex future etf t, tr)"
proof -
  have len: "length (first @ second) \<le> 88" "length (first @ []) \<le> 88" "length (second @ []) \<le> 88"
    by (simp_all add: assms(6,7))
  have both: "dispatch pm ex ml (size_to_host (read_into (first @ second) msg)) (t, tr) = (Inr (), t, tr)"
    using dispatch_decodes [OF assms(1,3,4), of second pm ex] len(1)
    by (simp add: assms(6) prog_simps AutoTrader_onOrderStatusUpdate_def del: encode_event.simps)
  have alone: "dispatch pm ex ml (size_to_host (read_into first msg)) (t, tr) = (Inr (), t, tr)"
    using dispatch_decodes [OF assms(1,3,4), of "[]" pm ex] len(2)
    by (simp add: assms(6) prog_simps AutoTrader_onOrderStatusUpdate_def del: encode_event.simps)
  define msg1 where "msg1 = size_to_host (read_into first msg)"
  have "message_ok msg1"
    using assms(3) by (simp add: msg1_def)
  then have next_read: "dispatch pm ex ml (size_to_host (read_into second msg1)) (t, tr) =
      (Inr (), AutoTrader_onPositionUpdate ex future etf t, tr)"
    using dispatch_decodes [OF assms(1) _ assms(5), of msg1 "[]" pm ex] len(3)
    by (simp add: assms(7) prog_simps del: encode_event.simps)
  note loop = runLoop.simps [of pm ex ml _ "Read_bytes _ # _"]
  have blocked: "runLoop pm ex ml m [] rs s = (Blocked, s)" for m s
    by (simp add: runLoop.simps readNextMessage.simps assms(2))
  show ?thesis
    using both alone next_read
    by (simp add: loop readNextMessage_exec [OF assms(2)] blocked msg1_def [symmetric])
qed

theorem coalesced_position_lost_witness:
  "runLoop FutureMidpoint_ops SimpleExecutor_ops (example_link\<lparr>ml_auto_trader := True\<rparr>) Message_init
     [Read_bytes (encode_event (Status_event 2 10 0 5) @ encode_event (Position_event 0 10))] []
     (AutoTrader ''a'' ''b'' FutureMidpoint SimpleExecutor, [])
   = (Blocked, AutoTrader ''a'' ''b'' FutureMidpoint SimpleExecutor, [])"
proof -
  have "ml_auto_trader (example_link\<lparr>ml_auto_trader := True\<rparr>)" "ml_exec_sock (example_link\<lparr>ml_auto_trader := True\<rparr>) = Some 3"
    "event_ok (Status_event 2 10 0 5)" "event_ok (Position_event 0 10)"
    by (simp_all add: example_link_def in_int_def)
  from coalesced_position_lost [OF this(1,2) message_ok_init this(3,4) refl refl] show ?thesis
    by blast
qed

text \<open>
  Claim C18. A short read is dispatched as a whole message: when only the header of a position
  update has arrived, the trader is told the positions that the bytes of the previous
  message happen to spell.
\<close>

theorem short_read_uses_stale_bytes:
  assumes "ml_auto_trader ml" and "message_ok msg"
  shows "dispatch pm ex ml (size_to_host (read_into (be16 11 @ [8]) msg)) (t, tr)
    = (Inr (), AutoTrader_onPositionUpdate ex (int_at 3 msg) (int_at 7 msg) t, tr)"
proof -
  have "event_of (be16 11 @ 8 # drop 3 msg) = Position_event (int_at 3 msg) (int_at 7 msg)"
    by (simp add: event_of_def nth_append at_skips) (simp add: int_at_def)
  then have read: "event_of (read_into (be16 11 @ [8]) msg) = Position_event (int_at 3 msg) (int_at 7 msg)"
    by (simp add: read_into_append)
  have "msg_type (read_into (be16 11 @ [8]) msg) = 8"
    by (simp add: read_into_append msg_type_def nth_append)
  then have "\<not> book_undetermined (read_into (be16 11 @ [8]) msg)"
    by (simp add: book_undetermined_def message_constants)
  moreover have "2 \<le> length (read_into (be16 11 @ [8]) msg)"
    using assms(2) by (simp add: message_ok_iff)
  ultimately show ?thesis
    using assms read by (simp add: dispatch_event prog_simps)
qed

theorem short_read_uses_stale_bytes_witness:
  "dispatch FutureMidpoint_ops SimpleExecutor_ops (example_link\<lparr>ml_auto_trader := True\<rparr>)
     (size_to_host (read_into (be16 11 @ [8]) Message_init)) (AutoTrader ''a'' ''b'' FutureMidpoint SimpleExecutor, [])
   = (Inr (), AutoTrader_onPositionUpdate SimpleExecutor_ops (int_at 3 Message_init) (int_at 7 Message_init)
        (AutoTrader ''a'' ''b'' FutureMidpoint SimpleExecutor), [])"
  by (rule short_read_uses_stale_bytes) (simp_all add: example_link_def)

text \<open>The order in which the polling loop reads: execution socket, then information socket.\<close>

fun poll_order :: "read_result list \<Rightarrow> read_result list \<Rightarrow> read_result list" where
  "poll_order [] rs = []"
| "poll_order (e # es) [] = [e]"
| "poll_order (e # es) (r # rs) = e # r # poll_order es rs"

text \<open>
  Claim C9. On a connected link \<open>readNextMessage\<close> returns the first read, in polling order, that
  does not report that it would block: its bytes over the previous message, with the
  size field in host order, or its error as the thrown \<open>errno\<close>.
\<close>

theorem readNextMessage_first_ready:
  assumes "ml_exec_sock ml = Some sock" and "ml_info_sock ml = Some sock'"
  shows "fst (readNextMessage ml msg es rs) =
    (case find (\<lambda>r. r \<noteq> Read_error EWOULDBLOCK) (poll_order es rs) of
       None \<Rightarrow> Inl Blocked
     | Some (Read_bytes bs) \<Rightarrow> Inr (size_to_host (read_into bs msg))
     | Some (Read_error e) \<Rightarrow> Inl (Errno e))"
  using assms
proof (induction es rs rule: poll_order.induct)
  case (2 e es)
  then show ?case by (subst readNextMessage.simps) (auto split: read_result.splits)
next
  case (3 e es r rs)
  then show ?case by (subst readNextMessage.simps) (auto split: read_result.splits)
qed (simp add: readNextMessage.simps)

theorem readNextMessage_first_ready_witness:
  "fst (readNextMessage (example_link\<lparr>ml_info_sock := Some 4\<rparr>) Message_init
      [Read_error 11, Read_bytes [1]] [Read_error 11, Read_error 9]) =
    (case find (\<lambda>r. r \<noteq> Read_error EWOULDBLOCK) (poll_order [Read_error 11, Read_bytes [1]] [Read_error 11, Read_error 9]) of
       None \<Rightarrow> Inl Blocked
     | Some (Read_bytes bs) \<Rightarrow> Inr (size_to_host (read_into bs Message_init))
     | Some (Read_error e) \<Rightarrow> Inl (Errno e))"
  by (rule readNextMessage_first_ready) (simp_all add: example_link_def)

text \<open>
  Claim C16. The end of the execution stream is not noticed: a read of no bytes, which is what
  a closed connection returns for ever, makes the loop dispatch the previous message once more.
\<close>

theorem end_of_stream_repeats_message:
  assumes "ml_auto_trader ml" and "ml_exec_sock ml = Some sock" and "message_ok msg"
  shows "runLoop pm ex ml msg (Read_bytes [] # es) rs s =
    (case dispatch pm ex ml msg s of
       (Inl f, s') \<Rightarrow> (f, s')
     | (Inr _, s') \<Rightarrow> runLoop pm ex ml (size_to_host msg) es rs s')"
proof -
  have "dispatch pm ex ml (size_to_host msg) = dispatch pm ex ml msg"
  proof (cases "book_undetermined msg")
    case True
    then show ?thesis
      using assms(3) by (intro ext) (simp add: dispatch_undetermined)
  next
    case False
    moreover have "2 \<le> length msg"
      using assms(3) by (simp add: message_ok_iff)
    ultimately show ?thesis
      using assms(1,3) by (simp add: dispatch_event)
  qed
  then show ?thesis
    using readNextMessage_exec [OF assms(2)] size_to_host_read_nothing
    by (subst runLoop.simps) simp
qed

theorem end_of_stream_repeats_message_witness:
  "runLoop FutureMidpoint_ops SimpleExecutor_ops (example_link\<lparr>ml_auto_trader := True\<rparr>) Message_init
     (Read_bytes [] # [Read_bytes []]) [] (AutoTrader ''a'' ''b'' FutureMidpoint SimpleExecutor, []) =
    (case dispatch FutureMidpoint_ops SimpleExecutor_ops (example_link\<lparr>ml_auto_trader := True\<rparr>) Message_init
        (AutoTrader ''a'' ''b'' FutureMidpoint SimpleExecutor, []) of
       (Inl f, s') \<Rightarrow> (f, s')
     | (Inr _, s') \<Rightarrow> runLoop FutureMidpoint_ops SimpleExecutor_ops (example_link\<lparr>ml_auto_trader := True\<rparr>)
          (size_to_host Message_init) [Read_bytes []] [] s')"
  by (rule end_of_stream_repeats_message) (simp_all add: example_link_def)

text \<open>
  The reads that the loop makes, in order: one of the execution socket, and one of the information socket when that would
  block. And what acting on a list of reads, one after the other, is: skip those that would block, end with any other error,
  and dispatch the bytes of the others over the previous message.
\<close>

fun reads_made :: "read_result list \<Rightarrow> read_result list \<Rightarrow> read_result list" where
  "reads_made [] rs = []"
| "reads_made (Read_bytes bs # es) rs = Read_bytes bs # reads_made es rs"
| "reads_made (Read_error e # es) [] = [Read_error e]"
| "reads_made (Read_error e # es) (r # rs) = Read_error e # (if e = EWOULDBLOCK then r # reads_made es rs else [])"

fun act_on_reads :: "'p pricing_model \<Rightarrow> 'e trade_executor \<Rightarrow> market_link \<Rightarrow> message \<Rightarrow> read_result list \<Rightarrow>
    ('p, 'e) autotrader \<times> effect list \<Rightarrow> fault \<times> ('p, 'e) autotrader \<times> effect list" where
  "act_on_reads pm ex ml msg [] s = (Blocked, s)"
| "act_on_reads pm ex ml msg (Read_error e # rs) s =
     (if e = EWOULDBLOCK then act_on_reads pm ex ml msg rs s else (Errno e, s))"
| "act_on_reads pm ex ml msg (Read_bytes bs # rs) s =
     (let msg' = size_to_host (read_into bs msg)
      in case dispatch pm ex ml msg' s of
           (Inl f, s') \<Rightarrow> (f, s')
         | (Inr _, s') \<Rightarrow> act_on_reads pm ex ml msg' rs s')"

text \<open>No read fails, other than that it would block.\<close>

definition no_failure :: "read_result list \<Rightarrow> bool" where
  "no_failure rs \<longleftrightarrow> (\<forall>e. Read_error e \<in> set rs \<longrightarrow> e = EWOULDBLOCK)"

lemma runLoop_blocked:
  assumes "ml_exec_sock ml = Some sock" and "ml_info_sock ml = Some sock'"
  shows "runLoop pm ex ml msg (Read_error EWOULDBLOCK # es) (Read_error EWOULDBLOCK # rs) s = runLoop pm ex ml msg es rs s"
proof -
  have "readNextMessage ml msg (Read_error EWOULDBLOCK # es) (Read_error EWOULDBLOCK # rs) = readNextMessage ml msg es rs"
    using assms by (subst readNextMessage.simps) simp
  then show ?thesis
    by (simp add: runLoop.simps [of pm ex ml msg])
qed

lemma runLoop_reads:
  assumes link: "ml_exec_sock ml = Some sock" "ml_info_sock ml = Some sock'"
  shows "runLoop pm ex ml msg es rs s = act_on_reads pm ex ml msg (reads_made es rs) s"
proof (induction es rs arbitrary: msg s rule: reads_made.induct)
  case (1 rs)
  then show ?case
    using link by (simp add: runLoop.simps readNextMessage.simps)
next
  case (2 bs es rs)
  then show ?case
    using link by (subst runLoop.simps) (simp add: readNextMessage_exec Let_def split: prod.splits sum.splits)
next
  case (3 e es)
  then show ?case
    using link by (subst runLoop.simps) (simp add: readNextMessage.simps)
next
  case (4 e es r rs)
  show ?case
  proof (cases "e = EWOULDBLOCK \<and> r = Read_error EWOULDBLOCK")
    case True
    then show ?thesis
      using 4 by (simp add: runLoop_blocked [OF link])
  next
    case False
    then show ?thesis
      using link 4
      by (subst runLoop.simps; cases r) (auto simp: readNextMessage.simps [of _ _ "_ # _"] Let_def split: prod.splits sum.splits)
  qed
qed

lemma reads_made_shuffles:
  "no_failure es \<Longrightarrow> no_failure rs \<Longrightarrow> length rs = count_list es (Read_error EWOULDBLOCK) \<Longrightarrow> reads_made es rs \<in> shuffles es rs"
proof (induction es rs rule: reads_made.induct)
  case (4 e es r rs)
  then have "e = EWOULDBLOCK" "reads_made es rs \<in> shuffles es rs"
    by (simp_all add: no_failure_def)
  then show ?case
    by (auto intro: Cons_in_shuffles_leftI Cons_in_shuffles_rightI)
qed (auto simp: no_failure_def intro: Cons_in_shuffles_leftI)

text \<open>
  Claim C4. Liveness of the polling loop, for any bytes in reads of any length: it acts on every read that it makes, once, in the order
  made, until one fails or acting on one fails. When no read fails and the observation ends after whole rounds, each read of the
  execution socket that would block being followed by one of the information socket, these are all the reads of both sockets,
  interleaved with each socket's in its order: neither socket starves.
\<close>

theorem runLoop_acts_on_every_read:
  assumes "ml_exec_sock ml = Some sock" and "ml_info_sock ml = Some sock'"
  shows "runLoop pm ex ml msg es rs s = act_on_reads pm ex ml msg (reads_made es rs) s \<and>
    (no_failure es \<and> no_failure rs \<and> length rs = count_list es (Read_error EWOULDBLOCK) \<longrightarrow>
      reads_made es rs \<in> shuffles es rs)"
  using runLoop_reads [OF assms] reads_made_shuffles by blast

theorem runLoop_acts_on_every_read_witness:
  "reads_made [Read_bytes [1], Read_error EWOULDBLOCK] [Read_bytes [2]] \<in>
     shuffles [Read_bytes [1], Read_error EWOULDBLOCK] [Read_bytes [2]] \<and>
   runLoop FutureMidpoint_ops SimpleExecutor_ops (example_link\<lparr>ml_info_sock := Some 4\<rparr>) Message_init
     [Read_bytes [1], Read_error EWOULDBLOCK] [Read_bytes [2]] (AutoTrader ''a'' ''b'' FutureMidpoint SimpleExecutor, []) =
   act_on_reads FutureMidpoint_ops SimpleExecutor_ops (example_link\<lparr>ml_info_sock := Some 4\<rparr>) Message_init
     [Read_bytes [1], Read_error EWOULDBLOCK, Read_bytes [2]] (AutoTrader ''a'' ''b'' FutureMidpoint SimpleExecutor, [])"
proof -
  have "ml_exec_sock (example_link\<lparr>ml_info_sock := Some 4\<rparr>) = Some 3" "ml_info_sock (example_link\<lparr>ml_info_sock := Some 4\<rparr>) = Some 4"
    by (simp_all add: example_link_def)
  note all = runLoop_acts_on_every_read [OF this, of FutureMidpoint_ops SimpleExecutor_ops Message_init
    "[Read_bytes [1], Read_error EWOULDBLOCK]" "[Read_bytes [2]]" "(AutoTrader ''a'' ''b'' FutureMidpoint SimpleExecutor, [])"]
  have "no_failure [Read_bytes [1], Read_error EWOULDBLOCK]" "no_failure [Read_bytes [2]]"
    by (simp_all add: no_failure_def)
  then show ?thesis
    using all by simp
qed



end
