(* ===== verification/Main_Program.thy ===== *)
theory Main_Program
  imports Market_Data
begin

text \<open>
  \<open>main.cpp\<close>: the constants, the construction of the two objects and the sequence that
  connects, logs in and trades, with its handlers. \<open>Waiting\<close> is a run that is still in its polling
  loop when the observed input ends; \<open>Stopped\<close> is a failed assertion or undefined
  behaviour, which no handler catches.
\<close>

definition EXEC_HOST :: string where "EXEC_HOST = ''127.0.0.1''"
definition EXEC_PORT :: int where "EXEC_PORT = 12341"
definition INFO_HOST :: string where "INFO_HOST = ''239.255.1.1''"
definition INFO_PORT :: int where "INFO_PORT = 12346"
definition NAME :: string where "NAME = ''andy''"
definition SECRET :: string where "SECRET = ''password''"

datatype outcome = Exit int | Waiting | Stopped fault

type_synonym trader = "(future_midpoint, simple_executor) autotrader"

text \<open>The handlers around the body, by what it ends with.\<close>

fun handle_fault :: "fault \<Rightarrow> effect list \<Rightarrow> outcome \<times> effect list" where
  "handle_fault (Runtime_error what) tr = (Exit 1, tr @ [Stderr (what @ [CHR 0x0A])])"
| "handle_fault (Errno e) tr = (Exit 1, tr @ [Stderr (''unknown error'' @ [CHR 0x0A])])"
| "handle_fault Blocked tr = (Waiting, tr)"
| "handle_fault f tr = (Stopped f, tr)"

text \<open>What runs before the loop.\<close>

definition startup :: "os \<Rightarrow> (market_link \<times> trader \<times> effect list, unit) prog" where
  "startup os =
     then_p (zoom_p (\<lambda>(ml, t, tr). (ml, tr)) (\<lambda>(ml, tr) (_, t, _). (ml, t, tr)) (initConnection os))
     (bind_p (gets_p (\<lambda>(ml, t, tr). t)) (\<lambda>t.
      then_p (zoom_p (\<lambda>(ml, t, tr). (ml, tr)) (\<lambda>(ml, tr) (_, t, _). (ml, t, tr))
               (registerTrader (Some t)))
      (bind_p (lift_p (registerMarketLink True t)) (\<lambda>t.
       modify_p (\<lambda>(ml, _, tr). (ml, t, tr))))))"

definition main_objects :: "market_link \<times> trader \<times> effect list" where
  "main_objects =
     (MarketLink EXEC_HOST EXEC_PORT INFO_HOST INFO_PORT,
      AutoTrader NAME SECRET FutureMidpoint SimpleExecutor, [])"

text \<open>The body of \<open>main\<close> up to its \<open>return\<close>.\<close>

definition main_body ::
  "os \<Rightarrow> read_result list \<Rightarrow> read_result list \<Rightarrow> outcome \<times> effect list" where
  "main_body os exec_in info_in =
     (case startup os main_objects of
        (Inl f, _, _, tr) \<Rightarrow> handle_fault f tr
      | (Inr _, ml, t, tr) \<Rightarrow>
          (case runLoop FutureMidpoint_ops SimpleExecutor_ops ml Message_init exec_in info_in (t, tr) of
             (f, _, tr') \<Rightarrow> handle_fault f tr'))"

text \<open>
  At the end of \<open>main\<close> the two objects are destroyed, whichever \<open>return\<close> it leaves by. The destructor of \<open>AutoTrader\<close> is that of
  its members, in reverse order: two \<open>std::unique_ptr\<close>, which \<open>delete\<close> through a pointer to the base class. That
  is undefined unless the destructor of the base class is virtual, and neither base class declares one.
\<close>

definition TradeExecutor_virtual_destructor :: bool where "TradeExecutor_virtual_destructor = False"
definition PricingModel_virtual_destructor :: bool where "PricingModel_virtual_destructor = False"

definition delete_derived :: "bool \<Rightarrow> fault + unit" where
  "delete_derived virtual_destructor = (if virtual_destructor then Inr () else Inl Bad_delete)"

definition destroy_AutoTrader :: "fault + unit" where
  "destroy_AutoTrader = (case delete_derived TradeExecutor_virtual_destructor of
      Inl f \<Rightarrow> Inl f
    | Inr _ \<Rightarrow> delete_derived PricingModel_virtual_destructor)"

fun leave_main :: "outcome \<times> effect list \<Rightarrow> outcome \<times> effect list" where
  "leave_main (Exit n, tr) = (case destroy_AutoTrader of Inl f \<Rightarrow> (Stopped f, tr) | Inr _ \<Rightarrow> (Exit n, tr))"
| "leave_main (r, tr) = (r, tr)"

definition main_program ::
  "os \<Rightarrow> read_result list \<Rightarrow> read_result list \<Rightarrow> outcome \<times> effect list" where
  "main_program os exec_in info_in = leave_main (main_body os exec_in info_in)"

lemma leave_main_simps [simp]:
  "leave_main (Exit n, tr) = (Stopped Bad_delete, tr)"
  "snd (leave_main r) = snd r"
  by (simp_all add: destroy_AutoTrader_def delete_derived_def TradeExecutor_virtual_destructor_def)
    (cases r rule: leave_main.cases; simp add: destroy_AutoTrader_def delete_derived_def TradeExecutor_virtual_destructor_def)

declare leave_main.simps(1) [simp del]

section \<open>What the startup leaves\<close>

text \<open>Connecting sends nothing, and fails only by \<open>std::runtime_error\<close>.\<close>

lemma createExecutionSocket_cases:
  "createExecutionSocket os ml tr = (r, tr') \<Longrightarrow> sent_commands tr' = sent_commands tr \<and>
     (case r of Inl f \<Rightarrow> \<exists>w. f = Runtime_error w | Inr s \<Rightarrow> s = os_socket os SOCK_STREAM \<and> 0 \<le> s)"
  by (auto simp: createExecutionSocket_def prog_simps Let_def split: if_splits)

lemma createInformationSocket_cases:
  "createInformationSocket os ml tr = (r, tr') \<Longrightarrow> sent_commands tr' = sent_commands tr \<and>
     (case r of Inl f \<Rightarrow> \<exists>w. f = Runtime_error w | Inr s \<Rightarrow> s = os_socket os SOCK_DGRAM \<and> 0 \<le> s)"
  by (auto simp: createInformationSocket_def prog_simps Let_def split: if_splits)

lemma initConnection_cases:
  assumes "initConnection os (ml, tr) = (r, ml', tr')"
  shows "sent_commands tr' = sent_commands tr \<and>
     (case r of Inl f \<Rightarrow> \<exists>w. f = Runtime_error w
      | Inr _ \<Rightarrow> ml' = ml\<lparr>ml_exec_sock := Some (os_socket os SOCK_STREAM),
                       ml_info_sock := Some (os_socket os SOCK_DGRAM)\<rparr>)"
  using assms
  by (auto simp: initConnection_def prog_simps split: prod.splits sum.splits
      dest!: createExecutionSocket_cases createInformationSocket_cases)

section \<open>The login message\<close>

lemma format_plain_no_percent: "CHR ''%'' \<notin> set s \<Longrightarrow> format_plain s = Some s"
  by (induction s) auto

lemma c_str_no_nul: "CHR 0x00 \<notin> set s \<Longrightarrow> c_str s = s"
  unfolding c_str_def by (subst takeWhile_eq_all_conv) auto

definition name_bytes :: "string \<Rightarrow> byte list" where
  "name_bytes s = map of_char s"

lemma snprintf_plain:
  assumes "CHR ''%'' \<notin> set s"
  shows "snprintf (replicate n 0) (Suc (length s)) s =
    (if length s < n then Inr (pad_to n (name_bytes s)) else Inl Buffer_overrun)"
  using assms
  by (auto simp: snprintf_def format_plain_no_percent write_at_def pad_to_def name_bytes_def Let_def
      replicate_Suc [symmetric] Suc_diff_Suc simp del: replicate_Suc)

definition plain_string :: "string \<Rightarrow> bool" where
  "plain_string s \<longleftrightarrow> CHR ''%'' \<notin> set s \<and> CHR 0x00 \<notin> set s"

lemma registerTrader_plain:
  assumes "plain_string (at_name t)" and "plain_string (at_secret t)" and "ml_exec_sock ml = Some sock"
  shows "registerTrader (Some t) (ml, tr) =
    (let ml' = ml\<lparr>ml_auto_trader := True\<rparr> in
     if length (at_name t) < 20 \<and> length (at_secret t) < 50
     then (Inr (), ml', tr @ [Send sock (encode_command
            (Login_command (name_bytes (at_name t)) (name_bytes (at_secret t))))])
     else (Inl Buffer_overrun, ml', tr))"
proof -
  let ?login = "Login_bytes \<lparr>login_name = pad_to 20 (name_bytes (at_name t)),
      login_secret = pad_to 50 (name_bytes (at_secret t))\<rparr>"
  let ?msg = "set_msg_type LOGIN_MESSAGE_TYPE (set_msg_size (htons (of_nat LOGIN_MESSAGE_SIZE)) Message_init)"
  have sent: "take LOGIN_MESSAGE_SIZE (set_msg_body ?login ?msg) = encode_command
      (Login_command (name_bytes (at_name t)) (name_bytes (at_secret t)))"
    if "length (at_name t) < 20" "length (at_secret t) < 50"
  proof -
    have "length ?login = 70" using that by (simp add: Login_bytes_def name_bytes_def)
    then have "take (3 + 70) (set_msg_body ?login ?msg) =
        bytes16 (htons (of_nat LOGIN_MESSAGE_SIZE)) @ [LOGIN_MESSAGE_TYPE] @ ?login"
      using take_built_message [of Message_init ?login] by simp
    then show ?thesis by (simp add: message_constants Login_bytes_def)
  qed
  show ?thesis
    using assms sent
    by (cases "length (at_name t) < 20"; cases "length (at_secret t) < 50")
      (simp_all add: registerTrader_def prog_simps plain_string_def c_str_no_nul snprintf_plain Let_def
        del: encode_command.simps)
qed

text \<open>The state and the effects with which the loop starts, when the sockets are open.\<close>

definition login_command :: command where
  "login_command = Login_command (name_bytes NAME) (name_bytes SECRET)"

lemma login_command_ok: "wire_ok login_command"
  by (simp add: login_command_def name_bytes_def NAME_def SECRET_def of_char_def)

definition connected_link :: "os \<Rightarrow> market_link" where
  "connected_link os = (MarketLink EXEC_HOST EXEC_PORT INFO_HOST INFO_PORT)
     \<lparr>ml_auto_trader := True, ml_exec_sock := Some (os_socket os SOCK_STREAM),
      ml_info_sock := Some (os_socket os SOCK_DGRAM)\<rparr>"

definition registered_trader :: trader where
  "registered_trader =
     (AutoTrader NAME SECRET FutureMidpoint SimpleExecutor)\<lparr>at_market_link := True\<rparr>"

lemma startup_cases:
  assumes "startup os main_objects = (r, ml, t, tr)"
  shows "case r of
      Inl f \<Rightarrow> (\<exists>w. f = Runtime_error w) \<and> sent_commands tr = []
    | Inr _ \<Rightarrow> ml = connected_link os \<and> t = registered_trader \<and> sent_commands tr = [login_command]"
proof -
  define ml0 where "ml0 = MarketLink EXEC_HOST EXEC_PORT INFO_HOST INFO_PORT"
  define t0 where "t0 = AutoTrader NAME SECRET FutureMidpoint SimpleExecutor"
  obtain r1 ml1 tr1 where init: "initConnection os (ml0, []) = (r1, ml1, tr1)"
    by (metis prod.exhaust)
  note cases = initConnection_cases [OF init]
  have plain: "plain_string (at_name t0)" "plain_string (at_secret t0)"
    "length (at_name t0) < 20" "length (at_secret t0) < 50"
    by (simp_all add: t0_def AutoTrader_def plain_string_def NAME_def SECRET_def)
  have login: "encode_command (Login_command (name_bytes (at_name t0)) (name_bytes (at_secret t0)))
      = encode_command login_command"
    by (simp add: login_command_def t0_def AutoTrader_def)
  show ?thesis
  proof (cases r1)
    case (Inl f)
    with assms init cases show ?thesis
      by (auto simp: startup_def main_objects_def prog_simps ml0_def)
  next
    case (Inr u)
    then have sock: "ml_exec_sock ml1 = Some (os_socket os SOCK_STREAM)"
      using cases by simp
    have "r = Inr () \<and> ml = ml1\<lparr>ml_auto_trader := True\<rparr> \<and> t = t0\<lparr>at_market_link := True\<rparr> \<and>
        tr = tr1 @ [Send (os_socket os SOCK_STREAM) (encode_command login_command)]"
      using assms init Inr registerTrader_plain [OF plain(1,2) sock] plain(3,4)
      by (simp add: startup_def main_objects_def prog_simps ml0_def [symmetric] t0_def [symmetric]
          login registerMarketLink_def Let_def del: encode_command.simps)
    with cases Inr show ?thesis
      by (simp add: connected_link_def registered_trader_def ml0_def t0_def login_command_ok
          del: encode_command.simps)
  qed
qed

section \<open>Properties\<close>

text \<open>
  Claim C12. For a name and a secret without percent signs and zero bytes, \<open>registerTrader\<close> sends
  exactly the login message of the wire format when they are shorter than their fields;
  when one of them is not, it writes past the field: the bound it passes to \<open>snprintf\<close> is the
  length of the string, never the size of the array.
\<close>

theorem registerTrader_logs_in_iff_fits:
  assumes "plain_string (at_name t)" and "plain_string (at_secret t)" and "ml_exec_sock ml = Some sock"
  shows "registerTrader (Some t) (ml, tr) =
    (if length (at_name t) < 20 \<and> length (at_secret t) < 50
     then (Inr (), ml\<lparr>ml_auto_trader := True\<rparr>, tr @ [Send sock (encode_command
            (Login_command (map of_char (at_name t)) (map of_char (at_secret t))))])
     else (Inl Buffer_overrun, ml\<lparr>ml_auto_trader := True\<rparr>, tr))"
  using registerTrader_plain [OF assms, of tr] by (simp add: Let_def name_bytes_def)

theorem registerTrader_logs_in_iff_fits_witness:
  "registerTrader (Some (AutoTrader ''andy'' ''password'' FutureMidpoint SimpleExecutor))
     (example_link, []) = (Inr (), example_link\<lparr>ml_auto_trader := True\<rparr>,
       [] @ [Send 3 (encode_command (Login_command (map of_char ''andy'') (map of_char ''password'')))]) \<and>
   registerTrader (Some (AutoTrader ''twenty-characters-ab'' ''password'' FutureMidpoint SimpleExecutor))
     (example_link, []) = (Inl Buffer_overrun, example_link\<lparr>ml_auto_trader := True\<rparr>, [])"
  using registerTrader_logs_in_iff_fits
      [of "AutoTrader ''andy'' ''password'' FutureMidpoint SimpleExecutor" example_link 3 "[]"]
    registerTrader_logs_in_iff_fits
      [of "AutoTrader ''twenty-characters-ab'' ''password'' FutureMidpoint SimpleExecutor" example_link 3 "[]"]
  by (simp add: AutoTrader_def plain_string_def example_link_def)

lemma format_plain_bad:
  "CHR ''%'' \<notin> set xs \<Longrightarrow> c \<noteq> CHR ''%'' \<Longrightarrow> format_plain (xs @ CHR ''%'' # c # ys) = None"
  by (induction xs) auto

text \<open>
  The trader's name is used as the format of \<open>snprintf\<close>: a name whose first percent
  sign is followed by another character makes the login read an argument that does not
  exist, and nothing is sent.
\<close>

theorem registerTrader_name_is_format:
  assumes "at_name t = xs @ CHR ''%'' # c # ys" and "CHR ''%'' \<notin> set xs" and "c \<noteq> CHR ''%''"
    and "CHR 0x00 \<notin> set (at_name t)"
  shows "registerTrader (Some t) (ml, tr) = (Inl Bad_format, ml\<lparr>ml_auto_trader := True\<rparr>, tr)"
  using c_str_no_nul [OF assms(4)] format_plain_bad [OF assms(2,3), of ys] assms(1)
  by (simp add: registerTrader_def prog_simps snprintf_def)

theorem registerTrader_name_is_format_witness:
  "registerTrader (Some (AutoTrader ''50%n'' ''password'' FutureMidpoint SimpleExecutor)) (example_link, [])
     = (Inl Bad_format, example_link\<lparr>ml_auto_trader := True\<rparr>, [])"
  by (rule registerTrader_name_is_format [where xs = "''50''" and c = "CHR ''n''" and ys = "[]"])
    (simp_all add: AutoTrader_def)

text \<open>Every system call of the connection phase succeeds.\<close>

definition execution_calls_ok :: "os \<Rightarrow> market_link \<Rightarrow> bool" where
  "execution_calls_ok os ml =
     (let sock = os_socket os SOCK_STREAM; host = ml_exec_host ml;
          port = htons (word_of_int (ml_exec_port ml)) in
      0 \<le> sock \<and> 0 < os_inet_pton os host \<and> 0 \<le> os_connect os sock host port \<and>
      0 \<le> os_setfl os sock (os_getfl os sock OR O_NONBLOCK))"

definition information_calls_ok :: "os \<Rightarrow> market_link \<Rightarrow> bool" where
  "information_calls_ok os ml =
     (let sock = os_socket os SOCK_DGRAM; host = ml_info_host ml;
          port = htons (word_of_int (ml_info_port ml)) in
      0 \<le> sock \<and> 0 \<le> os_setsockopt os sock \<and> 0 < os_inet_pton os host \<and>
      0 \<le> os_bind os sock host port \<and> 0 \<le> os_setfl os sock (os_getfl os sock OR O_NONBLOCK))"

text \<open>
  \<open>createExecutionSocket\<close> returns exactly when every system call succeeds, and then it
  returns the stream socket, connected to the configured host with the port in network order and
  set non-blocking on top of the flags it had; otherwise it throws a runtime error.
\<close>

theorem createExecutionSocket_iff:
  "case createExecutionSocket os ml tr of
     (Inl f, tr') \<Rightarrow> \<not> execution_calls_ok os ml \<and> (\<exists>what. f = Runtime_error what)
   | (Inr s, tr') \<Rightarrow> execution_calls_ok os ml \<and> s = os_socket os SOCK_STREAM \<and>
       tr' = tr @ [Stdout ''connecting to execution channel ... '',
         Sys_connect s (ml_exec_host ml) (htons (word_of_int (ml_exec_port ml))),
         Sys_setfl s (os_getfl os s OR O_NONBLOCK), Stdout (''done'' @ [CHR 0x0A])]"
  by (simp add: createExecutionSocket_def prog_simps Let_def execution_calls_ok_def)

text \<open>
  \<open>createInformationSocket\<close> returns exactly when every system call succeeds, and then it
  returns the datagram socket, made reusable before it is bound to the configured address and
  set non-blocking; otherwise it throws a runtime error. No other socket option is
  set: the socket joins no multicast group.
\<close>

theorem createInformationSocket_iff:
  "case createInformationSocket os ml tr of
     (Inl f, tr') \<Rightarrow> \<not> information_calls_ok os ml \<and> (\<exists>what. f = Runtime_error what)
   | (Inr s, tr') \<Rightarrow> information_calls_ok os ml \<and> s = os_socket os SOCK_DGRAM \<and>
       tr' = tr @ [Stdout ''connecting to information channel ... '', Sys_setsockopt s,
         Sys_bind s (ml_info_host ml) (htons (word_of_int (ml_info_port ml))),
         Sys_setfl s (os_getfl os s OR O_NONBLOCK), Stdout (''done'' @ [CHR 0x0A])]"
  by (simp add: createInformationSocket_def prog_simps Let_def information_calls_ok_def)

definition example_os :: os where
  "example_os = \<lparr>os_socket = (\<lambda>ty. case ty of SOCK_STREAM \<Rightarrow> 3 | SOCK_DGRAM \<Rightarrow> 4),
     os_inet_pton = (\<lambda>host. 1), os_setsockopt = (\<lambda>s. 0), os_connect = (\<lambda>s host port. 0),
     os_bind = (\<lambda>s host port. 0), os_getfl = (\<lambda>s. 2), os_setfl = (\<lambda>s flags. 0)\<rparr>"

lemma startup_connects:
  assumes "execution_calls_ok os (MarketLink EXEC_HOST EXEC_PORT INFO_HOST INFO_PORT)"
    and "information_calls_ok os (MarketLink EXEC_HOST EXEC_PORT INFO_HOST INFO_PORT)"
  shows "\<exists>ml t tr. startup os main_objects = (Inr (), ml, t, tr)"
proof -
  define ml0 where "ml0 = MarketLink EXEC_HOST EXEC_PORT INFO_HOST INFO_PORT"
  define t0 where "t0 = AutoTrader NAME SECRET FutureMidpoint SimpleExecutor"
  obtain tr1 where "createExecutionSocket os ml0 [] = (Inr (os_socket os SOCK_STREAM), tr1)"
    using assms(1) by (simp add: createExecutionSocket_def prog_simps Let_def execution_calls_ok_def ml0_def)
  moreover obtain tr2 where "createInformationSocket os (ml0\<lparr>ml_exec_sock := Some (os_socket os SOCK_STREAM)\<rparr>) tr1
      = (Inr (os_socket os SOCK_DGRAM), tr2)"
    using assms(2) by (simp add: createInformationSocket_def prog_simps Let_def information_calls_ok_def ml0_def)
  ultimately have init: "initConnection os (ml0, []) = (Inr (), ml0\<lparr>ml_exec_sock := Some (os_socket os SOCK_STREAM),
      ml_info_sock := Some (os_socket os SOCK_DGRAM)\<rparr>, tr2)"
    by (simp add: initConnection_def prog_simps)
  have "plain_string (at_name t0)" "plain_string (at_secret t0)"
    "length (at_name t0) < 20" "length (at_secret t0) < 50"
    by (simp_all add: t0_def AutoTrader_def plain_string_def NAME_def SECRET_def)
  with init registerTrader_plain [of t0] show ?thesis
    by (simp add: startup_def main_objects_def prog_simps ml0_def [symmetric] t0_def [symmetric]
        registerMarketLink_def Let_def del: encode_command.simps)
qed

end
