(* ===== verification/Session.thy ===== *)
theory Session
  imports Main_Program
begin

text \<open>
  The running program: what the loop keeps for any trader that meets its contract, the abstract trading
  session (midpoint and quotes as a function of the market events) and the refinement of the
  session by the loop over message bytes.
\<close>

section \<open>The loop keeps the trader's invariant\<close>

text \<open>The two failures that a read can cause: its error, and an order book read in part, into a buffer never filled before.\<close>

definition loop_failure :: "fault \<Rightarrow> read_result list \<Rightarrow> bool" where
  "loop_failure f reads \<longleftrightarrow> (\<exists>e. f = Errno e \<and> e \<noteq> EWOULDBLOCK \<and> Read_error e \<in> set reads) \<or>
     f = Uninitialised_read \<and> (\<exists>bs. Read_bytes bs \<in> set reads \<and> length bs < sizeof_Message)"

lemma loop_failure_mono: "loop_failure f xs \<Longrightarrow> set xs \<subseteq> set ys \<Longrightarrow> loop_failure f ys"
  by (auto simp: loop_failure_def)

context trader_contract
begin

lemma position_ok:
  "in_int future \<Longrightarrow> in_int etf \<Longrightarrow> trades_ok (trader_inv pinv einv) sock
     (on_fst (modify_p (AutoTrader_onPositionUpdate ex future etf)))"
  unfolding trades_ok_def
  by (intro allI impI exI [of _ "[]"]) (auto simp: prog_simps position_update_inv)

lemma status_ok:
  "trades_ok (trader_inv pinv einv) sock
     (on_fst (modify_p (AutoTrader_onOrderStatusUpdate i fill remaining fees)))"
  unfolding trades_ok_def
  by (intro allI impI exI [of _ "[]"]) (auto simp: prog_simps AutoTrader_onOrderStatusUpdate_def)

lemma unknown_ok:
  "trades_ok (trader_inv pinv einv) sock (on_snd (emit (Stderr line)))"
  unfolding trades_ok_def
  by (intro allI impI exI [of _ "[Stderr line]"] exI [of _ "[]"]) (auto simp: prog_simps)

lemma dispatch_ok:
  assumes "message_ok msg" and "ml_auto_trader ml" and "\<not> book_undetermined msg" and "ml_exec_sock ml = Some sock"
  shows "trades_ok (trader_inv pinv einv) sock (dispatch pm ex ml msg)"
  unfolding dispatch_event [OF assms(1-3)]
  using assms(4) by (simp add: event_of_def book_update_ok position_ok status_ok unknown_ok)

text \<open>
  What can end the loop, and what holds when it ends.
\<close>

lemma runLoop_ok:
  assumes "ml_auto_trader ml" and "ml_exec_sock ml = Some sock" and "ml_info_sock ml = Some sock'"
    and "message_ok msg" and "trader_inv pinv einv t cs"
    and "runLoop pm ex ml msg es rs (t, tr) = (f, t', tr')"
  shows "\<exists>new. tr' = tr @ new \<and> trader_inv pinv einv t' (cs @ sent_commands new) \<and>
    (f = Blocked \<or> f = Signed_overflow \<or> loop_failure f (es @ rs))"
  using assms(4-6)
proof (induction "length es" arbitrary: es rs msg t cs tr rule: less_induct)
  case less
  obtain res es' rs' where read: "readNextMessage ml msg es rs = (res, es', rs')"
    by (metis prod.exhaust)
  show ?case
  proof (cases res)
    case (Inl g)
    have "g = Blocked \<or> loop_failure g (es @ rs)"
      using read_cases [OF assms(2,3) read] Inl by (auto simp: loop_failure_def)
    moreover have "f = g" "t' = t" "tr' = tr"
      using less.prems(3) read Inl by (simp_all add: runLoop.simps)
    ultimately show ?thesis
      using less.prems(2) by (intro exI [of _ "[]"]) auto
  next
    case (Inr msg')
    obtain bs where bs: "Read_bytes bs \<in> set (es @ rs)" "msg' = size_to_host (read_into bs msg)"
      and subset: "set es' \<subseteq> set es" "set rs' \<subseteq> set rs"
      using read_cases [OF assms(2,3) read] Inr by auto
    have msg': "message_ok msg'"
      using less.prems(1) by (simp add: bs(2))
    have shorter: "length es' < length es"
      using readNextMessage_consumes read Inr by blast
    obtain r t1 tr1 where step: "dispatch pm ex ml msg' (t, tr) = (r, t1, tr1)"
      by (metis prod.exhaust)
    show ?thesis
    proof (cases "book_undetermined msg'")
      case True
      have "length bs < sizeof_Message"
        using True less.prems(1) by (auto simp: book_undetermined_def bs(2) message_ok_iff)
      moreover have "f = Uninitialised_read" "t' = t" "tr' = tr"
        using less.prems(3) read Inr dispatch_undetermined [OF True, of pm ex ml "(t, tr)"]
        by (simp_all add: runLoop.simps [of _ _ _ msg])
      ultimately show ?thesis
        using bs(1) less.prems(2) by (intro exI [of _ "[]"]) (auto simp: loop_failure_def)
    next
      case False
      obtain out ds where ds: "tr1 = tr @ out @ sends sock ds" "sent_commands out = []"
        "list_all wire_ok ds" "trader_inv pinv einv t1 (cs @ ds)" "r = Inr () \<or> r = Inl Signed_overflow"
        using trades_okD [OF dispatch_ok [OF msg' assms(1) False assms(2)] less.prems(2) step] by blast
      show ?thesis
      proof (cases "r = Inr ()")
        case True
        then have "runLoop pm ex ml msg' es' rs' (t1, tr1) = (f, t', tr')"
          using less.prems(3) read Inr step by (simp add: runLoop.simps [of _ _ _ msg])
        from less.hyps [OF shorter msg' ds(4) this] obtain new where new: "tr' = tr1 @ new"
          "trader_inv pinv einv t' ((cs @ ds) @ sent_commands new)"
          "f = Blocked \<or> f = Signed_overflow \<or> loop_failure f (es' @ rs')"
          by blast
        moreover have "loop_failure f (es' @ rs') \<Longrightarrow> loop_failure f (es @ rs)"
          using subset by (elim loop_failure_mono) auto
        ultimately show ?thesis
          using ds(1-3) by (intro exI [of _ "out @ sends sock ds @ new"]) auto
      next
        case False
        then show ?thesis
          using less.prems(3) read Inr step ds
          by (intro exI [of _ "out @ sends sock ds"]) (auto simp: runLoop.simps [of _ _ _ msg])
      qed
    qed
  qed
qed

end

section \<open>The abstract session\<close>

text \<open>
  A session is the theoretical price and the quotes. A book update of the future with both
  sides present moves the price to the midpoint, truncated to the tick of 100; every
  book update requotes 100 around the price; a position report is recorded; nothing else has an
  effect.
\<close>

record session =
  s_theo :: int
  s_quotes :: quotes

definition tick_midpoint :: "int \<Rightarrow> int \<Rightarrow> int" where
  "tick_midpoint a b = (a + b) sdiv 2 sdiv 100 * 100"

fun session_step :: "market_event \<Rightarrow> session \<Rightarrow> command list \<times> session" where
  "session_step (Book_event i n aps avs bps bvs) s =
     (let theo = (if i = FUTURE \<and> aps \<noteq> [] \<and> bps \<noteq> [] then tick_midpoint (hd aps) (hd bps)
                  else s_theo s);
          (cs, q) = requote (theo - 100) (theo + 100) (s_quotes s)
      in (cs, \<lparr>s_theo = theo, s_quotes = q\<rparr>))"
| "session_step (Position_event future etf) s = ([], s\<lparr>s_quotes := (s_quotes s)\<lparr>q_pos := etf\<rparr>\<rparr>)"
| "session_step _ s = ([], s)"

fun session_run :: "market_event list \<Rightarrow> session \<Rightarrow> command list \<times> session" where
  "session_run [] s = ([], s)"
| "session_run (ev # evs) s =
     (let (cs, s') = session_step ev s; (ds, s'') = session_run evs s' in (cs @ ds, s''))"

definition session_of :: "trader \<Rightarrow> session" where
  "session_of t = \<lparr>s_theo = theo_price (at_pricing_model t), s_quotes = quotes_of (at_executor t)\<rparr>"

definition session_init :: session where
  "session_init = \<lparr>s_theo = 0, s_quotes = \<lparr>q_bid = None, q_ask = None, q_last = 1, q_pos = 0\<rparr>\<rparr>"

text \<open>An event whose prices can be added without overflow.\<close>

fun no_overflow :: "market_event \<Rightarrow> bool" where
  "no_overflow (Book_event i n aps avs bps bvs) \<longleftrightarrow>
     i \<noteq> FUTURE \<or> aps = [] \<or> bps = [] \<or> in_int (hd aps + hd bps)"
| "no_overflow _ \<longleftrightarrow> True"

lemma FutureMidpoint_refines:
  "no_overflow (Book_event i n aps avs bps bvs) \<Longrightarrow>
     FutureMidpoint_onOrderBookUpdate i n aps avs bps bvs p = Inr (p\<lparr>theo_price :=
       (if i = FUTURE \<and> aps \<noteq> [] \<and> bps \<noteq> [] then tick_midpoint (hd aps) (hd bps) else theo_price p)\<rparr>)"
  by (cases "i = FUTURE \<and> aps \<noteq> [] \<and> bps \<noteq> []")
    (auto simp: midpoint_future midpoint_unchanged tick_midpoint_def)

lemma requote_last: "requote bid ask q = (cs, q') \<Longrightarrow> q_last q \<le> q_last q' \<and> q_last q' \<le> q_last q + 2"
  by (auto simp: requote_def split: prod.splits dest!: fill_side_last)

lemma session_step_last:
  "session_step ev s = (cs, s') \<Longrightarrow>
     q_last (s_quotes s) \<le> q_last (s_quotes s') \<and> q_last (s_quotes s') \<le> q_last (s_quotes s) + 2"
  by (cases "(ev, s)" rule: session_step.cases)
    (auto simp: Let_def split: prod.splits if_splits dest!: requote_last)

lemma requote_wire_ok:
  assumes "in_int bid" and "in_int ask" and "0 \<le> q_last q" and "in_int (q_last q + 2)"
    and "\<forall>i p. q_bid q = Some (i, p) \<longrightarrow> in_int i" and "\<forall>i p. q_ask q = Some (i, p) \<longrightarrow> in_int i"
  shows "list_all wire_ok (fst (requote bid ask q))"
proof -
  have "in_int (q_last q + 1)" "in_int (1 + (q_last q + 1))" "in_int 10"
    using assms(3,4) by (simp_all add: in_int_def)
  with assms show ?thesis
    by (auto simp: requote_def drop_stale_def fill_side_def split: option.splits)
qed

lemma book_event_refines:
  assumes sock: "ml_exec_sock ml = Some sock"
    and inv: "trader_inv midpoint_inv executor_inv t cs"
    and no: "no_overflow (Book_event i n aps avs bps bvs)"
    and last: "in_int (order_id (at_executor t) + 2)"
  shows "\<exists>t' out. AutoTrader_onOrderBookUpdate FutureMidpoint_ops SimpleExecutor_ops ml
        i n aps avs bps bvs (t, tr) = (Inr (), t', tr @ out @
          sends sock (fst (session_step (Book_event i n aps avs bps bvs) (session_of t)))) \<and>
      sent_commands out = [] \<and>
      list_all wire_ok (fst (session_step (Book_event i n aps avs bps bvs) (session_of t))) \<and>
      session_of t' = snd (session_step (Book_event i n aps avs bps bvs) (session_of t))"
proof -
  define theo where "theo = (if i = FUTURE \<and> aps \<noteq> [] \<and> bps \<noteq> []
    then tick_midpoint (hd aps) (hd bps) else theo_price (at_pricing_model t))"
  let ?p = "(at_pricing_model t)\<lparr>theo_price := theo\<rparr>"
  have upd: "FutureMidpoint_onOrderBookUpdate i n aps avs bps bvs (at_pricing_model t) = Inr ?p"
    unfolding theo_def by (rule FutureMidpoint_refines [OF no])
  have p: "midpoint_inv ?p" using midpoint_inv_update [OF _ upd] inv by (simp add: trader_inv_def)
  have room: "in_int (theo - 100)" "in_int (theo + 100)"
    using midpoint.price_room [OF p] by (simp_all add: FutureMidpoint_ops_def FutureMidpoint_calculateTheoPrice_def)
  have "0 \<le> order_id (at_executor t)"
    using inv by (simp add: trader_inv_def executor_inv_def ids_ok_def)
  then obtain e' where e': "SimpleExecutor_executeTrades ml (theo - 100) (theo + 100)
      (at_executor t, tr @ [theo_line theo]) = (Inr (), e', (tr @ [theo_line theo]) @
        sends sock (fst (requote (theo - 100) (theo + 100) (quotes_of (at_executor t)))))"
    "quotes_of e' = snd (requote (theo - 100) (theo + 100) (quotes_of (at_executor t)))"
    using executeTrades_refines [OF sock _ last] by blast
  let ?t = "t\<lparr>at_pricing_model := ?p, at_executor := e'\<rparr>"
  have "AutoTrader_onOrderBookUpdate FutureMidpoint_ops SimpleExecutor_ops ml i n aps avs bps bvs
      (t, tr) = (Inr (), ?t, tr @ [theo_line theo] @
        sends sock (fst (requote (theo - 100) (theo + 100) (quotes_of (at_executor t)))))"
    using upd room e' inv
    by (simp add: AutoTrader_onOrderBookUpdate_def prog_simps FutureMidpoint_ops_def
        SimpleExecutor_ops_def FutureMidpoint_calculateTheoPrice_def trader_inv_def)
  moreover have "session_step (Book_event i n aps avs bps bvs) (session_of t) =
      (fst (requote (theo - 100) (theo + 100) (quotes_of (at_executor t))),
       \<lparr>s_theo = theo, s_quotes = snd (requote (theo - 100) (theo + 100) (quotes_of (at_executor t)))\<rparr>)"
    by (simp add: session_of_def theo_def case_prod_beta Let_def)
  moreover have "list_all wire_ok (fst (requote (theo - 100) (theo + 100) (quotes_of (at_executor t))))"
    using inv last by (intro requote_wire_ok [OF room])
      (auto simp: trader_inv_def executor_inv_def ids_ok_def quotes_of_def elim: in_int_mono)
  ultimately show ?thesis
    using e'(2) by (intro exI [of _ ?t] exI [of _ "[theo_line theo]"]) (simp add: session_of_def)
qed

lemma event_refines:
  assumes "ml_exec_sock ml = Some sock"
    and "trader_inv midpoint_inv executor_inv t cs" and "no_overflow ev"
    and "in_int (order_id (at_executor t) + 2)"
  shows "\<exists>t' out. trader_event FutureMidpoint_ops SimpleExecutor_ops ml ev (t, tr)
      = (Inr (), t', tr @ out @ sends sock (fst (session_step ev (session_of t)))) \<and>
      sent_commands out = [] \<and> list_all wire_ok (fst (session_step ev (session_of t))) \<and>
      session_of t' = snd (session_step ev (session_of t))"
proof (cases ev)
  case (Book_event i n aps avs bps bvs)
  then show ?thesis using book_event_refines [OF assms(1,2) _ assms(4)] assms(3) by simp
next
  case (Status_event i fill remaining fees)
  then show ?thesis
    by (intro exI [of _ t] exI [of _ "[]"]) (simp add: prog_simps AutoTrader_onOrderStatusUpdate_def)
next
  case (Position_event future etf)
  then show ?thesis
    by (intro exI [of _ "AutoTrader_onPositionUpdate SimpleExecutor_ops future etf t"] exI [of _ "[]"])
      (simp add: prog_simps AutoTrader_onPositionUpdate_def session_of_def SimpleExecutor_ops_def
        SimpleExecutor_onPositionUpdate_def quotes_of_def)
next
  case (Unknown_event b)
  then show ?thesis
    by (intro exI [of _ t] exI [of _ "[Stderr (''unknown message type: '' @ show_int (uint b) @ [CHR 0x0A])]"])
      (simp add: prog_simps)
qed

text \<open>
  Before the future's book has been seen with both sides the price is the initial 0. The first book
  update of any kind then places both quotes, and nothing later replaces them.
\<close>

fun unpriced :: "market_event \<Rightarrow> bool" where
  "unpriced (Book_event i n aps avs bps bvs) \<longleftrightarrow> i \<noteq> FUTURE \<or> aps = [] \<or> bps = []"
| "unpriced _ \<longleftrightarrow> True"

lemma unpriced_no_overflow: "unpriced ev \<Longrightarrow> no_overflow ev"
  by (cases ev) auto

lemma session_run_unpriced:
  "list_all unpriced evs \<Longrightarrow> s_theo s = 0 \<Longrightarrow> q_bid (s_quotes s) = Some (i, - 100) \<Longrightarrow>
     q_ask (s_quotes s) = Some (j, 100) \<Longrightarrow> fst (session_run evs s) = []"
proof (induction evs arbitrary: s)
  case (Cons ev evs)
  define s' where "s' = snd (session_step ev s)"
  have "fst (session_step ev s) = [] \<and> s_theo s' = 0 \<and> q_bid (s_quotes s') = Some (i, - 100) \<and>
      q_ask (s_quotes s') = Some (j, 100)"
    using Cons.prems
    by (cases ev) (auto simp: s'_def requote_def drop_stale_def fill_side_def Let_def)
  then show ?case
    using Cons.IH [of s'] Cons.prems(1) by (simp add: s'_def case_prod_beta Let_def)
qed simp

lemma session_run_first_book:
  assumes "list_all unpriced (Book_event i n aps avs bps bvs # evs)"
  shows "fst (session_run (Book_event i n aps avs bps bvs # evs) session_init) =
    [Insert_command 2 BUY (- 100) 10 GOOD_FOR_DAY, Insert_command 3 SELL 100 10 GOOD_FOR_DAY]"
proof -
  let ?s = "\<lparr>s_theo = 0, s_quotes = \<lparr>q_bid = Some (2, - 100), q_ask = Some (3, 100), q_last = 3, q_pos = 0\<rparr>\<rparr>"
  have "session_step (Book_event i n aps avs bps bvs) session_init =
      ([Insert_command 2 BUY (- 100) 10 GOOD_FOR_DAY, Insert_command 3 SELL 100 10 GOOD_FOR_DAY], ?s)"
    using assms by (auto simp: session_init_def requote_def drop_stale_def fill_side_def Let_def)
  then show ?thesis
    using session_run_unpriced [of evs ?s 2 3] assms by (simp add: case_prod_beta Let_def del: session_step.simps)
qed

section \<open>The loop over the bytes of messages refines the session\<close>

text \<open>
  What successive reads of a socket return, as the exchange sends it: an event whole in a read of
  its own, or nothing yet.
\<close>

fun read_of :: "market_event option \<Rightarrow> read_result" where
  "read_of None = Read_error EWOULDBLOCK"
| "read_of (Some ev) = Read_bytes (encode_event ev)"

text \<open>
  The events the loop sees, in the order in which it sees them: the information socket is only
  read when the execution socket has nothing.
\<close>

fun delivered :: "market_event option list \<Rightarrow> market_event option list \<Rightarrow> market_event list" where
  "delivered [] rs = []"
| "delivered (Some ev # es) rs = ev # delivered es rs"
| "delivered (None # es) [] = []"
| "delivered (None # es) (None # rs) = delivered es rs"
| "delivered (None # es) (Some ev # rs) = ev # delivered es rs"

definition events_of :: "market_event option list \<Rightarrow> market_event list" where
  "events_of xs = map the (filter (\<lambda>x. x \<noteq> None) xs)"

lemma events_of_simps [simp]:
  "events_of [] = []" "events_of (None # xs) = events_of xs" "events_of (Some ev # xs) = ev # events_of xs"
  by (simp_all add: events_of_def)

lemma delivered_subset: "set (delivered es rs) \<subseteq> set (events_of es) \<union> set (events_of rs)"
  by (induction es rs rule: delivered.induct) auto

lemma length_delivered: "length (delivered es rs) \<le> length es"
  by (induction es rs rule: delivered.induct) auto

text \<open>One message, whole in the buffer: the loop's body is a step of the session.\<close>

lemma dispatch_refines:
  assumes link: "ml_auto_trader ml" "ml_exec_sock ml = Some sock"
    and "message_ok msg \<and> \<not> book_undetermined msg" and "event_of msg = ev" and inv: "trader_inv midpoint_inv executor_inv t cs"
    and "no_overflow ev" and last: "in_int (order_id (at_executor t) + 2)"
  obtains t1 out where "dispatch FutureMidpoint_ops SimpleExecutor_ops ml msg (t, tr)
        = (Inr (), t1, tr @ out @ sends sock (fst (session_step ev (session_of t))))"
    and "sent_commands out = []" and "list_all wire_ok (fst (session_step ev (session_of t)))"
    and "session_of t1 = snd (session_step ev (session_of t))"
    and "trader_inv midpoint_inv executor_inv t1 (cs @ fst (session_step ev (session_of t)))"
    and "order_id (at_executor t1) \<le> order_id (at_executor t) + 2"
proof -
  define ds where "ds = fst (session_step ev (session_of t))"
  have "\<exists>t1 out. dispatch FutureMidpoint_ops SimpleExecutor_ops ml msg (t, tr)
        = (Inr (), t1, tr @ out @ sends sock ds) \<and> sent_commands out = [] \<and>
      list_all wire_ok ds \<and> session_of t1 = snd (session_step ev (session_of t))"
    using event_refines [OF link(2) inv _ last, of ev tr] assms(4,6)
    by (simp add: dispatch_event [OF _ link(1)] assms(3) ds_def)
  then obtain t1 out where step: "dispatch FutureMidpoint_ops SimpleExecutor_ops ml msg (t, tr)
        = (Inr (), t1, tr @ out @ sends sock ds)" and out: "sent_commands out = []"
    and ds: "list_all wire_ok ds" and t1: "session_of t1 = snd (session_step ev (session_of t))"
    by blast
  obtain out' ds' where "tr @ out @ sends sock ds = tr @ out' @ sends sock ds'"
      "sent_commands out' = []" "list_all wire_ok ds'" and inv': "trader_inv midpoint_inv executor_inv t1 (cs @ ds')"
    by (rule trades_okD [OF andy.dispatch_ok [OF conjunct1 [OF assms(3)] link(1) conjunct2 [OF assms(3)] link(2)] inv step]) auto
  then have "ds' = ds"
    using out ds by (metis append_Nil same_append_eq sent_commands_append sent_commands_sends)
  with inv' have inv1: "trader_inv midpoint_inv executor_inv t1 (cs @ ds)" by simp
  have "order_id (at_executor t1) \<le> order_id (at_executor t) + 2"
    using session_step_last [of ev "session_of t"] t1
    by (cases "session_step ev (session_of t)") (auto simp: session_of_def quotes_of_def)
  then show thesis using that [of t1 out] step out ds t1 inv1 by (simp add: ds_def)
qed

text \<open>
  One message read, from either socket: what holds of the rest of the run holds of the whole.
\<close>

lemma loop_step:
  assumes link: "ml_auto_trader ml" "ml_exec_sock ml = Some sock" "ml_info_sock ml = Some sock'"
    and msg': "message_ok msg' \<and> \<not> book_undetermined msg'" "event_of msg' = ev"
    and read: "readNextMessage ml msg es rs = (Inr msg', es', rs')"
    and rest: "\<And>msg t cs tr. message_ok msg \<Longrightarrow> trader_inv midpoint_inv executor_inv t cs \<Longrightarrow> P \<Longrightarrow>
      in_int (order_id (at_executor t) + 2 * int (length evs)) \<Longrightarrow>
      \<exists>t' new. runLoop FutureMidpoint_ops SimpleExecutor_ops ml msg es' rs' (t, tr) = (Blocked, t', tr @ new) \<and>
        sent_commands new = fst (session_run evs (session_of t)) \<and>
        session_of t' = snd (session_run evs (session_of t))"
    and inv: "trader_inv midpoint_inv executor_inv t cs" and "P" and no: "no_overflow ev"
    and last: "in_int (order_id (at_executor t) + 2 * int (length (ev # evs)))"
  shows "\<exists>t' new. runLoop FutureMidpoint_ops SimpleExecutor_ops ml msg es rs (t, tr) = (Blocked, t', tr @ new) \<and>
      sent_commands new = fst (session_run (ev # evs) (session_of t)) \<and>
      session_of t' = snd (session_run (ev # evs) (session_of t))"
proof -
  have last': "in_int (order_id (at_executor t) + 2)"
    using inv last by (auto simp: in_int_def trader_inv_def executor_inv_def ids_ok_def)
  define ds where "ds = fst (session_step ev (session_of t))"
  obtain t1 out where step: "dispatch FutureMidpoint_ops SimpleExecutor_ops ml msg' (t, tr)
        = (Inr (), t1, tr @ out @ sends sock ds)" and out: "sent_commands out = []"
    and ds: "list_all wire_ok ds" and t1: "session_of t1 = snd (session_step ev (session_of t))"
    and inv1: "trader_inv midpoint_inv executor_inv t1 (cs @ ds)"
    and "order_id (at_executor t1) \<le> order_id (at_executor t) + 2"
    unfolding ds_def using dispatch_refines [OF link(1,2) msg' inv no last'] by metis
  then have "in_int (order_id (at_executor t1) + 2 * int (length evs))"
    using last by (auto simp: in_int_def trader_inv_def executor_inv_def ids_ok_def)
  from rest [OF conjunct1 [OF msg'(1)] inv1 \<open>P\<close> this, of "tr @ out @ sends sock ds"] obtain t' new where
    rest: "runLoop FutureMidpoint_ops SimpleExecutor_ops ml msg' es' rs' (t1, tr @ out @ sends sock ds)
        = (Blocked, t', (tr @ out @ sends sock ds) @ new)"
    "sent_commands new = fst (session_run evs (session_of t1))"
    "session_of t' = snd (session_run evs (session_of t1))" by blast
  have "runLoop FutureMidpoint_ops SimpleExecutor_ops ml msg es rs (t, tr)
        = (Blocked, t', tr @ out @ sends sock ds @ new)"
    using read step rest(1) by (subst runLoop.simps) simp
  with rest(2,3) out ds t1 show ?thesis
    by (intro exI [of _ t'] exI [of _ "out @ sends sock ds @ new"])
      (simp add: ds_def case_prod_beta Let_def)
qed

text \<open>The bound on the order ids leaves two fresh ids for each event.\<close>

lemma loop_refines_session:
  assumes link: "ml_auto_trader ml" "ml_exec_sock ml = Some sock" "ml_info_sock ml = Some sock'"
    and "message_ok msg" and "trader_inv midpoint_inv executor_inv t cs"
    and "\<forall>ev \<in> set (events_of es) \<union> set (events_of rs). event_ok ev \<and> no_overflow ev"
    and "in_int (order_id (at_executor t) + 2 * int (length (delivered es rs)))"
  shows "\<exists>t' new. runLoop FutureMidpoint_ops SimpleExecutor_ops ml msg
        (map read_of es) (map read_of rs) (t, tr) = (Blocked, t', tr @ new) \<and>
      sent_commands new = fst (session_run (delivered es rs) (session_of t)) \<and>
      session_of t' = snd (session_run (delivered es rs) (session_of t))"
  using assms(4-7)
proof (induction es rs arbitrary: msg t cs tr rule: delivered.induct)
  case (1 rs)
  then show ?case
    using link by (intro exI [of _ t] exI [of _ "[]"])
      (simp add: runLoop.simps readNextMessage.simps)
next
  case (3 es)
  then show ?case
    using link by (intro exI [of _ t] exI [of _ "[]"])
      (simp add: runLoop.simps readNextMessage.simps)
next
  case (4 es rs)
  have "readNextMessage ml msg (map read_of (None # es)) (map read_of (None # rs)) =
      readNextMessage ml msg (map read_of es) (map read_of rs)"
    using link by (subst readNextMessage.simps) simp
  then have "runLoop FutureMidpoint_ops SimpleExecutor_ops ml msg (map read_of (None # es))
      (map read_of (None # rs)) (t, tr) =
    runLoop FutureMidpoint_ops SimpleExecutor_ops ml msg (map read_of es) (map read_of rs) (t, tr)"
    by (simp add: runLoop.simps [of _ _ _ msg])
  with "4.IH" [OF "4.prems"(1,2)] "4.prems"(3,4) show ?case by simp
next
  case (2 ev es rs)
  define msg' where "msg' = size_to_host (read_into (encode_event ev) msg)"
  have msg': "message_ok msg' \<and> \<not> book_undetermined msg'" "event_of msg' = ev"
    using 2 event_of_read [of ev "[]" msg] length_encode_event [of ev]
    by (simp_all add: msg'_def)
  have "readNextMessage ml msg (map read_of (Some ev # es)) (map read_of rs) =
      (Inr msg', map read_of es, map read_of rs)"
    using readNextMessage_exec [OF link(2)] by (simp add: msg'_def)
  from loop_step [OF link msg' this "2.IH"] "2.prems" show ?case by simp
next
  case (5 es ev rs)
  define msg' where "msg' = size_to_host (read_into (encode_event ev) msg)"
  have msg': "message_ok msg' \<and> \<not> book_undetermined msg'" "event_of msg' = ev"
    using 5 event_of_read [of ev "[]" msg] length_encode_event [of ev]
    by (simp_all add: msg'_def)
  have "readNextMessage ml msg (map read_of (None # es)) (map read_of (Some ev # rs)) =
      (Inr msg', map read_of es, map read_of rs)"
    using link by (subst readNextMessage.simps) (simp add: msg'_def)
  from loop_step [OF link msg' this "5.IH"] "5.prems" show ?case by simp
qed

section \<open>The whole program\<close>

lemma executor_inv_login: "executor_inv SimpleExecutor [login_command]"
  by (auto simp: executor_inv_def ids_ok_def SimpleExecutor_def in_int_def fresh_ids_def
      own_orders_def resting_def login_command_def)

lemma registered_trader_inv: "trader_inv midpoint_inv executor_inv registered_trader [login_command]"
  by (simp add: trader_inv_def registered_trader_def AutoTrader_def midpoint_inv_init executor_inv_login)

lemma session_of_registered: "session_of registered_trader = session_init"
  by (simp add: session_of_def registered_trader_def AutoTrader_def FutureMidpoint_def session_init_def
      SimpleExecutor_def quotes_of_def)

lemma connected_link_simps [simp]:
  "ml_auto_trader (connected_link os)"
  "ml_exec_sock (connected_link os) = Some (os_socket os SOCK_STREAM)"
  "ml_info_sock (connected_link os) = Some (os_socket os SOCK_DGRAM)"
  by (simp_all add: connected_link_def)

lemma handle_fault_sent [simp]: "sent_commands (snd (handle_fault f tr)) = sent_commands tr"
  by (cases "(f, tr)" rule: handle_fault.cases) simp_all

text \<open>The whole program over two feeds of whole messages.\<close>

lemma main_runs_session:
  assumes "execution_calls_ok os (MarketLink EXEC_HOST EXEC_PORT INFO_HOST INFO_PORT)"
    and "information_calls_ok os (MarketLink EXEC_HOST EXEC_PORT INFO_HOST INFO_PORT)"
    and "\<forall>ev \<in> set (events_of es) \<union> set (events_of rs). event_ok ev \<and> no_overflow ev"
    and "length (delivered es rs) \<le> 1000000000"
  shows "\<exists>tr. main_program os (map read_of es) (map read_of rs) = (Waiting, tr) \<and>
    sent_commands tr = login_command # fst (session_run (delivered es rs) session_init)"
proof -
  obtain ml t tr where start: "startup os main_objects = (Inr (), ml, t, tr)"
    using startup_connects [OF assms(1,2)] by blast
  have ml: "ml = connected_link os" and t: "t = registered_trader" and tr: "sent_commands tr = [login_command]"
    using startup_cases [OF start] by simp_all
  have "in_int (order_id (at_executor registered_trader) + 2 * int (length (delivered es rs)))"
    using assms(4) by (simp add: registered_trader_def AutoTrader_def SimpleExecutor_def in_int_def)
  then obtain t' new where "runLoop FutureMidpoint_ops SimpleExecutor_ops ml Message_init
        (map read_of es) (map read_of rs) (t, tr) = (Blocked, t', tr @ new)"
      "sent_commands new = fst (session_run (delivered es rs) (session_of registered_trader))"
    using loop_refines_session [OF connected_link_simps message_ok_init registered_trader_inv assms(3)]
    unfolding ml t by blast
  with start tr show ?thesis by (simp add: main_program_def main_body_def session_of_registered)
qed

text \<open>What any run of the program has sent, and how it can end.\<close>

lemma main_program_cases:
  assumes "main_program os es rs = (r, tr)"
  shows "r = Waiting \<or> r = Stopped Signed_overflow \<or>
      r = Stopped Uninitialised_read \<and> (\<exists>bs. Read_bytes bs \<in> set (es @ rs) \<and> length bs < sizeof_Message) \<or>
      r = Stopped Bad_delete \<and> (\<exists>tr' line. tr = tr' @ [Stderr line]) \<and>
        (\<not> execution_calls_ok os (MarketLink EXEC_HOST EXEC_PORT INFO_HOST INFO_PORT) \<or>
         \<not> information_calls_ok os (MarketLink EXEC_HOST EXEC_PORT INFO_HOST INFO_PORT) \<or>
         (\<exists>e. e \<noteq> EWOULDBLOCK \<and> Read_error e \<in> set (es @ rs)))"
    and "sent_commands tr = [] \<or> (\<exists>e. executor_inv e (sent_commands tr))"
proof -
  obtain u ml t tr0 where start: "startup os main_objects = (u, ml, t, tr0)"
    by (metis prod.exhaust)
  note start_cases = startup_cases [OF start]
  define ok where "ok \<longleftrightarrow> execution_calls_ok os (MarketLink EXEC_HOST EXEC_PORT INFO_HOST INFO_PORT) \<and>
      information_calls_ok os (MarketLink EXEC_HOST EXEC_PORT INFO_HOST INFO_PORT)"
  have "(r = Waiting \<or> r = Stopped Signed_overflow \<or>
      r = Stopped Uninitialised_read \<and> (\<exists>bs. Read_bytes bs \<in> set (es @ rs) \<and> length bs < sizeof_Message) \<or>
      r = Stopped Bad_delete \<and> (\<exists>tr' line. tr = tr' @ [Stderr line]) \<and>
        (\<not> ok \<or> (\<exists>e. e \<noteq> EWOULDBLOCK \<and> Read_error e \<in> set (es @ rs)))) \<and>
    (sent_commands tr = [] \<or> (\<exists>e. executor_inv e (sent_commands tr)))"
  proof (cases u)
    case (Inl f)
    then have "\<not> ok"
      using startup_connects [of os] start by (auto simp: ok_def)
    then show ?thesis
      using Inl start start_cases assms by (auto simp: main_program_def main_body_def)
  next
    case (Inr v)
    with start_cases have ml: "ml = connected_link os" and t: "t = registered_trader"
      and tr0: "sent_commands tr0 = [login_command]" by simp_all
    obtain f t' tr' where loop: "runLoop FutureMidpoint_ops SimpleExecutor_ops ml Message_init es rs (t, tr0)
        = (f, t', tr')" by (metis prod.exhaust)
    obtain new where new: "tr' = tr0 @ new"
      "trader_inv midpoint_inv executor_inv t' ([login_command] @ sent_commands new)"
      "f = Blocked \<or> f = Signed_overflow \<or> loop_failure f (es @ rs)"
      using andy.runLoop_ok [OF _ _ _ message_ok_init registered_trader_inv, of ml] loop t ml
      by fastforce
    have sent: "sent_commands tr' = [login_command] @ sent_commands new"
      using new(1) tr0 by simp
    have "(r, tr) = leave_main (handle_fault f tr')"
      using start Inr loop assms by (simp add: main_program_def main_body_def)
    with new(2,3) sent show ?thesis
      by (auto simp: trader_inv_def loop_failure_def)
  qed
  then show "r = Waiting \<or> r = Stopped Signed_overflow \<or>
      r = Stopped Uninitialised_read \<and> (\<exists>bs. Read_bytes bs \<in> set (es @ rs) \<and> length bs < sizeof_Message) \<or>
      r = Stopped Bad_delete \<and> (\<exists>tr' line. tr = tr' @ [Stderr line]) \<and>
        (\<not> execution_calls_ok os (MarketLink EXEC_HOST EXEC_PORT INFO_HOST INFO_PORT) \<or>
         \<not> information_calls_ok os (MarketLink EXEC_HOST EXEC_PORT INFO_HOST INFO_PORT) \<or>
         (\<exists>e. e \<noteq> EWOULDBLOCK \<and> Read_error e \<in> set (es @ rs)))"
    and "sent_commands tr = [] \<or> (\<exists>e. executor_inv e (sent_commands tr))"
    unfolding ok_def by blast+
qed

end
