(* ===== verification/Demangle_State.thy ===== *)
theory Demangle_State
  imports Prelude
begin

text \<open>
  \<open>libs/abseil-cpp-master/absl/debugging/internal/demangle.cc\<close>, first part: the tables of
  abbreviations, \<open>ParseState\<close> and \<open>State\<close>, the complexity guard, and the functions that
  write the output buffer. The parsers are in \<open>Demangle_Tokens\<close> and \<open>Demangle_Parse\<close>.

  A C string is its characters without the terminator; reading the character at its
  length gives the terminator and reading further is out of bounds. The output buffer is a
  list of characters, the memory the caller owns.
\<close>

section \<open>Tables\<close>

text \<open>Abbreviation, real name, arity; the loops stop at the null entry, here the list's end.\<close>

type_synonym abbrev_pair = "string \<times> string \<times> int"

definition kOperatorList :: "abbrev_pair list" where
  "kOperatorList =
    [(''nw'', ''new'', 0), (''na'', ''new[]'', 0), (''dl'', ''delete'', 1),
     (''da'', ''delete[]'', 1), (''ps'', ''+'', 1), (''ng'', ''-'', 1), (''ad'', ''&'', 1),
     (''de'', ''*'', 1), (''co'', ''~'', 1), (''pl'', ''+'', 2), (''mi'', ''-'', 2),
     (''ml'', ''*'', 2), (''dv'', ''/'', 2), (''rm'', ''%'', 2), (''an'', ''&'', 2),
     (''or'', ''|'', 2), (''eo'', ''^'', 2), (''aS'', ''='', 2), (''pL'', ''+='', 2),
     (''mI'', ''-='', 2), (''mL'', ''*='', 2), (''dV'', ''/='', 2), (''rM'', ''%='', 2),
     (''aN'', ''&='', 2), (''oR'', ''|='', 2), (''eO'', ''^='', 2), (''ls'', ''<<'', 2),
     (''rs'', ''>>'', 2), (''lS'', ''<<='', 2), (''rS'', ''>>='', 2), (''eq'', ''=='', 2),
     (''ne'', ''!='', 2), (''lt'', ''<'', 2), (''gt'', ''>'', 2), (''le'', ''<='', 2),
     (''ge'', ''>='', 2), (''nt'', ''!'', 1), (''aa'', ''&&'', 2), (''oo'', ''||'', 2),
     (''pp'', ''++'', 1), (''mm'', ''--'', 1), (''cm'', '','', 2), (''pm'', ''->*'', 2),
     (''pt'', ''->'', 0), (''cl'', ''()'', 0), (''ix'', ''[]'', 2), (''qu'', ''?'', 3),
     (''st'', ''sizeof'', 0), (''sz'', ''sizeof'', 1)]"

definition kBuiltinTypeList :: "abbrev_pair list" where
  "kBuiltinTypeList =
    [(''v'', ''void'', 0), (''w'', ''wchar_t'', 0), (''b'', ''bool'', 0),
     (''c'', ''char'', 0), (''a'', ''signed char'', 0), (''h'', ''unsigned char'', 0),
     (''s'', ''short'', 0), (''t'', ''unsigned short'', 0), (''i'', ''int'', 0),
     (''j'', ''unsigned int'', 0), (''l'', ''long'', 0), (''m'', ''unsigned long'', 0),
     (''x'', ''long long'', 0), (''y'', ''unsigned long long'', 0),
     (''n'', ''__int128'', 0), (''o'', ''unsigned __int128'', 0), (''f'', ''float'', 0),
     (''d'', ''double'', 0), (''e'', ''long double'', 0), (''g'', ''__float128'', 0),
     (''z'', ''ellipsis'', 0), (''De'', ''decimal128'', 0), (''Dd'', ''decimal64'', 0),
     (''Dc'', ''decltype(auto)'', 0), (''Da'', ''auto'', 0),
     (''Dn'', ''std::nullptr_t'', 0), (''Df'', ''decimal32'', 0), (''Di'', ''char32_t'', 0),
     (''Du'', ''char8_t'', 0), (''Ds'', ''char16_t'', 0), (''Dh'', ''float16'', 0)]"

definition kSubstitutionList :: "abbrev_pair list" where
  "kSubstitutionList =
    [(''St'', '''', 0), (''Sa'', ''allocator'', 0), (''Sb'', ''basic_string'', 0),
     (''Ss'', ''string'', 0), (''Si'', ''istream'', 0), (''So'', ''ostream'', 0),
     (''Sd'', ''iostream'', 0)]"

section \<open>State\<close>

text \<open>The part that is saved and restored; the bit fields keep 16 and 15 bits.\<close>

record parse_state =
  mangled_idx :: nat
  out_cur_idx :: int
  prev_name_idx :: int
  prev_name_length :: int
  nest_level :: int
  append_flag :: bool

record dstate =
  mangled_begin :: string
  out_buf :: string
  out_end_idx :: int
  recursion_depth :: int
  steps :: int
  parse_state :: parse_state

definition ps_update :: "(parse_state \<Rightarrow> parse_state) \<Rightarrow> dstate \<Rightarrow> dstate" where
  "ps_update f s = s\<lparr>parse_state := f (parse_state s)\<rparr>"

definition InitState :: "string \<Rightarrow> string \<Rightarrow> int \<Rightarrow> dstate" where
  "InitState mangled out out_size =
     \<lparr>mangled_begin = mangled, out_buf = out, out_end_idx = out_size,
      recursion_depth = 0, steps = 0,
      parse_state = \<lparr>mangled_idx = 0, out_cur_idx = 0, prev_name_idx = 0,
        prev_name_length = - 1, nest_level = - 1, append_flag = True\<rparr>\<rparr>"

section \<open>Sequencing\<close>

text \<open>
  A parsing function returns a value and the new state. It can also read or write out of
  bounds, or compute an index that its C++ type \<open>int\<close> does not hold, and the model can run out of
  the fuel that bounds its recursion.
\<close>

datatype 'a dres = Done 'a dstate | Out_of_bounds | Out_of_fuel

type_synonym 'a dem = "dstate \<Rightarrow> 'a dres"

definition ret :: "'a \<Rightarrow> 'a dem" where
  "ret a s = Done a s"

definition bind_d :: "'a dem \<Rightarrow> ('a \<Rightarrow> 'b dem) \<Rightarrow> 'b dem" where
  "bind_d m f s = (case m s of
     Done a s' \<Rightarrow> f a s' | Out_of_bounds \<Rightarrow> Out_of_bounds | Out_of_fuel \<Rightarrow> Out_of_fuel)"

definition get_d :: "(dstate \<Rightarrow> 'a) \<Rightarrow> 'a dem" where
  "get_d f s = Done (f s) s"

definition do_d :: "(dstate \<Rightarrow> dstate) \<Rightarrow> bool dem" where
  "do_d f s = Done True (f s)"

text \<open>The indices into the name and the output are of type \<open>int\<close>.\<close>

definition index_d :: "int \<Rightarrow> int dem" where
  "index_d i s = (if in_int i then Done i s else Out_of_bounds)"

text \<open>\<open>m && n\<close>, \<open>m || n\<close> and chains of them.\<close>

definition and_d :: "bool dem \<Rightarrow> bool dem \<Rightarrow> bool dem" where
  "and_d m n = bind_d m (\<lambda>b. if b then n else ret False)"

definition or_d :: "bool dem \<Rightarrow> bool dem \<Rightarrow> bool dem" where
  "or_d m n = bind_d m (\<lambda>b. if b then ret True else n)"

fun all_of :: "bool dem list \<Rightarrow> bool dem" where
  "all_of [] = ret True"
| "all_of [m] = m"
| "all_of (m # ms) = and_d m (all_of ms)"

fun any_of :: "bool dem list \<Rightarrow> bool dem" where
  "any_of [] = ret False"
| "any_of [m] = m"
| "any_of (m # ms) = or_d m (any_of ms)"

text \<open>\<open>ParseState copy = state->parse_state\<close>, and the idiom
  \<open>if (m) return true; state->parse_state = copy; n\<close>.\<close>

definition save :: "(parse_state \<Rightarrow> 'a dem) \<Rightarrow> 'a dem" where
  "save f = bind_d (get_d parse_state) f"

definition restore :: "parse_state \<Rightarrow> bool dem" where
  "restore copy = do_d (\<lambda>s. s\<lparr>parse_state := copy\<rparr>)"

definition try_else :: "parse_state \<Rightarrow> bool dem \<Rightarrow> bool dem \<Rightarrow> bool dem" where
  "try_else copy m n = bind_d m (\<lambda>b. if b then ret True else bind_d (restore copy) (\<lambda>_. n))"

text \<open>Whether an optional result is there.\<close>

definition found :: "'a option dem \<Rightarrow> bool dem" where
  "found m = bind_d m (\<lambda>r. ret (r \<noteq> None))"

definition Optional :: "bool dem \<Rightarrow> bool dem" where
  "Optional m = bind_d m (\<lambda>_. ret True)"

section \<open>The complexity guard\<close>

definition kRecursionDepthLimit :: int where "kRecursionDepthLimit = 256"
definition kParseStepsLimit :: int where "kParseStepsLimit = 131072"

definition IsTooComplex :: "dstate \<Rightarrow> bool" where
  "IsTooComplex s \<longleftrightarrow> recursion_depth s > kRecursionDepthLimit \<or> steps s > kParseStepsLimit"

text \<open>The destructor runs on every way out of the function that holds the guard.\<close>

definition guarded_d :: "'a \<Rightarrow> 'a dem \<Rightarrow> 'a dem" where
  "guarded_d too_complex m s =
     (let s1 = s\<lparr>recursion_depth := recursion_depth s + 1, steps := steps s + 1\<rparr>
      in bind_d (if IsTooComplex s1 then ret too_complex else m)
           (\<lambda>a. bind_d (do_d (\<lambda>s. s\<lparr>recursion_depth := recursion_depth s - 1\<rparr>)) (\<lambda>_. ret a)) s1)"

section \<open>Strings\<close>

abbreviation NUL :: char where "NUL \<equiv> CHR 0x00"

definition char_at :: "string \<Rightarrow> nat \<Rightarrow> char option" where
  "char_at str i = (if i < length str then Some (str ! i) else if i = length str then Some NUL else None)"

definition StrLen :: "string \<Rightarrow> nat" where
  "StrLen str = length (takeWhile (\<lambda>c. c \<noteq> NUL) str)"

definition AtLeastNumCharsRemaining :: "string \<Rightarrow> int \<Rightarrow> bool" where
  "AtLeastNumCharsRemaining str n \<longleftrightarrow> n \<le> int (StrLen str)"

fun StrPrefix :: "string \<Rightarrow> string \<Rightarrow> bool" where
  "StrPrefix (c # str) (d # prefix) = (c = d \<and> StrPrefix str prefix)"
| "StrPrefix str prefix = (prefix = [])"

definition IsLower :: "char \<Rightarrow> bool" where
  "IsLower c \<longleftrightarrow> of_char c \<ge> (of_char (CHR ''a'') :: int) \<and> of_char c \<le> (of_char (CHR ''z'') :: int)"

definition IsAlpha :: "char \<Rightarrow> bool" where
  "IsAlpha c \<longleftrightarrow> IsLower c \<or>
     of_char c \<ge> (of_char (CHR ''A'') :: int) \<and> of_char c \<le> (of_char (CHR ''Z'') :: int)"

definition IsDigit :: "char \<Rightarrow> bool" where
  "IsDigit c \<longleftrightarrow> of_char c \<ge> (of_char (CHR ''0'') :: int) \<and> of_char c \<le> (of_char (CHR ''9'') :: int)"

lemma clone_suffix_shrinks:
  assumes "dropWhile IsAlpha (tl str0) = c2 # str2"
  shows "length (dropWhile IsDigit (tl str2)) < Suc (length str0)"
proof -
  have "length (dropWhile IsDigit (tl str2)) \<le> length str2"
    using length_dropWhile_le [of IsDigit "tl str2"] by simp
  also have "\<dots> < length (dropWhile IsAlpha (tl str0))" by (simp add: assms)
  also have "\<dots> \<le> length str0" using length_dropWhile_le [of IsAlpha "tl str0"] by simp
  finally show ?thesis by simp
qed

text \<open>Any sequence \<open>(.<alpha>+.<digit>+)+\<close>, consumed from the left.\<close>

function IsFunctionCloneSuffix :: "string \<Rightarrow> bool" where
  "IsFunctionCloneSuffix str =
     (case str of
        [] \<Rightarrow> True
      | c0 # str0 \<Rightarrow>
          if c0 \<noteq> CHR ''.'' \<or> \<not> (case str0 of [] \<Rightarrow> False | c1 # _ \<Rightarrow> IsAlpha c1) then False
          else (case dropWhile IsAlpha (tl str0) of
              [] \<Rightarrow> False
            | c2 # str2 \<Rightarrow>
                if c2 \<noteq> CHR ''.'' \<or> \<not> (case str2 of [] \<Rightarrow> False | c3 # _ \<Rightarrow> IsDigit c3) then False
                else IsFunctionCloneSuffix (dropWhile IsDigit (tl str2))))"
  by pat_completeness auto
termination
  by (relation "measure length") (simp_all add: clone_suffix_shrinks)

declare IsFunctionCloneSuffix.simps [simp del]

definition RemainingInput :: "dstate \<Rightarrow> string" where
  "RemainingInput s = drop (mangled_idx (parse_state s)) (mangled_begin s)"

text \<open>\<open>RemainingInput(state)[k]\<close>; the cursor itself must not be past the terminator.\<close>

definition input_at :: "nat \<Rightarrow> char dem" where
  "input_at k s = (case char_at (mangled_begin s) (mangled_idx (parse_state s) + k) of
      None \<Rightarrow> Out_of_bounds | Some c \<Rightarrow> Done c s)"

definition advance :: "nat \<Rightarrow> bool dem" where
  "advance n =
     bind_d (get_d (\<lambda>s. int (mangled_idx (parse_state s)))) (\<lambda>idx.
     bind_d (index_d (idx + int n)) (\<lambda>idx.
     do_d (ps_update (\<lambda>p. p\<lparr>mangled_idx := nat idx\<rparr>))))"

section \<open>Output\<close>

text \<open>What a \<open>const char *\<close> points to: constant text, or a place in the output buffer itself.\<close>

datatype source_text = Text string | Output int

fun read_char :: "source_text \<Rightarrow> nat \<Rightarrow> char dem" where
  "read_char (Text t) i s = (case char_at t i of None \<Rightarrow> Out_of_bounds | Some c \<Rightarrow> Done c s)"
| "read_char (Output p) i s =
     (if 0 \<le> p + int i \<and> p + int i < int (length (out_buf s)) then Done (out_buf s ! nat (p + int i)) s
      else Out_of_bounds)"

definition write_char :: "int \<Rightarrow> char \<Rightarrow> bool dem" where
  "write_char i c s =
     (if 0 \<le> i \<and> i < int (length (out_buf s)) then Done True (s\<lparr>out_buf := (out_buf s)[nat i := c]\<rparr>)
      else Out_of_bounds)"

definition set_out :: "int \<Rightarrow> bool dem" where
  "set_out i = do_d (ps_update (\<lambda>p. p\<lparr>out_cur_idx := i\<rparr>))"

definition out_cur :: "dstate \<Rightarrow> int" where
  "out_cur s = out_cur_idx (parse_state s)"

text \<open>The loop of \<open>Append\<close>, with \<open>n\<close> characters of \<open>str\<close> left from index \<open>i\<close> on.\<close>

fun Append_loop :: "source_text \<Rightarrow> nat \<Rightarrow> nat \<Rightarrow> bool dem" where
  "Append_loop str i 0 = ret True"
| "Append_loop str i (Suc n) =
     bind_d (get_d (\<lambda>s. (out_cur s, out_end_idx s))) (\<lambda>(cur, end).
     bind_d (index_d (cur + 1)) (\<lambda>next.
       if next < end
       then bind_d (read_char str i) (\<lambda>c. bind_d (write_char cur c) (\<lambda>_.
              bind_d (set_out next) (\<lambda>_. Append_loop str (i + 1) n)))
       else bind_d (index_d (end + 1)) set_out))"

definition Append :: "source_text \<Rightarrow> int \<Rightarrow> bool dem" where
  "Append str len =
     bind_d (Append_loop str 0 (nat len)) (\<lambda>_.
     bind_d (get_d (\<lambda>s. (out_cur s, out_end_idx s))) (\<lambda>(cur, end).
       if cur < end then write_char cur NUL else ret True))"

definition EndsWith :: "char \<Rightarrow> bool dem" where
  "EndsWith chr = bind_d (get_d (\<lambda>s. (out_cur s, out_end_idx s))) (\<lambda>(cur, end).
     if 0 < cur \<and> cur < end then bind_d (read_char (Output (cur - 1)) 0) (\<lambda>c. ret (chr = c)) else ret False)"

text \<open>A signed bit field of \<open>w\<close> bits keeps the low bits of what is stored.\<close>

definition bit_field :: "nat \<Rightarrow> int \<Rightarrow> int" where
  "bit_field w i = signed_take_bit (w - 1) i"

definition MaybeAppendWithLength :: "source_text \<Rightarrow> int \<Rightarrow> bool dem" where
  "MaybeAppendWithLength str len =
     bind_d (get_d (\<lambda>s. append_flag (parse_state s))) (\<lambda>append.
     if append \<and> len > 0 then
       bind_d (read_char str 0) (\<lambda>c.
       bind_d (and_d (ret (c = CHR ''<'')) (EndsWith (CHR ''<''))) (\<lambda>b.
       bind_d (if b then Append (Text '' '') 1 else ret True) (\<lambda>_.
       bind_d (read_char str 0) (\<lambda>c.
       bind_d (get_d (\<lambda>s. (out_cur s, out_end_idx s))) (\<lambda>(cur, end).
       bind_d (if cur < end \<and> (IsAlpha c \<or> c = CHR ''_'')
               then do_d (ps_update (\<lambda>p. p\<lparr>prev_name_idx := cur, prev_name_length := bit_field 16 len\<rparr>))
               else ret True) (\<lambda>_.
       Append str len))))))
     else ret True)"

definition digit_char :: "nat \<Rightarrow> char" where
  "digit_char d = char_of (of_char (CHR ''0'') + d)"

text \<open>\<open>do *--p = ... while (p > buf && val != 0)\<close>, with \<open>room\<close> positions before \<open>p\<close>.\<close>

fun decimal_loop :: "nat \<Rightarrow> nat \<Rightarrow> string \<Rightarrow> string" where
  "decimal_loop 0 val acc = acc"
| "decimal_loop (Suc room) val acc =
     (let acc = digit_char (val mod 10) # acc; val = val div 10
      in if 0 < room \<and> val \<noteq> 0 then decimal_loop room val acc else acc)"

definition MaybeAppendDecimal :: "32 word \<Rightarrow> bool dem" where
  "MaybeAppendDecimal val =
     bind_d (get_d (\<lambda>s. append_flag (parse_state s))) (\<lambda>append.
     if append then
       (let digits = decimal_loop 20 (unat val) [] in
        bind_d (Append (Text digits) (int (length digits))) (\<lambda>_. ret True))
     else ret True)"

definition MaybeAppend :: "string \<Rightarrow> bool dem" where
  "MaybeAppend str =
     bind_d (get_d (\<lambda>s. append_flag (parse_state s))) (\<lambda>append.
     bind_d (if append then MaybeAppendWithLength (Text str) (int (StrLen str)) else ret True)
       (\<lambda>_. ret True))"

definition EnterNestedName :: "bool dem" where
  "EnterNestedName = do_d (ps_update (\<lambda>p. p\<lparr>nest_level := 0\<rparr>))"

definition LeaveNestedName :: "int \<Rightarrow> bool dem" where
  "LeaveNestedName prev_value = do_d (ps_update (\<lambda>p. p\<lparr>nest_level := bit_field 15 prev_value\<rparr>))"

definition DisableAppend :: "bool dem" where
  "DisableAppend = do_d (ps_update (\<lambda>p. p\<lparr>append_flag := False\<rparr>))"

definition RestoreAppend :: "bool \<Rightarrow> bool dem" where
  "RestoreAppend prev_value = do_d (ps_update (\<lambda>p. p\<lparr>append_flag := prev_value\<rparr>))"

definition MaybeIncreaseNestLevel :: "bool dem" where
  "MaybeIncreaseNestLevel = do_d (ps_update (\<lambda>p.
     if nest_level p > - 1 then p\<lparr>nest_level := bit_field 15 (nest_level p + 1)\<rparr> else p))"

definition MaybeAppendSeparator :: "bool dem" where
  "MaybeAppendSeparator = bind_d (get_d (\<lambda>s. nest_level (parse_state s))) (\<lambda>nest.
     if nest \<ge> 1 then MaybeAppend ''::'' else ret True)"

definition MaybeCancelLastSeparator :: "bool dem" where
  "MaybeCancelLastSeparator = bind_d (get_d parse_state) (\<lambda>p.
     if nest_level p \<ge> 1 \<and> append_flag p \<and> out_cur_idx p \<ge> 2
     then bind_d (set_out (out_cur_idx p - 2)) (\<lambda>_. write_char (out_cur_idx p - 2) NUL)
     else ret True)"

definition IdentifierIsAnonymousNamespace :: "int \<Rightarrow> dstate \<Rightarrow> bool" where
  "IdentifierIsAnonymousNamespace len s \<longleftrightarrow>
     len > 11 \<and> StrPrefix (RemainingInput s) ''_GLOBAL__N_''"

definition Overflowed :: "dstate \<Rightarrow> bool" where
  "Overflowed s \<longleftrightarrow> out_cur s \<ge> out_end_idx s"

end
