(* ===== verification/Demangle_Logic.thy ===== *)
theory Demangle_Logic
  imports Demangle_State
begin

text \<open>
  \<open>demangle.cc\<close>: the program logic for the parsing functions, and its invariant.

  \<open>runs C F m\<close>: from a well-formed state with at most \<open>F\<close> guarded calls left before the
  step limit, and with the saved parse states \<open>C\<close> well-formed too, \<open>m\<close> returns, in a
  well-formed state. \<open>keeps p F m\<close>: when \<open>m\<close> fails from the parse state \<open>p\<close>, the parse state
  is \<open>p\<close> again. The rules for the sequencing operations are the collections
  \<open>runs_rules\<close> and \<open>keeps_rules\<close>; each parsing function is then
  one application of them.
\<close>

named_theorems runs_rules \<open>composition of safe runs\<close>
named_theorems keeps_rules \<open>composition of functions that restore the parse state\<close>

section \<open>Well-formed states\<close>

text \<open>
  The remembered name lies in the part of the buffer that has been written, or the
  buffer is full, and then nothing of the name is copied any more. The name and the buffer are short
  enough for indices of type \<open>int\<close>, those one and two past the end included.
\<close>

definition ps_ok :: "dstate \<Rightarrow> parse_state \<Rightarrow> bool" where
  "ps_ok s p \<longleftrightarrow> mangled_idx p \<le> length (mangled_begin s) \<and>
     0 \<le> out_cur_idx p \<and> out_cur_idx p \<le> out_end_idx s + 1 \<and> 0 \<le> prev_name_idx p \<and>
     (prev_name_length p > 0 \<longrightarrow> prev_name_idx p < out_end_idx s \<and>
       (prev_name_idx p + prev_name_length p \<le> out_cur_idx p \<or> out_end_idx s - 1 \<le> out_cur_idx p))"

definition state_ok :: "dstate \<Rightarrow> bool" where
  "state_ok s \<longleftrightarrow> NUL \<notin> set (mangled_begin s) \<and> 1 \<le> out_end_idx s \<and>
     out_end_idx s \<le> int (length (out_buf s)) \<and> ps_ok s (parse_state s) \<and>
     in_int (int (length (mangled_begin s))) \<and> in_int (out_end_idx s + 2)"

text \<open>What no function changes; bytes behind the end of the output are not touched.\<close>

definition same_run :: "dstate \<Rightarrow> dstate \<Rightarrow> bool" where
  "same_run s s' \<longleftrightarrow> mangled_begin s' = mangled_begin s \<and> out_end_idx s' = out_end_idx s \<and>
     length (out_buf s') = length (out_buf s) \<and>
     drop (nat (out_end_idx s)) (out_buf s') = drop (nat (out_end_idx s)) (out_buf s) \<and>
     recursion_depth s' = recursion_depth s \<and> steps s \<le> steps s'"

definition budget :: "dstate \<Rightarrow> nat" where
  "budget s = nat (kParseStepsLimit - steps s)"

definition runs :: "parse_state set \<Rightarrow> nat \<Rightarrow> 'a dem \<Rightarrow> bool" where
  "runs C F m \<longleftrightarrow> (\<forall>s. state_ok s \<longrightarrow> budget s \<le> F \<longrightarrow> (\<forall>p \<in> C. ps_ok s p) \<longrightarrow>
     (\<exists>a s'. m s = Done a s' \<and> state_ok s' \<and> same_run s s'))"

definition keeps :: "parse_state \<Rightarrow> nat \<Rightarrow> bool dem \<Rightarrow> bool" where
  "keeps p F m \<longleftrightarrow> (\<forall>s s'. state_ok s \<longrightarrow> budget s \<le> F \<longrightarrow> parse_state s = p \<longrightarrow>
     m s = Done False s' \<longrightarrow> parse_state s' = p)"

definition progress :: "nat \<Rightarrow> bool dem \<Rightarrow> bool" where
  "progress F m \<longleftrightarrow> (\<forall>s s'. state_ok s \<longrightarrow> budget s \<le> F \<longrightarrow>
     m s = Done True s' \<longrightarrow> budget s' < budget s)"

lemma same_run_refl [simp]: "same_run s s"
  by (simp add: same_run_def)

lemma same_run_trans: "same_run s s' \<Longrightarrow> same_run s' s'' \<Longrightarrow> same_run s s''"
  by (simp add: same_run_def)

lemma same_run_budget: "same_run s s' \<Longrightarrow> budget s' \<le> budget s"
  by (simp add: same_run_def budget_def nat_mono)

lemma same_run_ps_ok: "same_run s s' \<Longrightarrow> ps_ok s' p = ps_ok s p"
  by (simp add: same_run_def ps_ok_def)

lemma runsE:
  assumes "runs C F m" and "state_ok s" and "budget s \<le> F" and "\<forall>p \<in> C. ps_ok s p"
  obtains a s' where "m s = Done a s'" and "state_ok s'" and "same_run s s'"
  using assms unfolding runs_def by blast

lemma runsI:
  assumes "\<And>s. state_ok s \<Longrightarrow> budget s \<le> F \<Longrightarrow> \<forall>p \<in> C. ps_ok s p \<Longrightarrow>
    \<exists>a s'. m s = Done a s' \<and> state_ok s' \<and> same_run s s'"
  shows "runs C F m"
  using assms by (simp add: runs_def)

lemma runs0E:
  assumes "runs {} F m" and "state_ok s" and "budget s \<le> F"
  obtains a s' where "m s = Done a s'" and "state_ok s'" and "same_run s s'"
  using runsE [OF assms] by blast

lemma runs0D:
  "runs {} F m \<Longrightarrow> state_ok s \<Longrightarrow> budget s \<le> F \<Longrightarrow> \<exists>a s'. m s = Done a s' \<and> state_ok s' \<and> same_run s s'"
  using runsE [of "{}" F m s] by blast

lemma keepsD:
  "keeps p F m \<Longrightarrow> state_ok s \<Longrightarrow> budget s \<le> F \<Longrightarrow> parse_state s = p \<Longrightarrow> m s = Done False s' \<Longrightarrow>
     parse_state s' = p"
  unfolding keeps_def by blast

lemma progressD:
  "progress F m \<Longrightarrow> state_ok s \<Longrightarrow> budget s \<le> F \<Longrightarrow> m s = Done True s' \<Longrightarrow> budget s' < budget s"
  unfolding progress_def by blast

lemma runs_saved: "runs {} F m \<Longrightarrow> runs C F m"
  by (simp add: runs_def)

lemma runs_fewer: "runs C F m \<Longrightarrow> G \<le> F \<Longrightarrow> runs C G m"
  by (simp add: runs_def)

lemma keeps_fewer: "keeps p F m \<Longrightarrow> G \<le> F \<Longrightarrow> keeps p G m"
  unfolding keeps_def by (intro allI impI) (metis le_trans)

lemma progress_fewer: "progress F m \<Longrightarrow> G \<le> F \<Longrightarrow> progress G m"
  unfolding progress_def by (meson le_trans)

section \<open>Composition\<close>

lemma bind_assoc: "bind_d (bind_d m f) g = bind_d m (\<lambda>a. bind_d (f a) g)"
  by (rule ext) (simp add: bind_d_def split: dres.split)

lemma bind_ret: "bind_d (ret a) f = f a"
  by (rule ext) (simp add: bind_d_def ret_def)

lemma runs_ret [runs_rules]: "runs C F (ret a)"
  by (simp add: runs_def ret_def)

lemma runs_get [runs_rules]: "runs C F (get_d f)"
  by (simp add: runs_def get_d_def)

lemma runs_bind [runs_rules]:
  assumes "runs C F m" and "\<And>a. runs C F (f a)"
  shows "runs C F (bind_d m f)"
proof (rule runsI)
  fix s assume s: "state_ok s" "budget s \<le> F" "\<forall>p \<in> C. ps_ok s p"
  then obtain a s' where m: "m s = Done a s'" "state_ok s'" "same_run s s'"
    using runsE [OF assms(1)] by blast
  have "budget s' \<le> F" using same_run_budget [OF m(3)] s(2) by simp
  moreover have "\<forall>p \<in> C. ps_ok s' p" using s(3) by (simp add: same_run_ps_ok [OF m(3)])
  ultimately obtain b s'' where "f a s' = Done b s''" "state_ok s''" "same_run s' s''"
    using runsE [OF assms(2)] m(2) by blast
  with m show "\<exists>a s'. bind_d m f s = Done a s' \<and> state_ok s' \<and> same_run s s'"
    by (auto simp: bind_d_def intro: same_run_trans)
qed

lemma runs_if [runs_rules]: "runs C F m \<Longrightarrow> runs C F n \<Longrightarrow> runs C F (if b then m else n)"
  by simp

lemma runs_and [runs_rules]: "runs C F m \<Longrightarrow> runs C F n \<Longrightarrow> runs C F (and_d m n)"
  by (simp add: and_d_def runs_rules)

lemma runs_or [runs_rules]: "runs C F m \<Longrightarrow> runs C F n \<Longrightarrow> runs C F (or_d m n)"
  by (simp add: or_d_def runs_rules)

lemma runs_all_of_Nil [runs_rules]: "runs C F (all_of [])"
  by (simp add: runs_rules)

lemma runs_all_of_Cons [runs_rules]: "runs C F m \<Longrightarrow> runs C F (all_of ms) \<Longrightarrow> runs C F (all_of (m # ms))"
  by (cases ms) (simp_all add: runs_rules)

lemma runs_any_of_Nil [runs_rules]: "runs C F (any_of [])"
  by (simp add: runs_rules)

lemma runs_any_of_Cons [runs_rules]: "runs C F m \<Longrightarrow> runs C F (any_of ms) \<Longrightarrow> runs C F (any_of (m # ms))"
  by (cases ms) (simp_all add: runs_rules)

lemma runs_Optional [runs_rules]: "runs C F m \<Longrightarrow> runs C F (Optional m)"
  by (simp add: Optional_def runs_rules)

lemma runs_found [runs_rules]: "runs C F m \<Longrightarrow> runs C F (found m)"
  by (simp add: found_def runs_rules)

lemma save_run: "save f s = f (parse_state s) s"
  by (simp add: save_def bind_d_def get_d_def)

lemma or_d_run: "m s = Done b s1 \<Longrightarrow> or_d m n s = (if b then Done True s1 else n s1)"
  by (simp add: or_d_def bind_d_def ret_def)

lemma runs_save [runs_rules]:
  assumes "\<And>p. runs (insert p C) F (f p)"
  shows "runs C F (save f)"
proof (rule runsI)
  fix s assume "state_ok s" "budget s \<le> F" "\<forall>p \<in> C. ps_ok s p"
  then show "\<exists>a s'. save f s = Done a s' \<and> state_ok s' \<and> same_run s s'"
    using assms [of "parse_state s"]
    by (simp add: save_def bind_d_def get_d_def runs_def) (metis state_ok_def)
qed

lemma runs_restore: "p \<in> C \<Longrightarrow> runs C F (restore p)"
  by (auto simp: runs_def restore_def do_d_def state_ok_def same_run_def ps_ok_def)

lemma runs_restore_new [runs_rules]: "runs (insert p C) F (restore p)"
  by (rule runs_restore) simp

lemma runs_try_else [runs_rules]:
  "runs (insert p C) F m \<Longrightarrow> runs (insert p C) F n \<Longrightarrow> runs (insert p C) F (try_else p m n)"
  by (simp add: try_else_def runs_rules)

lemma guarded_cases:
  "guarded_d a m s = (if budget s = 0 \<or> recursion_depth s \<ge> 256 then Done a (s\<lparr>steps := steps s + 1\<rparr>)
     else bind_d m (\<lambda>b. bind_d (do_d (\<lambda>s. s\<lparr>recursion_depth := recursion_depth s - 1\<rparr>)) (\<lambda>_. ret b))
            (s\<lparr>recursion_depth := recursion_depth s + 1, steps := steps s + 1\<rparr>))"
  by (auto simp: guarded_d_def Let_def IsTooComplex_def kRecursionDepthLimit_def budget_def
      bind_d_def do_d_def ret_def)

lemma state_ok_guard [simp]:
  "state_ok (s\<lparr>recursion_depth := d, steps := n\<rparr>) = state_ok s"
  "state_ok (s\<lparr>recursion_depth := d\<rparr>) = state_ok s"
  "state_ok (s\<lparr>steps := n\<rparr>) = state_ok s"
  "ps_ok (s\<lparr>recursion_depth := d, steps := n\<rparr>) p = ps_ok s p"
  by (simp_all add: state_ok_def ps_ok_def)

lemma runs_guarded:
  assumes "\<And>G. F = Suc G \<Longrightarrow> runs C G m"
  shows "runs C F (guarded_d a m)"
proof (rule runsI)
  fix s assume s: "state_ok s" "budget s \<le> F" "\<forall>p \<in> C. ps_ok s p"
  show "\<exists>b s'. guarded_d a m s = Done b s' \<and> state_ok s' \<and> same_run s s'"
  proof (cases "budget s = 0 \<or> recursion_depth s \<ge> 256")
    case True
    with s(1) show ?thesis by (auto simp: guarded_cases same_run_def)
  next
    case False
    then obtain G where G: "F = Suc G" using s(2) by (cases F) auto
    let ?s = "s\<lparr>recursion_depth := recursion_depth s + 1, steps := steps s + 1\<rparr>"
    have "budget ?s \<le> G" using s(2) G by (simp add: budget_def)
    then obtain b s' where "m ?s = Done b s'" "state_ok s'" "same_run ?s s'"
      using runsE [OF assms [OF G], of ?s] s by auto
    with False show ?thesis
      by (auto simp: guarded_cases bind_d_def do_d_def ret_def same_run_def)
  qed
qed

text \<open>A guarded function that succeeds has used one step.\<close>

lemma progress_guarded:
  assumes "\<And>G. F = Suc G \<Longrightarrow> runs {} G m"
  shows "progress F (guarded_d False m)"
  unfolding progress_def
proof clarify
  fix s s' assume s: "state_ok s" "budget s \<le> F" and run: "guarded_d False m s = Done True s'"
  have pos: "\<not> (budget s = 0 \<or> recursion_depth s \<ge> 256)"
    using run by (auto simp: guarded_cases split: if_splits)
  then obtain G where G: "F = Suc G" using s(2) by (cases F) auto
  let ?s = "s\<lparr>recursion_depth := recursion_depth s + 1, steps := steps s + 1\<rparr>"
  have "budget ?s \<le> G" using s(2) G by (simp add: budget_def)
  moreover have "state_ok ?s" using s(1) by simp
  ultimately obtain b s1 where "m ?s = Done b s1" "same_run ?s s1"
    using runs0E [OF assms [OF G]] by blast
  with run pos have "steps s + 1 \<le> steps s'"
    by (auto simp: guarded_cases bind_d_def do_d_def ret_def same_run_def)
  with pos show "budget s' < budget s" by (simp add: budget_def)
qed

lemma progress_and:
  assumes "progress F m" and "runs {} F m" and "runs {} F n"
  shows "progress F (and_d m n)"
  unfolding progress_def
proof clarify
  fix s s' assume s: "state_ok s" "budget s \<le> F" and run: "and_d m n s = Done True s'"
  obtain b s1 where m: "m s = Done b s1" "state_ok s1" "same_run s s1"
    using runs0E [OF assms(2) s] by blast
  with run have b: "b" "n s1 = Done True s'"
    by (cases b; simp add: and_d_def bind_d_def ret_def)+
  have "budget s1 < budget s" using progressD [OF assms(1) s] m(1) b(1) by simp
  moreover have "budget s1 \<le> F" using same_run_budget [OF m(3)] s(2) by simp
  then obtain b2 s2 where "n s1 = Done b2 s2" "same_run s1 s2"
    using runs0E [OF assms(3) m(2)] by blast
  then have "budget s' \<le> budget s1" using b(2) same_run_budget by auto
  ultimately show "budget s' < budget s" by simp
qed

lemma progress_or:
  assumes "progress F m" and "runs {} F m" and "progress F n"
  shows "progress F (or_d m n)"
  unfolding progress_def
proof clarify
  fix s s' assume s: "state_ok s" "budget s \<le> F" and run: "or_d m n s = Done True s'"
  obtain b s1 where m: "m s = Done b s1" "state_ok s1" "same_run s s1"
    using runs0E [OF assms(2) s] by blast
  show "budget s' < budget s"
  proof (cases b)
    case True
    with run m(1) have "m s = Done True s'" by (simp add: or_d_def bind_d_def ret_def)
    then show ?thesis by (rule progressD [OF assms(1) s])
  next
    case False
    then have "n s1 = Done True s'" using run m(1) by (simp add: or_d_def bind_d_def)
    moreover have "budget s1 \<le> F" using same_run_budget [OF m(3)] s(2) by simp
    ultimately have "budget s' < budget s1" using progressD [OF assms(3) m(2)] by simp
    with same_run_budget [OF m(3)] show ?thesis by simp
  qed
qed

section \<open>Composition of functions that restore the parse state\<close>

lemma keeps_ret [keeps_rules]: "keeps p F (ret b)"
  by (simp add: keeps_def ret_def)

lemma keeps_save [keeps_rules]: "keeps p F (f p) \<Longrightarrow> keeps p F (save f)"
  unfolding keeps_def by (intro allI impI) (simp only: save_run)

lemma keeps_if [keeps_rules]: "keeps p F m \<Longrightarrow> keeps p F n \<Longrightarrow> keeps p F (if b then m else n)"
  by simp

lemma keeps_or [keeps_rules]:
  assumes "keeps p F m" and "runs {} F m" and "keeps p F n"
  shows "keeps p F (or_d m n)"
  unfolding keeps_def
proof (intro allI impI)
  fix s s' assume s: "state_ok s" "budget s \<le> F" and p: "parse_state s = p"
    and run: "or_d m n s = Done False s'"
  obtain b s1 where m: "m s = Done b s1" "state_ok s1" "same_run s s1"
    using runs0E [OF assms(2) s] by blast
  have b: "b = False" and n: "n s1 = Done False s'"
    using run or_d_run [of m s b s1 n, OF m(1)] by (simp_all split: if_splits)
  have "parse_state s1 = p" by (rule keepsD [OF assms(1) s p]) (simp add: m(1) b)
  moreover have "budget s1 \<le> F" using same_run_budget [OF m(3)] s(2) by simp
  ultimately show "parse_state s' = p" using keepsD [OF assms(3) m(2) _ _ n] by blast
qed

lemma keeps_any_of_Nil [keeps_rules]: "keeps p F (any_of [])"
  by (simp add: keeps_rules)

lemma keeps_any_of_single [keeps_rules]: "keeps p F m \<Longrightarrow> keeps p F (any_of [m])"
  by simp

lemma keeps_any_of_Cons [keeps_rules]:
  "keeps p F m \<Longrightarrow> runs {} F m \<Longrightarrow> keeps p F (any_of (m' # ms)) \<Longrightarrow> keeps p F (any_of (m # m' # ms))"
  by (simp add: keeps_rules)

lemma keeps_try_else [keeps_rules]:
  assumes "runs {p} F m" and "keeps p F n"
  shows "keeps p F (try_else p m n)"
  unfolding keeps_def
proof (intro allI impI)
  fix s s' assume s: "state_ok s" "budget s \<le> F" and p: "parse_state s = p"
    and run: "try_else p m n s = Done False s'"
  have ok: "ps_ok s p" using s(1) p by (simp add: state_ok_def)
  then obtain b s1 where m: "m s = Done b s1" "state_ok s1" "same_run s s1"
    using runsE [OF assms(1)] s by auto
  let ?s = "s1\<lparr>parse_state := p\<rparr>"
  have "n ?s = Done False s'"
    using run m(1) by (cases b) (auto simp: try_else_def bind_d_def ret_def restore_def do_d_def)
  moreover have "state_ok ?s"
    using m ok same_run_ps_ok [OF m(3), of p] by (simp add: state_ok_def ps_ok_def)
  moreover have "budget ?s \<le> F"
    using same_run_budget [OF m(3)] s(2) by (simp add: budget_def)
  ultimately show "parse_state s' = p"
    using keepsD [OF assms(2), of ?s s'] p by simp
qed

text \<open>A chain whose first part alone can fail.\<close>

lemma keeps_then_True:
  assumes "keeps p F m" and "runs {} F m" and "\<And>s s'. n s \<noteq> Done False s'"
  shows "keeps p F (and_d m n)"
  unfolding keeps_def
proof (intro allI impI)
  fix s s' assume s: "state_ok s" "budget s \<le> F" and p: "parse_state s = p"
    and run: "and_d m n s = Done False s'"
  obtain b s1 where m: "m s = Done b s1"
    using runs0E [OF assms(2) s] by blast
  with run assms(3) have "m s = Done False s'"
    by (cases b) (auto simp: and_d_def bind_d_def ret_def)
  then show "parse_state s' = p"
    using keepsD [OF assms(1) s] p by simp
qed

lemma Optional_not_False: "Optional m s \<noteq> Done False s'"
  by (auto simp: Optional_def bind_d_def ret_def split: dres.splits)

lemma keeps_all_of_Optional [keeps_rules]:
  "keeps p F m \<Longrightarrow> runs {} F m \<Longrightarrow> keeps p F (all_of [m, Optional n])"
  by (simp add: keeps_then_True Optional_not_False)

lemma keeps_guarded:
  assumes "\<And>G. F = Suc G \<Longrightarrow> keeps p G m"
  shows "keeps p F (guarded_d False m)"
  unfolding keeps_def
proof (intro allI impI)
  fix s s' assume s: "state_ok s" "budget s \<le> F" and p: "parse_state s = p"
    and run: "guarded_d False m s = Done False s'"
  show "parse_state s' = p"
  proof (cases "budget s = 0 \<or> recursion_depth s \<ge> 256")
    case True
    with run p show ?thesis by (auto simp: guarded_cases)
  next
    case False
    then obtain G where G: "F = Suc G" using s(2) by (cases F) auto
    let ?s = "s\<lparr>recursion_depth := recursion_depth s + 1, steps := steps s + 1\<rparr>"
    have "budget ?s \<le> G" using s(2) G by (simp add: budget_def)
    moreover obtain s1 where "m ?s = Done False s1" "parse_state s' = parse_state s1"
      using run False by (auto simp: guarded_cases bind_d_def do_d_def ret_def split: dres.splits)
    ultimately show ?thesis using keepsD [OF assms [OF G], of ?s s1] s(1) p by simp
  qed
qed

text \<open>\<open>if (m) n else k\<close>, where \<open>n\<close> cannot fail.\<close>

lemma keeps_bind_if:
  assumes "keeps p F m" and "runs {} F m" and "\<And>s s'. n s \<noteq> Done False s'" and "keeps p F k"
  shows "keeps p F (bind_d m (\<lambda>b. if b then n else k))"
  unfolding keeps_def
proof (intro allI impI)
  fix s s' assume s: "state_ok s" "budget s \<le> F" and p: "parse_state s = p"
    and run: "bind_d m (\<lambda>b. if b then n else k) s = Done False s'"
  obtain b s1 where m: "m s = Done b s1" "state_ok s1" "same_run s s1"
    using runs0E [OF assms(2) s] by blast
  have b: "b = False" and k: "k s1 = Done False s'"
    using run m(1) assms(3) [of s1 s'] by (simp_all add: bind_d_def split: if_splits)
  have "parse_state s1 = p" by (rule keepsD [OF assms(1) s p]) (simp add: m(1) b)
  moreover have "budget s1 \<le> F" using same_run_budget [OF m(3)] s(2) by simp
  ultimately show "parse_state s' = p" using keepsD [OF assms(4) m(2) _ _ k] by blast
qed

lemma and_d_ret: "and_d (ret x) m = (if x then m else ret False)"
  by (rule ext) (simp add: and_d_def ret_def bind_d_def)

lemma keeps_and_ret [keeps_rules]: "keeps p F m \<Longrightarrow> keeps p F (and_d (ret x) m)"
  by (simp add: and_d_ret keeps_ret)

text \<open>Functions that leave the saved state behind when they fail, from wherever they start.\<close>

definition resets :: "parse_state \<Rightarrow> nat \<Rightarrow> bool dem \<Rightarrow> bool" where
  "resets p F m \<longleftrightarrow> (\<forall>s s'. state_ok s \<longrightarrow> budget s \<le> F \<longrightarrow> ps_ok s p \<longrightarrow>
     m s = Done False s' \<longrightarrow> parse_state s' = p)"

lemma resetsD:
  "resets p F m \<Longrightarrow> state_ok s \<Longrightarrow> budget s \<le> F \<Longrightarrow> ps_ok s p \<Longrightarrow> m s = Done False s' \<Longrightarrow> parse_state s' = p"
  unfolding resets_def by blast

lemma state_ok_restored: "state_ok s \<Longrightarrow> ps_ok s p \<Longrightarrow> state_ok (s\<lparr>parse_state := p\<rparr>)"
  by (simp add: state_ok_def ps_ok_def)

lemma restore_run: "bind_d (restore p) (\<lambda>_. n) s = n (s\<lparr>parse_state := p\<rparr>)"
  by (simp add: bind_d_def restore_def do_d_def)

lemma resets_restore [keeps_rules]:
  assumes "keeps p F n"
  shows "resets p F (bind_d (restore p) (\<lambda>_. n))"
  unfolding resets_def restore_run
proof (intro allI impI)
  fix s s' assume s: "state_ok s" "budget s \<le> F" "ps_ok s p" and run: "n (s\<lparr>parse_state := p\<rparr>) = Done False s'"
  have "budget (s\<lparr>parse_state := p\<rparr>) \<le> F" using s(2) by (simp add: budget_def)
  then show "parse_state s' = p"
    using keepsD [OF assms state_ok_restored [OF s(1,3)] _ _ run] by simp
qed

lemma resets_bind_if:
  assumes "runs {p} F m" and "resets p F n" and "resets p F k"
  shows "resets p F (bind_d m (\<lambda>b. if b then n else k))"
  unfolding resets_def
proof (intro allI impI)
  fix s s' assume s: "state_ok s" "budget s \<le> F" "ps_ok s p"
    and run: "bind_d m (\<lambda>b. if b then n else k) s = Done False s'"
  obtain b s1 where m: "m s = Done b s1" "state_ok s1" "same_run s s1"
    using runsE [OF assms(1) s(1,2)] s(3) by auto
  have b: "(if b then n else k) s1 = Done False s'" using run m(1) by (simp add: bind_d_def)
  have "budget s1 \<le> F" "ps_ok s1 p"
    using same_run_budget [OF m(3)] same_run_ps_ok [OF m(3)] s by auto
  with resetsD [OF assms(2) m(2)] resetsD [OF assms(3) m(2)] b show "parse_state s' = p"
    by (cases b) (simp_all only: if_True if_False)
qed

lemma resets_ret_True: "resets p F (ret True)"
  by (simp add: resets_def ret_def)

lemma resets_try_else [keeps_rules]:
  "runs {p} F m \<Longrightarrow> keeps p F n \<Longrightarrow> resets p F (try_else p m n)"
  unfolding try_else_def by (intro resets_bind_if resets_ret_True resets_restore)

lemma keeps_resets: "resets p F m \<Longrightarrow> keeps p F m"
  unfolding keeps_def using resetsD state_ok_def by blast

end
