(* ===== verification/Demangle_Output.thy ===== *)
theory Demangle_Output
  imports Demangle_Logic
begin

text \<open>
  \<open>demangle.cc\<close>: the functions that write the output keep to the buffer, for any text that
  can be read, also when that text is in the buffer itself.
\<close>

section \<open>Writing the output\<close>

fun readable :: "source_text \<Rightarrow> nat \<Rightarrow> dstate \<Rightarrow> bool" where
  "readable (Text t) n s \<longleftrightarrow> n \<le> length t"
| "readable (Output p) n s \<longleftrightarrow> 0 \<le> p \<and> p + int n \<le> int (length (out_buf s))"

lemma read_char_readable:
  "readable str n s \<Longrightarrow> i < n \<Longrightarrow> \<exists>c. read_char str i s = Done c s"
  by (cases str) (auto simp: char_at_def)

text \<open>The effect of writing: other contents below the end, and the cursor at \<open>cur\<close>.\<close>

definition written :: "dstate \<Rightarrow> string \<Rightarrow> int \<Rightarrow> dstate" where
  "written s buf cur = s\<lparr>out_buf := buf, parse_state := (parse_state s)\<lparr>out_cur_idx := cur\<rparr>\<rparr>"

definition buffer_like :: "dstate \<Rightarrow> string \<Rightarrow> bool" where
  "buffer_like s buf \<longleftrightarrow> length buf = length (out_buf s) \<and>
     drop (nat (out_end_idx s)) buf = drop (nat (out_end_idx s)) (out_buf s)"

lemma written_fields [simp]:
  "out_buf (written s buf cur) = buf" "out_end_idx (written s buf cur) = out_end_idx s"
  "mangled_begin (written s buf cur) = mangled_begin s"
  "parse_state (written s buf cur) = (parse_state s)\<lparr>out_cur_idx := cur\<rparr>"
  "recursion_depth (written s buf cur) = recursion_depth s" "steps (written s buf cur) = steps s"
  "written (written s buf cur) buf' cur' = written s buf' cur'"
  by (simp_all add: written_def)

lemma out_cur_written [simp]: "out_cur (written s buf cur) = cur"
  by (simp add: out_cur_def)

lemma buffer_like_refl: "buffer_like s (out_buf s)"
  by (simp add: buffer_like_def)

lemma buffer_like_trans: "buffer_like s buf \<Longrightarrow> buffer_like (written s buf cur) buf' \<Longrightarrow> buffer_like s buf'"
  by (simp add: buffer_like_def)

lemma readable_written: "buffer_like s buf \<Longrightarrow> readable str n (written s buf cur) = readable str n s"
  by (cases str) (simp_all add: buffer_like_def)

lemma written_same: "written s (out_buf s) (out_cur s) = s"
  by (simp add: written_def out_cur_def)

definition end_ok :: "dstate \<Rightarrow> bool" where
  "end_ok s \<longleftrightarrow> 1 \<le> out_end_idx s \<and> out_end_idx s \<le> int (length (out_buf s)) \<and>
     0 \<le> out_cur s \<and> out_cur s \<le> out_end_idx s + 1 \<and> in_int (out_end_idx s + 2)"

lemma end_ok_index: "end_ok s \<Longrightarrow> in_int (out_cur s + 1) \<and> in_int (out_end_idx s + 1)"
  by (auto simp: end_ok_def in_int_def)

lemma end_ok_written [simp]:
  "buffer_like s buf \<Longrightarrow> end_ok (written s buf cur) \<longleftrightarrow>
     1 \<le> out_end_idx s \<and> out_end_idx s \<le> int (length (out_buf s)) \<and> 0 \<le> cur \<and> cur \<le> out_end_idx s + 1 \<and>
     in_int (out_end_idx s + 2)"
  by (simp add: end_ok_def buffer_like_def)

lemma write_char_run:
  assumes "end_ok s" and "0 \<le> i" and "i < out_end_idx s"
  shows "write_char i c s = Done True (written s ((out_buf s)[nat i := c]) (out_cur s)) \<and>
    buffer_like s ((out_buf s)[nat i := c])"
  using assms by (simp add: write_char_def end_ok_def written_def buffer_like_def out_cur_def)

text \<open>Where the cursor is after appending \<open>n\<close> characters.\<close>

definition cur_after :: "dstate \<Rightarrow> int \<Rightarrow> int" where
  "cur_after s n = (if n \<le> 0 then out_cur s
     else if out_cur s + n < out_end_idx s then out_cur s + n else out_end_idx s + 1)"

lemma cur_after_bounds:
  "end_ok s \<Longrightarrow> 0 \<le> cur_after s n \<and> cur_after s n \<le> out_end_idx s + 1 \<and> out_cur s \<le> cur_after s n"
  by (auto simp: cur_after_def end_ok_def)

lemma Append_loop_run:
  assumes "end_ok s" and "out_end_idx s - 1 \<le> out_cur s \<or> readable str (i + n) s"
  shows "\<exists>buf. Append_loop str i n s = Done True (written s buf (cur_after s (int n))) \<and> buffer_like s buf"
  using assms
proof (induction n arbitrary: i s)
  case 0
  then show ?case
    by (intro exI [of _ "out_buf s"]) (simp add: ret_def cur_after_def written_same buffer_like_refl)
next
  case (Suc n)
  show ?case
  proof (cases "out_cur s + 1 < out_end_idx s")
    case False
    then have "Append_loop str i (Suc n) s = Done True (written s (out_buf s) (out_end_idx s + 1))"
      using end_ok_index [OF Suc.prems(1)]
      by (simp add: bind_d_def get_d_def index_d_def set_out_def do_d_def ps_update_def written_def)
    with False show ?thesis
      by (intro exI [of _ "out_buf s"]) (simp add: cur_after_def buffer_like_refl)
  next
    case True
    then have "readable str (i + Suc n) s" using Suc.prems(2) by simp
    then obtain c where c: "read_char str i s = Done c s"
      using read_char_readable [of str "i + Suc n" s i] by auto
    let ?buf = "(out_buf s)[nat (out_cur s) := c]"
    let ?s = "written s ?buf (out_cur s + 1)"
    have w: "write_char (out_cur s) c s = Done True (written s ?buf (out_cur s))" and l: "buffer_like s ?buf"
      using write_char_run [OF Suc.prems(1), of "out_cur s" c] True Suc.prems(1)
      by (simp_all add: end_ok_def)
    have run: "Append_loop str i (Suc n) s = Append_loop str (i + 1) n ?s"
      using True c w end_ok_index [OF Suc.prems(1)]
      by (simp add: bind_d_def get_d_def index_d_def set_out_def do_d_def ps_update_def written_def)
    have "end_ok ?s" using Suc.prems(1) True l by (simp add: end_ok_def buffer_like_def)
    moreover have "readable str (i + 1 + n) ?s"
      using Suc.prems(2) True by (simp add: readable_written [OF l])
    ultimately obtain buf where
      "Append_loop str (i + 1) n ?s = Done True (written ?s buf (cur_after ?s (int n)))" "buffer_like ?s buf"
      using Suc.IH [of ?s "i + 1"] by blast
    moreover have "cur_after ?s (int n) = cur_after s (int (Suc n))"
      using True by (simp add: cur_after_def)
    ultimately show ?thesis using run buffer_like_trans [OF l] by (metis written_fields(7))
  qed
qed

lemma Append_run:
  assumes "end_ok s" and "out_end_idx s - 1 \<le> out_cur s \<or> readable str (nat len) s"
  shows "\<exists>buf. Append str len s = Done True (written s buf (cur_after s len)) \<and> buffer_like s buf"
proof -
  obtain buf where a: "Append_loop str 0 (nat len) s = Done True (written s buf (cur_after s (int (nat len))))"
    and l: "buffer_like s buf"
    using Append_loop_run [of s str 0 "nat len"] assms by auto
  let ?s = "written s buf (cur_after s len)"
  have a: "Append_loop str 0 (nat len) s = Done True ?s"
    using a by (simp add: cur_after_def split: if_splits)
  have ok: "end_ok ?s" using cur_after_bounds [OF assms(1)] l assms(1) by (simp add: end_ok_def buffer_like_def)
  show ?thesis
  proof (cases "cur_after s len < out_end_idx s")
    case True
    with write_char_run [OF ok, of "cur_after s len" NUL] cur_after_bounds [OF assms(1), of len] a l
    show ?thesis
      by (auto simp: Append_def bind_d_def get_d_def intro: buffer_like_trans)
  next
    case False
    with a l show ?thesis by (auto simp: Append_def bind_d_def get_d_def ret_def)
  qed
qed


section \<open>Names\<close>

lemma bind_get: "bind_d (get_d g) f s = f (g s) s"
  by (simp add: bind_d_def get_d_def)

lemma EndsWith_run: "end_ok s \<Longrightarrow> \<exists>b. EndsWith c s = Done b s"
  by (auto simp: EndsWith_def bind_d_def get_d_def ret_def end_ok_def out_cur_def)

lemma bit_field_le: "0 \<le> i \<Longrightarrow> bit_field w i \<le> i"
  by (simp add: bit_field_def signed_take_bit_int_less_eq_self_iff order_trans [of _ 0])

text \<open>
  Appending a name changes the contents, the cursor and the remembered name, and nothing
  else; the remembered name stays readable.
\<close>

definition appended :: "dstate \<Rightarrow> dstate \<Rightarrow> bool" where
  "appended s s' \<longleftrightarrow> (\<exists>buf cur i n. buffer_like s buf \<and>
     s' = s\<lparr>out_buf := buf, parse_state := (parse_state s)
            \<lparr>out_cur_idx := cur, prev_name_idx := i, prev_name_length := n\<rparr>\<rparr>)"

lemma appended_refl [simp]: "appended s s"
  unfolding appended_def
  by (rule exI [of _ "out_buf s"], rule exI [of _ "out_cur s"],
      rule exI [of _ "prev_name_idx (parse_state s)"], rule exI [of _ "prev_name_length (parse_state s)"])
    (simp add: buffer_like_refl out_cur_def)

lemma appended_trans: "appended s s' \<Longrightarrow> appended s' s'' \<Longrightarrow> appended s s''"
  by (fastforce simp: appended_def buffer_like_def)

lemma appended_written: "buffer_like s buf \<Longrightarrow> appended s (written s buf cur)"
  unfolding appended_def
  by (rule exI [of _ buf], rule exI [of _ cur],
      rule exI [of _ "prev_name_idx (parse_state s)"], rule exI [of _ "prev_name_length (parse_state s)"])
    (simp add: written_def)

lemma appended_name:
  "buffer_like s buf \<Longrightarrow> appended s (written (s\<lparr>parse_state := (parse_state s)
     \<lparr>prev_name_idx := i, prev_name_length := n\<rparr>\<rparr>) buf cur)"
  unfolding appended_def
  by (rule exI [of _ buf], rule exI [of _ cur], rule exI [of _ i], rule exI [of _ n])
    (simp add: written_def)

lemma appended_same_run: "appended s s' \<Longrightarrow> same_run s s'"
  by (auto simp: appended_def same_run_def buffer_like_def)

lemma appended_fields:
  assumes "appended s s'"
  shows "mangled_begin s' = mangled_begin s" "out_end_idx s' = out_end_idx s"
    "mangled_idx (parse_state s') = mangled_idx (parse_state s)"
    "nest_level (parse_state s') = nest_level (parse_state s)"
    "append_flag (parse_state s') = append_flag (parse_state s)" "steps s' = steps s"
    "recursion_depth s' = recursion_depth s"
  using assms by (auto simp: appended_def)

lemma state_ok_end_ok: "state_ok s \<Longrightarrow> end_ok s"
  by (simp add: state_ok_def ps_ok_def end_ok_def out_cur_def)

lemma state_ok_append:
  assumes "state_ok s" and "buffer_like s buf"
  shows "state_ok (written s buf (cur_after s n))"
  using assms by (auto simp: state_ok_def ps_ok_def buffer_like_def cur_after_def out_cur_def written_def)

lemma state_ok_name:
  assumes "state_ok s" and "buffer_like s buf" and "out_cur s < out_end_idx s" and "0 < n"
  shows "state_ok (written (s\<lparr>parse_state := (parse_state s)
    \<lparr>prev_name_idx := out_cur s, prev_name_length := bit_field 16 n\<rparr>\<rparr>) buf (cur_after s n))"
  using assms bit_field_le [of n 16]
  by (auto simp: state_ok_def ps_ok_def buffer_like_def cur_after_def out_cur_def written_def)

text \<open>A string that can be appended: it is readable as far as there is room.\<close>

definition can_append :: "source_text \<Rightarrow> int \<Rightarrow> dstate \<Rightarrow> bool" where
  "can_append str len s \<longleftrightarrow> len \<le> 0 \<or>
     readable str 1 s \<and> (out_end_idx s - 1 \<le> out_cur s \<or> readable str (nat len) s)"

lemma can_append_Text: "len \<le> int (length t) \<Longrightarrow> can_append (Text t) len s"
  by (auto simp: can_append_def)

lemma MaybeAppendWithLength_run:
  assumes ok: "state_ok s" and can: "can_append str len s"
  shows "\<exists>s'. MaybeAppendWithLength str len s = Done True s' \<and> state_ok s' \<and> appended s s' \<and>
    (append_flag (parse_state s) \<longrightarrow> 0 < len \<longrightarrow> out_cur s' \<ge> min (out_cur s + len) (out_end_idx s + 1)) \<and>
    (\<not> append_flag (parse_state s) \<or> len \<le> 0 \<longrightarrow> s' = s)"
proof (cases "append_flag (parse_state s) \<and> 0 < len")
  case False
  then show ?thesis using ok by (auto simp: MaybeAppendWithLength_def bind_d_def get_d_def ret_def)
next
  case True
  obtain c where c: "read_char str 0 s = Done c s"
    using read_char_readable [of str 1 s 0] can True by (auto simp: can_append_def)
  obtain b where b: "EndsWith (CHR ''<'') s = Done b s"
    using EndsWith_run [OF state_ok_end_ok [OF ok]] by blast
  let ?space = "c = CHR ''<'' \<and> b"
  obtain s1 where s1: "(if ?space then Append (Text '' '') 1 else ret True) s = Done True s1"
    "state_ok s1" "appended s s1" "out_cur s \<le> out_cur s1" "can_append str len s1"
  proof (cases ?space)
    case True
    obtain buf where buf: "Append (Text '' '') 1 s = Done True (written s buf (cur_after s 1))" "buffer_like s buf"
      using Append_run [OF state_ok_end_ok [OF ok], of "Text '' ''" 1] by auto
    let ?s = "written s buf (cur_after s 1)"
    have "out_cur s \<le> cur_after s 1" using cur_after_bounds [OF state_ok_end_ok [OF ok]] by blast
    moreover have "can_append str len ?s"
      using can calculation by (auto simp: can_append_def readable_written [OF buf(2)])
    ultimately show ?thesis
      using that [of ?s] buf True state_ok_append [OF ok buf(2)] appended_written [OF buf(2)] by simp
  next
    case False
    then show ?thesis using that [of s] ok can by (auto simp: ret_def)
  qed
  obtain c1 where c1: "read_char str 0 s1 = Done c1 s1"
    using read_char_readable [of str 1 s1 0] s1(5) True by (auto simp: can_append_def)
  let ?name = "out_cur s1 < out_end_idx s1 \<and> (IsAlpha c1 \<or> c1 = CHR ''_'')"
  let ?s2 = "if ?name then s1\<lparr>parse_state := (parse_state s1)
     \<lparr>prev_name_idx := out_cur s1, prev_name_length := bit_field 16 len\<rparr>\<rparr> else s1"
  have cur2: "out_cur ?s2 = out_cur s1" "out_end_idx ?s2 = out_end_idx s1" "buffer_like ?s2 = buffer_like s1"
    "cur_after ?s2 = cur_after s1"
    by (auto simp: out_cur_def buffer_like_def cur_after_def fun_eq_iff)
  have "readable str n ?s2 = readable str n s1" for n by (cases str) auto
  then have "out_end_idx ?s2 - 1 \<le> out_cur ?s2 \<or> readable str (nat len) ?s2"
    using s1(5) True cur2 by (auto simp: can_append_def)
  moreover have "end_ok ?s2" using state_ok_end_ok [OF s1(2)] by (simp add: end_ok_def out_cur_def)
  ultimately obtain buf where buf: "Append str len ?s2 = Done True (written ?s2 buf (cur_after s1 len))"
    "buffer_like s1 buf"
    using Append_run [of ?s2 str len] unfolding cur2 by blast
  let ?s3 = "written ?s2 buf (cur_after s1 len)"
  have run: "MaybeAppendWithLength str len s = Done True ?s3"
  proof -
    have space: "and_d (ret (c = CHR ''<'')) (EndsWith (CHR ''<'')) s = Done ?space s"
      using b by (simp add: and_d_def bind_d_def ret_def)
    have name: "(if ?name then do_d (ps_update (\<lambda>p. p\<lparr>prev_name_idx := out_cur s1,
        prev_name_length := bit_field 16 len\<rparr>)) else ret True) s1 = Done True ?s2"
      by (cases ?name) (auto simp: do_d_def ps_update_def ret_def)
    show ?thesis
      unfolding MaybeAppendWithLength_def bind_get
      by (simp only: True if_True simp_thms bind_d_def c space s1(1) c1 get_d_def name buf(1)
          dres.case prod.case)
  qed
  have ok3: "state_ok ?s3"
  proof (cases ?name)
    case True
    then show ?thesis using state_ok_name [OF s1(2) buf(2), of len] \<open>append_flag _ \<and> 0 < len\<close> by (simp only: if_True simp_thms)
  next
    case False
    show ?thesis using state_ok_append [OF s1(2) buf(2), of len] by (simp only: False if_False)
  qed
  have app3: "appended s1 ?s3"
  proof (cases ?name)
    case True
    show ?thesis using appended_name [OF buf(2)] by (simp only: True if_True simp_thms)
  next
    case False
    show ?thesis using appended_written [OF buf(2)] by (simp only: False if_False)
  qed
  have cur3: "out_cur ?s3 \<ge> min (out_cur s + len) (out_end_idx s + 1)"
  proof -
    have "cur_after s1 len \<ge> min (out_cur s1 + len) (out_end_idx s1 + 1)"
      using True by (simp add: cur_after_def)
    then show ?thesis
      unfolding out_cur_written using s1(4) appended_fields(2) [OF s1(3)] by linarith
  qed
  have never: "\<not> (\<not> append_flag (parse_state s) \<or> len \<le> 0)" using True by linarith
  show ?thesis
  proof (intro exI [of _ ?s3] conjI impI)
    assume "\<not> append_flag (parse_state s) \<or> len \<le> 0"
    with never show "?s3 = s" by (rule notE)
  qed (rule run ok3 appended_trans [OF s1(3) app3] cur3)+
qed

end
