(* ===== verification/Demangle_Tokens.thy ===== *)
theory Demangle_Tokens
  imports Demangle_State
begin

text \<open>
  \<open>demangle.cc\<close>, second part: the parsing functions that call none of the mutually
  recursive ones, in the source's order as far as calls allow. A parameter
  \<open>int *number_out\<close> or \<open>int *arity\<close> is the optional result: it is written exactly
  when the function succeeds.
\<close>

section \<open>Tokens\<close>

definition ParseOneCharToken :: "char \<Rightarrow> bool dem" where
  "ParseOneCharToken one_char_token = guarded_d False
     (bind_d (input_at 0) (\<lambda>c. if c = one_char_token then advance 1 else ret False))"

definition ParseTwoCharToken :: "string \<Rightarrow> bool dem" where
  "ParseTwoCharToken two_char_token = guarded_d False
     (bind_d (input_at 0) (\<lambda>c0.
      if c0 = two_char_token ! 0
      then bind_d (input_at 1) (\<lambda>c1. if c1 = two_char_token ! 1 then advance 2 else ret False)
      else ret False))"

definition ParseCharClass :: "string \<Rightarrow> bool dem" where
  "ParseCharClass char_class = guarded_d False
     (bind_d (input_at 0) (\<lambda>c.
      if c = NUL then ret False
      else if List.member char_class c then advance 1 else ret False))"

text \<open>The value of a digit character.\<close>

definition digit_value :: "char \<Rightarrow> nat" where
  "digit_value c = of_char c - of_char (CHR ''0'')"

definition ParseDigit :: "int option dem" where
  "ParseDigit = bind_d (input_at 0) (\<lambda>c.
     bind_d (ParseCharClass ''0123456789'') (\<lambda>b. ret (if b then Some (int (digit_value c)) else None)))"

section \<open>Numbers and identifiers\<close>

fun number_loop :: "64 word \<Rightarrow> string \<Rightarrow> 64 word" where
  "number_loop number [] = number"
| "number_loop number (c # cs) =
     (if IsDigit c then number_loop (number * 10 + of_nat (digit_value c)) cs else number)"

definition ParseNumber :: "int option dem" where
  "ParseNumber = guarded_d None
     (bind_d (ParseOneCharToken (CHR ''n'')) (\<lambda>negative.
      bind_d (get_d RemainingInput) (\<lambda>rest.
      let number = number_loop 0 rest;
          number = (if negative then NOT number + 1 else number);
          n = length (takeWhile IsDigit rest)
      in if n \<noteq> 0 then bind_d (advance n) (\<lambda>_. ret (Some (sint (ucast number :: 32 word)))) else ret None)))"

definition hex_char :: "char \<Rightarrow> bool" where
  "hex_char c \<longleftrightarrow> IsDigit c \<or>
     of_char c \<ge> (of_char (CHR ''a'') :: int) \<and> of_char c \<le> (of_char (CHR ''f'') :: int)"

definition ParseFloatNumber :: "bool dem" where
  "ParseFloatNumber = guarded_d False
     (bind_d (get_d RemainingInput) (\<lambda>rest.
      let n = length (takeWhile hex_char rest)
      in if n \<noteq> 0 then advance n else ret False))"

definition seq_char :: "char \<Rightarrow> bool" where
  "seq_char c \<longleftrightarrow> IsDigit c \<or>
     of_char c \<ge> (of_char (CHR ''A'') :: int) \<and> of_char c \<le> (of_char (CHR ''Z'') :: int)"

definition ParseSeqId :: "bool dem" where
  "ParseSeqId = guarded_d False
     (bind_d (get_d RemainingInput) (\<lambda>rest.
      let n = length (takeWhile seq_char rest)
      in if n \<noteq> 0 then advance n else ret False))"

definition ParseIdentifier :: "int \<Rightarrow> bool dem" where
  "ParseIdentifier len = guarded_d False
     (bind_d (get_d RemainingInput) (\<lambda>rest.
      if len < 0 \<or> \<not> AtLeastNumCharsRemaining rest len then ret False
      else bind_d (get_d (IdentifierIsAnonymousNamespace len)) (\<lambda>anonymous.
        bind_d (if anonymous then MaybeAppend ''(anonymous namespace)''
                else MaybeAppendWithLength (Text rest) len) (\<lambda>_.
        advance (nat len)))))"

definition ParseSourceName :: "bool dem" where
  "ParseSourceName = guarded_d False (save (\<lambda>copy.
     try_else copy
       (bind_d ParseNumber (\<lambda>r. case r of None \<Rightarrow> ret False | Some len \<Rightarrow> ParseIdentifier len))
     (ret False)))"

definition ParseDiscriminator :: "bool dem" where
  "ParseDiscriminator = guarded_d False (save (\<lambda>copy.
     try_else copy (all_of [ParseOneCharToken (CHR ''_''), found ParseNumber])
     (ret False)))"

definition ParseLocalSourceName :: "bool dem" where
  "ParseLocalSourceName = guarded_d False (save (\<lambda>copy.
     try_else copy (all_of [ParseOneCharToken (CHR ''L''), ParseSourceName, Optional ParseDiscriminator])
     (ret False)))"

section \<open>Offsets and qualifiers\<close>

definition ParseNVOffset :: "bool dem" where
  "ParseNVOffset = guarded_d False (found ParseNumber)"

definition ParseVOffset :: "bool dem" where
  "ParseVOffset = guarded_d False (save (\<lambda>copy.
     try_else copy (all_of [found ParseNumber, ParseOneCharToken (CHR ''_''), found ParseNumber])
     (ret False)))"

definition ParseCallOffset :: "bool dem" where
  "ParseCallOffset = guarded_d False (save (\<lambda>copy.
     try_else copy (all_of [ParseOneCharToken (CHR ''h''), ParseNVOffset, ParseOneCharToken (CHR ''_'')])
    (try_else copy (all_of [ParseOneCharToken (CHR ''v''), ParseVOffset, ParseOneCharToken (CHR ''_'')])
     (ret False))))"

definition ParseRefQualifier :: "bool dem" where
  "ParseRefQualifier = ParseCharClass ''OR''"

definition ParseCVQualifiers :: "bool dem" where
  "ParseCVQualifiers = guarded_d False
     (bind_d (ParseOneCharToken (CHR ''r'')) (\<lambda>r.
      bind_d (ParseOneCharToken (CHR ''V'')) (\<lambda>v.
      bind_d (ParseOneCharToken (CHR ''K'')) (\<lambda>k. ret (of_bool r + of_bool v + of_bool k > (0::nat))))))"

section \<open>Builtin types\<close>

primrec builtin_loop :: "abbrev_pair list \<Rightarrow> bool dem" where
  "builtin_loop [] = ret False"
| "builtin_loop (p # ps) = (case p of (abbrev, real_name, arity) \<Rightarrow>
     if length abbrev = 1
     then bind_d (ParseOneCharToken (abbrev ! 0)) (\<lambda>b.
            if b then bind_d (MaybeAppend real_name) (\<lambda>_. ret True) else builtin_loop ps)
     else bind_d (and_d (ret (length abbrev = 2)) (ParseTwoCharToken abbrev)) (\<lambda>b.
            if b then bind_d (MaybeAppend real_name) (\<lambda>_. ret True) else builtin_loop ps))"

definition ParseBuiltinType :: "bool dem" where
  "ParseBuiltinType = guarded_d False
     (or_d (builtin_loop kBuiltinTypeList)
       (save (\<lambda>copy.
          try_else copy (all_of [ParseOneCharToken (CHR ''u''), ParseSourceName])
          (ret False))))"

section \<open>Template parameters and substitutions\<close>

definition ParseTemplateParam :: "bool dem" where
  "ParseTemplateParam = guarded_d False
     (or_d (all_of [ParseTwoCharToken ''T_'', MaybeAppend ''?''])
       (save (\<lambda>copy.
          try_else copy (all_of [ParseOneCharToken (CHR ''T''), found ParseNumber,
              ParseOneCharToken (CHR ''_''), MaybeAppend ''?''])
          (ret False))))"

text \<open>The loop over \<open>kSubstitutionList\<close>, after the \<open>S\<close>.\<close>

primrec substitution_loop :: "bool \<Rightarrow> abbrev_pair list \<Rightarrow> bool dem" where
  "substitution_loop accept_std [] = ret False"
| "substitution_loop accept_std (p # ps) = (case p of (abbrev, real_name, arity) \<Rightarrow>
     bind_d (input_at 0) (\<lambda>c.
     if c = abbrev ! 1 \<and> (accept_std \<or> abbrev ! 1 \<noteq> CHR ''t'')
     then bind_d (MaybeAppend ''std'') (\<lambda>_.
          bind_d (if real_name \<noteq> [] then all_of [MaybeAppend ''::'', MaybeAppend real_name] else ret True) (\<lambda>_.
          advance 1))
     else substitution_loop accept_std ps))"

definition ParseSubstitution :: "bool \<Rightarrow> bool dem" where
  "ParseSubstitution accept_std = guarded_d False
     (or_d (all_of [ParseTwoCharToken ''S_'', MaybeAppend ''?''])
       (save (\<lambda>copy.
          try_else copy (all_of [ParseOneCharToken (CHR ''S''), ParseSeqId,
              ParseOneCharToken (CHR ''_''), MaybeAppend ''?''])
         (try_else copy (all_of [ParseOneCharToken (CHR ''S''), substitution_loop accept_std kSubstitutionList])
          (ret False)))))"

definition ParseTemplateTemplateParam :: "bool dem" where
  "ParseTemplateTemplateParam = guarded_d False
     (any_of [ParseTemplateParam, ParseSubstitution False])"

definition ParseExprCastValue :: "bool dem" where
  "ParseExprCastValue = guarded_d False (save (\<lambda>copy.
     try_else copy (all_of [found ParseNumber, ParseOneCharToken (CHR ''E'')])
    (try_else copy (all_of [ParseFloatNumber, ParseOneCharToken (CHR ''E'')])
     (ret False))))"

end
