(* ===== verification/Demangle_Parse.thy ===== *)
theory Demangle_Parse
  imports Demangle_Tokens
begin

text \<open>
  \<open>demangle.cc\<close>, third part: the mutually recursive parsing functions and the entry point.

  Each function is a definition over \<open>rec\<close>, which stands for the calls that close a cycle of
  the grammar; calls to functions defined before are direct. \<open>parse\<close> ties the knot, with
  fuel for the recursion and for the loops.
\<close>

section \<open>The cycles\<close>

text \<open>\<open>Many f\<close> is the loop \<open>while (f(state)) {}\<close>, \<open>Prefix_loop\<close> the loop of \<open>ParsePrefix\<close> with
  its local variable \<open>has_something\<close>.\<close>

datatype nonterm =
    Encoding | Name | Prefix | Prefix_loop bool | Type | Template_arg | Expression
  | Simple_id | Many nonterm

type_synonym calls = "nonterm \<Rightarrow> bool dem"

definition OneOrMore :: "calls \<Rightarrow> nonterm \<Rightarrow> bool dem" where
  "OneOrMore rec f = bind_d (rec f) (\<lambda>b. if b then bind_d (rec (Many f)) (\<lambda>_. ret True) else ret False)"

definition ZeroOrMore :: "calls \<Rightarrow> nonterm \<Rightarrow> bool dem" where
  "ZeroOrMore rec f = bind_d (rec (Many f)) (\<lambda>_. ret True)"

section \<open>Names\<close>

definition ParseMangledName :: "calls \<Rightarrow> bool dem" where
  "ParseMangledName rec = guarded_d False (all_of [ParseTwoCharToken ''_Z'', rec Encoding])"

definition ParseTemplateArgs :: "calls \<Rightarrow> bool dem" where
  "ParseTemplateArgs rec = guarded_d False (save (\<lambda>copy.
     try_else copy (all_of [DisableAppend, ParseOneCharToken (CHR ''I''), OneOrMore rec Template_arg,
         ParseOneCharToken (CHR ''E''), RestoreAppend (append_flag copy), MaybeAppend ''<>''])
     (ret False)))"

text \<open>The numbering of an unnamed type or closure, after its opening.\<close>

definition parse_which :: "string \<Rightarrow> bool dem" where
  "parse_which prefix = bind_d ParseNumber (\<lambda>r.
     let which = (case r of None \<Rightarrow> - 1 | Some n \<Rightarrow> n)
     in if which \<le> INT_MAX - 2
        then all_of [ParseOneCharToken (CHR ''_''), MaybeAppend prefix,
               MaybeAppendDecimal (word_of_int (2 + which)), MaybeAppend ''}'']
        else ret False)"

definition ParseUnnamedTypeName :: "calls \<Rightarrow> bool dem" where
  "ParseUnnamedTypeName rec = guarded_d False (save (\<lambda>copy.
     try_else copy (all_of [ParseTwoCharToken ''Ut'', parse_which ''{unnamed type#''])
    (try_else copy (all_of [ParseTwoCharToken ''Ul'', DisableAppend, OneOrMore rec Type,
         RestoreAppend (append_flag copy), ParseOneCharToken (CHR ''E''), parse_which ''{lambda()#''])
     (ret False))))"

text \<open>The last part of \<open>ParseOperatorName\<close>: the two letters are looked up in the table.\<close>

definition operator_lookup :: "int option dem" where
  "operator_lookup =
     bind_d (input_at 0) (\<lambda>c0. bind_d (if IsLower c0 then input_at 1 else ret NUL) (\<lambda>c1.
     if IsLower c0 \<and> IsAlpha c1
     then (case find (\<lambda>(abbrev, _, _). c0 = abbrev ! 0 \<and> c1 = abbrev ! 1) kOperatorList of
        None \<Rightarrow> ret None
      | Some (abbrev, real_name, arity) \<Rightarrow>
          bind_d (MaybeAppend ''operator'') (\<lambda>_.
          bind_d (if IsLower (real_name ! 0) then MaybeAppend '' '' else ret True) (\<lambda>_.
          bind_d (MaybeAppend real_name) (\<lambda>_.
          bind_d (advance 2) (\<lambda>_. ret (Some arity))))))
     else ret None))"

definition vendor_operator :: "int option dem" where
  "vendor_operator =
     bind_d (ParseOneCharToken (CHR ''v'')) (\<lambda>b.
     bind_d (if b then ParseDigit else ret None) (\<lambda>digit.
     bind_d (if digit \<noteq> None then ParseSourceName else ret False) (\<lambda>b.
     ret (if b then digit else None))))"

definition ParseOperatorName :: "calls \<Rightarrow> int option dem" where
  "ParseOperatorName rec = guarded_d None
     (bind_d (get_d RemainingInput) (\<lambda>rest.
      if \<not> AtLeastNumCharsRemaining rest 2 then ret None
      else save (\<lambda>copy.
        bind_d (all_of [ParseTwoCharToken ''cv'', MaybeAppend ''operator '', EnterNestedName,
            rec Type, LeaveNestedName (nest_level copy)]) (\<lambda>b.
        if b then ret (Some 1)
        else bind_d (restore copy) (\<lambda>_.
        bind_d vendor_operator (\<lambda>r.
        if r \<noteq> None then ret r
        else bind_d (restore copy) (\<lambda>_. operator_lookup)))))))"

definition ParseClassEnumType :: "calls \<Rightarrow> bool dem" where
  "ParseClassEnumType rec = guarded_d False (rec Name)"

text \<open>The name remembered in the output buffer, printed again.\<close>

definition append_prev_name :: "bool dem" where
  "append_prev_name = bind_d (get_d parse_state) (\<lambda>p.
     bind_d (MaybeAppendWithLength (Output (prev_name_idx p)) (prev_name_length p)) (\<lambda>_. ret True))"

text \<open>The destructor's pointer to the name is taken before \<open>~\<close> is appended, the length after.\<close>

definition append_dtor_name :: "bool dem" where
  "append_dtor_name = bind_d (get_d (\<lambda>s. prev_name_idx (parse_state s))) (\<lambda>prev_name.
     bind_d (MaybeAppend ''~'') (\<lambda>_.
     bind_d (get_d (\<lambda>s. prev_name_length (parse_state s))) (\<lambda>len.
     bind_d (MaybeAppendWithLength (Output prev_name) len) (\<lambda>_. ret True))))"

definition ParseCtorDtorName :: "calls \<Rightarrow> bool dem" where
  "ParseCtorDtorName rec = guarded_d False (save (\<lambda>copy.
     try_else copy (all_of [ParseOneCharToken (CHR ''C''),
         any_of [all_of [ParseCharClass ''1234'', append_prev_name],
                 all_of [ParseOneCharToken (CHR ''I''), ParseCharClass ''12'', ParseClassEnumType rec]]])
    (try_else copy (all_of [ParseOneCharToken (CHR ''D''), ParseCharClass ''0124'', append_dtor_name])
     (ret False))))"

definition ParseUnqualifiedName :: "calls \<Rightarrow> bool dem" where
  "ParseUnqualifiedName rec = guarded_d False
     (any_of [found (ParseOperatorName rec), ParseCtorDtorName rec, ParseSourceName,
        ParseLocalSourceName, ParseUnnamedTypeName rec])"

definition ParseUnscopedName :: "calls \<Rightarrow> bool dem" where
  "ParseUnscopedName rec = guarded_d False
     (or_d (ParseUnqualifiedName rec)
       (save (\<lambda>copy.
          try_else copy (all_of [ParseTwoCharToken ''St'', MaybeAppend ''std::'', ParseUnqualifiedName rec])
          (ret False))))"

definition ParsePrefix :: "calls \<Rightarrow> bool dem" where
  "ParsePrefix rec = guarded_d False (rec (Prefix_loop False))"

definition prefix_body :: "calls \<Rightarrow> bool \<Rightarrow> bool dem" where
  "prefix_body rec has_something =
     bind_d MaybeAppendSeparator (\<lambda>_.
     bind_d (any_of [ParseTemplateParam, ParseSubstitution True, ParseUnscopedName rec,
         all_of [ParseOneCharToken (CHR ''M''), ParseUnnamedTypeName rec]]) (\<lambda>b.
     if b then bind_d MaybeIncreaseNestLevel (\<lambda>_. rec (Prefix_loop True))
     else bind_d MaybeCancelLastSeparator (\<lambda>_.
       bind_d (if has_something then ParseTemplateArgs rec else ret False) (\<lambda>b.
       if b then rec Prefix else ret True))))"

definition ParseNestedName :: "calls \<Rightarrow> bool dem" where
  "ParseNestedName rec = guarded_d False (save (\<lambda>copy.
     try_else copy (all_of [ParseOneCharToken (CHR ''N''), EnterNestedName, Optional ParseCVQualifiers,
         Optional ParseRefQualifier, ParsePrefix rec, LeaveNestedName (nest_level copy),
         ParseOneCharToken (CHR ''E'')])
     (ret False)))"

definition ParseLocalNameSuffix :: "calls \<Rightarrow> bool dem" where
  "ParseLocalNameSuffix rec = guarded_d False
     (bind_d (all_of [MaybeAppend ''::'', rec Name, Optional ParseDiscriminator]) (\<lambda>b.
      if b then ret True
      else bind_d (get_d parse_state) (\<lambda>p.
        bind_d (if append_flag p then write_char (out_cur_idx p - 2) NUL else ret True) (\<lambda>_.
        all_of [ParseOneCharToken (CHR ''s''), Optional ParseDiscriminator]))))"

definition ParseLocalName :: "calls \<Rightarrow> bool dem" where
  "ParseLocalName rec = guarded_d False (save (\<lambda>copy.
     try_else copy (all_of [ParseOneCharToken (CHR ''Z''), rec Encoding, ParseOneCharToken (CHR ''E''),
         ParseLocalNameSuffix rec])
     (ret False)))"

definition ParseName :: "calls \<Rightarrow> bool dem" where
  "ParseName rec = guarded_d False
     (or_d (any_of [ParseNestedName rec, ParseLocalName rec])
       (save (\<lambda>copy.
          try_else copy (all_of [ParseSubstitution False, ParseTemplateArgs rec])
          (all_of [ParseUnscopedName rec, Optional (ParseTemplateArgs rec)]))))"

section \<open>Encodings\<close>

definition ParseBareFunctionType :: "calls \<Rightarrow> bool dem" where
  "ParseBareFunctionType rec = guarded_d False (save (\<lambda>copy.
     try_else copy (all_of [DisableAppend, OneOrMore rec Type, RestoreAppend (append_flag copy),
         MaybeAppend ''()''])
     (ret False)))"

definition ParseSpecialName :: "calls \<Rightarrow> bool dem" where
  "ParseSpecialName rec = guarded_d False (save (\<lambda>copy.
     try_else copy (all_of [ParseOneCharToken (CHR ''T''), ParseCharClass ''VTISH'', rec Type])
    (try_else copy (all_of [ParseTwoCharToken ''Tc'', ParseCallOffset, ParseCallOffset, rec Encoding])
    (try_else copy (all_of [ParseTwoCharToken ''GV'', rec Name])
    (try_else copy (all_of [ParseOneCharToken (CHR ''T''), ParseCallOffset, rec Encoding])
    (try_else copy (all_of [ParseTwoCharToken ''TC'', rec Type, found ParseNumber,
         ParseOneCharToken (CHR ''_''), DisableAppend, rec Type, RestoreAppend (append_flag copy)])
    (try_else copy (all_of [ParseOneCharToken (CHR ''T''), ParseCharClass ''FJ'', rec Type])
    (try_else copy (all_of [ParseTwoCharToken ''GR'', rec Name])
    (try_else copy (all_of [ParseTwoCharToken ''GA'', rec Encoding])
    (try_else copy (all_of [ParseOneCharToken (CHR ''T''), ParseCharClass ''hv'', ParseCallOffset, rec Encoding])
     (ret False)))))))))))"

definition ParseEncoding :: "calls \<Rightarrow> bool dem" where
  "ParseEncoding rec = guarded_d False
     (any_of [all_of [rec Name, Optional (ParseBareFunctionType rec)], ParseSpecialName rec])"

section \<open>Types\<close>

definition ParseDecltype :: "calls \<Rightarrow> bool dem" where
  "ParseDecltype rec = guarded_d False (save (\<lambda>copy.
     try_else copy (all_of [ParseOneCharToken (CHR ''D''), ParseCharClass ''tT'', rec Expression,
         ParseOneCharToken (CHR ''E'')])
     (ret False)))"

definition ParseExceptionSpec :: "calls \<Rightarrow> bool dem" where
  "ParseExceptionSpec rec = guarded_d False
     (or_d (ParseTwoCharToken ''Do'')
       (save (\<lambda>copy.
          try_else copy (all_of [ParseTwoCharToken ''DO'', rec Expression, ParseOneCharToken (CHR ''E'')])
         (try_else copy (all_of [ParseTwoCharToken ''Dw'', OneOrMore rec Type, ParseOneCharToken (CHR ''E'')])
          (ret False)))))"

definition ParseFunctionType :: "calls \<Rightarrow> bool dem" where
  "ParseFunctionType rec = guarded_d False (save (\<lambda>copy.
     try_else copy (all_of [Optional (ParseExceptionSpec rec), ParseOneCharToken (CHR ''F''),
         Optional (ParseOneCharToken (CHR ''Y'')), ParseBareFunctionType rec,
         Optional (ParseOneCharToken (CHR ''O'')), ParseOneCharToken (CHR ''E'')])
     (ret False)))"

definition ParseArrayType :: "calls \<Rightarrow> bool dem" where
  "ParseArrayType rec = guarded_d False (save (\<lambda>copy.
     try_else copy (all_of [ParseOneCharToken (CHR ''A''), found ParseNumber,
         ParseOneCharToken (CHR ''_''), rec Type])
    (try_else copy (all_of [ParseOneCharToken (CHR ''A''), Optional (rec Expression),
         ParseOneCharToken (CHR ''_''), rec Type])
     (ret False))))"

definition ParsePointerToMemberType :: "calls \<Rightarrow> bool dem" where
  "ParsePointerToMemberType rec = guarded_d False (save (\<lambda>copy.
     try_else copy (all_of [ParseOneCharToken (CHR ''M''), rec Type, rec Type])
     (ret False)))"

text \<open>A qualifier or tag, once read, is not backtracked: what follows must be a type.\<close>

definition type_after :: "calls \<Rightarrow> parse_state \<Rightarrow> bool dem \<Rightarrow> bool dem \<Rightarrow> bool dem" where
  "type_after rec copy qualifier n = bind_d qualifier (\<lambda>b.
     if b then bind_d (rec Type) (\<lambda>result.
            bind_d (if \<not> result then restore copy else ret True) (\<lambda>_. ret result))
     else bind_d (restore copy) (\<lambda>_. n))"

definition ParseType :: "calls \<Rightarrow> bool dem" where
  "ParseType rec = guarded_d False (save (\<lambda>copy.
     type_after rec copy ParseCVQualifiers
    (type_after rec copy (ParseCharClass ''OPRCG'')
    (try_else copy (all_of [ParseTwoCharToken ''Dp'', rec Type])
    (try_else copy (all_of [ParseOneCharToken (CHR ''U''), ParseSourceName, rec Type])
    (or_d (any_of [ParseBuiltinType, ParseFunctionType rec, ParseClassEnumType rec,
         ParseArrayType rec, ParsePointerToMemberType rec, ParseDecltype rec, ParseSubstitution False])
    (try_else copy (all_of [ParseTemplateTemplateParam, ParseTemplateArgs rec])
    (or_d ParseTemplateParam
    (try_else copy (all_of [ParseTwoCharToken ''Dv'', found ParseNumber, ParseOneCharToken (CHR ''_'')])
     (ret False))))))))))"

section \<open>Expressions\<close>

definition ParseUnresolvedType :: "calls \<Rightarrow> bool dem" where
  "ParseUnresolvedType rec =
     any_of [all_of [ParseTemplateParam, Optional (ParseTemplateArgs rec)], ParseDecltype rec,
       ParseSubstitution False]"

definition ParseSimpleId :: "calls \<Rightarrow> bool dem" where
  "ParseSimpleId rec = all_of [ParseSourceName, Optional (ParseTemplateArgs rec)]"

definition ParseBaseUnresolvedName :: "calls \<Rightarrow> bool dem" where
  "ParseBaseUnresolvedName rec = guarded_d False
     (or_d (ParseSimpleId rec)
       (save (\<lambda>copy.
          try_else copy (all_of [ParseTwoCharToken ''on'', found (ParseOperatorName rec),
              Optional (ParseTemplateArgs rec)])
         (try_else copy (all_of [ParseTwoCharToken ''dn'', any_of [ParseUnresolvedType rec, ParseSimpleId rec]])
          (ret False)))))"

definition ParseUnresolvedName :: "calls \<Rightarrow> bool dem" where
  "ParseUnresolvedName rec = guarded_d False (save (\<lambda>copy.
     try_else copy (all_of [Optional (ParseTwoCharToken ''gs''), ParseBaseUnresolvedName rec])
    (try_else copy (all_of [ParseTwoCharToken ''sr'', ParseUnresolvedType rec, ParseBaseUnresolvedName rec])
    (try_else copy (all_of [ParseTwoCharToken ''sr'', ParseOneCharToken (CHR ''N''), ParseUnresolvedType rec,
         OneOrMore rec Simple_id, ParseOneCharToken (CHR ''E''), ParseBaseUnresolvedName rec])
    (try_else copy (all_of [Optional (ParseTwoCharToken ''gs''), ParseTwoCharToken ''sr'',
         OneOrMore rec Simple_id, ParseOneCharToken (CHR ''E''), ParseBaseUnresolvedName rec])
     (ret False))))))"

definition ParseExprPrimary :: "calls \<Rightarrow> bool dem" where
  "ParseExprPrimary rec = guarded_d False (save (\<lambda>copy.
     bind_d (ParseTwoCharToken ''LZ'') (\<lambda>b.
     if b then try_else copy (all_of [rec Encoding, ParseOneCharToken (CHR ''E'')]) (ret False)
     else
       try_else copy (all_of [ParseOneCharToken (CHR ''L''), rec Type, ParseExprCastValue])
      (try_else copy (all_of [ParseOneCharToken (CHR ''L''), ParseMangledName rec,
           ParseOneCharToken (CHR ''E'')])
       (ret False)))))"

text \<open>The arguments of a conversion, after \<open>cv <type>\<close>.\<close>

definition conversion_args :: "calls \<Rightarrow> bool dem" where
  "conversion_args rec = save (\<lambda>copy2.
     try_else copy2 (all_of [ParseOneCharToken (CHR ''_''), ZeroOrMore rec Expression,
         ParseOneCharToken (CHR ''E'')])
     (rec Expression))"

definition operator_expression :: "calls \<Rightarrow> bool dem" where
  "operator_expression rec = bind_d (ParseOperatorName rec) (\<lambda>r. case r of
       None \<Rightarrow> ret False
     | Some arity \<Rightarrow> all_of [ret (arity > 0),
         if arity < 3 then ret True else rec Expression,
         if arity < 2 then ret True else rec Expression,
         if arity < 1 then ret True else rec Expression])"

definition ParseExpression :: "calls \<Rightarrow> bool dem" where
  "ParseExpression rec = guarded_d False
     (or_d (any_of [ParseTemplateParam, ParseExprPrimary rec])
     (save (\<lambda>copy.
     try_else copy (all_of [ParseTwoCharToken ''cl'', OneOrMore rec Expression, ParseOneCharToken (CHR ''E'')])
    (try_else copy (all_of [ParseTwoCharToken ''fp'', Optional ParseCVQualifiers,
         Optional (found ParseNumber), ParseOneCharToken (CHR ''_'')])
    (try_else copy (all_of [ParseTwoCharToken ''fL'', Optional (found ParseNumber),
         ParseOneCharToken (CHR ''p''), Optional ParseCVQualifiers,
         Optional (found ParseNumber), ParseOneCharToken (CHR ''_'')])
    (try_else copy (bind_d (ParseTwoCharToken ''cv'') (\<lambda>b.
         if b then all_of [rec Type, conversion_args rec] else operator_expression rec))
    (try_else copy (all_of [ParseTwoCharToken ''st'', rec Type])
    (try_else copy (all_of [any_of [ParseTwoCharToken ''dt'', ParseTwoCharToken ''pt''],
         rec Expression, rec Type])
    (try_else copy (all_of [ParseTwoCharToken ''ds'', rec Expression, rec Expression])
    (try_else copy (all_of [ParseTwoCharToken ''sp'', rec Expression])
     (ParseUnresolvedName rec)))))))))))"

definition ParseTemplateArg :: "calls \<Rightarrow> bool dem" where
  "ParseTemplateArg rec = guarded_d False (save (\<lambda>copy.
     try_else copy (all_of [ParseOneCharToken (CHR ''J''), ZeroOrMore rec Template_arg,
         ParseOneCharToken (CHR ''E'')])
     (bind_d (all_of [ParseLocalSourceName, Optional (ParseTemplateArgs rec)]) (\<lambda>b.
      if b then save (\<lambda>copy.
        try_else copy (all_of [ParseExprCastValue, ParseOneCharToken (CHR ''E'')]) (ret True))
      else try_else copy (any_of [rec Type, ParseExprPrimary rec])
          (try_else copy (all_of [ParseOneCharToken (CHR ''X''), rec Expression, ParseOneCharToken (CHR ''E'')])
           (ret False))))))"

section \<open>The knot\<close>

primrec parse :: "nat \<Rightarrow> calls" where
  "parse 0 nt = (\<lambda>s. Out_of_fuel)"
| "parse (Suc n) nt = (case nt of
       Encoding \<Rightarrow> ParseEncoding (parse n)
     | Name \<Rightarrow> ParseName (parse n)
     | Prefix \<Rightarrow> ParsePrefix (parse n)
     | Prefix_loop has_something \<Rightarrow> prefix_body (parse n) has_something
     | Type \<Rightarrow> ParseType (parse n)
     | Template_arg \<Rightarrow> ParseTemplateArg (parse n)
     | Expression \<Rightarrow> ParseExpression (parse n)
     | Simple_id \<Rightarrow> ParseSimpleId (parse n)
     | Many f \<Rightarrow> bind_d (parse n f) (\<lambda>b. if b then parse n (Many f) else ret False))"

definition ParseTopLevelMangledName :: "calls \<Rightarrow> bool dem" where
  "ParseTopLevelMangledName rec = guarded_d False
     (bind_d (ParseMangledName rec) (\<lambda>b.
      if b then
        bind_d (input_at 0) (\<lambda>c.
        if c \<noteq> NUL then
          bind_d (get_d RemainingInput) (\<lambda>rest.
          if IsFunctionCloneSuffix rest then ret True
          else if c = CHR ''@'' then bind_d (MaybeAppend rest) (\<lambda>_. ret True)
          else ret False)
        else ret True)
      else ret False))"

text \<open>The result of the call; the final state holds the caller's buffer after it.\<close>

definition Demangle :: "nat \<Rightarrow> string \<Rightarrow> string \<Rightarrow> int \<Rightarrow> bool dres" where
  "Demangle fuel mangled out out_size =
     bind_d (ParseTopLevelMangledName (parse fuel)) (\<lambda>b.
     bind_d (get_d Overflowed) (\<lambda>overflowed. ret (b \<and> \<not> overflowed)))
     (InitState mangled out out_size)"

end
