(* ===== verification/Demangle_Safe.thy ===== *)
theory Demangle_Safe
  imports Demangle_Output Demangle_Parse
begin

text \<open>
  \<open>demangle.cc\<close>: every parsing function stays inside the input and the output buffer and
  returns, given fuel for the step limit; those that promise it restore the parse state
  when they fail.
\<close>

section \<open>Output functions\<close>

lemma StrLen_le: "int (StrLen t) \<le> int (length t)"
  by (simp add: StrLen_def length_takeWhile_le)

lemma MaybeAppend_run:
  assumes "state_ok s"
  shows "\<exists>s'. MaybeAppend t s = Done True s' \<and> state_ok s' \<and> appended s s'"
  using MaybeAppendWithLength_run [OF assms can_append_Text [OF StrLen_le], of t] assms
  by (auto simp: MaybeAppend_def bind_d_def get_d_def ret_def)

lemma runs_appended:
  assumes "\<And>s. state_ok s \<Longrightarrow> \<exists>a s'. m s = Done a s' \<and> state_ok s' \<and> appended s s'"
  shows "runs C F m"
  using assms by (meson runsI appended_same_run)

lemma runs_MaybeAppend [runs_rules]: "runs C F (MaybeAppend t)"
  by (rule runs_appended) (use MaybeAppend_run in blast)

lemma runs_MaybeAppendDecimal [runs_rules]: "runs C F (MaybeAppendDecimal val)"
proof (rule runs_appended)
  fix s assume ok: "state_ok s"
  let ?t = "decimal_loop 20 (unat val) []"
  obtain buf where "Append (Text ?t) (int (length ?t)) s = Done True (written s buf (cur_after s (int (length ?t))))"
    "buffer_like s buf"
    using Append_run [OF state_ok_end_ok [OF ok], of "Text ?t" "int (length ?t)"] by auto
  with ok show "\<exists>a s'. MaybeAppendDecimal val s = Done a s' \<and> state_ok s' \<and> appended s s'"
    by (auto simp: MaybeAppendDecimal_def bind_d_def get_d_def ret_def Let_def
        intro: state_ok_append appended_written)
qed

text \<open>Text that starts with neither \<open><\<close> nor a letter is appended as it is.\<close>

lemma MaybeAppend_plain:
  assumes "append_flag (parse_state s)" and "NUL \<notin> set (c # cs)" and "c \<noteq> CHR ''<''" "\<not> IsAlpha c" "c \<noteq> CHR ''_''"
  shows "MaybeAppend (c # cs) s = bind_d (Append (Text (c # cs)) (int (length (c # cs)))) (\<lambda>_. ret True) s"
proof -
  have "StrLen (c # cs) = length (c # cs)"
    using assms(2) by (auto simp: StrLen_def intro!: arg_cong [of _ _ length] takeWhile_eq_all_conv [THEN iffD2])
  with assms show ?thesis
    by (simp add: MaybeAppend_def MaybeAppendWithLength_def bind_d_def get_d_def and_d_def ret_def char_at_def
        split: dres.split)
qed

lemma colons_run:
  assumes ok: "state_ok s"
  shows "\<exists>buf. buffer_like s buf \<and> MaybeAppend ''::'' s = Done True
    (written s buf (if append_flag (parse_state s) then cur_after s 2 else out_cur s))"
proof (cases "append_flag (parse_state s)")
  case True
  obtain buf where "Append (Text ''::'') 2 s = Done True (written s buf (cur_after s 2))" "buffer_like s buf"
    using Append_run [OF state_ok_end_ok [OF ok], of "Text ''::''" 2] by auto
  with True MaybeAppend_plain [of s "CHR '':''" "'':''"] show ?thesis
    by (auto simp: bind_d_def get_d_def ret_def IsAlpha_def IsLower_def)
next
  case False
  then have "MaybeAppend ''::'' s = Done True s"
    by (simp add: MaybeAppend_def bind_d_def get_d_def ret_def)
  with False show ?thesis
    using written_same [of s] buffer_like_refl [of s] by (intro exI [of _ "out_buf s"]) auto
qed

lemma separator_run:
  assumes ok: "state_ok s"
  shows "\<exists>buf. buffer_like s buf \<and> MaybeAppendSeparator s = Done True
    (written s buf (if nest_level (parse_state s) \<ge> 1 \<and> append_flag (parse_state s)
       then cur_after s 2 else out_cur s))"
proof (cases "nest_level (parse_state s) \<ge> 1")
  case True
  with colons_run [OF ok] show ?thesis by (simp add: MaybeAppendSeparator_def bind_get)
next
  case False
  then show ?thesis
    using written_same [of s] buffer_like_refl [of s]
    by (intro exI [of _ "out_buf s"]) (simp add: MaybeAppendSeparator_def bind_get ret_def)
qed

lemma runs_ps_update:
  assumes "\<And>s p. ps_ok s p \<Longrightarrow> ps_ok s (f p)"
  shows "runs C F (do_d (ps_update f))"
proof (rule runsI)
  fix s assume s: "state_ok s"
  have "state_ok (ps_update f s)"
    using s assms [of s "parse_state s"] by (simp add: state_ok_def ps_update_def ps_ok_def)
  moreover have "same_run s (ps_update f s)" by (simp add: same_run_def ps_update_def)
  ultimately show "\<exists>a s'. do_d (ps_update f) s = Done a s' \<and> state_ok s' \<and> same_run s s'"
    by (auto simp: do_d_def)
qed

lemma runs_flags [runs_rules]:
  "runs C F EnterNestedName" "runs C F (LeaveNestedName n)" "runs C F DisableAppend"
  "runs C F (RestoreAppend b)" "runs C F MaybeIncreaseNestLevel"
  unfolding EnterNestedName_def LeaveNestedName_def DisableAppend_def RestoreAppend_def
    MaybeIncreaseNestLevel_def
  by (rule runs_ps_update; simp add: ps_ok_def)+

section \<open>Tokens\<close>

lemma state_ok_advance:
  "state_ok s \<Longrightarrow> mangled_idx (parse_state s) + n \<le> length (mangled_begin s) \<Longrightarrow>
     advance n s = Done True (ps_update (\<lambda>p. p\<lparr>mangled_idx := mangled_idx p + n\<rparr>) s) \<and>
     state_ok (ps_update (\<lambda>p. p\<lparr>mangled_idx := mangled_idx p + n\<rparr>) s) \<and>
     same_run s (ps_update (\<lambda>p. p\<lparr>mangled_idx := mangled_idx p + n\<rparr>) s)"
  by (auto simp: advance_def bind_d_def get_d_def index_d_def do_d_def state_ok_def ps_ok_def
      same_run_def ps_update_def nat_int_add in_int_def)

text \<open>The next character, and whether it is the terminator.\<close>

lemma input_at_0:
  assumes "state_ok s"
  shows "\<exists>c. input_at 0 s = Done c s \<and>
    (c = NUL \<longleftrightarrow> mangled_idx (parse_state s) = length (mangled_begin s)) \<and>
    (c \<noteq> NUL \<longrightarrow> mangled_idx (parse_state s) < length (mangled_begin s) \<and>
      c = mangled_begin s ! mangled_idx (parse_state s))"
proof -
  let ?i = "mangled_idx (parse_state s)"
  have "?i \<le> length (mangled_begin s)" and "NUL \<notin> set (mangled_begin s)"
    using assms by (simp_all add: state_ok_def ps_ok_def)
  moreover have "?i < length (mangled_begin s) \<Longrightarrow> mangled_begin s ! ?i \<noteq> NUL"
    using calculation nth_mem by metis
  ultimately show ?thesis by (auto simp: input_at_def char_at_def)
qed

lemma input_at_1:
  assumes "state_ok s" and "mangled_idx (parse_state s) < length (mangled_begin s)"
  shows "\<exists>c. input_at 1 s = Done c s \<and>
    (c \<noteq> NUL \<longrightarrow> Suc (mangled_idx (parse_state s)) < length (mangled_begin s))"
  using assms by (auto simp: input_at_def char_at_def state_ok_def)

lemma runs_input_at_0 [runs_rules]: "runs C F (input_at 0)"
proof (rule runsI)
  fix s assume "state_ok s"
  with input_at_0 [OF this] show "\<exists>a s'. input_at 0 s = Done a s' \<and> state_ok s' \<and> same_run s s'"
    by fastforce
qed

lemma runs_one_char_body:
  assumes "t \<noteq> NUL"
  shows "runs C F (bind_d (input_at 0) (\<lambda>c. if c = t then advance 1 else ret False))"
proof (rule runsI)
  fix s assume s: "state_ok s"
  obtain c where c: "input_at 0 s = Done c s"
    "c \<noteq> NUL \<longrightarrow> mangled_idx (parse_state s) < length (mangled_begin s)"
    using input_at_0 [OF s] by blast
  show "\<exists>a s'. bind_d (input_at 0) (\<lambda>c. if c = t then advance 1 else ret False) s = Done a s' \<and>
      state_ok s' \<and> same_run s s'"
  proof (cases "c = t")
    case True
    then have "mangled_idx (parse_state s) + 1 \<le> length (mangled_begin s)" using c(2) assms by simp
    from state_ok_advance [OF s this] True c(1) show ?thesis by (auto simp: bind_d_def)
  next
    case False
    with c(1) s show ?thesis by (auto simp: bind_d_def ret_def)
  qed
qed

lemma runs_ParseOneCharToken [runs_rules]: "t \<noteq> NUL \<Longrightarrow> runs C F (ParseOneCharToken t)"
  unfolding ParseOneCharToken_def by (intro runs_guarded runs_one_char_body)

lemma runs_ParseTwoCharToken [runs_rules]:
  assumes "t ! 0 \<noteq> NUL" and "t ! 1 \<noteq> NUL"
  shows "runs C F (ParseTwoCharToken t)"
  unfolding ParseTwoCharToken_def
proof (intro runs_guarded runsI)
  fix s assume s: "state_ok s"
  let ?m = "bind_d (input_at 0) (\<lambda>c0. if c0 = t ! 0
      then bind_d (input_at 1) (\<lambda>c1. if c1 = t ! 1 then advance 2 else ret False) else ret False)"
  obtain c where c: "input_at 0 s = Done c s"
    "c \<noteq> NUL \<longrightarrow> mangled_idx (parse_state s) < length (mangled_begin s)"
    using input_at_0 [OF s] by blast
  show "\<exists>a s'. ?m s = Done a s' \<and> state_ok s' \<and> same_run s s'"
  proof (cases "c = t ! 0")
    case False
    with c(1) s show ?thesis by (auto simp: bind_d_def ret_def)
  next
    case True
    then obtain d where d: "input_at 1 s = Done d s"
      "d \<noteq> NUL \<longrightarrow> Suc (mangled_idx (parse_state s)) < length (mangled_begin s)"
      using input_at_1 [OF s] c(2) assms(1) by blast
    show ?thesis
    proof (cases "d = t ! 1")
      case False
      with c(1) d(1) True s show ?thesis by (auto simp: bind_d_def ret_def)
    next
      case eq: True
      then have "mangled_idx (parse_state s) + 2 \<le> length (mangled_begin s)" using d(2) assms(2) by simp
      from state_ok_advance [OF s this] True eq c(1) d(1) show ?thesis by (auto simp: bind_d_def)
    qed
  qed
qed

lemma runs_ParseCharClass [runs_rules]: "runs C F (ParseCharClass cs)"
  unfolding ParseCharClass_def
proof (intro runs_guarded runsI)
  fix s assume s: "state_ok s"
  let ?m = "bind_d (input_at 0) (\<lambda>c. if c = NUL then ret False
      else if List.member cs c then advance 1 else ret False)"
  obtain c where c: "input_at 0 s = Done c s"
    "c \<noteq> NUL \<longrightarrow> mangled_idx (parse_state s) < length (mangled_begin s)"
    using input_at_0 [OF s] by blast
  show "\<exists>a s'. ?m s = Done a s' \<and> state_ok s' \<and> same_run s s'"
  proof (cases "c \<noteq> NUL \<and> List.member cs c")
    case True
    then have "mangled_idx (parse_state s) + 1 \<le> length (mangled_begin s)" using c(2) by simp
    from state_ok_advance [OF s this] True c(1) show ?thesis by (auto simp: bind_d_def)
  next
    case False
    with c(1) s show ?thesis by (auto simp: bind_d_def ret_def)
  qed
qed

lemma keeps_ParseOneCharToken [keeps_rules]: "keeps p F (ParseOneCharToken t)"
  unfolding ParseOneCharToken_def
  by (intro keeps_guarded) (auto simp: keeps_def bind_d_def ret_def advance_def do_d_def input_at_def
      split: dres.splits if_splits option.splits)

lemma keeps_ParseTwoCharToken [keeps_rules]: "keeps p F (ParseTwoCharToken t)"
  unfolding ParseTwoCharToken_def
  by (intro keeps_guarded) (auto simp: keeps_def bind_d_def ret_def advance_def do_d_def input_at_def
      split: dres.splits if_splits option.splits)

lemma keeps_ParseCharClass [keeps_rules]: "keeps p F (ParseCharClass cs)"
  unfolding ParseCharClass_def
  by (intro keeps_guarded) (auto simp: keeps_def bind_d_def ret_def advance_def do_d_def input_at_def
      split: dres.splits if_splits option.splits)

section \<open>Numbers and identifiers\<close>

lemma span_bound:
  assumes "state_ok s" and "n \<le> length (RemainingInput s)"
  shows "mangled_idx (parse_state s) + n \<le> length (mangled_begin s)"
proof -
  have "mangled_idx (parse_state s) \<le> length (mangled_begin s)"
    using assms(1) by (simp add: state_ok_def ps_ok_def)
  with assms(2) show ?thesis by (simp add: RemainingInput_def)
qed

lemma runs_advance_in:
  assumes "state_ok s" and "n \<le> length (RemainingInput s)"
  shows "\<exists>a s'. advance n s = Done a s' \<and> state_ok s' \<and> same_run s s'"
  using state_ok_advance [OF assms(1) span_bound [OF assms]] by blast

lemma runs_span:
  "runs C F (bind_d (get_d RemainingInput) (\<lambda>rest. let n = length (takeWhile P rest)
     in if n \<noteq> 0 then advance n else ret False))"
proof (rule runsI)
  fix s assume s: "state_ok s"
  show "\<exists>a s'. bind_d (get_d RemainingInput) (\<lambda>rest. let n = length (takeWhile P rest)
     in if n \<noteq> 0 then advance n else ret False) s = Done a s' \<and> state_ok s' \<and> same_run s s'"
    using runs_advance_in [OF s, of "length (takeWhile P (RemainingInput s))"] s
    by (auto simp: bind_d_def get_d_def ret_def Let_def length_takeWhile_le)
qed

lemma runs_ParseFloatNumber [runs_rules]: "runs C F ParseFloatNumber"
  unfolding ParseFloatNumber_def by (intro runs_guarded runs_span)

lemma runs_ParseSeqId [runs_rules]: "runs C F ParseSeqId"
  unfolding ParseSeqId_def by (intro runs_guarded runs_span)

lemma runs_ParseDigit [runs_rules]: "runs C F ParseDigit"
  unfolding ParseDigit_def by (intro runs_rules)

lemma runs_number_tail:
  "runs C F (bind_d (get_d RemainingInput) (\<lambda>rest.
      let number = number_loop 0 rest; number = (if negative then NOT number + 1 else number);
          n = length (takeWhile IsDigit rest)
      in if n \<noteq> 0 then bind_d (advance n) (\<lambda>_. ret (Some (sint (ucast number :: 32 word)))) else ret None))"
  (is "runs C F ?m")
proof (rule runsI)
  fix s assume s: "state_ok s"
  show "\<exists>a s'. ?m s = Done a s' \<and> state_ok s' \<and> same_run s s'"
    using runs_advance_in [OF s, of "length (takeWhile IsDigit (RemainingInput s))"] s
    by (auto simp: bind_d_def get_d_def ret_def Let_def length_takeWhile_le)
qed

lemma runs_ParseNumber [runs_rules]: "runs C F ParseNumber"
  unfolding ParseNumber_def by (intro runs_guarded runs_bind runs_ParseOneCharToken runs_number_tail) simp

lemma runs_ParseIdentifier [runs_rules]: "runs C F (ParseIdentifier len)"
  unfolding ParseIdentifier_def
proof (intro runs_guarded runsI)
  fix s assume s: "state_ok s"
  let ?name = "if IdentifierIsAnonymousNamespace len s then MaybeAppend ''(anonymous namespace)''
    else MaybeAppendWithLength (Text (RemainingInput s)) len"
  show "\<exists>a s'. bind_d (get_d RemainingInput) (\<lambda>rest.
      if len < 0 \<or> \<not> AtLeastNumCharsRemaining rest len then ret False
      else bind_d (get_d (IdentifierIsAnonymousNamespace len)) (\<lambda>anonymous.
        bind_d (if anonymous then MaybeAppend ''(anonymous namespace)''
                else MaybeAppendWithLength (Text rest) len) (\<lambda>_.
        advance (nat len)))) s = Done a s' \<and> state_ok s' \<and> same_run s s'"
  proof (cases "len < 0 \<or> \<not> AtLeastNumCharsRemaining (RemainingInput s) len")
    case True
    with s show ?thesis by (auto simp: bind_d_def get_d_def ret_def)
  next
    case False
    then have len: "len \<le> int (length (RemainingInput s))"
      using StrLen_le [of "RemainingInput s"] by (simp add: AtLeastNumCharsRemaining_def)
    have "can_append (Text (RemainingInput s)) len s" by (rule can_append_Text [OF len])
    then obtain a s1 where s1: "?name s = Done a s1" "state_ok s1" "appended s s1"
      using MaybeAppend_run [OF s] MaybeAppendWithLength_run [OF s]
      by (cases "IdentifierIsAnonymousNamespace len s") (simp_all only: if_True if_False, blast+)
    have "RemainingInput s1 = RemainingInput s"
      using appended_fields [OF s1(3)] by (simp add: RemainingInput_def)
    then have "nat len \<le> length (RemainingInput s1)" using len by simp
    then obtain b s2 where "advance (nat len) s1 = Done b s2" "state_ok s2" "same_run s1 s2"
      using runs_advance_in [OF s1(2)] by blast
    moreover have "same_run s s2"
      using appended_same_run [OF s1(3)] calculation(3) by (rule same_run_trans)
    ultimately show ?thesis
      using False s1(1) by (simp add: bind_d_def get_d_def ret_def)
  qed
qed

lemma runs_case_option [runs_rules]:
  "runs C F m \<Longrightarrow> (\<And>a. runs C F (f a)) \<Longrightarrow> runs C F (case r of None \<Rightarrow> m | Some a \<Rightarrow> f a)"
  by (cases r) simp_all

lemma runs_ParseSourceName [runs_rules]: "runs C F ParseSourceName"
  unfolding ParseSourceName_def by (intro runs_guarded runs_rules)

lemma runs_ParseDiscriminator [runs_rules]: "runs C F ParseDiscriminator"
  unfolding ParseDiscriminator_def by (intro runs_guarded runs_rules) simp

lemma runs_ParseLocalSourceName [runs_rules]: "runs C F ParseLocalSourceName"
  unfolding ParseLocalSourceName_def by (intro runs_guarded runs_rules) simp

lemma runs_ParseNVOffset [runs_rules]: "runs C F ParseNVOffset"
  unfolding ParseNVOffset_def by (intro runs_guarded runs_rules)

lemma runs_ParseVOffset [runs_rules]: "runs C F ParseVOffset"
  unfolding ParseVOffset_def by (intro runs_guarded runs_rules) simp

lemma runs_ParseCallOffset [runs_rules]: "runs C F ParseCallOffset"
  unfolding ParseCallOffset_def by (intro runs_guarded runs_rules) simp_all

lemma runs_ParseRefQualifier [runs_rules]: "runs C F ParseRefQualifier"
  unfolding ParseRefQualifier_def by (rule runs_rules)

lemma runs_ParseCVQualifiers [runs_rules]: "runs C F ParseCVQualifiers"
  unfolding ParseCVQualifiers_def by (intro runs_guarded runs_rules) simp_all

lemma keeps_ParseSourceName [keeps_rules]: "keeps p F ParseSourceName"
  unfolding ParseSourceName_def by (intro keeps_guarded keeps_rules runs_rules)

lemma keeps_ParseDiscriminator [keeps_rules]: "keeps p F ParseDiscriminator"
  unfolding ParseDiscriminator_def by (intro keeps_guarded keeps_rules runs_rules) simp

lemma keeps_ParseLocalSourceName [keeps_rules]: "keeps p F ParseLocalSourceName"
  unfolding ParseLocalSourceName_def by (intro keeps_guarded keeps_rules runs_rules) simp

lemma keeps_ParseVOffset [keeps_rules]: "keeps p F ParseVOffset"
  unfolding ParseVOffset_def by (intro keeps_guarded keeps_rules runs_rules) simp

lemma keeps_ParseCallOffset [keeps_rules]: "keeps p F ParseCallOffset"
  unfolding ParseCallOffset_def by (intro keeps_guarded keeps_rules runs_rules) simp_all

section \<open>Tables\<close>

text \<open>The abbreviations are made of characters, not terminators.\<close>

definition abbrev_ok :: "abbrev_pair \<Rightarrow> bool" where
  "abbrev_ok p \<longleftrightarrow> fst p ! 0 \<noteq> NUL \<and> (length (fst p) \<noteq> 1 \<longrightarrow> fst p ! 1 \<noteq> NUL)"

lemma tables_ok: "list_all abbrev_ok kBuiltinTypeList" "list_all abbrev_ok kSubstitutionList"
  "list_all (\<lambda>p. length (fst p) = 2) kSubstitutionList"
  by (simp_all add: kBuiltinTypeList_def kSubstitutionList_def abbrev_ok_def)

lemma never_False:
  "MaybeAppend t s \<noteq> Done False s'" "bind_d m (\<lambda>_. ret True) s \<noteq> Done False s'" "ret True s \<noteq> Done False s'"
  by (auto simp: MaybeAppend_def bind_d_def get_d_def ret_def split: dres.splits)

lemma runs_builtin_loop: "list_all abbrev_ok ps \<Longrightarrow> runs C F (builtin_loop ps)"
proof (induction ps)
  case (Cons p ps)
  then show ?case
    by (cases p) (auto simp: abbrev_ok_def intro!: runs_rules)
qed (simp add: runs_rules)

lemma keeps_builtin_loop: "list_all abbrev_ok ps \<Longrightarrow> keeps p F (builtin_loop ps)"
proof (induction ps)
  case (Cons q ps)
  obtain abbrev real_name arity where q: "q = (abbrev, real_name, arity)" by (cases q) auto
  show ?case
  proof (cases "length abbrev = 1")
    case True
    with Cons q show ?thesis
      by (auto simp: abbrev_ok_def intro!: keeps_bind_if keeps_rules runs_rules dest: never_False(2) [THEN notE])
  next
    case False
    with Cons q show ?thesis
      by (auto simp: abbrev_ok_def intro!: keeps_bind_if keeps_rules runs_rules dest: never_False(2) [THEN notE])
  qed
qed (simp add: keeps_rules)

lemma runs_ParseBuiltinType [runs_rules]: "runs C F ParseBuiltinType"
  unfolding ParseBuiltinType_def
  by (intro runs_guarded runs_rules runs_builtin_loop tables_ok) simp

lemma keeps_ParseBuiltinType [keeps_rules]: "keeps p F ParseBuiltinType"
  unfolding ParseBuiltinType_def
  by (intro keeps_guarded keeps_rules runs_rules runs_builtin_loop keeps_builtin_loop tables_ok) simp

lemma keeps_token_append [keeps_rules]:
  "keeps p F m \<Longrightarrow> runs {} F m \<Longrightarrow> keeps p F (all_of [m, MaybeAppend t])"
  by (simp add: keeps_then_True never_False)

lemma runs_ParseTemplateParam [runs_rules]: "runs C F ParseTemplateParam"
  unfolding ParseTemplateParam_def by (intro runs_guarded runs_rules) simp_all

lemma keeps_ParseTemplateParam [keeps_rules]: "keeps p F ParseTemplateParam"
  unfolding ParseTemplateParam_def by (intro keeps_guarded keeps_rules runs_rules) simp_all

lemma runs_substitution_loop:
  assumes "list_all abbrev_ok ps" and "list_all (\<lambda>p. length (fst p) = 2) ps"
  shows "runs C F (substitution_loop accept_std ps)"
  using assms
proof (induction ps)
  case (Cons p ps)
  obtain abbrev real_name arity where p: "p = (abbrev, real_name, arity)" by (cases p) auto
  let ?out = "bind_d (MaybeAppend ''std'') (\<lambda>_.
    bind_d (if real_name \<noteq> [] then all_of [MaybeAppend ''::'', MaybeAppend real_name] else ret True) (\<lambda>_. ret True))"
  have out: "\<exists>s'. ?out s = Done True s' \<and> state_ok s' \<and> appended s s'" if s: "state_ok s" for s
  proof -
    obtain s1 where s1: "MaybeAppend ''std'' s = Done True s1" "state_ok s1" "appended s s1"
      using MaybeAppend_run [OF s] by blast
    obtain s2 where s2: "MaybeAppend ''::'' s1 = Done True s2" "state_ok s2" "appended s1 s2"
      using MaybeAppend_run [OF s1(2)] by blast
    obtain s3 where s3: "MaybeAppend real_name s2 = Done True s3" "state_ok s3" "appended s2 s3"
      using MaybeAppend_run [OF s2(2)] by blast
    have "appended s s3" using appended_trans [OF appended_trans [OF s1(3) s2(3)] s3(3)] .
    with s1 s2 s3 show ?thesis
      by (cases "real_name = []") (auto simp: bind_d_def ret_def and_d_def)
  qed
  show ?case
  proof (rule runsI)
    fix s assume s: "state_ok s" "budget s \<le> F" "\<forall>p \<in> C. ps_ok s p"
    obtain c where c: "input_at 0 s = Done c s"
      "c \<noteq> NUL \<longrightarrow> mangled_idx (parse_state s) < length (mangled_begin s)"
      using input_at_0 [OF s(1)] by blast
    show "\<exists>a s'. substitution_loop accept_std (p # ps) s = Done a s' \<and> state_ok s' \<and> same_run s s'"
    proof (cases "c = abbrev ! 1 \<and> (accept_std \<or> abbrev ! 1 \<noteq> CHR ''t'')")
      case True
      obtain s1 where s1: "?out s = Done True s1" "state_ok s1" "appended s s1" using out [OF s(1)] by blast
      have "mangled_idx (parse_state s1) + 1 \<le> length (mangled_begin s1)"
        using appended_fields [OF s1(3)] c(2) True Cons.prems p by (simp add: abbrev_ok_def)
      moreover have "substitution_loop accept_std (p # ps) s = bind_d ?out (\<lambda>_. advance 1) s"
        using True p by (simp add: bind_d_def [where m = "input_at 0"] c(1) bind_assoc bind_ret)
      then have "substitution_loop accept_std (p # ps) s = advance 1 s1"
        by (simp only: bind_d_def [where m = ?out] s1(1) dres.case)
      ultimately show ?thesis
        using state_ok_advance [OF s1(2), of 1] same_run_trans [OF appended_same_run [OF s1(3)]] by auto
    next
      case False
      then have "substitution_loop accept_std (p # ps) s = substitution_loop accept_std ps s"
        using p by (simp only: substitution_loop.simps prod.case bind_d_def [where m = "input_at 0"] c(1)
            dres.case if_False)
      moreover have "runs C F (substitution_loop accept_std ps)" using Cons by simp
      ultimately show ?thesis using runsE [OF _ s] by metis
    qed
  qed
qed (simp add: runs_rules)

lemma runs_ParseSubstitution [runs_rules]: "runs C F (ParseSubstitution accept_std)"
  unfolding ParseSubstitution_def
  by (intro runs_guarded runs_rules runs_substitution_loop tables_ok) simp_all

lemma keeps_ParseSubstitution [keeps_rules]: "keeps p F (ParseSubstitution accept_std)"
  unfolding ParseSubstitution_def
  by (intro keeps_guarded keeps_rules runs_rules runs_substitution_loop tables_ok) simp_all

lemma runs_ParseTemplateTemplateParam [runs_rules]: "runs C F ParseTemplateTemplateParam"
  unfolding ParseTemplateTemplateParam_def by (intro runs_guarded runs_rules)

lemma runs_ParseExprCastValue [runs_rules]: "runs C F ParseExprCastValue"
  unfolding ParseExprCastValue_def by (intro runs_guarded runs_rules) simp_all

lemma keeps_ParseExprCastValue [keeps_rules]: "keeps p F ParseExprCastValue"
  unfolding ParseExprCastValue_def by (intro keeps_guarded keeps_rules runs_rules) simp_all

end
