(* ===== verification/Demangle_Total.thy ===== *)
theory Demangle_Total
  imports Demangle_Safe
begin

text \<open>
  \<open>demangle.cc\<close>: the mutually recursive functions. Each is safe, and restores the parse
  state when it fails, if the calls that close a cycle do so within a smaller budget; with
  fuel for the whole budget \<open>parse\<close> provides such calls, so \<open>Demangle\<close> always returns.
\<close>

section \<open>What a caller relies on\<close>

text \<open>The loops of the code run over these functions only.\<close>

fun proper :: "nonterm \<Rightarrow> bool" where
  "proper (Many f) \<longleftrightarrow> f = Type \<or> f = Template_arg \<or> f = Expression \<or> f = Simple_id"
| "proper _ \<longleftrightarrow> True"

definition restoring :: "nonterm \<Rightarrow> bool" where
  "restoring x \<longleftrightarrow> x \<in> {Encoding, Name, Type, Template_arg, Expression, Simple_id}"

definition calls_ok :: "nat \<Rightarrow> calls \<Rightarrow> bool" where
  "calls_ok F rec \<longleftrightarrow> (\<forall>G < F. \<forall>x. proper x \<longrightarrow> runs {} G (rec x)) \<and>
     (\<forall>G < F. \<forall>x p. restoring x \<longrightarrow> keeps p G (rec x))"

lemma calls_runs: "calls_ok F rec \<Longrightarrow> F = Suc G \<Longrightarrow> proper x \<Longrightarrow> runs C G (rec x)"
  by (simp add: calls_ok_def runs_saved)

lemma calls_keeps: "calls_ok F rec \<Longrightarrow> F = Suc G \<Longrightarrow> restoring x \<Longrightarrow> keeps p G (rec x)"
  by (simp add: calls_ok_def)

lemma calls_less: "calls_ok F rec \<Longrightarrow> F = Suc G \<Longrightarrow> calls_ok G rec"
  by (simp add: calls_ok_def)

lemma restoring_simps [simp]:
  "restoring Encoding" "restoring Name" "restoring Type" "restoring Template_arg"
  "restoring Expression" "restoring Simple_id"
  by (simp_all add: restoring_def)

lemma runs_OneOrMore [runs_rules]:
  "runs C F (rec f) \<Longrightarrow> runs C F (rec (Many f)) \<Longrightarrow> runs C F (OneOrMore rec f)"
  unfolding OneOrMore_def by (intro runs_rules)

lemma runs_ZeroOrMore [runs_rules]: "runs C F (rec (Many f)) \<Longrightarrow> runs C F (ZeroOrMore rec f)"
  unfolding ZeroOrMore_def by (intro runs_rules)

section \<open>Names\<close>

lemma runs_ParseMangledName [runs_rules]:
  assumes "calls_ok F rec" shows "runs C F (ParseMangledName rec)"
  unfolding ParseMangledName_def
  by (intro runs_guarded runs_rules calls_runs [OF assms]) simp_all

lemma runs_ParseTemplateArgs [runs_rules]:
  assumes "calls_ok F rec" shows "runs C F (ParseTemplateArgs rec)"
  unfolding ParseTemplateArgs_def
  by (intro runs_guarded runs_rules calls_runs [OF assms]) simp_all

lemma keeps_ParseTemplateArgs [keeps_rules]:
  assumes "calls_ok F rec" shows "keeps p F (ParseTemplateArgs rec)"
  unfolding ParseTemplateArgs_def
  by (intro keeps_guarded keeps_rules runs_rules calls_runs [OF assms]) simp_all

lemma runs_parse_which [runs_rules]: "runs C F (parse_which t)"
  unfolding parse_which_def Let_def by (intro runs_rules) simp_all

lemma runs_ParseUnnamedTypeName [runs_rules]:
  assumes "calls_ok F rec" shows "runs C F (ParseUnnamedTypeName rec)"
  unfolding ParseUnnamedTypeName_def
  by (intro runs_guarded runs_rules calls_runs [OF assms]) simp_all

lemma keeps_ParseUnnamedTypeName [keeps_rules]:
  assumes "calls_ok F rec" shows "keeps p F (ParseUnnamedTypeName rec)"
  unfolding ParseUnnamedTypeName_def
  by (intro keeps_guarded keeps_rules runs_rules calls_runs [OF assms]) simp_all

lemma runs_ParseClassEnumType [runs_rules]:
  assumes "calls_ok F rec" shows "runs C F (ParseClassEnumType rec)"
  unfolding ParseClassEnumType_def
  by (intro runs_guarded runs_rules calls_runs [OF assms]) simp_all

lemma keeps_ParseClassEnumType [keeps_rules]:
  assumes "calls_ok F rec" shows "keeps p F (ParseClassEnumType rec)"
  unfolding ParseClassEnumType_def
  by (intro keeps_guarded calls_keeps [OF assms]) simp_all

lemma operators_ok: "list_all (\<lambda>(abbrev, _, _). abbrev ! 1 \<noteq> NUL) kOperatorList"
  by (simp add: kOperatorList_def)

lemma IsLower_not_NUL: "IsLower c \<Longrightarrow> c \<noteq> NUL"
  by (auto simp: IsLower_def)

lemma runs_operator_lookup [runs_rules]: "runs C F operator_lookup"
proof (rule runsI)
  fix s assume s: "state_ok s"
  obtain c0 where c0: "input_at 0 s = Done c0 s"
    "c0 \<noteq> NUL \<longrightarrow> mangled_idx (parse_state s) < length (mangled_begin s)"
    using input_at_0 [OF s] by blast
  obtain c1 where c1: "(if IsLower c0 then input_at 1 else ret NUL) s = Done c1 s"
    "IsLower c0 \<Longrightarrow> c1 \<noteq> NUL \<Longrightarrow> Suc (mangled_idx (parse_state s)) < length (mangled_begin s)"
  proof (cases "IsLower c0")
    case True
    then obtain d where "input_at 1 s = Done d s"
      "d \<noteq> NUL \<longrightarrow> Suc (mangled_idx (parse_state s)) < length (mangled_begin s)"
      using input_at_1 [OF s] c0(2) IsLower_not_NUL by blast
    with True that show ?thesis by simp
  next
    case False
    with that [of NUL] show ?thesis by (simp add: ret_def)
  qed
  let ?entry = "find (\<lambda>(abbrev, _, _). c0 = abbrev ! 0 \<and> c1 = abbrev ! 1) kOperatorList"
  let ?print = "\<lambda>(real_name :: string) (arity :: int). bind_d (MaybeAppend ''operator'') (\<lambda>_.
          bind_d (if IsLower (real_name ! 0) then MaybeAppend '' '' else ret True) (\<lambda>_.
          bind_d (MaybeAppend real_name) (\<lambda>_.
          bind_d (advance 2) (\<lambda>_. ret (Some arity)))))"
  have run: "operator_lookup s = (if IsLower c0 \<and> IsAlpha c1 then (case ?entry of None \<Rightarrow> ret None
      | Some (abbrev, real_name, arity) \<Rightarrow> ?print real_name arity) else ret None) s"
    unfolding operator_lookup_def by (simp only: bind_d_def [where s = s] c0(1) c1(1) dres.case)
  show "\<exists>a s'. operator_lookup s = Done a s' \<and> state_ok s' \<and> same_run s s'"
  proof (cases "(IsLower c0 \<and> IsAlpha c1) \<and> ?entry \<noteq> None")
    case False
    then have "operator_lookup s = Done None s" by (auto simp: run ret_def split: option.split)
    with s show ?thesis by simp
  next
    case True
    then obtain abbrev real_name arity where e: "?entry = Some (abbrev, real_name, arity)" by (cases ?entry) auto
    then have "c1 = abbrev ! 1 \<and> (abbrev, real_name, arity) \<in> set kOperatorList"
      by (auto simp: find_Some_iff dest: nth_mem)
    then have "c1 \<noteq> NUL" using operators_ok by (auto simp: list_all_iff)
    then have room: "mangled_idx (parse_state s) + 2 \<le> length (mangled_begin s)" using c1(2) True by simp
    obtain s1 where s1: "MaybeAppend ''operator'' s = Done True s1" "state_ok s1" "appended s s1"
      using MaybeAppend_run [OF s] by blast
    obtain s2 where s2: "(if IsLower (real_name ! 0) then MaybeAppend '' '' else ret True) s1 = Done True s2"
      "state_ok s2" "appended s1 s2"
    proof (cases "IsLower (real_name ! 0)")
      case True
      with MaybeAppend_run [OF s1(2), of "'' ''"] that show ?thesis by auto
    next
      case False
      with s1(2) that [of s1] show ?thesis by (simp add: ret_def)
    qed
    obtain s3 where s3: "MaybeAppend real_name s2 = Done True s3" "state_ok s3" "appended s2 s3"
      using MaybeAppend_run [OF s2(2)] by blast
    have app: "appended s s3" by (rule appended_trans [OF appended_trans [OF s1(3) s2(3)] s3(3)])
    have "mangled_idx (parse_state s3) + 2 \<le> length (mangled_begin s3)"
      using appended_fields [OF app] room by simp
    note adv = state_ok_advance [OF s3(2) this]
    have "operator_lookup s = ?print real_name arity s" using True e by (simp only: run) simp
    also have "\<dots> = Done (Some arity) (ps_update (\<lambda>p. p\<lparr>mangled_idx := mangled_idx p + 2\<rparr>) s3)"
      using adv by (simp only: bind_d_def [where s = s] bind_d_def [where s = s1] bind_d_def [where s = s2]
        bind_d_def [where s = s3] s1(1) s2(1) s3(1) dres.case ret_def)
    finally show ?thesis using adv same_run_trans [OF appended_same_run [OF app]] by blast
  qed
qed

lemma runs_vendor_operator [runs_rules]: "runs C F vendor_operator"
  unfolding vendor_operator_def by (intro runs_rules) simp

lemma runs_ParseOperatorName [runs_rules]:
  assumes "calls_ok F rec" shows "runs C F (ParseOperatorName rec)"
  unfolding ParseOperatorName_def
  by (intro runs_guarded runs_rules calls_runs [OF assms]) simp_all

text \<open>Whether an operator was found, as a Boolean function.\<close>

lemma found_push:
  "found (ret a) = ret (a \<noteq> None)"
  "found (bind_d n f) = bind_d n (\<lambda>a. found (f a))"
  "found (if b then m else m') = (if b then found m else found m')"
  "found (save g) = save (\<lambda>p. found (g p))"
  by (auto simp: found_def bind_assoc bind_ret save_def)

lemma bind_found: "bind_d (found m) g = bind_d m (\<lambda>a. g (a \<noteq> None))"
  by (simp add: found_def bind_assoc bind_ret)

lemma found_guarded: "found (guarded_d None m) = guarded_d False (found m)"
  by (rule ext) (auto simp: found_def guarded_d_def Let_def bind_d_def ret_def do_d_def split: dres.split)

lemma keeps_found_lookup: "keeps p F (found operator_lookup)"
proof -
  have "s' = s" if "found operator_lookup s = Done False s'" for s s'
    using that
    by (auto simp: found_def operator_lookup_def bind_d_def ret_def input_at_def
        split: dres.splits option.splits if_splits prod.splits)
  then show ?thesis unfolding keeps_def by blast
qed

lemma keeps_get [keeps_rules]: "(\<And>a. keeps p F (f a)) \<Longrightarrow> keeps p F (bind_d (get_d g) f)"
  unfolding keeps_def bind_get by blast

lemma keeps_ParseOperatorName [keeps_rules]:
  assumes "calls_ok F rec" shows "keeps p F (found (ParseOperatorName rec))"
proof -
  have *: "found (ParseOperatorName rec) = guarded_d False
     (bind_d (get_d RemainingInput) (\<lambda>rest.
      if \<not> AtLeastNumCharsRemaining rest 2 then ret False
      else save (\<lambda>copy.
        try_else copy (all_of [ParseTwoCharToken ''cv'', MaybeAppend ''operator '', EnterNestedName,
            rec Type, LeaveNestedName (nest_level copy)])
       (try_else copy (found vendor_operator)
        (found operator_lookup)))))"
    unfolding ParseOperatorName_def found_guarded found_push try_else_def
    by (simp add: bind_found cong: if_cong)
  show ?thesis unfolding *
    by (intro keeps_guarded keeps_rules runs_rules keeps_found_lookup calls_runs [OF assms]) simp_all
qed

text \<open>The remembered name can be appended again.\<close>

lemma can_append_prev_name:
  "state_ok s \<Longrightarrow> can_append (Output (prev_name_idx (parse_state s))) (prev_name_length (parse_state s)) s"
  by (auto simp: can_append_def state_ok_def ps_ok_def out_cur_def)

lemma runs_append_prev_name [runs_rules]: "runs C F append_prev_name"
proof (rule runs_appended)
  fix s assume s: "state_ok s"
  from MaybeAppendWithLength_run [OF s can_append_prev_name [OF s]]
  show "\<exists>a s'. append_prev_name s = Done a s' \<and> state_ok s' \<and> appended s s'"
    by (auto simp: append_prev_name_def bind_d_def get_d_def ret_def)
qed

lemma tilde_run:
  assumes "state_ok s"
  shows "\<exists>buf cur. MaybeAppend ''~'' s = Done True (written s buf cur) \<and> state_ok (written s buf cur) \<and>
    buffer_like s buf"
proof (cases "append_flag (parse_state s)")
  case True
  obtain buf where "Append (Text ''~'') 1 s = Done True (written s buf (cur_after s 1))" "buffer_like s buf"
    using Append_run [OF state_ok_end_ok [OF assms], of "Text ''~''" 1] by auto
  with True MaybeAppend_plain [of s "CHR ''~''" "[]"] state_ok_append [OF assms]
  show ?thesis by (auto simp: bind_d_def ret_def IsAlpha_def IsLower_def)
next
  case False
  then have "MaybeAppend ''~'' s = Done True s"
    by (simp add: MaybeAppend_def bind_d_def get_d_def ret_def)
  then show ?thesis using assms written_same [of s] buffer_like_refl [of s] by metis
qed

lemma runs_append_dtor_name [runs_rules]: "runs C F append_dtor_name"
proof (rule runs_appended)
  fix s assume s: "state_ok s"
  obtain buf cur where t: "MaybeAppend ''~'' s = Done True (written s buf cur)"
    "state_ok (written s buf cur)" "buffer_like s buf"
    using tilde_run [OF s] by blast
  let ?s = "written s buf cur"
  obtain s' where s': "MaybeAppendWithLength (Output (prev_name_idx (parse_state s)))
      (prev_name_length (parse_state s)) ?s = Done True s'" "state_ok s'" "appended ?s s'"
    using MaybeAppendWithLength_run [OF t(2) can_append_prev_name [OF t(2)]] by auto
  have "appended s s'" by (rule appended_trans [OF appended_written [OF t(3)] s'(3)])
  moreover have "append_dtor_name s = Done True s'"
    using t(1) s'(1) by (simp add: append_dtor_name_def bind_d_def get_d_def ret_def)
  ultimately show "\<exists>a s'. append_dtor_name s = Done a s' \<and> state_ok s' \<and> appended s s'"
    using s'(2) by blast
qed

lemma runs_ParseCtorDtorName [runs_rules]:
  assumes "calls_ok F rec" shows "runs C F (ParseCtorDtorName rec)"
  unfolding ParseCtorDtorName_def
  by (intro runs_guarded runs_rules calls_less [OF assms]) simp_all

lemma keeps_ParseCtorDtorName [keeps_rules]:
  assumes "calls_ok F rec" shows "keeps p F (ParseCtorDtorName rec)"
  unfolding ParseCtorDtorName_def
  by (intro keeps_guarded keeps_rules runs_rules calls_less [OF assms]) simp_all

lemma runs_ParseUnqualifiedName [runs_rules]:
  assumes "calls_ok F rec" shows "runs C F (ParseUnqualifiedName rec)"
  unfolding ParseUnqualifiedName_def
  by (intro runs_guarded runs_rules calls_less [OF assms]) simp_all

lemma keeps_ParseUnqualifiedName [keeps_rules]:
  assumes "calls_ok F rec" shows "keeps p F (ParseUnqualifiedName rec)"
  unfolding ParseUnqualifiedName_def
  by (intro keeps_guarded keeps_rules runs_rules calls_less [OF assms]) simp_all

lemma runs_ParseUnscopedName [runs_rules]:
  assumes "calls_ok F rec" shows "runs C F (ParseUnscopedName rec)"
  unfolding ParseUnscopedName_def
  by (intro runs_guarded runs_rules calls_less [OF assms]) simp_all

lemma keeps_ParseUnscopedName [keeps_rules]:
  assumes "calls_ok F rec" shows "keeps p F (ParseUnscopedName rec)"
  unfolding ParseUnscopedName_def
  by (intro keeps_guarded keeps_rules runs_rules calls_less [OF assms]) simp_all

lemma runs_ParsePrefix [runs_rules]:
  assumes "calls_ok F rec" shows "runs C F (ParsePrefix rec)"
  unfolding ParsePrefix_def by (intro runs_guarded calls_runs [OF assms]) simp_all

lemma runs_ParseNestedName [runs_rules]:
  assumes "calls_ok F rec" shows "runs C F (ParseNestedName rec)"
  unfolding ParseNestedName_def
  by (intro runs_guarded runs_rules calls_less [OF assms]) simp_all

lemma keeps_ParseNestedName [keeps_rules]:
  assumes "calls_ok F rec" shows "keeps p F (ParseNestedName rec)"
  unfolding ParseNestedName_def
  by (intro keeps_guarded keeps_rules runs_rules calls_less [OF assms]) simp_all

text \<open>
  A failed \<open>ParseLocalNameSuffix\<close> writes a terminator two places before the cursor: that is
  inside the buffer, since \<open>::\<close> has just been appended or has overflowed it.
\<close>

lemma runs_local_name_colons:
  assumes "calls_ok (Suc G) rec"
  shows "runs C G (bind_d (all_of [MaybeAppend ''::'', rec Name, Optional ParseDiscriminator]) (\<lambda>b.
      if b then ret True
      else bind_d (get_d parse_state) (\<lambda>p.
        bind_d (if append_flag p then write_char (out_cur_idx p - 2) NUL else ret True) (\<lambda>_.
        all_of [ParseOneCharToken (CHR ''s''), Optional ParseDiscriminator]))))"
    (is "runs C G (bind_d _ (\<lambda>b. if b then _ else ?rest))")
proof (rule runsI)
  fix s assume s: "state_ok s" "budget s \<le> G" "\<forall>p \<in> C. ps_ok s p"
  obtain buf where colons: "MaybeAppend ''::'' s = Done True
      (written s buf (if append_flag (parse_state s) then cur_after s 2 else out_cur s))" "buffer_like s buf"
    using colons_run [OF s(1)] by blast
  let ?s = "written s buf (if append_flag (parse_state s) then cur_after s 2 else out_cur s)"
  have ok: "state_ok ?s" "same_run s ?s"
    using MaybeAppend_run [OF s(1), of "''::''"] colons(1) appended_same_run by auto
  have b1: "budget ?s \<le> G" using same_run_budget [OF ok(2)] s(2) by simp
  obtain b s2 where name: "rec Name ?s = Done b s2" "state_ok s2" "same_run ?s s2"
    using runs0E [OF calls_runs [OF assms refl, of Name] ok(1) b1] by auto
  have s2: "same_run s s2" by (rule same_run_trans [OF ok(2) name(3)])
  have b2: "budget s2 \<le> G" using same_run_budget [OF s2] s(2) by simp
  show "\<exists>a s'. bind_d (all_of [MaybeAppend ''::'', rec Name, Optional ParseDiscriminator]) (\<lambda>b.
      if b then ret True else ?rest) s = Done a s' \<and> state_ok s' \<and> same_run s s'"
  proof (cases b)
    case True
    obtain d s3 where "Optional ParseDiscriminator s2 = Done d s3" "state_ok s3" "same_run s2 s3"
      using runs0E [OF runs_Optional [OF runs_ParseDiscriminator] name(2) b2] by blast
    moreover have d using calculation(1) Optional_not_False by (metis (full_types))
    ultimately show ?thesis using True colons(1) name(1) same_run_trans [OF s2]
      by (auto simp: bind_d_def and_d_def ret_def)
  next
    case False
    then have p2: "parse_state s2 = parse_state ?s"
      using keepsD [OF calls_keeps [OF assms refl, of Name] ok(1) b1 refl] name(1) by simp
    let ?w = "if append_flag (parse_state s2) then write_char (out_cur s2 - 2) NUL else ret True"
    have "\<exists>s3. ?w s2 = Done True s3 \<and> state_ok s3 \<and> same_run s2 s3"
    proof (cases "append_flag (parse_state s2)")
      case True
      have cur: "2 \<le> out_cur s2" "out_cur s2 \<le> out_end_idx s2 + 1"
        using True p2 s(1) state_ok_end_ok [OF name(2)] name(3)
        by (auto simp: out_cur_def cur_after_def state_ok_def ps_ok_def end_ok_def same_run_def)
      then have "write_char (out_cur s2 - 2) NUL s2 =
          Done True (written s2 ((out_buf s2)[nat (out_cur s2 - 2) := NUL]) (out_cur s2))"
        "buffer_like s2 ((out_buf s2)[nat (out_cur s2 - 2) := NUL])"
        using write_char_run [OF state_ok_end_ok [OF name(2)], of "out_cur s2 - 2" NUL] by auto
      moreover have "state_ok (written s2 buf (out_cur s2))" if "buffer_like s2 buf" for buf
        using state_ok_append [OF name(2) that, of 0] by (simp add: cur_after_def)
      ultimately show ?thesis
        using True appended_same_run [OF appended_written] by auto
    qed (use name(2) in \<open>auto simp: ret_def\<close>)
    then obtain s3 where w: "?w s2 = Done True s3" "state_ok s3" "same_run s2 s3" by blast
    have "budget s3 \<le> G" using same_run_budget [OF w(3)] b2 by simp
    moreover have "runs {} G (all_of [ParseOneCharToken (CHR ''s''), Optional ParseDiscriminator])"
      by (intro runs_rules) simp
    ultimately obtain a s4 where last: "all_of [ParseOneCharToken (CHR ''s''), Optional ParseDiscriminator] s3 = Done a s4"
      "state_ok s4" "same_run s3 s4" using runs0E w(2) by blast
    have "?rest s2 = Done a s4" using w(1) last(1) by (simp only: bind_get out_cur_def [symmetric])
        (simp only: bind_d_def [where s = s2] dres.case)
    then show ?thesis
      using False colons(1) name(1) last same_run_trans [OF s2 same_run_trans [OF w(3) last(3)]]
      by (auto simp: bind_d_def [where s = s] and_d_def bind_d_def [where s = ?s] ret_def)
  qed
qed

lemma runs_ParseLocalNameSuffix [runs_rules]:
  assumes "calls_ok F rec" shows "runs C F (ParseLocalNameSuffix rec)"
  unfolding ParseLocalNameSuffix_def using assms by (intro runs_guarded runs_local_name_colons) simp

lemma runs_ParseLocalName [runs_rules]:
  assumes "calls_ok F rec" shows "runs C F (ParseLocalName rec)"
  unfolding ParseLocalName_def
  by (intro runs_guarded runs_rules calls_runs [OF assms] calls_less [OF assms]) simp_all

lemma keeps_ParseLocalName [keeps_rules]:
  assumes "calls_ok F rec" shows "keeps p F (ParseLocalName rec)"
  unfolding ParseLocalName_def
  by (intro keeps_guarded keeps_rules runs_rules calls_runs [OF assms] calls_less [OF assms]) simp_all

lemma runs_ParseName [runs_rules]:
  assumes "calls_ok F rec" shows "runs C F (ParseName rec)"
  unfolding ParseName_def
  by (intro runs_guarded runs_rules calls_runs [OF assms] calls_less [OF assms]) simp_all

lemma keeps_ParseName [keeps_rules]:
  assumes "calls_ok F rec" shows "keeps p F (ParseName rec)"
  unfolding ParseName_def
  by (intro keeps_guarded keeps_rules runs_rules calls_runs [OF assms] calls_less [OF assms]) simp_all

section \<open>Encodings and types\<close>

lemma runs_ParseBareFunctionType [runs_rules]:
  assumes "calls_ok F rec" shows "runs C F (ParseBareFunctionType rec)"
  unfolding ParseBareFunctionType_def
  by (intro runs_guarded runs_rules calls_runs [OF assms] calls_less [OF assms]) simp_all

lemma keeps_ParseBareFunctionType [keeps_rules]:
  assumes "calls_ok F rec" shows "keeps p F (ParseBareFunctionType rec)"
  unfolding ParseBareFunctionType_def
  by (intro keeps_guarded keeps_rules runs_rules calls_runs [OF assms] calls_less [OF assms]) simp_all

lemma runs_ParseSpecialName [runs_rules]:
  assumes "calls_ok F rec" shows "runs C F (ParseSpecialName rec)"
  unfolding ParseSpecialName_def
  by (intro runs_guarded runs_rules calls_runs [OF assms] calls_less [OF assms]) simp_all

lemma keeps_ParseSpecialName [keeps_rules]:
  assumes "calls_ok F rec" shows "keeps p F (ParseSpecialName rec)"
  unfolding ParseSpecialName_def
  by (intro keeps_guarded keeps_rules runs_rules calls_runs [OF assms] calls_less [OF assms]) simp_all

lemma runs_ParseEncoding [runs_rules]:
  assumes "calls_ok F rec" shows "runs C F (ParseEncoding rec)"
  unfolding ParseEncoding_def
  by (intro runs_guarded runs_rules calls_runs [OF assms] calls_less [OF assms]) simp_all

lemma keeps_ParseEncoding [keeps_rules]:
  assumes "calls_ok F rec" shows "keeps p F (ParseEncoding rec)"
  unfolding ParseEncoding_def
  by (intro keeps_guarded keeps_rules runs_rules calls_runs [OF assms] calls_less [OF assms] calls_keeps [OF assms]) simp_all

lemma runs_ParseDecltype [runs_rules]:
  assumes "calls_ok F rec" shows "runs C F (ParseDecltype rec)"
  unfolding ParseDecltype_def
  by (intro runs_guarded runs_rules calls_runs [OF assms] calls_less [OF assms]) simp_all

lemma keeps_ParseDecltype [keeps_rules]:
  assumes "calls_ok F rec" shows "keeps p F (ParseDecltype rec)"
  unfolding ParseDecltype_def
  by (intro keeps_guarded keeps_rules runs_rules calls_runs [OF assms] calls_less [OF assms]) simp_all

lemma runs_ParseExceptionSpec [runs_rules]:
  assumes "calls_ok F rec" shows "runs C F (ParseExceptionSpec rec)"
  unfolding ParseExceptionSpec_def
  by (intro runs_guarded runs_rules calls_runs [OF assms] calls_less [OF assms]) simp_all

lemma keeps_ParseExceptionSpec [keeps_rules]:
  assumes "calls_ok F rec" shows "keeps p F (ParseExceptionSpec rec)"
  unfolding ParseExceptionSpec_def
  by (intro keeps_guarded keeps_rules runs_rules calls_runs [OF assms] calls_less [OF assms]) simp_all

lemma runs_ParseFunctionType [runs_rules]:
  assumes "calls_ok F rec" shows "runs C F (ParseFunctionType rec)"
  unfolding ParseFunctionType_def
  by (intro runs_guarded runs_rules calls_runs [OF assms] calls_less [OF assms]) simp_all

lemma keeps_ParseFunctionType [keeps_rules]:
  assumes "calls_ok F rec" shows "keeps p F (ParseFunctionType rec)"
  unfolding ParseFunctionType_def
  by (intro keeps_guarded keeps_rules runs_rules calls_runs [OF assms] calls_less [OF assms]) simp_all

lemma runs_ParseArrayType [runs_rules]:
  assumes "calls_ok F rec" shows "runs C F (ParseArrayType rec)"
  unfolding ParseArrayType_def
  by (intro runs_guarded runs_rules calls_runs [OF assms] calls_less [OF assms]) simp_all

lemma keeps_ParseArrayType [keeps_rules]:
  assumes "calls_ok F rec" shows "keeps p F (ParseArrayType rec)"
  unfolding ParseArrayType_def
  by (intro keeps_guarded keeps_rules runs_rules calls_runs [OF assms] calls_less [OF assms]) simp_all

lemma runs_ParsePointerToMemberType [runs_rules]:
  assumes "calls_ok F rec" shows "runs C F (ParsePointerToMemberType rec)"
  unfolding ParsePointerToMemberType_def
  by (intro runs_guarded runs_rules calls_runs [OF assms] calls_less [OF assms]) simp_all

lemma keeps_ParsePointerToMemberType [keeps_rules]:
  assumes "calls_ok F rec" shows "keeps p F (ParsePointerToMemberType rec)"
  unfolding ParsePointerToMemberType_def
  by (intro keeps_guarded keeps_rules runs_rules calls_runs [OF assms] calls_less [OF assms]) simp_all

text \<open>After a qualifier the type decides.\<close>

lemma runs_type_after [runs_rules]:
  assumes "runs (insert p C) F q" and "runs (insert p C) F (rec Type)" and "runs (insert p C) F n"
  shows "runs (insert p C) F (type_after rec p q n)"
  unfolding type_after_def using assms by (intro runs_rules)

lemma keeps_type_after [keeps_rules]:
  assumes "runs {p} F q" and "runs {p} F (rec Type)" and "keeps p F n"
  shows "keeps p F (type_after rec p q n)"
proof -
  have "bind_d (rec Type) (\<lambda>result. bind_d (if \<not> result then restore p else ret True) (\<lambda>_. ret result)) =
    bind_d (rec Type) (\<lambda>result. if result then ret True else bind_d (restore p) (\<lambda>_. ret False))"
    by (intro arg_cong [of _ _ "bind_d (rec Type)"] ext) (simp add: bind_ret)
  then show ?thesis
    unfolding type_after_def
    by (simp only:) (intro keeps_resets resets_bind_if resets_ret_True resets_restore assms keeps_ret)
qed

lemma runs_ParseType [runs_rules]:
  assumes "calls_ok F rec" shows "runs C F (ParseType rec)"
  unfolding ParseType_def
  by (intro runs_guarded runs_rules calls_runs [OF assms] calls_less [OF assms]) simp_all

lemma keeps_ParseType [keeps_rules]:
  assumes "calls_ok F rec" shows "keeps p F (ParseType rec)"
  unfolding ParseType_def
  by (intro keeps_guarded keeps_rules runs_rules calls_runs [OF assms] calls_less [OF assms]) simp_all

section \<open>Expressions\<close>

lemma runs_ParseUnresolvedType [runs_rules]:
  assumes "calls_ok F rec" shows "runs C F (ParseUnresolvedType rec)"
  unfolding ParseUnresolvedType_def
  by (intro runs_rules assms)

lemma keeps_ParseUnresolvedType [keeps_rules]:
  assumes "calls_ok F rec" shows "keeps p F (ParseUnresolvedType rec)"
  unfolding ParseUnresolvedType_def
  by (intro keeps_rules runs_rules assms)

lemma runs_ParseSimpleId [runs_rules]:
  assumes "calls_ok F rec" shows "runs C F (ParseSimpleId rec)"
  unfolding ParseSimpleId_def
  by (intro runs_rules assms)

lemma keeps_ParseSimpleId [keeps_rules]:
  assumes "calls_ok F rec" shows "keeps p F (ParseSimpleId rec)"
  unfolding ParseSimpleId_def
  by (intro keeps_rules runs_rules assms)

lemma runs_ParseBaseUnresolvedName [runs_rules]:
  assumes "calls_ok F rec" shows "runs C F (ParseBaseUnresolvedName rec)"
  unfolding ParseBaseUnresolvedName_def
  by (intro runs_guarded runs_rules calls_runs [OF assms] calls_less [OF assms]) simp_all

lemma keeps_ParseBaseUnresolvedName [keeps_rules]:
  assumes "calls_ok F rec" shows "keeps p F (ParseBaseUnresolvedName rec)"
  unfolding ParseBaseUnresolvedName_def
  by (intro keeps_guarded keeps_rules runs_rules calls_runs [OF assms] calls_less [OF assms]) simp_all

lemma runs_ParseUnresolvedName [runs_rules]:
  assumes "calls_ok F rec" shows "runs C F (ParseUnresolvedName rec)"
  unfolding ParseUnresolvedName_def
  by (intro runs_guarded runs_rules calls_runs [OF assms] calls_less [OF assms]) simp_all

lemma keeps_ParseUnresolvedName [keeps_rules]:
  assumes "calls_ok F rec" shows "keeps p F (ParseUnresolvedName rec)"
  unfolding ParseUnresolvedName_def
  by (intro keeps_guarded keeps_rules runs_rules calls_runs [OF assms] calls_less [OF assms]) simp_all

lemma runs_ParseExprPrimary [runs_rules]:
  assumes "calls_ok F rec" shows "runs C F (ParseExprPrimary rec)"
  unfolding ParseExprPrimary_def
  by (intro runs_guarded runs_rules calls_runs [OF assms] calls_less [OF assms]) simp_all

lemma keeps_ParseExprPrimary [keeps_rules]:
  assumes "calls_ok F rec" shows "keeps p F (ParseExprPrimary rec)"
  unfolding ParseExprPrimary_def
  by (intro keeps_guarded keeps_save keeps_resets [OF resets_bind_if] keeps_rules runs_rules
      calls_runs [OF assms] calls_less [OF assms]) simp_all

lemma runs_conversion_args:
  assumes "calls_ok F rec" and "F = Suc G" shows "runs C G (conversion_args rec)"
  unfolding conversion_args_def by (intro runs_rules calls_runs [OF assms]) simp_all

lemma runs_operator_expression:
  assumes "calls_ok F rec" and "F = Suc G" shows "runs C G (operator_expression rec)"
  unfolding operator_expression_def
  by (intro runs_rules calls_runs [OF assms] calls_less [OF assms]) simp_all

lemma runs_ParseExpression [runs_rules]:
  assumes "calls_ok F rec" shows "runs C F (ParseExpression rec)"
  unfolding ParseExpression_def
  by (intro runs_guarded runs_rules runs_conversion_args [OF assms] runs_operator_expression [OF assms]
      calls_runs [OF assms] calls_less [OF assms]) simp_all

lemma keeps_ParseExpression [keeps_rules]:
  assumes "calls_ok F rec" shows "keeps p F (ParseExpression rec)"
  unfolding ParseExpression_def
  by (intro keeps_guarded keeps_rules runs_rules runs_conversion_args [OF assms]
      runs_operator_expression [OF assms] calls_runs [OF assms] calls_less [OF assms]) simp_all

lemma runs_ParseTemplateArg [runs_rules]:
  assumes "calls_ok F rec" shows "runs C F (ParseTemplateArg rec)"
  unfolding ParseTemplateArg_def
  by (intro runs_guarded runs_rules calls_runs [OF assms] calls_less [OF assms]) simp_all

lemma never_False_save:
  "save (\<lambda>copy. try_else copy m (ret True)) s \<noteq> Done False s'"
  by (auto simp: save_run try_else_def bind_d_def ret_def restore_def do_d_def split: dres.splits if_splits)

lemma keeps_ParseTemplateArg [keeps_rules]:
  assumes "calls_ok F rec" shows "keeps p F (ParseTemplateArg rec)"
  unfolding ParseTemplateArg_def
  by (intro keeps_guarded keeps_save keeps_try_else keeps_bind_if never_False_save keeps_rules runs_rules
      calls_runs [OF assms] calls_less [OF assms] calls_keeps [OF assms]) simp_all

section \<open>The loop of ParsePrefix\<close>

lemma progress_ParseOneCharToken: "t \<noteq> NUL \<Longrightarrow> progress F (ParseOneCharToken t)"
  unfolding ParseOneCharToken_def by (intro progress_guarded runs_one_char_body)

lemma progress_ParseTemplateParam: "progress F ParseTemplateParam"
  unfolding ParseTemplateParam_def by (intro progress_guarded runs_rules) simp_all

lemma progress_ParseSubstitution: "progress F (ParseSubstitution b)"
  unfolding ParseSubstitution_def
  by (intro progress_guarded runs_rules runs_substitution_loop tables_ok) simp_all

lemma progress_ParseUnscopedName:
  assumes "calls_ok F rec" shows "progress F (ParseUnscopedName rec)"
  unfolding ParseUnscopedName_def
  by (intro progress_guarded runs_rules calls_less [OF assms]) simp_all

lemma progress_ParseTemplateArgs:
  assumes "calls_ok F rec" shows "progress F (ParseTemplateArgs rec)"
  unfolding ParseTemplateArgs_def
  by (intro progress_guarded runs_rules calls_runs [OF assms]) simp_all

definition prefix_part :: "calls \<Rightarrow> bool dem" where
  "prefix_part rec = any_of [ParseTemplateParam, ParseSubstitution True, ParseUnscopedName rec,
     all_of [ParseOneCharToken (CHR ''M''), ParseUnnamedTypeName rec]]"

lemma runs_prefix_part: "calls_ok F rec \<Longrightarrow> runs {} F (prefix_part rec)"
  unfolding prefix_part_def by (intro runs_rules) simp_all

lemma progress_prefix_part:
  assumes "calls_ok F rec" shows "progress F (prefix_part rec)"
  unfolding prefix_part_def any_of.simps all_of.simps
  by (intro progress_or progress_and progress_ParseTemplateParam progress_ParseSubstitution
      progress_ParseUnscopedName progress_ParseOneCharToken runs_rules assms) simp_all

text \<open>When no part of a prefix is found, at most an \<open>M\<close> has been consumed.\<close>

lemma one_char_cases:
  assumes "ParseOneCharToken t s = Done b s'"
  shows "parse_state s' = (if b then (parse_state s)\<lparr>mangled_idx := mangled_idx (parse_state s) + 1\<rparr> else parse_state s)"
  using assms
  by (auto simp: ParseOneCharToken_def guarded_cases bind_d_def ret_def input_at_def advance_def get_d_def index_d_def do_d_def
      ps_update_def nat_add_distrib split: if_splits option.splits dres.splits)

lemma or_d_assoc: "or_d (or_d m n) k = or_d m (or_d n k)"
  by (rule ext) (simp add: or_d_def bind_d_def ret_def split: dres.split)

lemma prefix_part_fails:
  assumes calls: "calls_ok F rec" and s: "state_ok s" "budget s \<le> F"
    and fails: "prefix_part rec s = Done False s'"
  shows "\<exists>k. parse_state s' = (parse_state s)\<lparr>mangled_idx := k\<rparr>"
proof -
  let ?names = "any_of [ParseTemplateParam, ParseSubstitution True, ParseUnscopedName rec]"
  have runs: "runs {} F ?names" by (intro runs_rules calls)
  have keeps: "keeps (parse_state s) F ?names" by (intro keeps_rules runs_rules calls)
  obtain b s1 where s1: "?names s = Done b s1" "state_ok s1" "same_run s s1"
    using runs0E [OF runs s] by blast
  have split: "prefix_part rec = or_d ?names (and_d (ParseOneCharToken (CHR ''M'')) (ParseUnnamedTypeName rec))"
    unfolding prefix_part_def any_of.simps all_of.simps or_d_assoc ..
  have b: "b = False" and last: "and_d (ParseOneCharToken (CHR ''M'')) (ParseUnnamedTypeName rec) s1 = Done False s'"
    using fails or_d_run [of ?names s b s1, OF s1(1)] unfolding split by (simp_all split: if_splits)
  have p1: "parse_state s1 = parse_state s" by (rule keepsD [OF keeps s refl]) (simp only: s1(1) b)
  have b1: "budget s1 \<le> F" using same_run_budget [OF s1(3)] s(2) by simp
  have "runs {} F (ParseOneCharToken (CHR ''M''))" by (intro runs_rules) simp
  then obtain c s2 where s2: "ParseOneCharToken (CHR ''M'') s1 = Done c s2" "state_ok s2" "same_run s1 s2"
    using runs0E s1(2) b1 by blast
  note p2 = one_char_cases [OF s2(1)]
  show ?thesis
  proof (cases c)
    case False
    then have "s' = s2" using last s2(1) by (simp add: and_d_def bind_d_def ret_def)
    with p2 False p1 have "parse_state s' = (parse_state s)\<lparr>mangled_idx := mangled_idx (parse_state s)\<rparr>" by simp
    then show ?thesis by blast
  next
    case True
    then have u: "ParseUnnamedTypeName rec s2 = Done False s'" using last s2(1) by (simp add: and_d_def bind_d_def)
    have "budget s2 \<le> F" using same_run_budget [OF s2(3)] b1 by simp
    then have "parse_state s' = parse_state s2"
      using keepsD [OF keeps_ParseUnnamedTypeName [OF calls] s2(2) _ refl u] by blast
    with p2 True p1 show ?thesis by auto
  qed
qed

text \<open>Cancelling a separator undoes the one just appended, or frees the last byte of a full buffer.\<close>

lemma cancel_run:
  assumes s: "state_ok s" and buf: "buffer_like s buf"
    and s1: "s1 = written s buf (if nest_level (parse_state s) \<ge> 1 \<and> append_flag (parse_state s)
       then cur_after s 2 else out_cur s)"
    and s2: "state_ok s2" "same_run s1 s2" "parse_state s2 = (parse_state s1)\<lparr>mangled_idx := k\<rparr>"
  shows "\<exists>s3. MaybeCancelLastSeparator s2 = Done True s3 \<and> state_ok s3 \<and> same_run s2 s3"
proof (cases "nest_level (parse_state s) \<ge> 1 \<and> append_flag (parse_state s)")
  case False
  then have "MaybeCancelLastSeparator s2 = Done True s2"
    using s2(3) s1 by (auto simp: MaybeCancelLastSeparator_def bind_d_def get_d_def ret_def)
  with s2(1) show ?thesis by simp
next
  case True
  let ?cur = "cur_after s 2"
  have end2: "out_end_idx s2 = out_end_idx s" using s2(2) s1 by (simp add: same_run_def)
  have cur2: "out_cur s2 = ?cur" using s2(3) s1 True by (simp add: out_cur_def)
  have bounds: "2 \<le> ?cur" "?cur - 2 < out_end_idx s" "?cur - 2 = out_cur s \<or> ?cur - 2 = out_end_idx s - 1"
    using state_ok_end_ok [OF s] by (auto simp: cur_after_def end_ok_def)
  let ?s = "written s2 (out_buf s2) (?cur - 2)"
  let ?buf = "(out_buf s2)[nat (?cur - 2) := NUL]"
  have "end_ok ?s" using state_ok_end_ok [OF s2(1)] bounds end2 by (simp add: end_ok_def)
  then have w: "write_char (?cur - 2) NUL ?s = Done True (written s2 ?buf (?cur - 2))" "buffer_like s2 ?buf"
    using write_char_run [of ?s "?cur - 2" NUL] bounds end2 by (auto simp: buffer_like_def)
  have ps: "ps_ok s2 ((parse_state s2)\<lparr>out_cur_idx := ?cur - 2\<rparr>)"
    using s s2 s1 True bounds end2 by (auto simp: state_ok_def ps_ok_def out_cur_def same_run_def)
  then have "state_ok (written s2 ?buf (?cur - 2))"
    using s2(1) w(2) by (simp add: state_ok_def ps_ok_def buffer_like_def)
  moreover have "MaybeCancelLastSeparator s2 = Done True (written s2 ?buf (?cur - 2))"
  proof -
    have p2: "nest_level (parse_state s2) \<ge> 1 \<and> append_flag (parse_state s2) \<and> out_cur_idx (parse_state s2) \<ge> 2"
      "out_cur_idx (parse_state s2) = ?cur"
      using s2(3) s1 True bounds by simp_all
    have "set_out (?cur - 2) s2 = Done True ?s"
      by (simp add: set_out_def do_d_def ps_update_def written_def)
    with p2 w(1) show ?thesis by (simp add: MaybeCancelLastSeparator_def bind_d_def get_d_def)
  qed
  ultimately show ?thesis using appended_same_run [OF appended_written [OF w(2)]] by blast
qed

lemma runs_prefix_body:
  assumes calls: "calls_ok F rec"
  shows "runs C F (prefix_body rec has_something)"
proof (rule runs_saved, rule runsI)
  fix s assume s: "state_ok s" "budget s \<le> F"
  obtain buf where sep: "MaybeAppendSeparator s = Done True
    (written s buf (if nest_level (parse_state s) \<ge> 1 \<and> append_flag (parse_state s)
       then cur_after s 2 else out_cur s))" "buffer_like s buf"
    using separator_run [OF s(1)] by blast
  define s1 where s1: "s1 = written s buf (if nest_level (parse_state s) \<ge> 1 \<and> append_flag (parse_state s)
       then cur_after s 2 else out_cur s)"
  have ok1: "state_ok s1"
    using state_ok_append [OF s(1) sep(2), of 2] state_ok_append [OF s(1) sep(2), of 0]
    by (simp add: s1 cur_after_def)
  have r1: "same_run s s1" unfolding s1 by (intro appended_same_run appended_written sep(2))
  have b1: "budget s1 \<le> F" using same_run_budget [OF r1] s(2) by simp
  obtain b s2 where s2: "prefix_part rec s1 = Done b s2" "state_ok s2" "same_run s1 s2"
    using runs0E [OF runs_prefix_part [OF calls] ok1 b1] by blast
  have r2: "same_run s s2" by (rule same_run_trans [OF r1 s2(3)])
  have b2: "budget s2 \<le> F" using same_run_budget [OF r2] s(2) by simp
  let ?last = "bind_d MaybeCancelLastSeparator (\<lambda>_.
       bind_d (if has_something then ParseTemplateArgs rec else ret False) (\<lambda>b.
       if b then rec Prefix else ret True))"
  let ?next = "bind_d MaybeIncreaseNestLevel (\<lambda>_. rec (Prefix_loop True))"
  have body: "prefix_body rec has_something s = (if b then ?next else ?last) s2"
    unfolding prefix_body_def prefix_part_def [symmetric]
    by (simp only: bind_d_def [where s = s] sep(1) s1 [symmetric] dres.case)
      (simp only: bind_d_def [where s = s1] s2(1) dres.case)
  have "\<exists>a s'. (if b then ?next else ?last) s2 = Done a s' \<and> state_ok s' \<and> same_run s2 s'"
  proof (cases b)
    case True
    have less: "budget s2 < budget s1"
      using progressD [OF progress_prefix_part [OF calls] ok1 b1] s2(1) True by simp
    then obtain G where G: "F = Suc G" "budget s2 \<le> G" using b1 by (cases F) auto
    have next_ok: "runs {} G ?next" by (intro runs_rules calls_runs [OF calls G(1)]) simp
    show ?thesis using runs0D [OF next_ok s2(2) G(2)] True by (simp only: if_True)
  next
    case False
    then obtain k where k: "parse_state s2 = (parse_state s1)\<lparr>mangled_idx := k\<rparr>"
      using prefix_part_fails [OF calls ok1 b1] s2(1) by auto
    obtain s3 where s3: "MaybeCancelLastSeparator s2 = Done True s3" "state_ok s3" "same_run s2 s3"
      using cancel_run [OF s(1) sep(2) s1 s2(2,3) k] by blast
    have b3: "budget s3 \<le> F" using same_run_budget [OF s3(3)] b2 by simp
    let ?args = "if has_something then ParseTemplateArgs rec else ret False"
    have "runs {} F ?args" by (intro runs_rules calls)
    then obtain c s4 where s4: "?args s3 = Done c s4" "state_ok s4" "same_run s3 s4"
      using runs0E [OF _ s3(2) b3] by blast
    have "\<exists>a s'. (if c then rec Prefix else ret True) s4 = Done a s' \<and> state_ok s' \<and> same_run s4 s'"
    proof (cases c)
      case True
      then have "budget s4 < budget s3"
        using progressD [OF progress_ParseTemplateArgs [OF calls] s3(2) b3] s4(1)
        by (cases has_something) (simp_all add: ret_def)
      then obtain G where G: "F = Suc G" "budget s4 \<le> G" using b3 by (cases F) auto
      have next_ok: "runs {} G (rec Prefix)" by (intro calls_runs [OF calls G(1)]) simp
      show ?thesis using runs0D [OF next_ok s4(2) G(2)] True by (simp only: if_True)
    next
      case False
      with s4(2) show ?thesis by (auto simp: ret_def)
    qed
    then obtain a s5 where s5: "(if c then rec Prefix else ret True) s4 = Done a s5" "state_ok s5" "same_run s4 s5"
      by blast
    have "?last s2 = Done a s5"
      by (simp only: bind_d_def [where s = s2] s3(1) dres.case)
        (simp only: bind_d_def [where s = s3] s4(1) s5(1) dres.case)
    then show ?thesis
      using False s5(2) same_run_trans [OF s3(3) same_run_trans [OF s4(3) s5(3)]] by (simp only: if_False) blast
  qed
  then show "\<exists>a s'. prefix_body rec has_something s = Done a s' \<and> state_ok s' \<and> same_run s s'"
    unfolding body using same_run_trans [OF r2] by blast
qed

section \<open>The knot\<close>

lemma progress_ParseType:
  assumes "calls_ok F rec" shows "progress F (ParseType rec)"
  unfolding ParseType_def
  by (intro progress_guarded runs_rules calls_runs [OF assms] calls_less [OF assms]) simp_all

lemma progress_ParseTemplateArg:
  assumes "calls_ok F rec" shows "progress F (ParseTemplateArg rec)"
  unfolding ParseTemplateArg_def
  by (intro progress_guarded runs_rules calls_runs [OF assms] calls_less [OF assms]) simp_all

lemma progress_ParseExpression:
  assumes "calls_ok F rec" shows "progress F (ParseExpression rec)"
  unfolding ParseExpression_def
  by (intro progress_guarded runs_rules runs_conversion_args [OF assms] runs_operator_expression [OF assms]
      calls_runs [OF assms] calls_less [OF assms]) simp_all

lemma progress_ParseSourceName: "progress F ParseSourceName"
  unfolding ParseSourceName_def by (intro progress_guarded runs_rules)

lemma progress_ParseSimpleId:
  assumes "calls_ok F rec" shows "progress F (ParseSimpleId rec)"
  unfolding ParseSimpleId_def all_of.simps
  by (intro progress_and progress_ParseSourceName runs_rules assms)

text \<open>The fuel a function needs for a budget of steps: each call between two guarded ones counts.\<close>

definition call_fuel :: "nonterm \<Rightarrow> nat" where
  "call_fuel x = (case x of Many _ \<Rightarrow> 2 | _ \<Rightarrow> 1)"

lemma calls_ok_parse:
  assumes "\<And>G x. G < F \<Longrightarrow> proper x \<Longrightarrow> runs {} G (parse n x)"
    and "\<And>G x p. G < F \<Longrightarrow> restoring x \<Longrightarrow> keeps p G (parse n x)"
  shows "calls_ok F (parse n)"
  using assms by (simp add: calls_ok_def)

lemma runs_many_step:
  assumes "runs {} F m" and "progress F m" and "\<And>G. G < F \<Longrightarrow> runs {} G again"
  shows "runs {} F (bind_d m (\<lambda>b. if b then again else ret False))"
proof (rule runsI)
  fix s assume s: "state_ok s" "budget s \<le> F"
  obtain b s1 where m: "m s = Done b s1" "state_ok s1" "same_run s s1" using runs0E [OF assms(1) s] by blast
  show "\<exists>a s'. bind_d m (\<lambda>b. if b then again else ret False) s = Done a s' \<and> state_ok s' \<and> same_run s s'"
  proof (cases b)
    case True
    then have "budget s1 < F" using progressD [OF assms(2) s] m(1) s(2) by simp
    from runs0D [OF assms(3) [OF this] m(2) order_refl] True m(1) show ?thesis
      by (auto simp: bind_d_def intro: same_run_trans [OF m(3)])
  next
    case False
    with m show ?thesis by (auto simp: bind_d_def ret_def)
  qed
qed

lemma parse_ok:
  assumes "3 * F + call_fuel x \<le> n" and "proper x"
  shows "runs {} F (parse n x) \<and> (restoring x \<longrightarrow> (\<forall>p. keeps p F (parse n x))) \<and>
    (x \<in> {Type, Template_arg, Expression, Simple_id} \<longrightarrow> progress F (parse n x))"
  using assms
proof (induction n arbitrary: F x)
  case 0
  then show ?case by (simp add: call_fuel_def split: nonterm.splits)
next
  case (Suc n)
  have fuel: "3 * G + call_fuel y \<le> n" if "G < F" for G y
    using Suc.prems(1) that by (auto simp: call_fuel_def split: nonterm.splits)
  have calls: "calls_ok F (parse n)"
  proof (rule calls_ok_parse)
    fix G y assume "G < F" "proper y"
    then show "runs {} G (parse n y)" using Suc.IH [OF fuel] by blast
  next
    fix G y p assume "G < F" "restoring y"
    moreover from this have "proper y" by (auto simp: restoring_def)
    ultimately show "keeps p G (parse n y)" using Suc.IH [OF fuel] by blast
  qed
  show ?case
  proof (cases x)
    case (Many f)
    with Suc.prems(1) have f: "3 * F + call_fuel f \<le> n" "proper f" "f \<in> {Type, Template_arg, Expression, Simple_id}"
      using Suc.prems(2) by (auto simp: call_fuel_def)
    have "runs {} F (bind_d (parse n f) (\<lambda>b. if b then parse n (Many f) else ret False))"
      using Suc.IH [OF f(1,2)] f(3) Suc.IH [OF fuel, of _ "Many f"] Suc.prems(2) Many
      by (intro runs_many_step) blast+
    then show ?thesis using Many by (simp add: restoring_def)
  next
    case (Prefix_loop b)
    then show ?thesis using runs_prefix_body [OF calls] by (simp add: restoring_def)
  qed (use calls in \<open>simp_all add: restoring_def runs_ParsePrefix runs_rules keeps_rules
      progress_ParseType progress_ParseTemplateArg progress_ParseExpression progress_ParseSimpleId\<close>)
qed

lemma parse_calls_ok: "3 * F \<le> n \<Longrightarrow> calls_ok F (parse n)"
proof (rule calls_ok_parse)
  fix G x assume "3 * F \<le> n" "G < F" "proper x"
  moreover have "call_fuel x \<le> 2" by (simp add: call_fuel_def split: nonterm.split)
  ultimately show "runs {} G (parse n x)" using parse_ok [of G x n] by simp
next
  fix G x p assume "3 * F \<le> n" "G < F" "restoring x"
  moreover have "call_fuel x \<le> 2" by (simp add: call_fuel_def split: nonterm.split)
  moreover have "proper x" using calculation(3) by (auto simp: restoring_def)
  ultimately show "keeps p G (parse n x)" using parse_ok [of G x n] by simp
qed

lemma runs_ParseTopLevelMangledName:
  assumes "calls_ok F rec" shows "runs C F (ParseTopLevelMangledName rec)"
  unfolding ParseTopLevelMangledName_def
  by (intro runs_guarded runs_rules calls_less [OF assms])

lemma state_ok_InitState:
  "NUL \<notin> set mangled \<Longrightarrow> 1 \<le> out_size \<Longrightarrow> out_size \<le> int (length out) \<Longrightarrow>
     in_int (int (length mangled)) \<Longrightarrow> in_int (out_size + 2) \<Longrightarrow>
     state_ok (InitState mangled out out_size)"
  by (simp add: InitState_def state_ok_def ps_ok_def)

definition enough_fuel :: nat where "enough_fuel = 400000"

lemma Demangle_run:
  assumes "NUL \<notin> set mangled" and "1 \<le> out_size" and "out_size \<le> int (length out)" and "enough_fuel \<le> fuel"
    and "in_int (int (length mangled))" and "in_int (out_size + 2)"
  shows "\<exists>b s. Demangle fuel mangled out out_size = Done b s \<and> state_ok s \<and>
    same_run (InitState mangled out out_size) s"
proof -
  let ?s = "InitState mangled out out_size"
  let ?m = "bind_d (ParseTopLevelMangledName (parse fuel)) (\<lambda>b.
     bind_d (get_d Overflowed) (\<lambda>overflowed. ret (b \<and> \<not> overflowed)))"
  have "3 * nat kParseStepsLimit \<le> fuel" using assms(4) by (simp add: kParseStepsLimit_def enough_fuel_def)
  then have "runs {} (nat kParseStepsLimit) ?m"
    by (intro runs_rules runs_ParseTopLevelMangledName parse_calls_ok)
  moreover have "budget ?s \<le> nat kParseStepsLimit" by (simp add: budget_def InitState_def)
  ultimately show ?thesis
    unfolding Demangle_def using runs0D state_ok_InitState [OF assms(1-3,5,6)] by blast
qed

end
