(* ===== verification/Demangle_Exec.thy ===== *)
theory Demangle_Exec
  imports Demangle_Total
begin

text \<open>
  \<open>demangle.cc\<close>: rules that run the parsing functions on given inputs, and independence of
  the fuel: more fuel never changes a result.

  The rules fire on functions applied to a state, so that the simplifier runs the code
  in its order and does not unfold the grammar where it is not needed.
\<close>

section \<open>Running the code\<close>

lemma all_of_run: "all_of [] s = Done True s" "all_of [m] s = m s" "all_of (m # m' # ms) s = and_d m (all_of (m' # ms)) s"
  by (simp_all add: ret_def)
lemma any_of_run: "any_of [] s = Done False s" "any_of [m] s = m s" "any_of (m # m' # ms) s = or_d m (any_of (m' # ms)) s"
  by (simp_all add: ret_def)
lemma parse_run: "parse (numeral k) Encoding s = ParseEncoding (parse (pred_numeral k)) s"
 "parse (numeral k) Name s = ParseName (parse (pred_numeral k)) s" "parse (numeral k) Prefix s = ParsePrefix (parse (pred_numeral k)) s"
 "parse (numeral k) (Prefix_loop b) s = prefix_body (parse (pred_numeral k)) b s" "parse (numeral k) Type s = ParseType (parse (pred_numeral k)) s"
 "parse (numeral k) Template_arg s = ParseTemplateArg (parse (pred_numeral k)) s" "parse (numeral k) Expression s = ParseExpression (parse (pred_numeral k)) s"
 "parse (numeral k) Simple_id s = ParseSimpleId (parse (pred_numeral k)) s"
 "parse (numeral k) (Many f) s = bind_d (parse (pred_numeral k) f) (\<lambda>b. if b then parse (pred_numeral k) (Many f) else ret False) s"
  by (simp_all add: numeral_eq_Suc)

lemma guarded_run: "guarded_d a m s = (if 256 \<le> recursion_depth s \<or> 131072 \<le> steps s then Done a (s\<lparr>steps := steps s + 1\<rparr>)
   else (case m (s\<lparr>recursion_depth := recursion_depth s + 1, steps := steps s + 1\<rparr>) of
      Done a s' \<Rightarrow> Done a (s'\<lparr>recursion_depth := recursion_depth s' - 1\<rparr>) | Out_of_bounds \<Rightarrow> Out_of_bounds | Out_of_fuel \<Rightarrow> Out_of_fuel))"
  by (auto simp: guarded_d_def Let_def bind_d_def ret_def do_d_def IsTooComplex_def kRecursionDepthLimit_def kParseStepsLimit_def split: dres.split)

lemma try_else_run: "try_else p m n s = (case m s of Done b s' \<Rightarrow> (if b then Done True s' else n (s'\<lparr>parse_state := p\<rparr>))
   | Out_of_bounds \<Rightarrow> Out_of_bounds | Out_of_fuel \<Rightarrow> Out_of_fuel)"
  by (simp add: try_else_def bind_d_def restore_def do_d_def ret_def split: dres.split)
lemma or_run: "or_d m n s = (case m s of Done b s' \<Rightarrow> (if b then Done True s' else n s')
   | Out_of_bounds \<Rightarrow> Out_of_bounds | Out_of_fuel \<Rightarrow> Out_of_fuel)"
  by (simp add: or_d_def bind_d_def ret_def split: dres.split)
lemma and_run: "and_d m n s = (case m s of Done b s' \<Rightarrow> (if b then n s' else Done False s')
   | Out_of_bounds \<Rightarrow> Out_of_bounds | Out_of_fuel \<Rightarrow> Out_of_fuel)"
  by (simp add: and_d_def bind_d_def ret_def split: dres.split)
lemma builtin_run: "builtin_loop [] s = Done False s"
  "builtin_loop ((abbrev, real_name, arity) # ps) s = 
     (if length abbrev = 1
     then bind_d (ParseOneCharToken (abbrev ! 0)) (\<lambda>b.
            if b then bind_d (MaybeAppend real_name) (\<lambda>_. ret True) else builtin_loop ps)
     else bind_d (and_d (ret (length abbrev = 2)) (ParseTwoCharToken abbrev)) (\<lambda>b.
            if b then bind_d (MaybeAppend real_name) (\<lambda>_. ret True) else builtin_loop ps)) s"
  by (simp_all add: ret_def)
lemma substitution_run:
  "substitution_loop accept_std [] s = Done False s"
 "substitution_loop accept_std ((abbrev, real_name, arity) # ps) s = 
     bind_d (input_at 0) (\<lambda>c.
     if c = abbrev ! 1 \<and> (accept_std \<or> abbrev ! 1 \<noteq> CHR ''t'')
     then bind_d (MaybeAppend ''std'') (\<lambda>_.
          bind_d (if real_name \<noteq> [] then all_of [MaybeAppend ''::'', MaybeAppend real_name] else ret True) (\<lambda>_.
          advance 1))
     else substitution_loop accept_std ps) s"
  by (simp_all add: ret_def)
lemma append_run: "Append_loop str i 0 s = Done True s"
  "Append_loop str i (Suc n) s = bind_d (get_d (\<lambda>s. (out_cur s, out_end_idx s))) (\<lambda>(cur, end).
     bind_d (index_d (cur + 1)) (\<lambda>next.
     if next < end
     then bind_d (read_char str i) (\<lambda>c. bind_d (write_char cur c) (\<lambda>_.
            bind_d (set_out next) (\<lambda>_. Append_loop str (i + 1) n)))
     else bind_d (index_d (end + 1)) set_out)) s"
  "Append_loop str i (numeral k) s = bind_d (get_d (\<lambda>s. (out_cur s, out_end_idx s))) (\<lambda>(cur, end).
     bind_d (index_d (cur + 1)) (\<lambda>next.
     if next < end
     then bind_d (read_char str i) (\<lambda>c. bind_d (write_char cur c) (\<lambda>_.
            bind_d (set_out next) (\<lambda>_. Append_loop str (i + 1) (pred_numeral k))))
     else bind_d (index_d (end + 1)) set_out)) s"
  by (simp_all add: ret_def numeral_eq_Suc)

lemmas run_simps = guarded_run save_run try_else_run or_run and_run all_of_run any_of_run parse_run builtin_run substitution_run append_run
  bind_d_def ret_def get_d_def do_d_def restore_def ps_update_def index_d_def in_int_def
 input_at_def char_at_def RemainingInput_def
  write_char_def out_cur_def 
  OneOrMore_def [THEN fun_cong] ZeroOrMore_def [THEN fun_cong] found_def [THEN fun_cong]
  Optional_def [THEN fun_cong] advance_def [THEN fun_cong] EnterNestedName_def [THEN fun_cong]
  LeaveNestedName_def [THEN fun_cong] DisableAppend_def [THEN fun_cong]
  RestoreAppend_def [THEN fun_cong] MaybeIncreaseNestLevel_def [THEN fun_cong]
  MaybeAppendSeparator_def [THEN fun_cong] MaybeCancelLastSeparator_def [THEN fun_cong]
  MaybeAppend_def [THEN fun_cong] MaybeAppendWithLength_def [THEN fun_cong]
  Append_def [THEN fun_cong] EndsWith_def [THEN fun_cong] set_out_def [THEN fun_cong]
  ParseOneCharToken_def [THEN fun_cong] ParseTwoCharToken_def [THEN fun_cong]
  ParseCharClass_def [THEN fun_cong] ParseDigit_def [THEN fun_cong]
  ParseNumber_def [THEN fun_cong] ParseFloatNumber_def [THEN fun_cong]
  ParseSeqId_def [THEN fun_cong] ParseIdentifier_def [THEN fun_cong]
  ParseSourceName_def [THEN fun_cong] ParseDiscriminator_def [THEN fun_cong]
  ParseLocalSourceName_def [THEN fun_cong] ParseNVOffset_def [THEN fun_cong]
  ParseVOffset_def [THEN fun_cong] ParseCallOffset_def [THEN fun_cong]
  ParseRefQualifier_def [THEN fun_cong] ParseCVQualifiers_def [THEN fun_cong]
  ParseBuiltinType_def [THEN fun_cong] ParseTemplateParam_def [THEN fun_cong]
  ParseSubstitution_def [THEN fun_cong] ParseTemplateTemplateParam_def [THEN fun_cong]
  ParseExprCastValue_def [THEN fun_cong] ParseMangledName_def [THEN fun_cong]
  ParseTemplateArgs_def [THEN fun_cong] parse_which_def [THEN fun_cong]
  ParseUnnamedTypeName_def [THEN fun_cong] operator_lookup_def [THEN fun_cong]
  vendor_operator_def [THEN fun_cong] ParseOperatorName_def [THEN fun_cong]
  ParseClassEnumType_def [THEN fun_cong] append_prev_name_def [THEN fun_cong]
  append_dtor_name_def [THEN fun_cong] ParseCtorDtorName_def [THEN fun_cong]
  ParseUnqualifiedName_def [THEN fun_cong] ParseUnscopedName_def [THEN fun_cong]
  ParsePrefix_def [THEN fun_cong] prefix_body_def [THEN fun_cong]
  ParseNestedName_def [THEN fun_cong] ParseLocalNameSuffix_def [THEN fun_cong]
  ParseLocalName_def [THEN fun_cong] ParseName_def [THEN fun_cong]
  ParseBareFunctionType_def [THEN fun_cong] ParseSpecialName_def [THEN fun_cong]
  ParseEncoding_def [THEN fun_cong] ParseDecltype_def [THEN fun_cong]
  ParseExceptionSpec_def [THEN fun_cong] ParseFunctionType_def [THEN fun_cong]
  ParseArrayType_def [THEN fun_cong] ParsePointerToMemberType_def [THEN fun_cong]
  type_after_def [THEN fun_cong] ParseType_def [THEN fun_cong]
  ParseUnresolvedType_def [THEN fun_cong] ParseSimpleId_def [THEN fun_cong]
  ParseBaseUnresolvedName_def [THEN fun_cong] ParseUnresolvedName_def [THEN fun_cong]
  ParseExprPrimary_def [THEN fun_cong] conversion_args_def [THEN fun_cong]
  operator_expression_def [THEN fun_cong] ParseExpression_def [THEN fun_cong]
  ParseTemplateArg_def [THEN fun_cong] ParseTopLevelMangledName_def [THEN fun_cong]
  MaybeAppendDecimal_def [THEN fun_cong]
   Overflowed_def Demangle_def InitState_def
 AtLeastNumCharsRemaining_def IdentifierIsAnonymousNamespace_def
 kBuiltinTypeList_def kSubstitutionList_def kOperatorList_def IsFunctionCloneSuffix.simps
 IsLower_def IsDigit_def IsAlpha_def digit_value_def StrLen_def bit_field_def
declare parse.simps [simp del] all_of.simps [simp del] any_of.simps [simp del] builtin_loop.simps [simp del]
 substitution_loop.simps [simp del] Append_loop.simps [simp del]

section \<open>Fuel\<close>

named_theorems fuel_rules \<open>more fuel gives the same result\<close>

text \<open>\<open>m'\<close> does what \<open>m\<close> does, unless \<open>m\<close> runs out of fuel.\<close>

definition extends :: "'a dem \<Rightarrow> 'a dem \<Rightarrow> bool" where
  "extends m m' \<longleftrightarrow> (\<forall>s. m s = Out_of_fuel \<or> m' s = m s)"

lemma extends_refl [fuel_rules]: "extends m m"
  by (simp add: extends_def)

lemma extends_trans: "extends m m' \<Longrightarrow> extends m' m'' \<Longrightarrow> extends m m''"
  unfolding extends_def by metis

lemma extends_bind [fuel_rules]:
  assumes "extends m m'" and "\<And>a. extends (f a) (f' a)"
  shows "extends (bind_d m f) (bind_d m' f')"
  unfolding extends_def
proof
  fix s
  show "bind_d m f s = Out_of_fuel \<or> bind_d m' f' s = bind_d m f s"
  proof (cases "m s = Out_of_fuel")
    case True
    then show ?thesis by (simp add: bind_d_def)
  next
    case False
    then have "m' s = m s" using assms(1) by (auto simp: extends_def)
    then show ?thesis
      using assms(2) by (auto simp: extends_def bind_d_def split: dres.split)
  qed
qed

lemma extends_if [fuel_rules]:
  "extends m m' \<Longrightarrow> extends n n' \<Longrightarrow> extends (if b then m else n) (if b then m' else n')"
  by simp

lemma extends_option [fuel_rules]:
  "extends m m' \<Longrightarrow> (\<And>a. extends (f a) (f' a)) \<Longrightarrow>
     extends (case r of None \<Rightarrow> m | Some a \<Rightarrow> f a) (case r of None \<Rightarrow> m' | Some a \<Rightarrow> f' a)"
  by (cases r) simp_all

lemma extends_and [fuel_rules]: "extends m m' \<Longrightarrow> extends n n' \<Longrightarrow> extends (and_d m n) (and_d m' n')"
  unfolding and_d_def by (intro fuel_rules)

lemma extends_or [fuel_rules]: "extends m m' \<Longrightarrow> extends n n' \<Longrightarrow> extends (or_d m n) (or_d m' n')"
  unfolding or_d_def by (intro fuel_rules)

lemma list_all2_rules [fuel_rules]:
  "list_all2 P [] []" "P x y \<Longrightarrow> list_all2 P xs ys \<Longrightarrow> list_all2 P (x # xs) (y # ys)"
  by simp_all

lemma extends_chain [fuel_rules]:
  "list_all2 extends ms ms' \<Longrightarrow> extends (all_of ms) (all_of ms')"
  "list_all2 extends ms ms' \<Longrightarrow> extends (any_of ms) (any_of ms')"
proof (induction ms arbitrary: ms')
  case (Cons m ms)
  {
    case 1
    then obtain m' ns where "ms' = m' # ns" "extends m m'" "list_all2 extends ms ns" "extends (all_of ms) (all_of ns)"
      using Cons.IH(1) by (auto simp: list_all2_Cons1)
    then show ?case by (cases ms; cases ns) (auto simp: all_of.simps intro: extends_and)
  next
    case 2
    then obtain m' ns where "ms' = m' # ns" "extends m m'" "list_all2 extends ms ns" "extends (any_of ms) (any_of ns)"
      using Cons.IH(2) by (auto simp: list_all2_Cons1)
    then show ?case by (cases ms; cases ns) (auto simp: any_of.simps intro: extends_or)
  }
qed (simp_all add: all_of.simps any_of.simps extends_refl)

lemma extends_sequence [fuel_rules]:
  "(\<And>p. extends (f p) (f' p)) \<Longrightarrow> extends (save f) (save f')"
  "extends m m' \<Longrightarrow> extends n n' \<Longrightarrow> extends (try_else p m n) (try_else p m' n')"
  "extends m m' \<Longrightarrow> extends (Optional m) (Optional m')"
  "extends r r' \<Longrightarrow> extends (found r) (found r')"
  unfolding save_def try_else_def Optional_def found_def by (intro fuel_rules; assumption)+

lemma extends_guarded [fuel_rules]: "extends m m' \<Longrightarrow> extends (guarded_d a m) (guarded_d a m')"
proof -
  assume "extends m m'"
  then have "extends (bind_d (if c then ret a else m) k) (bind_d (if c then ret a else m') k)" for c and k :: "'a \<Rightarrow> 'a dem"
    by (intro fuel_rules)
  then show ?thesis unfolding extends_def guarded_d_def Let_def by blast
qed

lemma extends_loops [fuel_rules]:
  "(\<And>x. extends (rec x) (rec' x)) \<Longrightarrow> extends (OneOrMore rec f) (OneOrMore rec' f)"
  "(\<And>x. extends (rec x) (rec' x)) \<Longrightarrow> extends (ZeroOrMore rec f) (ZeroOrMore rec' f)"
  unfolding OneOrMore_def ZeroOrMore_def by (intro fuel_rules; assumption)+

lemma extends_ParseMangledName [fuel_rules]: "(\<And>x. extends (rec x) (rec' x)) \<Longrightarrow> extends (ParseMangledName rec) (ParseMangledName rec')"
  unfolding ParseMangledName_def by (intro fuel_rules; assumption)

lemma extends_ParseTemplateArgs [fuel_rules]: "(\<And>x. extends (rec x) (rec' x)) \<Longrightarrow> extends (ParseTemplateArgs rec) (ParseTemplateArgs rec')"
  unfolding ParseTemplateArgs_def by (intro fuel_rules; assumption)

lemma extends_ParseUnnamedTypeName [fuel_rules]: "(\<And>x. extends (rec x) (rec' x)) \<Longrightarrow> extends (ParseUnnamedTypeName rec) (ParseUnnamedTypeName rec')"
  unfolding ParseUnnamedTypeName_def by (intro fuel_rules; assumption)

lemma extends_ParseOperatorName [fuel_rules]: "(\<And>x. extends (rec x) (rec' x)) \<Longrightarrow> extends (ParseOperatorName rec) (ParseOperatorName rec')"
  unfolding ParseOperatorName_def by (intro fuel_rules; assumption)

lemma extends_ParseClassEnumType [fuel_rules]: "(\<And>x. extends (rec x) (rec' x)) \<Longrightarrow> extends (ParseClassEnumType rec) (ParseClassEnumType rec')"
  unfolding ParseClassEnumType_def by (intro fuel_rules; assumption)

lemma extends_ParseCtorDtorName [fuel_rules]: "(\<And>x. extends (rec x) (rec' x)) \<Longrightarrow> extends (ParseCtorDtorName rec) (ParseCtorDtorName rec')"
  unfolding ParseCtorDtorName_def by (intro fuel_rules; assumption)

lemma extends_ParseUnqualifiedName [fuel_rules]: "(\<And>x. extends (rec x) (rec' x)) \<Longrightarrow> extends (ParseUnqualifiedName rec) (ParseUnqualifiedName rec')"
  unfolding ParseUnqualifiedName_def by (intro fuel_rules; assumption)

lemma extends_ParseUnscopedName [fuel_rules]: "(\<And>x. extends (rec x) (rec' x)) \<Longrightarrow> extends (ParseUnscopedName rec) (ParseUnscopedName rec')"
  unfolding ParseUnscopedName_def by (intro fuel_rules; assumption)

lemma extends_ParsePrefix [fuel_rules]: "(\<And>x. extends (rec x) (rec' x)) \<Longrightarrow> extends (ParsePrefix rec) (ParsePrefix rec')"
  unfolding ParsePrefix_def by (intro fuel_rules; assumption)

lemma extends_prefix_body [fuel_rules]: "(\<And>x. extends (rec x) (rec' x)) \<Longrightarrow> extends (prefix_body rec b) (prefix_body rec' b)"
  unfolding prefix_body_def by (intro fuel_rules; assumption)

lemma extends_ParseNestedName [fuel_rules]: "(\<And>x. extends (rec x) (rec' x)) \<Longrightarrow> extends (ParseNestedName rec) (ParseNestedName rec')"
  unfolding ParseNestedName_def by (intro fuel_rules; assumption)

lemma extends_ParseLocalNameSuffix [fuel_rules]: "(\<And>x. extends (rec x) (rec' x)) \<Longrightarrow> extends (ParseLocalNameSuffix rec) (ParseLocalNameSuffix rec')"
  unfolding ParseLocalNameSuffix_def by (intro fuel_rules; assumption)

lemma extends_ParseLocalName [fuel_rules]: "(\<And>x. extends (rec x) (rec' x)) \<Longrightarrow> extends (ParseLocalName rec) (ParseLocalName rec')"
  unfolding ParseLocalName_def by (intro fuel_rules; assumption)

lemma extends_ParseName [fuel_rules]: "(\<And>x. extends (rec x) (rec' x)) \<Longrightarrow> extends (ParseName rec) (ParseName rec')"
  unfolding ParseName_def by (intro fuel_rules; assumption)

lemma extends_ParseBareFunctionType [fuel_rules]: "(\<And>x. extends (rec x) (rec' x)) \<Longrightarrow> extends (ParseBareFunctionType rec) (ParseBareFunctionType rec')"
  unfolding ParseBareFunctionType_def by (intro fuel_rules; assumption)

lemma extends_ParseSpecialName [fuel_rules]: "(\<And>x. extends (rec x) (rec' x)) \<Longrightarrow> extends (ParseSpecialName rec) (ParseSpecialName rec')"
  unfolding ParseSpecialName_def by (intro fuel_rules; assumption)

lemma extends_ParseEncoding [fuel_rules]: "(\<And>x. extends (rec x) (rec' x)) \<Longrightarrow> extends (ParseEncoding rec) (ParseEncoding rec')"
  unfolding ParseEncoding_def by (intro fuel_rules; assumption)

lemma extends_ParseDecltype [fuel_rules]: "(\<And>x. extends (rec x) (rec' x)) \<Longrightarrow> extends (ParseDecltype rec) (ParseDecltype rec')"
  unfolding ParseDecltype_def by (intro fuel_rules; assumption)

lemma extends_ParseExceptionSpec [fuel_rules]: "(\<And>x. extends (rec x) (rec' x)) \<Longrightarrow> extends (ParseExceptionSpec rec) (ParseExceptionSpec rec')"
  unfolding ParseExceptionSpec_def by (intro fuel_rules; assumption)

lemma extends_ParseFunctionType [fuel_rules]: "(\<And>x. extends (rec x) (rec' x)) \<Longrightarrow> extends (ParseFunctionType rec) (ParseFunctionType rec')"
  unfolding ParseFunctionType_def by (intro fuel_rules; assumption)

lemma extends_ParseArrayType [fuel_rules]: "(\<And>x. extends (rec x) (rec' x)) \<Longrightarrow> extends (ParseArrayType rec) (ParseArrayType rec')"
  unfolding ParseArrayType_def by (intro fuel_rules; assumption)

lemma extends_ParsePointerToMemberType [fuel_rules]: "(\<And>x. extends (rec x) (rec' x)) \<Longrightarrow> extends (ParsePointerToMemberType rec) (ParsePointerToMemberType rec')"
  unfolding ParsePointerToMemberType_def by (intro fuel_rules; assumption)

lemma extends_type_after [fuel_rules]: "(\<And>x. extends (rec x) (rec' x)) \<Longrightarrow> extends q q' \<Longrightarrow> extends n n' \<Longrightarrow> extends (type_after rec p q n) (type_after rec' p q' n')"
  unfolding type_after_def by (intro fuel_rules; assumption)

lemma extends_ParseType [fuel_rules]: "(\<And>x. extends (rec x) (rec' x)) \<Longrightarrow> extends (ParseType rec) (ParseType rec')"
  unfolding ParseType_def by (intro fuel_rules; assumption)

lemma extends_ParseUnresolvedType [fuel_rules]: "(\<And>x. extends (rec x) (rec' x)) \<Longrightarrow> extends (ParseUnresolvedType rec) (ParseUnresolvedType rec')"
  unfolding ParseUnresolvedType_def by (intro fuel_rules; assumption)

lemma extends_ParseSimpleId [fuel_rules]: "(\<And>x. extends (rec x) (rec' x)) \<Longrightarrow> extends (ParseSimpleId rec) (ParseSimpleId rec')"
  unfolding ParseSimpleId_def by (intro fuel_rules; assumption)

lemma extends_ParseBaseUnresolvedName [fuel_rules]: "(\<And>x. extends (rec x) (rec' x)) \<Longrightarrow> extends (ParseBaseUnresolvedName rec) (ParseBaseUnresolvedName rec')"
  unfolding ParseBaseUnresolvedName_def by (intro fuel_rules; assumption)

lemma extends_ParseUnresolvedName [fuel_rules]: "(\<And>x. extends (rec x) (rec' x)) \<Longrightarrow> extends (ParseUnresolvedName rec) (ParseUnresolvedName rec')"
  unfolding ParseUnresolvedName_def by (intro fuel_rules; assumption)

lemma extends_ParseExprPrimary [fuel_rules]: "(\<And>x. extends (rec x) (rec' x)) \<Longrightarrow> extends (ParseExprPrimary rec) (ParseExprPrimary rec')"
  unfolding ParseExprPrimary_def by (intro fuel_rules; assumption)

lemma extends_conversion_args [fuel_rules]: "(\<And>x. extends (rec x) (rec' x)) \<Longrightarrow> extends (conversion_args rec) (conversion_args rec')"
  unfolding conversion_args_def by (intro fuel_rules; assumption)

lemma extends_operator_expression [fuel_rules]: "(\<And>x. extends (rec x) (rec' x)) \<Longrightarrow> extends (operator_expression rec) (operator_expression rec')"
  unfolding operator_expression_def by (intro fuel_rules; assumption)

lemma extends_ParseExpression [fuel_rules]: "(\<And>x. extends (rec x) (rec' x)) \<Longrightarrow> extends (ParseExpression rec) (ParseExpression rec')"
  unfolding ParseExpression_def by (intro fuel_rules; assumption)

lemma extends_ParseTemplateArg [fuel_rules]: "(\<And>x. extends (rec x) (rec' x)) \<Longrightarrow> extends (ParseTemplateArg rec) (ParseTemplateArg rec')"
  unfolding ParseTemplateArg_def by (intro fuel_rules; assumption)

lemma extends_ParseTopLevelMangledName [fuel_rules]: "(\<And>x. extends (rec x) (rec' x)) \<Longrightarrow> extends (ParseTopLevelMangledName rec) (ParseTopLevelMangledName rec')"
  unfolding ParseTopLevelMangledName_def by (intro fuel_rules; assumption)

lemma extends_parse_Suc: "extends (parse n x) (parse (Suc n) x)"
proof (induction n arbitrary: x)
  case 0
  then show ?case by (simp add: extends_def parse.simps(1))
next
  case (Suc n)
  show ?case
    by (subst (1 2) parse.simps(2)) (cases x; simp only: nonterm.case; intro fuel_rules Suc)
qed

lemma extends_parse: "n \<le> n' \<Longrightarrow> extends (parse n x) (parse n' x)"
  by (induction rule: dec_induct) (auto intro: extends_refl extends_trans extends_parse_Suc)

lemma parse_more_fuel: "parse n x s = Done b s' \<Longrightarrow> n \<le> n' \<Longrightarrow> parse n' x s = Done b s'"
  using extends_parse [of n n' x] by (auto simp: extends_def dest: spec [of _ s])

lemma Demangle_more_fuel:
  assumes "Demangle n mangled out out_size = r" and "r \<noteq> Out_of_fuel" and "n \<le> n'"
  shows "Demangle n' mangled out out_size = r"
proof -
  have "extends (bind_d (ParseTopLevelMangledName (parse n)) (\<lambda>b.
        bind_d (get_d Overflowed) (\<lambda>overflowed. ret (b \<and> \<not> overflowed))))
      (bind_d (ParseTopLevelMangledName (parse n')) (\<lambda>b.
        bind_d (get_d Overflowed) (\<lambda>overflowed. ret (b \<and> \<not> overflowed))))"
    by (intro fuel_rules extends_parse [OF assms(3)])
  then show ?thesis using assms(1,2) unfolding Demangle_def extends_def by metis
qed

end
