(* ===== verification/Demangle_Results.thy ===== *)
theory Demangle_Results
  imports Demangle_Exec
begin

text \<open>
  \<open>demangle.cc\<close>: the properties. \<open>Demangle\<close> always returns and stays inside its buffers, for
  a buffer of at least one byte; its functions restore the parse state as documented,
  with the exception of \<open>ParseNumber\<close>; inputs on which it does not do what its header says.
\<close>

section \<open>Totality and memory safety\<close>

text \<open>
  Claim C19. For every mangled name of less than 2^31 characters and every output buffer of at least one and at most
  2^31 - 3 bytes, \<open>Demangle\<close> returns: no read past the terminator, no write outside the buffer, no index that
  leaves the range of \<open>int\<close>, bytes behind \<open>out_size\<close> unchanged, and the recursion guard back at zero.
  The two bounds are those up to which the index arithmetic of the code, which goes to two past the end of
  the buffer, is defined whatever the name is.
\<close>

theorem Demangle_in_bounds:
  assumes "NUL \<notin> set mangled" and "1 \<le> out_size" and "out_size \<le> int (length out)" and "400000 \<le> fuel"
    and "length mangled < 2 ^ 31" and "out_size \<le> 2 ^ 31 - 3"
  shows "\<exists>b s. Demangle fuel mangled out out_size = Done b s \<and>
    length (out_buf s) = length out \<and> drop (nat out_size) (out_buf s) = drop (nat out_size) out \<and>
    mangled_idx (parse_state s) \<le> length mangled \<and> 0 \<le> out_cur s \<and> out_cur s \<le> out_size + 1 \<and>
    recursion_depth s = 0"
proof -
  obtain b s where "Demangle fuel mangled out out_size = Done b s" "state_ok s"
    "same_run (InitState mangled out out_size) s"
    using Demangle_run [OF assms(1-3), of fuel] assms(2,4-6) unfolding enough_fuel_def by (auto simp: in_int_def)
  then show ?thesis
    by (auto simp: same_run_def state_ok_def ps_ok_def out_cur_def InitState_def)
qed

theorem Demangle_in_bounds_witness:
  "\<exists>b s. Demangle 400000 ''_ZN3FooC1Ev'' (replicate 20 (CHR ''#'')) 10 = Done b s \<and>
    length (out_buf s) = length (replicate 20 (CHR ''#'')) \<and>
    drop (nat 10) (out_buf s) = drop (nat 10) (replicate 20 (CHR ''#'')) \<and>
    mangled_idx (parse_state s) \<le> length ''_ZN3FooC1Ev'' \<and> 0 \<le> out_cur s \<and> out_cur s \<le> 10 + 1 \<and>
    recursion_depth s = 0"
  by (rule Demangle_in_bounds) simp_all

section \<open>Backtracking\<close>

text \<open>
  Claim C20. When \<open>ParseEncoding\<close>, \<open>ParseName\<close>, \<open>ParseType\<close>, \<open>ParseTemplateArg\<close>,
  \<open>ParseExpression\<close> or \<open>ParseSimpleId\<close> fails, from any well-formed state (indices inside their strings, which are
  short enough for an \<open>int\<close>), the parse state is
  the one before the call, so the caller can try an alternative.
\<close>

theorem parse_failure_restores:
  assumes "state_ok s" and "0 \<le> steps s" and "400000 \<le> fuel"
    and "x \<in> {Encoding, Name, Type, Template_arg, Expression, Simple_id}"
    and "parse fuel x s = Done False s'"
  shows "parse_state s' = parse_state s"
proof -
  have "3 * 131072 + call_fuel x \<le> fuel" "proper x" "restoring x"
    using assms(3,4) by (auto simp: call_fuel_def restoring_def)
  then have "keeps (parse_state s) 131072 (parse fuel x)"
    using parse_ok [of 131072 x fuel] by blast
  then show ?thesis
    using keepsD [of "parse_state s" 131072 "parse fuel x" s s'] assms
    by (simp add: budget_def kParseStepsLimit_def)
qed

lemma parse_expression_fails:
  "\<exists>s'. parse 60 Expression (InitState ''cv1a_1b'' (replicate 8 (CHR ''#'')) 8) = Done False s'"
  by (simp add: run_simps)

lemma steps_InitState: "steps (InitState mangled out out_size) = 0"
  by (simp add: InitState_def)

theorem parse_failure_restores_witness:
  "\<exists>s'. parse 400000 Expression (InitState ''cv1a_1b'' (replicate 8 (CHR ''#'')) 8) = Done False s' \<and>
    parse_state s' = parse_state (InitState ''cv1a_1b'' (replicate 8 (CHR ''#'')) 8)"
proof -
  let ?s = "InitState ''cv1a_1b'' (replicate 8 (CHR ''#'')) 8"
  obtain s' where "parse 60 Expression ?s = Done False s'" using parse_expression_fails by blast
  then have run: "parse 400000 Expression ?s = Done False s'"
    by (rule parse_more_fuel) simp
  have "parse_state s' = parse_state ?s"
    by (rule parse_failure_restores [OF _ _ _ _ run]) (simp_all add: state_ok_InitState steps_InitState in_int_def)
  with run show ?thesis by blast
qed

text \<open>
  \<open>ParseNumber\<close> breaks the documented convention that a failing function leaves
  the parse state alone: on an \<open>n\<close> that no digit follows it fails with the \<open>n\<close> consumed.
\<close>

theorem ParseNumber_consumes_on_failure:
  assumes "mangled_begin s = before @ CHR ''n'' # rest" and "mangled_idx (parse_state s) = length before"
    and "rest = [] \<or> \<not> IsDigit (hd rest)" and "recursion_depth s < 255" and "steps s < 131000"
    and "in_int (int (length before) + 1)"
  shows "\<exists>s'. ParseNumber s = Done None s' \<and>
    parse_state s' = (parse_state s)\<lparr>mangled_idx := mangled_idx (parse_state s) + 1\<rparr>"
proof -
  have "takeWhile IsDigit rest = []" using assms(3) by (cases rest) auto
  then show ?thesis
    using assms by (simp add: ParseNumber_def ParseOneCharToken_def guarded_run bind_d_def ret_def get_d_def
        do_d_def input_at_def char_at_def advance_def ps_update_def RemainingInput_def nth_append Let_def index_d_def nat_add_distrib)
qed

theorem ParseNumber_consumes_on_failure_witness:
  "\<exists>s'. ParseNumber (InitState ''n_'' [] 0) = Done None s' \<and>
    parse_state s' = (parse_state (InitState ''n_'' [] 0))
      \<lparr>mangled_idx := mangled_idx (parse_state (InitState ''n_'' [] 0)) + 1\<rparr>"
  by (rule ParseNumber_consumes_on_failure [where before = "[]" and rest = "''_''"])
    (simp_all add: InitState_def IsDigit_def in_int_def)

section \<open>Inputs that are not handled as documented\<close>

lemma full_buffer_run:
  "\<exists>s. Demangle 40 ''_ZN3foo3barE'' ''#####'' 5 = Done True s \<and>
    out_buf s = ''foo:'' @ [NUL]"
  by (simp add: run_simps)

text \<open>
  A buffer that is too short can be reported as success: for \<open>_ZN3foo3barE\<close> and
  five bytes the overflow is forgotten when the last separator is cancelled, and the
  result is the truncated \<open>foo:\<close>, not failure.
\<close>

theorem Demangle_truncates_silently:
  "\<exists>s. Demangle 400000 ''_ZN3foo3barE'' ''#####'' 5 = Done True s \<and>
    out_buf s = ''foo:'' @ [NUL]"
  using full_buffer_run Demangle_more_fuel [of 40 _ _ _ _ 400000] by fastforce

text \<open>
  An empty nested name is accepted, and then nothing is written: \<open>Demangle\<close> returns
  true and the caller's buffer, whatever it held, is not terminated.
\<close>

theorem Demangle_leaves_buffer_unwritten:
  assumes "1 \<le> out_size" and "40 \<le> fuel"
  shows "\<exists>s. Demangle fuel ''_ZNE'' out out_size = Done True s \<and> out_buf s = out"
proof -
  have "\<exists>s. Demangle 40 ''_ZNE'' out out_size = Done True s \<and> out_buf s = out"
    using assms(1) by (simp add: run_simps)
  then show ?thesis using Demangle_more_fuel [of 40 _ _ _ _ fuel] assms(2) by fastforce
qed

theorem Demangle_leaves_buffer_unwritten_witness:
  "\<exists>s. Demangle 100 ''_ZNE'' ''stale'' 5 = Done True s \<and> out_buf s = ''stale''"
  by (rule Demangle_leaves_buffer_unwritten) simp_all

end
