(* ===== verification/Ascii.thy ===== *)
theory Ascii
  imports Prelude
begin

text \<open>
  \<open>libs/abseil-cpp-master/absl/strings/ascii.h, ascii.cc\<close>: character classes, case
  conversion and white space, over bytes. The three tables are the source's; a table
  with fewer initialisers than entries is filled with zeros, as in C++.

  \<open>chr\<close> is a character constant as a byte.
\<close>

abbreviation chr :: "char \<Rightarrow> byte" where "chr c \<equiv> of_char c"

section \<open>Tables\<close>

text \<open>Entries 128 to 255 have no initialiser.\<close>

definition kPropertyBits :: "byte list" where
  "kPropertyBits =
    [64, 64, 64, 64, 64, 64, 64, 64, 64, 104, 72, 72, 72, 72, 64, 64,
     64, 64, 64, 64, 64, 64, 64, 64, 64, 64, 64, 64, 64, 64, 64, 64,
     40, 16, 16, 16, 16, 16, 16, 16, 16, 16, 16, 16, 16, 16, 16, 16,
     132, 132, 132, 132, 132, 132, 132, 132, 132, 132, 16, 16, 16, 16, 16, 16,
     16, 133, 133, 133, 133, 133, 133, 5, 5, 5, 5, 5, 5, 5, 5, 5,
     5, 5, 5, 5, 5, 5, 5, 5, 5, 5, 5, 16, 16, 16, 16, 16,
     16, 133, 133, 133, 133, 133, 133, 5, 5, 5, 5, 5, 5, 5, 5, 5,
     5, 5, 5, 5, 5, 5, 5, 5, 5, 5, 5, 16, 16, 16, 16, 64]
    @ replicate 128 0"

definition kToLower :: "byte list" where
  "kToLower =
    [0, 1, 2, 3, 4, 5, 6, 7, 8, 9, 10, 11, 12, 13, 14, 15,
     16, 17, 18, 19, 20, 21, 22, 23, 24, 25, 26, 27, 28, 29, 30, 31,
     32, 33, 34, 35, 36, 37, 38, 39, 40, 41, 42, 43, 44, 45, 46, 47,
     48, 49, 50, 51, 52, 53, 54, 55, 56, 57, 58, 59, 60, 61, 62, 63,
     64, 97, 98, 99, 100, 101, 102, 103, 104, 105, 106, 107, 108, 109, 110, 111,
     112, 113, 114, 115, 116, 117, 118, 119, 120, 121, 122, 91, 92, 93, 94, 95,
     96, 97, 98, 99, 100, 101, 102, 103, 104, 105, 106, 107, 108, 109, 110, 111,
     112, 113, 114, 115, 116, 117, 118, 119, 120, 121, 122, 123, 124, 125, 126, 127,
     128, 129, 130, 131, 132, 133, 134, 135, 136, 137, 138, 139, 140, 141, 142, 143,
     144, 145, 146, 147, 148, 149, 150, 151, 152, 153, 154, 155, 156, 157, 158, 159,
     160, 161, 162, 163, 164, 165, 166, 167, 168, 169, 170, 171, 172, 173, 174, 175,
     176, 177, 178, 179, 180, 181, 182, 183, 184, 185, 186, 187, 188, 189, 190, 191,
     192, 193, 194, 195, 196, 197, 198, 199, 200, 201, 202, 203, 204, 205, 206, 207,
     208, 209, 210, 211, 212, 213, 214, 215, 216, 217, 218, 219, 220, 221, 222, 223,
     224, 225, 226, 227, 228, 229, 230, 231, 232, 233, 234, 235, 236, 237, 238, 239,
     240, 241, 242, 243, 244, 245, 246, 247, 248, 249, 250, 251, 252, 253, 254, 255]"

definition kToUpper :: "byte list" where
  "kToUpper =
    [0, 1, 2, 3, 4, 5, 6, 7, 8, 9, 10, 11, 12, 13, 14, 15,
     16, 17, 18, 19, 20, 21, 22, 23, 24, 25, 26, 27, 28, 29, 30, 31,
     32, 33, 34, 35, 36, 37, 38, 39, 40, 41, 42, 43, 44, 45, 46, 47,
     48, 49, 50, 51, 52, 53, 54, 55, 56, 57, 58, 59, 60, 61, 62, 63,
     64, 65, 66, 67, 68, 69, 70, 71, 72, 73, 74, 75, 76, 77, 78, 79,
     80, 81, 82, 83, 84, 85, 86, 87, 88, 89, 90, 91, 92, 93, 94, 95,
     96, 65, 66, 67, 68, 69, 70, 71, 72, 73, 74, 75, 76, 77, 78, 79,
     80, 81, 82, 83, 84, 85, 86, 87, 88, 89, 90, 123, 124, 125, 126, 127,
     128, 129, 130, 131, 132, 133, 134, 135, 136, 137, 138, 139, 140, 141, 142, 143,
     144, 145, 146, 147, 148, 149, 150, 151, 152, 153, 154, 155, 156, 157, 158, 159,
     160, 161, 162, 163, 164, 165, 166, 167, 168, 169, 170, 171, 172, 173, 174, 175,
     176, 177, 178, 179, 180, 181, 182, 183, 184, 185, 186, 187, 188, 189, 190, 191,
     192, 193, 194, 195, 196, 197, 198, 199, 200, 201, 202, 203, 204, 205, 206, 207,
     208, 209, 210, 211, 212, 213, 214, 215, 216, 217, 218, 219, 220, 221, 222, 223,
     224, 225, 226, 227, 228, 229, 230, 231, 232, 233, 234, 235, 236, 237, 238, 239,
     240, 241, 242, 243, 244, 245, 246, 247, 248, 249, 250, 251, 252, 253, 254, 255]"

section \<open>Character classes\<close>

definition ascii_isalpha :: "byte \<Rightarrow> bool" where
  "ascii_isalpha c \<longleftrightarrow> kPropertyBits ! unat c AND 0x01 \<noteq> 0"

definition ascii_isalnum :: "byte \<Rightarrow> bool" where
  "ascii_isalnum c \<longleftrightarrow> kPropertyBits ! unat c AND 0x04 \<noteq> 0"

definition ascii_isspace :: "byte \<Rightarrow> bool" where
  "ascii_isspace c \<longleftrightarrow> kPropertyBits ! unat c AND 0x08 \<noteq> 0"

definition ascii_ispunct :: "byte \<Rightarrow> bool" where
  "ascii_ispunct c \<longleftrightarrow> kPropertyBits ! unat c AND 0x10 \<noteq> 0"

definition ascii_isblank :: "byte \<Rightarrow> bool" where
  "ascii_isblank c \<longleftrightarrow> kPropertyBits ! unat c AND 0x20 \<noteq> 0"

definition ascii_iscntrl :: "byte \<Rightarrow> bool" where
  "ascii_iscntrl c \<longleftrightarrow> kPropertyBits ! unat c AND 0x40 \<noteq> 0"

definition ascii_isxdigit :: "byte \<Rightarrow> bool" where
  "ascii_isxdigit c \<longleftrightarrow> kPropertyBits ! unat c AND 0x80 \<noteq> 0"

definition ascii_isdigit :: "byte \<Rightarrow> bool" where
  "ascii_isdigit c \<longleftrightarrow> c \<ge> chr (CHR ''0'') \<and> c \<le> chr (CHR ''9'')"

definition ascii_isprint :: "byte \<Rightarrow> bool" where
  "ascii_isprint c \<longleftrightarrow> c \<ge> 32 \<and> c < 127"

definition ascii_isgraph :: "byte \<Rightarrow> bool" where
  "ascii_isgraph c \<longleftrightarrow> c > 32 \<and> c < 127"

definition ascii_isupper :: "byte \<Rightarrow> bool" where
  "ascii_isupper c \<longleftrightarrow> c \<ge> chr (CHR ''A'') \<and> c \<le> chr (CHR ''Z'')"

definition ascii_islower :: "byte \<Rightarrow> bool" where
  "ascii_islower c \<longleftrightarrow> c \<ge> chr (CHR ''a'') \<and> c \<le> chr (CHR ''z'')"

definition ascii_isascii :: "byte \<Rightarrow> bool" where
  "ascii_isascii c \<longleftrightarrow> c < 128"

section \<open>Case\<close>

definition ascii_tolower :: "byte \<Rightarrow> byte" where
  "ascii_tolower c = kToLower ! unat c"

definition ascii_toupper :: "byte \<Rightarrow> byte" where
  "ascii_toupper c = kToUpper ! unat c"

definition AsciiStrToLower :: "byte list \<Rightarrow> byte list" where
  "AsciiStrToLower s = map ascii_tolower s"

definition AsciiStrToUpper :: "byte list \<Rightarrow> byte list" where
  "AsciiStrToUpper s = map ascii_toupper s"

section \<open>White space\<close>

definition StripLeadingAsciiWhitespace :: "byte list \<Rightarrow> byte list" where
  "StripLeadingAsciiWhitespace str = dropWhile ascii_isspace str"

definition StripTrailingAsciiWhitespace :: "byte list \<Rightarrow> byte list" where
  "StripTrailingAsciiWhitespace str =
     take (length str - length (takeWhile ascii_isspace (rev str))) str"

definition StripAsciiWhitespace :: "byte list \<Rightarrow> byte list" where
  "StripAsciiWhitespace str = StripTrailingAsciiWhitespace (StripLeadingAsciiWhitespace str)"

text \<open>
  The loop of \<open>RemoveExtraAsciiWhitespace\<close>. Input and output are in the same string: the
  input from position \<open>i\<close> on, with \<open>n\<close> characters left, the output at \<open>out\<close>.
\<close>

fun squeeze_loop :: "nat \<Rightarrow> nat \<Rightarrow> nat \<Rightarrow> bool \<Rightarrow> byte list \<Rightarrow> nat \<times> byte list" where
  "squeeze_loop 0 i out is_ws str = (out, str)"
| "squeeze_loop (Suc n) i out is_ws str =
     (let c = str ! i;
          out = (if is_ws \<and> ascii_isspace c then out - 1 else out)
      in squeeze_loop n (i + 1) (out + 1) (ascii_isspace c) (str[out := c]))"

definition RemoveExtraAsciiWhitespace :: "byte list \<Rightarrow> byte list" where
  "RemoveExtraAsciiWhitespace str =
     (let stripped = StripAsciiWhitespace str;
          begin = length (takeWhile ascii_isspace str)
      in if stripped = [] then []
         else let (out, str) = squeeze_loop (length stripped) begin 0 False str in take out str)"

section \<open>What the tables hold\<close>

text \<open>The generator of the property table, as the comment of the source gives it.\<close>

definition property_mask :: "nat \<Rightarrow> byte" where
  "property_mask n =
     (let alpha = 65 \<le> n \<and> n \<le> 90 \<or> 97 \<le> n \<and> n \<le> 122; digit = 48 \<le> n \<and> n \<le> 57 in
      of_bool alpha * 0x01 + of_bool (alpha \<or> digit) * 0x04 + of_bool (n = 32 \<or> 9 \<le> n \<and> n \<le> 13) * 0x08
      + of_bool (33 \<le> n \<and> n \<le> 126 \<and> \<not> alpha \<and> \<not> digit) * 0x10 + of_bool (n = 9 \<or> n = 32) * 0x20
      + of_bool (n < 32 \<or> n = 127) * 0x40
      + of_bool (digit \<or> 65 \<le> n \<and> n \<le> 70 \<or> 97 \<le> n \<and> n \<le> 102) * 0x80)"

lemma upt_split: "[0..<256] = [0..<128] @ [128..<256]"
  using upt_add_eq_append [of 0 128 128] by simp

lemma property_mask_high: "map property_mask [128..<256] = replicate 128 0"
  by (rule replicate_eqI) (auto simp: property_mask_def)

lemma kPropertyBits_eq: "kPropertyBits = map property_mask [0..<256]"
  unfolding kPropertyBits_def upt_split map_append property_mask_high
  by (simp add: property_mask_def upt_conv_Cons)

lemma kToLower_eq: "kToLower = map (\<lambda>n. of_nat (if 65 \<le> n \<and> n \<le> 90 then n + 32 else n)) [0..<256]"
  by (simp add: kToLower_def upt_conv_Cons)

lemma kToUpper_eq: "kToUpper = map (\<lambda>n. of_nat (if 97 \<le> n \<and> n \<le> 122 then n - 32 else n)) [0..<256]"
  by (simp add: kToUpper_def upt_conv_Cons)

lemma unat_byte_less [simp]: "unat (c :: byte) < 256"
  using unsigned_less [of c] by simp

lemma kPropertyBits_nth: "kPropertyBits ! unat (c :: byte) = property_mask (unat c)"
  by (simp add: kPropertyBits_eq)

lemma mask_bits:
  "property_mask n AND 0x01 \<noteq> 0 \<longleftrightarrow> 65 \<le> n \<and> n \<le> 90 \<or> 97 \<le> n \<and> n \<le> 122"
  "property_mask n AND 0x04 \<noteq> 0 \<longleftrightarrow> 65 \<le> n \<and> n \<le> 90 \<or> 97 \<le> n \<and> n \<le> 122 \<or> 48 \<le> n \<and> n \<le> 57"
  "property_mask n AND 0x08 \<noteq> 0 \<longleftrightarrow> n = 32 \<or> 9 \<le> n \<and> n \<le> 13"
  "property_mask n AND 0x10 \<noteq> 0 \<longleftrightarrow> 33 \<le> n \<and> n \<le> 126 \<and>
     \<not> (65 \<le> n \<and> n \<le> 90 \<or> 97 \<le> n \<and> n \<le> 122 \<or> 48 \<le> n \<and> n \<le> 57)"
  "property_mask n AND 0x20 \<noteq> 0 \<longleftrightarrow> n = 9 \<or> n = 32"
  "property_mask n AND 0x40 \<noteq> 0 \<longleftrightarrow> n < 32 \<or> n = 127"
  "property_mask n AND 0x80 \<noteq> 0 \<longleftrightarrow> 48 \<le> n \<and> n \<le> 57 \<or> 65 \<le> n \<and> n \<le> 70 \<or> 97 \<le> n \<and> n \<le> 102"
  by (auto simp: property_mask_def of_bool_def Let_def)

lemma ascii_isspace_iff: "ascii_isspace c \<longleftrightarrow> unat c = 32 \<or> 9 \<le> unat c \<and> unat c \<le> 13"
  by (simp only: ascii_isspace_def kPropertyBits_nth mask_bits)

lemma ascii_isxdigit_iff: "ascii_isxdigit c \<longleftrightarrow> 48 \<le> unat c \<and> unat c \<le> 57 \<or>
    65 \<le> unat c \<and> unat c \<le> 70 \<or> 97 \<le> unat c \<and> unat c \<le> 102"
  by (simp only: ascii_isxdigit_def kPropertyBits_nth mask_bits)

text \<open>All classes as ranges of codes.\<close>

lemma ascii_table_ranges:
  "ascii_isalpha c \<longleftrightarrow> 65 \<le> unat c \<and> unat c \<le> 90 \<or> 97 \<le> unat c \<and> unat c \<le> 122"
  "ascii_isalnum c \<longleftrightarrow> 65 \<le> unat c \<and> unat c \<le> 90 \<or> 97 \<le> unat c \<and> unat c \<le> 122 \<or> 48 \<le> unat c \<and> unat c \<le> 57"
  "ascii_ispunct c \<longleftrightarrow> 33 \<le> unat c \<and> unat c \<le> 126 \<and>
     \<not> (65 \<le> unat c \<and> unat c \<le> 90 \<or> 97 \<le> unat c \<and> unat c \<le> 122 \<or> 48 \<le> unat c \<and> unat c \<le> 57)"
  "ascii_isblank c \<longleftrightarrow> unat c = 9 \<or> unat c = 32"
  "ascii_iscntrl c \<longleftrightarrow> unat c < 32 \<or> unat c = 127"
  by (simp_all only: ascii_isalpha_def ascii_isalnum_def ascii_ispunct_def ascii_isblank_def ascii_iscntrl_def
      kPropertyBits_nth mask_bits)

lemma ascii_code_ranges:
  "ascii_isdigit c \<longleftrightarrow> 48 \<le> unat c \<and> unat c \<le> 57" "ascii_isupper c \<longleftrightarrow> 65 \<le> unat c \<and> unat c \<le> 90"
  "ascii_islower c \<longleftrightarrow> 97 \<le> unat c \<and> unat c \<le> 122" "ascii_isgraph c \<longleftrightarrow> 32 < unat c \<and> unat c < 127"
  "ascii_isprint c \<longleftrightarrow> 32 \<le> unat c \<and> unat c < 127" "ascii_isascii c \<longleftrightarrow> unat c < 128"
  by (simp_all add: ascii_isdigit_def ascii_isupper_def ascii_islower_def ascii_isgraph_def ascii_isprint_def
      ascii_isascii_def word_le_nat_alt word_less_nat_alt)

lemmas ascii_ranges = ascii_table_ranges ascii_code_ranges ascii_isspace_iff ascii_isxdigit_iff

lemma ascii_tolower_eq: "ascii_tolower c = (if ascii_isupper c then c + 32 else c)"
  by (simp add: ascii_tolower_def kToLower_eq ascii_ranges)

lemma ascii_toupper_eq: "ascii_toupper c = (if ascii_islower c then c - 32 else c)"
  by (simp add: ascii_toupper_def kToUpper_eq ascii_ranges of_nat_diff)

lemma unat_of_nat_byte: "n < 256 \<Longrightarrow> unat (of_nat n :: byte) = n"
  by (simp add: unsigned_of_nat take_bit_eq_mod)

lemma unat_case:
  "unat (ascii_tolower c) = (if 65 \<le> unat c \<and> unat c \<le> 90 then unat c + 32 else unat c)"
  "unat (ascii_toupper c) = (if 97 \<le> unat c \<and> unat c \<le> 122 then unat c - 32 else unat c)"
  using unat_byte_less [of c]
  by (simp_all only: ascii_tolower_def ascii_toupper_def kToLower_eq kToUpper_eq nth_map length_upt
      diff_zero nth_upt add_0) (auto; unat_arith)+

lemma word_eq_unat: "(c :: byte) = d \<longleftrightarrow> unat c = unat d"
  by (simp add: word_unat_eq_iff)

text \<open>
  The table of character classes and the range tests agree for every byte: the
  letters are the upper- and lower-case ones, the alphanumeric characters are the letters
  and digits, the graphic ones are these and the punctuation, the printable ones add the
  space, and an ASCII character is printable or a control character, not both.
\<close>

theorem ascii_classes_agree:
  "(ascii_isalpha c \<longleftrightarrow> ascii_isupper c \<or> ascii_islower c) \<and>
   (ascii_isalnum c \<longleftrightarrow> ascii_isalpha c \<or> ascii_isdigit c) \<and>
   (ascii_isgraph c \<longleftrightarrow> ascii_isalnum c \<noteq> ascii_ispunct c) \<and>
   (ascii_isprint c \<longleftrightarrow> ascii_isgraph c \<or> c = chr (CHR '' '')) \<and>
   (ascii_isascii c \<longleftrightarrow> ascii_isprint c \<noteq> ascii_iscntrl c) \<and>
   (ascii_isblank c \<longleftrightarrow> c \<in> {chr (CHR '' ''), 9}) \<and>
   (ascii_isspace c \<longleftrightarrow> c \<in> {chr (CHR '' ''), 9, 10, 11, 12, 13}) \<and>
   (ascii_isxdigit c \<longleftrightarrow> ascii_isdigit c \<or> ascii_toupper c \<in> chr ` set ''ABCDEF'')"
proof -
  have sp: "c = chr (CHR '' '') \<longleftrightarrow> unat c = 32" by (simp add: word_eq_unat)
  have ws: "c \<in> {chr (CHR '' ''), 9, 10, 11, 12, 13} \<longleftrightarrow> unat c = 32 \<or> 9 \<le> unat c \<and> unat c \<le> 13"
    by (simp add: word_eq_unat) arith
  have hex: "ascii_toupper c \<in> chr ` set ''ABCDEF'' \<longleftrightarrow>
      65 \<le> unat c \<and> unat c \<le> 70 \<or> 97 \<le> unat c \<and> unat c \<le> 102"
    by (simp add: word_eq_unat unat_case) arith
  show ?thesis
    unfolding sp ws hex ascii_ranges by (intro conjI; (arith | simp add: word_eq_unat; arith))
qed

text \<open>
  Case conversion moves exactly the letters of the other case, by 32, and each
  conversion undoes the other before it is applied; all other bytes are returned as they are.
\<close>

theorem ascii_case_conversion:
  "ascii_tolower c = (if ascii_isupper c then c + 32 else c) \<and>
   ascii_toupper c = (if ascii_islower c then c - 32 else c) \<and>
   AsciiStrToLower (AsciiStrToUpper s) = AsciiStrToLower s \<and>
   AsciiStrToUpper (AsciiStrToLower s) = AsciiStrToUpper s"
proof -
  have "ascii_tolower (ascii_toupper c) = ascii_tolower c" "ascii_toupper (ascii_tolower c) = ascii_toupper c" for c
    by (auto simp: word_eq_unat unat_case)
  then show ?thesis
    by (simp add: ascii_tolower_eq ascii_toupper_eq AsciiStrToLower_def AsciiStrToUpper_def)
qed

section \<open>Squeezing white space\<close>

text \<open>What the in-place loop computes: of each run of white space, the last character.\<close>

fun squeeze :: "byte list \<Rightarrow> byte list" where
  "squeeze [] = []"
| "squeeze [c] = [c]"
| "squeeze (c # d # cs) =
     (if ascii_isspace c \<and> ascii_isspace d then squeeze (d # cs) else c # squeeze (d # cs))"

definition push_char :: "byte list \<Rightarrow> byte \<Rightarrow> byte list" where
  "push_char os c = (if os \<noteq> [] \<and> ascii_isspace (last os) \<and> ascii_isspace c then butlast os else os) @ [c]"

lemma foldl_push_char: "foldl push_char (os @ [c]) xs = os @ squeeze (c # xs)"
proof (induction xs arbitrary: os c)
  case (Cons d xs)
  show ?case
    using Cons.IH [of os d] Cons.IH [of "os @ [c]" d] by (simp add: push_char_def)
qed simp

lemma foldl_push_char_Nil: "foldl push_char [] xs = squeeze xs"
  using foldl_push_char [of "[]"] by (cases xs) (simp_all add: push_char_def)

lemma squeeze_loop_run:
  assumes "out \<le> i" and "i + n \<le> length str"
    and "is_ws \<longleftrightarrow> 0 < out \<and> ascii_isspace (str ! (out - 1))"
    and "squeeze_loop n i out is_ws str = (out', str')"
  shows "take out' str' = foldl push_char (take out str) (take n (drop i str))"
  using assms
proof (induction n arbitrary: i out is_ws str)
  case 0
  then show ?case by simp
next
  case (Suc n)
  let ?c = "str ! i"
  let ?out = "if is_ws \<and> ascii_isspace ?c then out - 1 else out"
  let ?str = "str[?out := ?c]"
  have i: "i < length str" "?out \<le> i" using Suc.prems(1,2) by auto
  have last: "out \<noteq> 0 \<Longrightarrow> last (take out str) = str ! (out - 1)"
    using Suc.prems(1,2) by (subst last_conv_nth) auto
  have push: "take (?out + 1) ?str = push_char (take out str) ?c"
  proof (cases "is_ws \<and> ascii_isspace ?c")
    case True
    then have "0 < out" "ascii_isspace (last (take out str))" using Suc.prems(3) last by auto
    then have "push_char (take out str) ?c = take (out - 1) str @ [?c]"
      using True Suc.prems(1,2) by (auto simp: push_char_def butlast_take)
    moreover have "take out (str[out - 1 := ?c]) = take (out - 1) str @ [?c]"
      using \<open>0 < out\<close> i Suc.prems(1) by (cases out) (simp_all add: take_Suc_conv_app_nth)
    ultimately show ?thesis using True \<open>0 < out\<close> by simp
  next
    case False
    then have "push_char (take out str) ?c = take out str @ [?c]"
      using Suc.prems(3) last by (auto simp: push_char_def)
    moreover have "out < length str" using i False by simp
    ultimately show ?thesis using False by (auto simp: take_Suc_conv_app_nth)
  qed
  have run: "squeeze_loop n (i + 1) (?out + 1) (ascii_isspace ?c) ?str = (out', str')"
    using Suc.prems(4) by (simp add: Let_def)
  have "take out' str' = foldl push_char (take (?out + 1) ?str) (take n (drop (i + 1) ?str))"
    using i Suc.prems(2) by (intro Suc.IH [OF _ _ _ run]) auto
  also have "drop (i + 1) ?str = drop (i + 1) str" using i(2) by simp
  finally show ?case
    unfolding push by (simp add: take_Suc_conv_app_nth Cons_nth_drop_Suc [symmetric] i(1))
qed

text \<open>The stripped string, as a part of the original one.\<close>

lemma StripAsciiWhitespace_prefix:
  "StripAsciiWhitespace str = take (length (StripAsciiWhitespace str)) (drop (length (takeWhile ascii_isspace str)) str)"
  by (simp add: StripAsciiWhitespace_def StripTrailingAsciiWhitespace_def StripLeadingAsciiWhitespace_def
      dropWhile_eq_drop)

lemma RemoveExtraAsciiWhitespace_squeeze:
  "RemoveExtraAsciiWhitespace str = squeeze (StripAsciiWhitespace str)"
proof (cases "StripAsciiWhitespace str = []")
  case True
  then show ?thesis by (simp add: RemoveExtraAsciiWhitespace_def)
next
  case False
  let ?n = "length (StripAsciiWhitespace str)" and ?i = "length (takeWhile ascii_isspace str)"
  obtain out' str' where run: "squeeze_loop ?n ?i 0 False str = (out', str')" by fastforce
  have "length (drop ?i str) \<ge> ?n"
    by (subst StripAsciiWhitespace_prefix) simp
  moreover have "?i \<le> length str" by (rule length_takeWhile_le)
  ultimately have "take out' str' = foldl push_char [] (take ?n (drop ?i str))"
    using squeeze_loop_run [OF _ _ _ run] by simp
  then show ?thesis
    using False run by (simp add: RemoveExtraAsciiWhitespace_def Let_def foldl_push_char_Nil
        StripAsciiWhitespace_prefix [symmetric])
qed

lemma squeeze_Nil_iff [simp]: "squeeze xs = [] \<longleftrightarrow> xs = []"
  by (induction xs rule: squeeze.induct) auto

lemma last_squeeze [simp]: "xs \<noteq> [] \<Longrightarrow> last (squeeze xs) = last xs"
  by (induction xs rule: squeeze.induct) auto

lemma hd_squeeze: "xs \<noteq> [] \<Longrightarrow> \<not> ascii_isspace (hd xs) \<Longrightarrow> hd (squeeze xs) = hd xs"
  by (induction xs rule: squeeze.induct) auto

lemma squeeze_no_adjacent:
  "Suc j < length (squeeze xs) \<Longrightarrow> \<not> (ascii_isspace (squeeze xs ! j) \<and> ascii_isspace (squeeze xs ! Suc j))"
proof (induction xs arbitrary: j rule: squeeze.induct)
  case (3 c d cs)
  show ?case
  proof (cases "ascii_isspace c \<and> ascii_isspace d")
    case True
    then show ?thesis using "3.IH"(1) [OF True, of j] "3.prems" by simp
  next
    case False
    have hd: "\<not> ascii_isspace d \<Longrightarrow> squeeze (d # cs) ! 0 = d"
      using hd_squeeze [of "d # cs"] by (simp add: hd_conv_nth)
    then show ?thesis
      using False "3.IH"(2) [OF False, of "j - 1"] "3.prems" by (cases j) auto
  qed
qed simp_all

lemma filter_squeeze: "filter (\<lambda>c. \<not> ascii_isspace c) (squeeze xs) = filter (\<lambda>c. \<not> ascii_isspace c) xs"
  by (induction xs rule: squeeze.induct) auto

lemma take_minus_takeWhile_rev:
  "take (length xs - length (takeWhile P (rev xs))) xs = rev (dropWhile P (rev xs))"
  by (simp add: dropWhile_eq_drop rev_drop)

lemma StripAsciiWhitespace_eq:
  "StripAsciiWhitespace str = rev (dropWhile ascii_isspace (rev (dropWhile ascii_isspace str)))"
  by (simp only: StripAsciiWhitespace_def StripTrailingAsciiWhitespace_def
      StripLeadingAsciiWhitespace_def take_minus_takeWhile_rev)

lemma last_StripAsciiWhitespace:
  "StripAsciiWhitespace str \<noteq> [] \<Longrightarrow> \<not> ascii_isspace (last (StripAsciiWhitespace str))"
  by (simp add: StripAsciiWhitespace_eq last_rev hd_dropWhile)

lemma hd_rev_dropWhile_rev: "rev (dropWhile P (rev xs)) \<noteq> [] \<Longrightarrow> hd (rev (dropWhile P (rev xs))) = hd xs"
  by (induction xs rule: rev_induct) (auto simp: hd_append)

lemma hd_StripAsciiWhitespace:
  assumes "StripAsciiWhitespace str \<noteq> []"
  shows "\<not> ascii_isspace (hd (StripAsciiWhitespace str))"
proof -
  let ?t = "dropWhile ascii_isspace str"
  have "?t \<noteq> []" using assms unfolding StripAsciiWhitespace_eq by (cases "?t = []") simp_all
  then have "\<not> ascii_isspace (hd ?t)" by (rule hd_dropWhile)
  then show ?thesis using assms unfolding StripAsciiWhitespace_eq by (simp only: hd_rev_dropWhile_rev not_False_eq_True)
qed

lemma filter_dropWhile: "filter (\<lambda>c. \<not> P c) (dropWhile P xs) = filter (\<lambda>c. \<not> P c) xs"
  by (induction xs) auto

lemma filter_StripAsciiWhitespace:
  "filter (\<lambda>c. \<not> ascii_isspace c) (StripAsciiWhitespace str) = filter (\<lambda>c. \<not> ascii_isspace c) str"
  by (simp add: StripAsciiWhitespace_eq rev_filter [symmetric] filter_dropWhile)

lemma StripAsciiWhitespace_id:
  assumes "xs \<noteq> []" and "\<not> ascii_isspace (hd xs)" and "\<not> ascii_isspace (last xs)"
  shows "StripAsciiWhitespace xs = xs"
proof -
  have "dropWhile ascii_isspace ys = ys" if "ys \<noteq> []" "\<not> ascii_isspace (hd ys)" for ys
    using that by (cases ys) auto
  then show ?thesis using assms by (simp add: StripAsciiWhitespace_eq hd_rev)
qed

lemma squeeze_idem: "squeeze (squeeze xs) = squeeze xs"
proof -
  have "squeeze ys = ys"
    if "\<And>j. Suc j < length ys \<Longrightarrow> \<not> (ascii_isspace (ys ! j) \<and> ascii_isspace (ys ! Suc j))" for ys
    using that
  proof (induction ys rule: squeeze.induct)
    case (3 c d cs)
    then have "\<not> (ascii_isspace c \<and> ascii_isspace d)" using "3.prems" [of 0] by simp
    moreover have "squeeze (d # cs) = d # cs"
    proof (rule "3.IH"(2))
      show "\<not> (ascii_isspace c \<and> ascii_isspace d)" by fact
      show "\<And>j. Suc j < length (d # cs) \<Longrightarrow>
          \<not> (ascii_isspace ((d # cs) ! j) \<and> ascii_isspace ((d # cs) ! Suc j))"
        using "3.prems" [of "Suc j" for j] by simp
    qed
    ultimately show ?case by auto
  qed simp_all
  then show ?thesis by (blast dest: squeeze_no_adjacent)
qed

text \<open>
  \<open>RemoveExtraAsciiWhitespace\<close>, which edits the string in place, leaves no white space
  at either end and no two white-space characters next to each other, keeps every other
  character in its place in the order, and applied a second time changes nothing.
\<close>

theorem RemoveExtraAsciiWhitespace_normal:
  "(RemoveExtraAsciiWhitespace str \<noteq> [] \<longrightarrow>
      \<not> ascii_isspace (hd (RemoveExtraAsciiWhitespace str)) \<and>
      \<not> ascii_isspace (last (RemoveExtraAsciiWhitespace str))) \<and>
   (\<forall>j. Suc j < length (RemoveExtraAsciiWhitespace str) \<longrightarrow>
      \<not> (ascii_isspace (RemoveExtraAsciiWhitespace str ! j) \<and>
         ascii_isspace (RemoveExtraAsciiWhitespace str ! Suc j))) \<and>
   filter (\<lambda>c. \<not> ascii_isspace c) (RemoveExtraAsciiWhitespace str) =
      filter (\<lambda>c. \<not> ascii_isspace c) str \<and>
   RemoveExtraAsciiWhitespace (RemoveExtraAsciiWhitespace str) = RemoveExtraAsciiWhitespace str"
proof -
  let ?s = "StripAsciiWhitespace str"
  have ends: "\<not> ascii_isspace (hd (squeeze ?s)) \<and> \<not> ascii_isspace (last (squeeze ?s))"
    if "?s \<noteq> []"
    using that hd_StripAsciiWhitespace [OF that] last_StripAsciiWhitespace [OF that] by (simp add: hd_squeeze)
  have strip: "StripAsciiWhitespace (squeeze ?s) = squeeze ?s"
  proof (cases "?s = []")
    case True
    then show ?thesis unfolding True by (simp add: StripAsciiWhitespace_eq)
  next
    case False
    then show ?thesis using ends by (intro StripAsciiWhitespace_id) auto
  qed
  show ?thesis
    using ends squeeze_no_adjacent [of _ ?s]
    by (auto simp: RemoveExtraAsciiWhitespace_squeeze strip squeeze_idem filter_squeeze filter_StripAsciiWhitespace)
qed

lemma RemoveExtraAsciiWhitespace_normal_witness:
  "let t = RemoveExtraAsciiWhitespace [32, 97, 32, 9, 98, 10] in
     t \<noteq> [] \<and> \<not> ascii_isspace (hd t) \<and> \<not> ascii_isspace (last t)"
proof -
  have "RemoveExtraAsciiWhitespace [32, 97, 32, 9, 98, 10] = [97, 9, 98]"
    by (simp add: RemoveExtraAsciiWhitespace_squeeze StripAsciiWhitespace_eq ascii_isspace_iff)
  then show ?thesis
    using RemoveExtraAsciiWhitespace_normal [of "[32, 97, 32, 9, 98, 10]"] by simp
qed

end
