(* ===== verification/C_Escape.thy ===== *)
theory C_Escape
  imports Ascii
begin

text \<open>
  C-style escaping, \<open>absl/strings/escaping.cc\<close>, with the UTF-8 encoder of
  \<open>absl/strings/internal/utf8.cc\<close>.

  Strings are lists of bytes. A pointer \<open>p\<close> into the source is the list of the bytes from
  \<open>p\<close> to \<open>end\<close>, so \<open>p < last_byte\<close> says that a further byte follows. \<open>unsigned int\<close> and
  \<open>char32_t\<close> are words of 32 bits, in which the code's sums and shifts wrap around.
  The result of the unescaper is the message it stores in \<open>error\<close>, or the bytes written.
\<close>

abbreviation backslash :: byte where "backslash \<equiv> 0x5C"

definition string_of :: "byte list \<Rightarrow> string" where
  "string_of bs = map (\<lambda>b. char_of (unat b)) bs"

section \<open>UTF-8\<close>

definition EncodeUTF8Char :: "32 word \<Rightarrow> byte list" where
  "EncodeUTF8Char utf8_char =
     (if utf8_char \<le> 0x7F then [ucast utf8_char]
      else if utf8_char \<le> 0x7FF then
        (let b1 = ucast (0x80 OR (utf8_char AND 0x3F));
             utf8_char = drop_bit 6 utf8_char;
             b0 = ucast (0xC0 OR utf8_char)
         in [b0, b1])
      else if utf8_char \<le> 0xFFFF then
        (let b2 = ucast (0x80 OR (utf8_char AND 0x3F));
             utf8_char = drop_bit 6 utf8_char;
             b1 = ucast (0x80 OR (utf8_char AND 0x3F));
             utf8_char = drop_bit 6 utf8_char;
             b0 = ucast (0xE0 OR utf8_char)
         in [b0, b1, b2])
      else
        (let b3 = ucast (0x80 OR (utf8_char AND 0x3F));
             utf8_char = drop_bit 6 utf8_char;
             b2 = ucast (0x80 OR (utf8_char AND 0x3F));
             utf8_char = drop_bit 6 utf8_char;
             b1 = ucast (0x80 OR (utf8_char AND 0x3F));
             utf8_char = drop_bit 6 utf8_char;
             b0 = ucast (0xF0 OR utf8_char)
         in [b0, b1, b2, b3]))"

section \<open>Unescaping\<close>

definition is_octal_digit :: "byte \<Rightarrow> bool" where
  "is_octal_digit c \<longleftrightarrow> chr (CHR ''0'') \<le> c \<and> c \<le> chr (CHR ''7'')"

definition hex_digit_to_int :: "byte \<Rightarrow> 32 word" where
  "hex_digit_to_int c =
     (let x = ucast c in (if x > 0x39 then x + 9 else x) AND 0xf)"

definition IsSurrogate :: "32 word \<Rightarrow> bool" where
  "IsSurrogate c \<longleftrightarrow> c \<ge> 0xD800 \<and> c \<le> 0xDFFF"

definition surrogate_error :: "byte list \<Rightarrow> string" where
  "surrogate_error src = ''invalid surrogate character (0xD800-DFFF): '' @ [CHR 0x5C] @ string_of src"

text \<open>The bytes from \<open>start\<close> up to and including the one at \<open>p\<close>.\<close>

definition upto_ptr :: "byte list \<Rightarrow> byte list \<Rightarrow> byte list" where
  "upto_ptr start p = take (length start - length p + 1) start"

text \<open>
  One escape sequence, from the byte after the backslash. The result is what is written
  and the position of the last byte of the sequence.
\<close>

type_synonym escape_result = "string + byte list \<times> byte list"

fun octal_digit :: "32 word \<times> byte list \<Rightarrow> 32 word \<times> byte list" where
  "octal_digit (ch, p0 # p1 # p) =
     (if is_octal_digit p1 then (ch * 8 + ucast p1 - 48, p1 # p) else (ch, p0 # p1 # p))"
| "octal_digit (ch, p) = (ch, p)"

definition octal_escape :: "bool \<Rightarrow> byte list \<Rightarrow> escape_result" where
  "octal_escape leave_nulls_escaped octal_start =
     (let (ch, p) = octal_digit (octal_digit (ucast (hd octal_start) - 48, octal_start)) in
      if ch > 0xff then
        Inl (''Value of '' @ [CHR 0x5C] @ string_of (upto_ptr octal_start p) @ '' exceeds 0xff'')
      else if ch = 0 \<and> leave_nulls_escaped then Inr (backslash # upto_ptr octal_start p, p)
      else Inr ([ucast ch], p))"

fun hex_digits :: "32 word \<Rightarrow> byte list \<Rightarrow> 32 word \<times> byte list" where
  "hex_digits ch (p0 # p1 # p) =
     (if ascii_isxdigit p1 then hex_digits (push_bit 4 ch + hex_digit_to_int p1) (p1 # p)
      else (ch, p0 # p1 # p))"
| "hex_digits ch p = (ch, p)"

definition hex_escape :: "bool \<Rightarrow> byte list \<Rightarrow> escape_result" where
  "hex_escape leave_nulls_escaped hex_start =
     (case hex_start of
        x # p1 # _ \<Rightarrow>
          if \<not> ascii_isxdigit p1 then Inl ([CHR 0x5C] @ ''x cannot be followed by a non-hex digit'')
          else
            (let (ch, p) = hex_digits 0 hex_start in
             if ch > 0xFF then
               Inl (''Value of '' @ [CHR 0x5C] @ string_of (upto_ptr hex_start p) @ '' exceeds 0xff'')
             else if ch = 0 \<and> leave_nulls_escaped then Inr (backslash # upto_ptr hex_start p, p)
             else Inr ([ucast ch], p))
      | _ \<Rightarrow> Inl (''String cannot end with '' @ [CHR 0x5C] @ ''x''))"

text \<open>The loops over the four digits of \<open>\u\<close> and the eight of \<open>\U\<close>.\<close>

definition u_error :: "byte list \<Rightarrow> byte list \<Rightarrow> string" where
  "u_error hex_start p = [CHR 0x5C] @ ''u must be followed by 4 hex digits: '' @ [CHR 0x5C] @
     string_of (upto_ptr hex_start p)"

fun u_digits :: "nat \<Rightarrow> byte list \<Rightarrow> 32 word \<Rightarrow> byte list \<Rightarrow> string + 32 word \<times> byte list" where
  "u_digits 0 hex_start rune p = Inr (rune, p)"
| "u_digits (Suc i) hex_start rune p =
     (if ascii_isxdigit (p ! 1)
      then u_digits i hex_start (push_bit 4 rune + hex_digit_to_int (p ! 1)) (tl p)
      else Inl (u_error hex_start p))"

definition u_escape :: "bool \<Rightarrow> byte list \<Rightarrow> escape_result" where
  "u_escape leave_nulls_escaped hex_start =
     (if length hex_start \<le> 4 then Inl (u_error hex_start hex_start)
      else case u_digits 4 hex_start 0 hex_start of
        Inl e \<Rightarrow> Inl e
      | Inr (rune, p) \<Rightarrow>
          if rune = 0 \<and> leave_nulls_escaped then Inr (backslash # take 5 hex_start, p)
          else if IsSurrogate rune then Inl (surrogate_error (take 5 hex_start))
          else Inr (EncodeUTF8Char rune, p))"

definition U_error :: "byte list \<Rightarrow> byte list \<Rightarrow> string" where
  "U_error hex_start p = [CHR 0x5C] @ ''U must be followed by 8 hex digits: '' @ [CHR 0x5C] @
     string_of (upto_ptr hex_start p)"

fun U_digits :: "nat \<Rightarrow> byte list \<Rightarrow> 32 word \<Rightarrow> byte list \<Rightarrow> string + 32 word \<times> byte list" where
  "U_digits 0 hex_start rune p = Inr (rune, p)"
| "U_digits (Suc i) hex_start rune p =
     (if ascii_isxdigit (p ! 1)
      then let newrune = push_bit 4 rune + hex_digit_to_int (p ! 1); p = tl p in
        if newrune > 0x10FFFF then
          Inl (''Value of '' @ [CHR 0x5C] @ string_of (upto_ptr hex_start p) @
            '' exceeds Unicode limit (0x10FFFF)'')
        else U_digits i hex_start newrune p
      else Inl (U_error hex_start p))"

definition U_escape :: "bool \<Rightarrow> byte list \<Rightarrow> escape_result" where
  "U_escape leave_nulls_escaped hex_start =
     (if length hex_start \<le> 8 then Inl (U_error hex_start hex_start)
      else case U_digits 8 hex_start 0 hex_start of
        Inl e \<Rightarrow> Inl e
      | Inr (rune, p) \<Rightarrow>
          if rune = 0 \<and> leave_nulls_escaped then Inr (backslash # take 9 hex_start, p)
          else if IsSurrogate rune then Inl (surrogate_error (take 9 hex_start))
          else Inr (EncodeUTF8Char rune, p))"

definition simple_escape :: "byte \<Rightarrow> byte option" where
  "simple_escape c =
     (if c = chr (CHR ''a'') then Some 7
      else if c = chr (CHR ''b'') then Some 8
      else if c = chr (CHR ''f'') then Some 12
      else if c = chr (CHR ''n'') then Some 10
      else if c = chr (CHR ''r'') then Some 13
      else if c = chr (CHR ''t'') then Some 9
      else if c = chr (CHR ''v'') then Some 11
      else if c = backslash then Some backslash
      else if c = chr (CHR ''?'') then Some (chr (CHR ''?''))
      else if c = 0x27 then Some 0x27
      else if c = 0x22 then Some 0x22
      else None)"

definition escape_sequence :: "bool \<Rightarrow> byte list \<Rightarrow> escape_result" where
  "escape_sequence leave_nulls_escaped p =
     (case simple_escape (hd p) of
        Some b \<Rightarrow> Inr ([b], p)
      | None \<Rightarrow>
          if is_octal_digit (hd p) then octal_escape leave_nulls_escaped p
          else if hd p = chr (CHR ''x'') \<or> hd p = chr (CHR ''X'') then hex_escape leave_nulls_escaped p
          else if hd p = chr (CHR ''u'') then u_escape leave_nulls_escaped p
          else if hd p = chr (CHR ''U'') then U_escape leave_nulls_escaped p
          else Inl (''Unknown escape sequence: '' @ [CHR 0x5C] @ string_of [hd p]))"

text \<open>
  The loop over the source. \<open>d\<close> is what has been written, and \<open>p\<close> the rest of the source;
  after a sequence the loop continues behind its last byte.
\<close>

lemma octal_digit_length: "length (snd (octal_digit s)) \<le> length (snd s)"
  by (induction s rule: octal_digit.induct) auto

lemma hex_digits_length: "length (snd (hex_digits ch p)) \<le> length p"
  by (induction ch p rule: hex_digits.induct) auto

lemma u_digits_length: "u_digits i start rune p = Inr (rune', p') \<Longrightarrow> length p' \<le> length p"
  by (induction i start rune p rule: u_digits.induct) (fastforce split: if_splits)+

lemma U_digits_length: "U_digits i start rune p = Inr (rune', p') \<Longrightarrow> length p' \<le> length p"
  by (induction i start rune p rule: U_digits.induct) (fastforce simp: Let_def split: if_splits)+

lemma escape_sequence_length:
  assumes "escape_sequence leave p = Inr (bs, p')"
  shows "length p' \<le> length p"
proof -
  obtain ch q where q: "octal_digit (octal_digit (ucast (hd p) - 48, p)) = (ch, q)" by fastforce
  then have "length q \<le> length p"
    using octal_digit_length [of "octal_digit (ucast (hd p) - 48, p)"]
      octal_digit_length [of "(ucast (hd p) - 48, p)"] by simp
  moreover obtain ch' q' where q': "hex_digits 0 p = (ch', q')" by fastforce
  then have "length q' \<le> length p" using hex_digits_length [of 0 p] by simp
  ultimately show ?thesis
    using assms q q' u_digits_length [of 4 p 0 p] U_digits_length [of 8 p 0 p]
    by (auto simp: escape_sequence_def octal_escape_def hex_escape_def u_escape_def U_escape_def
        split: if_splits option.splits list.splits sum.splits prod.splits)
qed

function CUnescape_loop :: "bool \<Rightarrow> byte list \<Rightarrow> byte list \<Rightarrow> string + byte list" where
  "CUnescape_loop leave_nulls_escaped d [] = Inr d"
| "CUnescape_loop leave_nulls_escaped d (c # p) =
     (if c \<noteq> backslash then CUnescape_loop leave_nulls_escaped (d @ [c]) p
      else if p = [] then Inl (''String cannot end with '' @ [CHR 0x5C])
      else case escape_sequence leave_nulls_escaped p of
        Inl e \<Rightarrow> Inl e
      | Inr (bs, p') \<Rightarrow> CUnescape_loop leave_nulls_escaped (d @ bs) (tl p'))"
  by pat_completeness auto
termination
  by (relation "measure (\<lambda>(leave, d, p). length p)") (auto dest!: escape_sequence_length)

definition CUnescapeInternal :: "byte list \<Rightarrow> bool \<Rightarrow> string + byte list" where
  "CUnescapeInternal source leave_nulls_escaped = CUnescape_loop leave_nulls_escaped [] source"

definition CUnescape :: "byte list \<Rightarrow> string + byte list" where
  "CUnescape source = CUnescapeInternal source False"

section \<open>Escaping\<close>

definition kHexChar :: "byte list" where
  "kHexChar = map chr ''0123456789abcdef''"

definition kHexTable :: "byte list" where
  "kHexTable = map chr (concat [
    ''000102030405060708090a0b0c0d0e0f'',
    ''101112131415161718191a1b1c1d1e1f'',
    ''202122232425262728292a2b2c2d2e2f'',
    ''303132333435363738393a3b3c3d3e3f'',
    ''404142434445464748494a4b4c4d4e4f'',
    ''505152535455565758595a5b5c5d5e5f'',
    ''606162636465666768696a6b6c6d6e6f'',
    ''707172737475767778797a7b7c7d7e7f'',
    ''808182838485868788898a8b8c8d8e8f'',
    ''909192939495969798999a9b9c9d9e9f'',
    ''a0a1a2a3a4a5a6a7a8a9aaabacadaeaf'',
    ''b0b1b2b3b4b5b6b7b8b9babbbcbdbebf'',
    ''c0c1c2c3c4c5c6c7c8c9cacbcccdcecf'',
    ''d0d1d2d3d4d5d6d7d8d9dadbdcdddedf'',
    ''e0e1e2e3e4e5e6e7e8e9eaebecedeeef'',
    ''f0f1f2f3f4f5f6f7f8f9fafbfcfdfeff''])"

text \<open>\<open>last_hex\<close> says that the last sequence appended was \<open>\xNN\<close>.\<close>

fun CEscape_loop :: "bool \<Rightarrow> bool \<Rightarrow> bool \<Rightarrow> byte list \<Rightarrow> byte list \<Rightarrow> byte list" where
  "CEscape_loop use_hex utf8_safe last_hex dest [] = dest"
| "CEscape_loop use_hex utf8_safe last_hex dest (c # src) =
     (if c = 10 then CEscape_loop use_hex utf8_safe False (dest @ [backslash, chr (CHR ''n'')]) src
      else if c = 13 then CEscape_loop use_hex utf8_safe False (dest @ [backslash, chr (CHR ''r'')]) src
      else if c = 9 then CEscape_loop use_hex utf8_safe False (dest @ [backslash, chr (CHR ''t'')]) src
      else if c = 0x22 then CEscape_loop use_hex utf8_safe False (dest @ [backslash, 0x22]) src
      else if c = 0x27 then CEscape_loop use_hex utf8_safe False (dest @ [backslash, 0x27]) src
      else if c = backslash then CEscape_loop use_hex utf8_safe False (dest @ [backslash, backslash]) src
      else if (\<not> utf8_safe \<or> c < 0x80) \<and> (\<not> ascii_isprint c \<or> last_hex \<and> ascii_isxdigit c) then
        (if use_hex then
           CEscape_loop use_hex utf8_safe True
             (dest @ [backslash, chr (CHR ''x''), kHexChar ! (unat c div 16), kHexChar ! (unat c mod 16)]) src
         else
           CEscape_loop use_hex utf8_safe False
             (dest @ [backslash, kHexChar ! (unat c div 64), kHexChar ! (unat c mod 64 div 8),
                kHexChar ! (unat c mod 8)]) src)
      else CEscape_loop use_hex utf8_safe False (dest @ [c]) src)"

definition CEscapeInternal :: "byte list \<Rightarrow> bool \<Rightarrow> bool \<Rightarrow> byte list" where
  "CEscapeInternal src use_hex utf8_safe = CEscape_loop use_hex utf8_safe False [] src"

definition c_escaped_len :: "nat list" where
  "c_escaped_len = [
     4, 4, 4, 4, 4, 4, 4, 4, 4, 2, 2, 4, 4, 2, 4, 4,
     4, 4, 4, 4, 4, 4, 4, 4, 4, 4, 4, 4, 4, 4, 4, 4,
     1, 1, 2, 1, 1, 1, 1, 2, 1, 1, 1, 1, 1, 1, 1, 1,
     1, 1, 1, 1, 1, 1, 1, 1, 1, 1, 1, 1, 1, 1, 1, 1,
     1, 1, 1, 1, 1, 1, 1, 1, 1, 1, 1, 1, 1, 1, 1, 1,
     1, 1, 1, 1, 1, 1, 1, 1, 1, 1, 1, 1, 2, 1, 1, 1,
     1, 1, 1, 1, 1, 1, 1, 1, 1, 1, 1, 1, 1, 1, 1, 1,
     1, 1, 1, 1, 1, 1, 1, 1, 1, 1, 1, 1, 1, 1, 1, 4,
     4, 4, 4, 4, 4, 4, 4, 4, 4, 4, 4, 4, 4, 4, 4, 4,
     4, 4, 4, 4, 4, 4, 4, 4, 4, 4, 4, 4, 4, 4, 4, 4,
     4, 4, 4, 4, 4, 4, 4, 4, 4, 4, 4, 4, 4, 4, 4, 4,
     4, 4, 4, 4, 4, 4, 4, 4, 4, 4, 4, 4, 4, 4, 4, 4,
     4, 4, 4, 4, 4, 4, 4, 4, 4, 4, 4, 4, 4, 4, 4, 4,
     4, 4, 4, 4, 4, 4, 4, 4, 4, 4, 4, 4, 4, 4, 4, 4,
     4, 4, 4, 4, 4, 4, 4, 4, 4, 4, 4, 4, 4, 4, 4, 4,
     4, 4, 4, 4, 4, 4, 4, 4, 4, 4, 4, 4, 4, 4, 4, 4]"

definition CEscapedLength :: "byte list \<Rightarrow> nat" where
  "CEscapedLength src = foldl (\<lambda>escaped_len c. escaped_len + c_escaped_len ! unat c) 0 src"

text \<open>
  The optimised variant sizes the string first and then writes through a pointer, here
  the position \<open>append_ptr\<close> in \<open>dest\<close>. The bytes that the resize adds are zero.
\<close>

definition resize :: "nat \<Rightarrow> byte list \<Rightarrow> byte list" where
  "resize n s = take n s @ replicate (n - length s) 0"

definition append_ptr_bytes :: "byte list \<Rightarrow> nat \<times> byte list \<Rightarrow> nat \<times> byte list" where
  "append_ptr_bytes bs = (\<lambda>(append_ptr, dest). (append_ptr + length bs, write_at append_ptr bs dest))"

definition append_escaped :: "byte \<Rightarrow> nat \<times> byte list \<Rightarrow> nat \<times> byte list" where
  "append_escaped c =
     (let char_len = c_escaped_len ! unat c in
      if char_len = 1 then append_ptr_bytes [c]
      else if char_len = 2 then
        (if c = 10 then append_ptr_bytes [backslash, chr (CHR ''n'')]
         else if c = 13 then append_ptr_bytes [backslash, chr (CHR ''r'')]
         else if c = 9 then append_ptr_bytes [backslash, chr (CHR ''t'')]
         else if c = 0x22 then append_ptr_bytes [backslash, 0x22]
         else if c = 0x27 then append_ptr_bytes [backslash, 0x27]
         else if c = backslash then append_ptr_bytes [backslash, backslash]
         else id)
      else append_ptr_bytes [backslash, 48 + c div 64, 48 + c mod 64 div 8, 48 + c mod 8])"

definition CEscapeAndAppendInternal :: "byte list \<Rightarrow> byte list \<Rightarrow> byte list" where
  "CEscapeAndAppendInternal src dest =
     (let escaped_len = CEscapedLength src in
      if escaped_len = length src then dest @ src
      else let cur_dest_len = length dest in
        snd (foldl (\<lambda>s c. append_escaped c s) (cur_dest_len, resize (cur_dest_len + escaped_len) dest) src))"

definition CEscape :: "byte list \<Rightarrow> byte list" where
  "CEscape src = CEscapeAndAppendInternal src []"

definition CHexEscape :: "byte list \<Rightarrow> byte list" where
  "CHexEscape src = CEscapeInternal src True False"

definition Utf8SafeCEscape :: "byte list \<Rightarrow> byte list" where
  "Utf8SafeCEscape src = CEscapeInternal src False True"

definition Utf8SafeCHexEscape :: "byte list \<Rightarrow> byte list" where
  "Utf8SafeCHexEscape src = CEscapeInternal src True True"

section \<open>Hexadecimal\<close>

definition kHexValueLenient :: "byte list" where
  "kHexValueLenient = [
     0, 0, 0, 0, 0, 0, 0, 0, 0, 0, 0, 0, 0, 0, 0, 0,
     0, 0, 0, 0, 0, 0, 0, 0, 0, 0, 0, 0, 0, 0, 0, 0,
     0, 0, 0, 0, 0, 0, 0, 0, 0, 0, 0, 0, 0, 0, 0, 0,
     0, 1, 2, 3, 4, 5, 6, 7, 8, 9, 0, 0, 0, 0, 0, 0,
     0, 10, 11, 12, 13, 14, 15, 0, 0, 0, 0, 0, 0, 0, 0, 0,
     0, 0, 0, 0, 0, 0, 0, 0, 0, 0, 0, 0, 0, 0, 0, 0,
     0, 10, 11, 12, 13, 14, 15, 0, 0, 0, 0, 0, 0, 0, 0, 0,
     0, 0, 0, 0, 0, 0, 0, 0, 0, 0, 0, 0, 0, 0, 0, 0,
     0, 0, 0, 0, 0, 0, 0, 0, 0, 0, 0, 0, 0, 0, 0, 0,
     0, 0, 0, 0, 0, 0, 0, 0, 0, 0, 0, 0, 0, 0, 0, 0,
     0, 0, 0, 0, 0, 0, 0, 0, 0, 0, 0, 0, 0, 0, 0, 0,
     0, 0, 0, 0, 0, 0, 0, 0, 0, 0, 0, 0, 0, 0, 0, 0,
     0, 0, 0, 0, 0, 0, 0, 0, 0, 0, 0, 0, 0, 0, 0, 0,
     0, 0, 0, 0, 0, 0, 0, 0, 0, 0, 0, 0, 0, 0, 0, 0,
     0, 0, 0, 0, 0, 0, 0, 0, 0, 0, 0, 0, 0, 0, 0, 0,
     0, 0, 0, 0, 0, 0, 0, 0, 0, 0, 0, 0, 0, 0, 0, 0]"

definition HexStringToBytes :: "byte list \<Rightarrow> byte list" where
  "HexStringToBytes from =
     (let num = length from div 2 in
      foldl (\<lambda>to i. to[i := push_bit 4 (kHexValueLenient ! unat (from ! (i * 2)))
                 + kHexValueLenient ! unat (from ! (i * 2 + 1))])
        (replicate num 0) [0..<num])"

definition BytesToHexString :: "byte list \<Rightarrow> byte list" where
  "BytesToHexString from =
     (let result = replicate (2 * length from) 0 in
      snd (foldl (\<lambda>(dest_ptr, dest) src.
               (dest_ptr + 2, write_at dest_ptr (take 2 (drop (unat src * 2) kHexTable)) dest))
             (0, result) from))"

end
