(* ===== verification/Base64.thy ===== *)
theory Base64
  imports C_Escape
begin

text \<open>
  Base64, \<open>absl/strings/escaping.cc\<close> and \<open>absl/strings/internal/escaping.cc\<close>.

  A pointer into the source with the number of bytes left, \<open>src\<close> and \<open>szsrc\<close>, is the list
  of the bytes left. The destination is a buffer of \<open>szdest\<close> bytes and a position in it.
  Sizes are natural numbers: the wrap-around of \<open>size_t\<close> is out of reach of strings that
  fit in memory. The decoder with a null destination, which no caller uses, is left out.
\<close>

section \<open>Alphabets\<close>

definition kBase64Chars :: "byte list" where
  "kBase64Chars = map chr ''ABCDEFGHIJKLMNOPQRSTUVWXYZabcdefghijklmnopqrstuvwxyz0123456789+/''"

definition kWebSafeBase64Chars :: "byte list" where
  "kWebSafeBase64Chars = map chr ''ABCDEFGHIJKLMNOPQRSTUVWXYZabcdefghijklmnopqrstuvwxyz0123456789-_''"

definition kUnBase64 :: "int list" where
  "kUnBase64 = [
     -1, -1, -1, -1, -1, -1, -1, -1, -1, -1, -1, -1, -1, -1, -1, -1,
     -1, -1, -1, -1, -1, -1, -1, -1, -1, -1, -1, -1, -1, -1, -1, -1,
     -1, -1, -1, -1, -1, -1, -1, -1, -1, -1, -1, 62, -1, -1, -1, 63,
     52, 53, 54, 55, 56, 57, 58, 59, 60, 61, -1, -1, -1, -1, -1, -1,
     -1, 0, 1, 2, 3, 4, 5, 6, 7, 8, 9, 10, 11, 12, 13, 14,
     15, 16, 17, 18, 19, 20, 21, 22, 23, 24, 25, -1, -1, -1, -1, -1,
     -1, 26, 27, 28, 29, 30, 31, 32, 33, 34, 35, 36, 37, 38, 39, 40,
     41, 42, 43, 44, 45, 46, 47, 48, 49, 50, 51, -1, -1, -1, -1, -1,
     -1, -1, -1, -1, -1, -1, -1, -1, -1, -1, -1, -1, -1, -1, -1, -1,
     -1, -1, -1, -1, -1, -1, -1, -1, -1, -1, -1, -1, -1, -1, -1, -1,
     -1, -1, -1, -1, -1, -1, -1, -1, -1, -1, -1, -1, -1, -1, -1, -1,
     -1, -1, -1, -1, -1, -1, -1, -1, -1, -1, -1, -1, -1, -1, -1, -1,
     -1, -1, -1, -1, -1, -1, -1, -1, -1, -1, -1, -1, -1, -1, -1, -1,
     -1, -1, -1, -1, -1, -1, -1, -1, -1, -1, -1, -1, -1, -1, -1, -1,
     -1, -1, -1, -1, -1, -1, -1, -1, -1, -1, -1, -1, -1, -1, -1, -1,
     -1, -1, -1, -1, -1, -1, -1, -1, -1, -1, -1, -1, -1, -1, -1, -1]"

definition kUnWebSafeBase64 :: "int list" where
  "kUnWebSafeBase64 = [
     -1, -1, -1, -1, -1, -1, -1, -1, -1, -1, -1, -1, -1, -1, -1, -1,
     -1, -1, -1, -1, -1, -1, -1, -1, -1, -1, -1, -1, -1, -1, -1, -1,
     -1, -1, -1, -1, -1, -1, -1, -1, -1, -1, -1, -1, -1, 62, -1, -1,
     52, 53, 54, 55, 56, 57, 58, 59, 60, 61, -1, -1, -1, -1, -1, -1,
     -1, 0, 1, 2, 3, 4, 5, 6, 7, 8, 9, 10, 11, 12, 13, 14,
     15, 16, 17, 18, 19, 20, 21, 22, 23, 24, 25, -1, -1, -1, -1, 63,
     -1, 26, 27, 28, 29, 30, 31, 32, 33, 34, 35, 36, 37, 38, 39, 40,
     41, 42, 43, 44, 45, 46, 47, 48, 49, 50, 51, -1, -1, -1, -1, -1,
     -1, -1, -1, -1, -1, -1, -1, -1, -1, -1, -1, -1, -1, -1, -1, -1,
     -1, -1, -1, -1, -1, -1, -1, -1, -1, -1, -1, -1, -1, -1, -1, -1,
     -1, -1, -1, -1, -1, -1, -1, -1, -1, -1, -1, -1, -1, -1, -1, -1,
     -1, -1, -1, -1, -1, -1, -1, -1, -1, -1, -1, -1, -1, -1, -1, -1,
     -1, -1, -1, -1, -1, -1, -1, -1, -1, -1, -1, -1, -1, -1, -1, -1,
     -1, -1, -1, -1, -1, -1, -1, -1, -1, -1, -1, -1, -1, -1, -1, -1,
     -1, -1, -1, -1, -1, -1, -1, -1, -1, -1, -1, -1, -1, -1, -1, -1,
     -1, -1, -1, -1, -1, -1, -1, -1, -1, -1, -1, -1, -1, -1, -1, -1]"

section \<open>Encoding\<close>

text \<open>The length before and with the final assertion.\<close>

definition base64_len :: "nat \<Rightarrow> bool \<Rightarrow> nat" where
  "base64_len input_len do_padding =
     (let len = input_len div 3 * 4 in
      if input_len mod 3 = 0 then len
      else if input_len mod 3 = 1 then len + 2 + (if do_padding then 2 else 0)
      else len + 3 + (if do_padding then 1 else 0))"

definition CalculateBase64EscapedLenInternal :: "nat \<Rightarrow> bool \<Rightarrow> fault + nat" where
  "CalculateBase64EscapedLenInternal input_len do_padding =
     (let len = base64_len input_len do_padding
      in if len \<ge> input_len then Inr len else Inl Assertion)"

definition kPad64 :: byte where "kPad64 = chr (CHR ''='')"

definition Load16 :: "byte \<Rightarrow> byte \<Rightarrow> 32 word" where
  "Load16 a b = push_bit 8 (ucast a) OR ucast b"

definition Load32 :: "byte \<Rightarrow> byte \<Rightarrow> byte \<Rightarrow> byte \<Rightarrow> 32 word" where
  "Load32 a b c d = push_bit 24 (ucast a) OR push_bit 16 (ucast b) OR push_bit 8 (ucast c) OR ucast d"

text \<open>The four characters of 24 bits.\<close>

definition four_chars :: "byte list \<Rightarrow> 32 word \<Rightarrow> byte list" where
  "four_chars base64 inp =
     (let c0 = base64 ! unat (drop_bit 18 inp); inp = inp AND 0x3FFFF;
          c1 = base64 ! unat (drop_bit 12 inp); inp = inp AND 0xFFF;
          c2 = base64 ! unat (drop_bit 6 inp); inp = inp AND 0x3F;
          c3 = base64 ! unat inp
      in [c0, c1, c2, c3])"

text \<open>
  The loop over the chunks of three bytes, while more than three are left: the rest of the
  source, the position in the destination and the destination.
\<close>

fun escape_chunks :: "byte list \<Rightarrow> byte list \<Rightarrow> nat \<Rightarrow> byte list \<Rightarrow> byte list \<times> nat \<times> byte list" where
  "escape_chunks base64 (a # b # c # d # src) cur_dest dest =
     escape_chunks base64 (d # src) (cur_dest + 4)
       (write_at cur_dest (four_chars base64 (drop_bit 8 (Load32 a b c d))) dest)"
| "escape_chunks base64 src cur_dest dest = (src, cur_dest, dest)"

text \<open>The number of characters written, 0 when they do not fit, and the buffer.\<close>

definition Base64EscapeBuffer :: "byte list \<Rightarrow> byte list \<Rightarrow> byte list \<Rightarrow> bool \<Rightarrow> nat \<times> byte list" where
  "Base64EscapeBuffer src dest base64 do_padding =
     (if length src * 4 > length dest * 3 then (0, dest)
      else
        let (src, cur_dest, dest) = escape_chunks base64 src 0 dest;
            szdest = length dest - cur_dest
        in case src of
          [] \<Rightarrow> (cur_dest, dest)
        | [a] \<Rightarrow>
            if szdest < 2 then (0, dest)
            else let inp = ucast a :: 32 word;
                     c0 = base64 ! unat (drop_bit 2 inp);
                     inp = inp AND 0x3;
                     c1 = base64 ! unat (push_bit 4 inp);
                     dest = write_at cur_dest [c0, c1] dest
              in if do_padding then
                   (if szdest - 2 < 2 then (0, dest)
                    else (cur_dest + 4, write_at (cur_dest + 2) [kPad64, kPad64] dest))
                 else (cur_dest + 2, dest)
        | [a, b] \<Rightarrow>
            if szdest < 3 then (0, dest)
            else let inp = Load16 a b;
                     c0 = base64 ! unat (drop_bit 10 inp);
                     inp = inp AND 0x3FF;
                     c1 = base64 ! unat (drop_bit 4 inp);
                     inp = inp AND 0x00F;
                     c2 = base64 ! unat (push_bit 2 inp);
                     dest = write_at cur_dest [c0, c1, c2] dest
              in if do_padding then
                   (if szdest - 3 < 1 then (0, dest)
                    else (cur_dest + 4, write_at (cur_dest + 3) [kPad64] dest))
                 else (cur_dest + 3, dest)
        | a # b # c # _ \<Rightarrow>
            if szdest < 4 then (0, dest)
            else (cur_dest + 4, write_at cur_dest
              (four_chars base64 (push_bit 16 (ucast a) + Load16 b c)) dest))"

text \<open>The template over the string type; \<open>dest\<close> is the string that is overwritten.\<close>

definition Base64EscapeInternal :: "byte list \<Rightarrow> byte list \<Rightarrow> bool \<Rightarrow> byte list \<Rightarrow> fault + byte list" where
  "Base64EscapeInternal src dest do_padding base64_chars =
     (case CalculateBase64EscapedLenInternal (length src) do_padding of
        Inl e \<Rightarrow> Inl e
      | Inr calc_escaped_size \<Rightarrow>
          (case Base64EscapeBuffer src (resize calc_escaped_size dest) base64_chars do_padding of
             (escaped_len, dest) \<Rightarrow>
               if calc_escaped_size = escaped_len then Inr (take escaped_len dest) else Inl Assertion))"

definition Base64Escape :: "byte list \<Rightarrow> byte list \<Rightarrow> fault + byte list" where
  "Base64Escape src dest = Base64EscapeInternal src dest True kBase64Chars"

definition WebSafeBase64Escape :: "byte list \<Rightarrow> byte list \<Rightarrow> fault + byte list" where
  "WebSafeBase64Escape src dest = Base64EscapeInternal src dest False kWebSafeBase64Chars"

section \<open>Decoding\<close>

text \<open>The local variables of the decoder, besides the rest of the source.\<close>

record decoder =
  dec_destidx :: nat
  dec_decode :: int
  dec_state :: nat
  dec_ch :: byte
  dec_temp :: "32 word"
  dec_dest :: "byte list"

definition is_pad :: "byte \<Rightarrow> bool" where
  "is_pad c \<longleftrightarrow> c = chr (CHR ''='') \<or> c = chr (CHR ''.'')"

text \<open>
  The macro \<open>GET_INPUT\<close>: the rest of the source, the variables, and whether it leaves the
  loop. Reading behind the end of the source is a fault.
\<close>

fun GET_INPUT :: "int list \<Rightarrow> nat \<Rightarrow> byte list \<Rightarrow> decoder \<Rightarrow> fault + byte list \<times> decoder \<times> bool" where
  "GET_INPUT unbase64 remain [] s = Inl Buffer_overrun"
| "GET_INPUT unbase64 remain (ch # src) s =
     (let decode = unbase64 ! unat ch; s = s\<lparr>dec_ch := ch, dec_decode := decode\<rparr> in
      if decode < 0 then
        (if ascii_isspace ch \<and> length src \<ge> remain then GET_INPUT unbase64 remain src s
         else Inr (src, s\<lparr>dec_state := 4 - remain\<rparr>, True))
      else Inr (src, s, False))"

definition next_input ::
    "(fault + byte list \<times> decoder \<times> bool) \<Rightarrow> (byte list \<Rightarrow> decoder \<Rightarrow> fault + byte list \<times> decoder \<times> bool) \<Rightarrow>
     fault + byte list \<times> decoder \<times> bool" where
  "next_input m f = (case m of
     Inl e \<Rightarrow> Inl e
   | Inr (src, s, left) \<Rightarrow> if left then Inr (src, s, True) else f src s)"

definition shift_in :: "decoder \<Rightarrow> decoder" where
  "shift_in s = s\<lparr>dec_temp := push_bit 6 (dec_temp s) OR word_of_int (dec_decode s)\<rparr>"

definition quick_temp :: "int list \<Rightarrow> byte list \<Rightarrow> 32 word" where
  "quick_temp unbase64 src =
     push_bit 18 (word_of_int (unbase64 ! unat (src ! 0))) OR
     push_bit 12 (word_of_int (unbase64 ! unat (src ! 1))) OR
     push_bit 6 (word_of_int (unbase64 ! unat (src ! 2))) OR
     word_of_int (unbase64 ! unat (src ! 3))"

text \<open>Four data bytes: at once if the next four bytes are data, one by one otherwise.\<close>

definition get_quad :: "int list \<Rightarrow> byte list \<Rightarrow> decoder \<Rightarrow> fault + byte list \<times> decoder \<times> bool" where
  "get_quad unbase64 src s =
     (let nulls = src ! 0 = 0 \<or> src ! 1 = 0 \<or> src ! 2 = 0;
          s = (if nulls then s else s\<lparr>dec_temp := quick_temp unbase64 src\<rparr>)
      in if nulls \<or> dec_temp s AND 0x80000000 \<noteq> 0 then
           next_input (GET_INPUT unbase64 4 src s) (\<lambda>src s.
           next_input (GET_INPUT unbase64 3 src (s\<lparr>dec_temp := word_of_int (dec_decode s)\<rparr>)) (\<lambda>src s.
           next_input (GET_INPUT unbase64 2 src (shift_in s)) (\<lambda>src s.
           next_input (GET_INPUT unbase64 1 src (shift_in s)) (\<lambda>src s.
             Inr (src, shift_in s, False)))))
         else Inr (drop 4 src, s, False))"

text \<open>24 bits are written out as three bytes, the last one first.\<close>

definition put_three :: "decoder \<Rightarrow> decoder" where
  "put_three s =
     (let i = dec_destidx s; temp = dec_temp s;
          dest = (dec_dest s)[i + 2 := ucast temp];
          temp = drop_bit 8 temp;
          dest = dest[i + 1 := ucast temp];
          temp = drop_bit 8 temp;
          dest = dest[i := ucast temp]
      in s\<lparr>dec_temp := temp, dec_dest := dest, dec_destidx := i + 3\<rparr>)"

lemma GET_INPUT_shorter: "GET_INPUT u n src s = Inr (src', s', b) \<Longrightarrow> length src' < length src"
  by (induction u n src s rule: GET_INPUT.induct) (fastforce simp: Let_def split: if_splits)+

lemma get_quad_shorter:
  assumes "get_quad u src s = Inr (src', s', b)" and "src \<noteq> []"
  shows "length src' < length src"
  using assms
  by (auto simp: get_quad_def next_input_def Let_def split: if_splits sum.splits
      dest!: GET_INPUT_shorter)

text \<open>
  The first loop. Its result is \<open>None\<close> where the code returns false for lack of space.
\<close>

function quad_loop ::
    "int list \<Rightarrow> nat \<Rightarrow> byte list \<Rightarrow> decoder \<Rightarrow> fault + (byte list \<times> decoder) option" where
  "quad_loop unbase64 szdest src s =
     (if length src \<ge> 4 then
        (case get_quad unbase64 src s of
           Inl e \<Rightarrow> Inl e
         | Inr (src, s, left) \<Rightarrow>
             if left then Inr (Some (src, s))
             else if dec_destidx s + 3 > szdest then Inr None
             else quad_loop unbase64 szdest src (put_three s))
      else Inr (Some (src, s)))"
  by pat_completeness auto
termination
  by (relation "measure (\<lambda>(u, n, src, s). length src)") (fastforce dest!: get_quad_shorter)+

declare quad_loop.simps [simp del]

text \<open>The loop over the bytes that the first one left over.\<close>

fun rest_loop :: "int list \<Rightarrow> nat \<Rightarrow> byte list \<Rightarrow> decoder \<Rightarrow> (byte list \<times> decoder) option" where
  "rest_loop unbase64 szdest [] s = Some ([], s)"
| "rest_loop unbase64 szdest (ch # src) s =
     (let decode = unbase64 ! unat ch; s = s\<lparr>dec_ch := ch, dec_decode := decode\<rparr> in
      if decode < 0 then
        (if ascii_isspace ch then rest_loop unbase64 szdest src s
         else if is_pad ch then Some (ch # src, s)
         else None)
      else
        let s = (shift_in s)\<lparr>dec_state := dec_state s + 1\<rparr> in
        if dec_state s = 4 then
          (if dec_destidx s + 3 > szdest then None
           else rest_loop unbase64 szdest src ((put_three s)\<lparr>dec_state := 0, dec_temp := 0\<rparr>))
        else rest_loop unbase64 szdest src s)"

text \<open>
  What is left over in \<open>temp\<close>: the variables with the number of pad characters that may
  follow. Other states end in a fatal log message.
\<close>

definition leftover :: "nat \<Rightarrow> decoder \<Rightarrow> fault + (decoder \<times> nat) option" where
  "leftover szdest s =
     (if dec_state s = 0 then Inr (Some (s, 0))
      else if dec_state s = 1 then Inr None
      else if dec_state s = 2 then
        (if dec_destidx s + 1 > szdest then Inr None
         else let temp = drop_bit 4 (dec_temp s)
           in Inr (Some (s\<lparr>dec_temp := temp, dec_dest := (dec_dest s)[dec_destidx s := ucast temp],
                dec_destidx := dec_destidx s + 1\<rparr>, 2)))
      else if dec_state s = 3 then
        (if dec_destidx s + 2 > szdest then Inr None
         else let temp = drop_bit 2 (dec_temp s);
                  dest = (dec_dest s)[dec_destidx s + 1 := ucast temp];
                  temp = drop_bit 8 temp;
                  dest = dest[dec_destidx s := ucast temp]
           in Inr (Some (s\<lparr>dec_temp := temp, dec_dest := dest, dec_destidx := dec_destidx s + 2\<rparr>, 1)))
      else Inl Assertion)"

fun count_pads :: "byte list \<Rightarrow> nat \<Rightarrow> nat option" where
  "count_pads [] equals = Some equals"
| "count_pads (c # src) equals =
     (if is_pad c then count_pads src (equals + 1)
      else if \<not> ascii_isspace c then None
      else count_pads src equals)"

text \<open>The decoder on a buffer: \<open>None\<close> is false, otherwise the length and the buffer.\<close>

definition Base64UnescapeBuffer ::
    "byte list \<Rightarrow> byte list \<Rightarrow> int list \<Rightarrow> fault + (nat \<times> byte list) option" where
  "Base64UnescapeBuffer src dest unbase64 =
     (let szdest = length dest;
          s = \<lparr>dec_destidx = 0, dec_decode = 0, dec_state = 0, dec_ch = 0, dec_temp = 0, dec_dest = dest\<rparr>
      in case quad_loop unbase64 szdest src s of
        Inl e \<Rightarrow> Inl e
      | Inr None \<Rightarrow> Inr None
      | Inr (Some (src, s)) \<Rightarrow>
          if dec_decode s < 0 \<and> \<not> is_pad (dec_ch s) \<and> \<not> ascii_isspace (dec_ch s) then Inr None
          else case (if is_pad (dec_ch s) then Some (dec_ch s # src, s) else rest_loop unbase64 szdest src s) of
            None \<Rightarrow> Inr None
          | Some (src, s) \<Rightarrow>
              (case leftover szdest s of
                 Inl e \<Rightarrow> Inl e
               | Inr None \<Rightarrow> Inr None
               | Inr (Some (s, expected_equals)) \<Rightarrow>
                   (case count_pads src 0 of
                      None \<Rightarrow> Inr None
                    | Some equals \<Rightarrow>
                        Inr (if equals = 0 \<or> equals = expected_equals
                             then Some (dec_destidx s, dec_dest s) else None))))"

text \<open>The template over the string type: the result and the string, empty on failure.\<close>

definition Base64UnescapeInternal ::
    "byte list \<Rightarrow> byte list \<Rightarrow> int list \<Rightarrow> fault + bool \<times> byte list" where
  "Base64UnescapeInternal src dest unbase64 =
     (let slen = length src; dest_len = 3 * (slen div 4) + slen mod 4 in
      case Base64UnescapeBuffer src (resize dest_len dest) unbase64 of
        Inl e \<Rightarrow> Inl e
      | Inr None \<Rightarrow> Inr (False, [])
      | Inr (Some (len, dest)) \<Rightarrow>
          if len \<le> dest_len then Inr (True, take len dest) else Inl Assertion)"

definition Base64Unescape :: "byte list \<Rightarrow> byte list \<Rightarrow> fault + bool \<times> byte list" where
  "Base64Unescape src dest = Base64UnescapeInternal src dest kUnBase64"

definition WebSafeBase64Unescape :: "byte list \<Rightarrow> byte list \<Rightarrow> fault + bool \<times> byte list" where
  "WebSafeBase64Unescape src dest = Base64UnescapeInternal src dest kUnWebSafeBase64"

end
