(* ===== verification/C_Escape_Results.thy ===== *)
theory C_Escape_Results
  imports C_Escape
begin

text \<open>
  What holds of C-style escaping: every variant of the escaper is undone by the unescaper,
  the optimised escaper computes what the simple one does, the unescaper never writes more
  than it has read, and hexadecimal strings are read back.
\<close>

section \<open>Digits\<close>

lemma less_16_cases:
  "(n::nat) < 16 \<Longrightarrow> n \<in> {0, 1, 2, 3, 4, 5, 6, 7, 8, 9, 10, 11, 12, 13, 14, 15}"
  by (simp, arith)

lemma kHexChar_value: "n < 16 \<Longrightarrow> hex_digit_to_int (kHexChar ! n) = of_nat n"
  by (drule less_16_cases) (auto simp: kHexChar_def hex_digit_to_int_def)

lemma kHexChar_xdigit: "n < 16 \<Longrightarrow> ascii_isxdigit (kHexChar ! n)"
  by (drule less_16_cases) (auto simp: kHexChar_def ascii_isxdigit_iff)

lemma kHexChar_octal: "n < 8 \<Longrightarrow> kHexChar ! n = 48 + of_nat n"
  by (frule less_16_cases [OF less_trans]) (auto simp: kHexChar_def)

lemma unat_octal: "n < 8 \<Longrightarrow> unat (48 + of_nat n :: byte) = 48 + n"
  by (simp add: unat_word_ariths unat_of_nat_byte)

lemma octal_is_octal: "n < 8 \<Longrightarrow> is_octal_digit (48 + of_nat n)"
  by (simp add: is_octal_digit_def word_le_nat_alt unat_octal)

lemma ucast_octal: "n < 8 \<Longrightarrow> (ucast (48 + of_nat n :: byte) :: 32 word) = 48 + of_nat n"
  by (simp add: word_unat_eq_iff unsigned_ucast_eq unat_octal unat_word_ariths take_bit_nat_eq_self
      unsigned_of_nat)

lemma of_nat_unat_byte: "(of_nat (unat c) :: 32 word) = ucast (c :: byte)"
  by (simp add: word_unat_eq_iff unsigned_ucast_eq unsigned_of_nat)

lemma unat_byte_le: "unat (c :: byte) \<le> 255"
  using unat_byte_less [of c] by linarith

lemma unat_ucast_byte: "unat (ucast (c :: byte) :: 32 word) = unat c"
proof -
  have "unat c < 2 ^ 32" by (rule le_less_trans [OF unat_byte_le]) simp
  then show ?thesis by (simp add: unsigned_ucast_eq take_bit_nat_eq_self)
qed

lemma ucast_byte_le: "(ucast (c :: byte) :: 32 word) \<le> 0xff"
  using unat_byte_le [of c] by (simp add: word_le_nat_alt unat_ucast_byte)

lemma unat_ucast_to_byte: "unat (ucast (t :: 32 word) :: byte) = unat t mod 256"
  by (simp add: unsigned_ucast_eq take_bit_eq_mod)

lemma ucast_ucast_byte: "(ucast (ucast (c :: byte) :: 32 word) :: byte) = c"
  by (simp add: word_eq_unat unsigned_ucast_eq [where 'b = 32 and 'c = 8] unat_ucast_byte
      take_bit_nat_eq_self)

lemma byte_div_less:
  "unat (c :: byte) div 16 < 16" "unat c div 64 < 8" "unat c mod 64 div 8 < 8"
  by (rule less_mult_imp_div_less, use unat_byte_le [of c] in simp)+

lemma byte_octal_digits: "unat (c :: byte) div 64 * 64 + unat c mod 64 div 8 * 8 + unat c mod 8 = unat c"
proof -
  have "unat c mod 64 div 8 * 8 + unat c mod 64 mod 8 = unat c mod 64" by (rule div_mult_mod_eq)
  moreover have "unat c mod 64 mod 8 = unat c mod 8" by (simp add: mod_mod_cancel)
  moreover have "unat c div 64 * 64 + unat c mod 64 = unat c" by (rule div_mult_mod_eq)
  ultimately show ?thesis by linarith
qed

lemma hex_pair: "push_bit 4 (of_nat (unat (c :: byte) div 16)) + of_nat (unat c mod 16) = (ucast c :: 32 word)"
proof -
  have "push_bit 4 (of_nat (unat c div 16)) + of_nat (unat c mod 16) =
      (of_nat (unat c div 16 * 16 + unat c mod 16) :: 32 word)"
    unfolding of_nat_add of_nat_mult push_bit_eq_mult by simp
  then show ?thesis by (simp only: div_mult_mod_eq of_nat_unat_byte)
qed

section \<open>One character and back\<close>

text \<open>What the escaper appends for one character, and whether it is a hexadecimal sequence.\<close>

definition escaped :: "bool \<Rightarrow> bool \<Rightarrow> bool \<Rightarrow> byte \<Rightarrow> byte list \<times> bool" where
  "escaped use_hex utf8_safe last_hex c =
     (if c = 10 then ([backslash, chr (CHR ''n'')], False)
      else if c = 13 then ([backslash, chr (CHR ''r'')], False)
      else if c = 9 then ([backslash, chr (CHR ''t'')], False)
      else if c \<in> {0x22, 0x27, backslash} then ([backslash, c], False)
      else if (\<not> utf8_safe \<or> c < 0x80) \<and> (\<not> ascii_isprint c \<or> last_hex \<and> ascii_isxdigit c) then
        (if use_hex then ([backslash, chr (CHR ''x''), kHexChar ! (unat c div 16), kHexChar ! (unat c mod 16)], True)
         else ([backslash, kHexChar ! (unat c div 64), kHexChar ! (unat c mod 64 div 8), kHexChar ! (unat c mod 8)], False))
      else ([c], False))"

lemma CEscape_loop_Cons:
  "CEscape_loop use_hex utf8_safe last_hex dest (c # src) =
     CEscape_loop use_hex utf8_safe (snd (escaped use_hex utf8_safe last_hex c))
       (dest @ fst (escaped use_hex utf8_safe last_hex c)) src"
  by (auto simp: escaped_def)

declare CEscape_loop.simps(2) [simp del]

lemma CEscape_loop_dest:
  "CEscape_loop use_hex utf8_safe last_hex dest src = dest @ CEscape_loop use_hex utf8_safe last_hex [] src"
proof (induction src arbitrary: last_hex dest)
  case (Cons c src)
  show ?case
    unfolding CEscape_loop_Cons by (subst (1 2) Cons.IH) simp
qed simp

lemma CEscape_loop_append:
  "CEscape_loop use_hex utf8_safe last_hex [] (c # src) =
     fst (escaped use_hex utf8_safe last_hex c) @
     CEscape_loop use_hex utf8_safe (snd (escaped use_hex utf8_safe last_hex c)) [] src"
  unfolding CEscape_loop_Cons by (subst CEscape_loop_dest) simp

lemma hex_escape_back:
  assumes "R = [] \<or> \<not> ascii_isxdigit (hd R)"
  shows "escape_sequence False
      (chr (CHR ''x'') # kHexChar ! (unat c div 16) # kHexChar ! (unat c mod 16) # R) =
    Inr ([c], kHexChar ! (unat c mod 16) # R)"
proof -
  have lt: "unat c div 16 < 16" "unat c mod 16 < 16" using byte_div_less [of c] by auto
  have "hex_digits ch (p # R) = (ch, p # R)" for ch p using assms by (cases R) auto
  then show ?thesis
    using lt ucast_byte_le [of c]
    by (simp add: escape_sequence_def simple_escape_def is_octal_digit_def hex_escape_def
        kHexChar_xdigit kHexChar_value hex_pair ucast_ucast_byte not_less)
qed

lemma octal_escape_back:
  "escape_sequence False
      (kHexChar ! (unat c div 64) # kHexChar ! (unat c mod 64 div 8) # kHexChar ! (unat c mod 8) # R) =
    Inr ([c], kHexChar ! (unat c mod 8) # R)"
proof -
  let ?a = "unat c div 64" and ?b = "unat c mod 64 div 8" and ?c = "unat c mod 8"
  have lt: "?a < 8" "?b < 8" "?c < 8" using byte_div_less [of c] by auto
  have chars: "kHexChar ! ?a = 48 + of_nat ?a" "kHexChar ! ?b = 48 + of_nat ?b" "kHexChar ! ?c = 48 + of_nat ?c"
    using lt by (simp_all add: kHexChar_octal)
  have not_simple: "simple_escape (48 + of_nat ?a) = None"
    using unat_octal [OF lt(1)] lt(1) by (auto simp: simple_escape_def word_eq_unat)
  have "of_nat ?a * 64 + of_nat ?b * 8 + of_nat ?c = (of_nat (?a * 64 + ?b * 8 + ?c) :: 32 word)"
    by simp
  then have "of_nat ?a * 64 + of_nat ?b * 8 + of_nat ?c = (ucast c :: 32 word)"
    by (simp only: byte_octal_digits of_nat_unat_byte)
  then show ?thesis
    using lt ucast_byte_le [of c] ucast_ucast_byte [of c]
    by (simp add: escape_sequence_def not_simple chars octal_is_octal octal_escape_def ucast_octal
        algebra_simps not_less)
qed

text \<open>After a hexadecimal sequence no digit follows that the sequence would take in.\<close>

lemma CEscape_after_hex:
  "CEscape_loop True utf8_safe True [] src = [] \<or>
   \<not> ascii_isxdigit (hd (CEscape_loop True utf8_safe True [] src))"
proof (cases src)
  case (Cons c cs)
  have "ascii_isxdigit c \<Longrightarrow> c < 0x80" by (simp add: ascii_isxdigit_iff word_less_nat_alt) arith
  then have "\<not> ascii_isxdigit (hd (fst (escaped True utf8_safe True c)))"
    by (auto simp: escaped_def ascii_isxdigit_iff)
  moreover have "fst (escaped True utf8_safe True c) \<noteq> []" by (simp add: escaped_def)
  ultimately show ?thesis by (simp add: Cons CEscape_loop_append hd_append)
qed simp

lemma CUnescape_loop_backslash:
  "escape_sequence leave p = Inr (bs, p') \<Longrightarrow> p \<noteq> [] \<Longrightarrow>
    CUnescape_loop leave d (backslash # p) = CUnescape_loop leave (d @ bs) (tl p')"
  by simp

lemma unescape_escaped:
  assumes "snd (escaped use_hex utf8_safe last_hex c) \<Longrightarrow> R = [] \<or> \<not> ascii_isxdigit (hd R)"
  shows "CUnescape_loop False d (fst (escaped use_hex utf8_safe last_hex c) @ R) =
    CUnescape_loop False (d @ [c]) R"
proof -
  have "c \<noteq> backslash \<Longrightarrow> CUnescape_loop False d (c # R) = CUnescape_loop False (d @ [c]) R" by simp
  moreover have "CUnescape_loop False d (backslash # e # R) = CUnescape_loop False (d @ [c]) R"
    if "simple_escape e = Some c" for e
    using that by (subst CUnescape_loop_backslash) (auto simp: escape_sequence_def)
  moreover have "simple_escape (chr (CHR ''n'')) = Some 10" "simple_escape (chr (CHR ''r'')) = Some 13"
    "simple_escape (chr (CHR ''t'')) = Some 9" "simple_escape 0x22 = Some 0x22"
    "simple_escape 0x27 = Some 0x27" "simple_escape backslash = Some backslash"
    by (simp_all add: simple_escape_def)
  moreover have "CUnescape_loop False d (backslash # chr (CHR ''x'') # kHexChar ! (unat c div 16) #
      kHexChar ! (unat c mod 16) # R) = CUnescape_loop False (d @ [c]) R"
    if "R = [] \<or> \<not> ascii_isxdigit (hd R)"
    by (subst CUnescape_loop_backslash [OF hex_escape_back [OF that]]) simp_all
  moreover have "CUnescape_loop False d (backslash # kHexChar ! (unat c div 64) #
      kHexChar ! (unat c mod 64 div 8) # kHexChar ! (unat c mod 8) # R) = CUnescape_loop False (d @ [c]) R"
    by (subst CUnescape_loop_backslash [OF octal_escape_back]) simp_all
  ultimately show ?thesis
    using assms unfolding escaped_def
    by (simp del: CUnescape_loop.simps split: if_split)
qed

lemma escaped_not_hex [simp]: "\<not> snd (escaped False utf8_safe last_hex c)"
  by (simp add: escaped_def)

lemma CUnescape_CEscape_loop:
  "CUnescape_loop False d (CEscape_loop use_hex utf8_safe last_hex [] src) = Inr (d @ src)"
proof (induction src arbitrary: d last_hex)
  case (Cons c src)
  have "snd (escaped use_hex utf8_safe last_hex c) \<Longrightarrow> use_hex" by (cases use_hex) simp_all
  then have "CUnescape_loop False d (CEscape_loop use_hex utf8_safe last_hex [] (c # src)) =
      CUnescape_loop False (d @ [c]) (CEscape_loop use_hex utf8_safe
        (snd (escaped use_hex utf8_safe last_hex c)) [] src)"
    unfolding CEscape_loop_append
    by (intro unescape_escaped) (use CEscape_after_hex in auto)
  then show ?case by (simp add: Cons.IH)
qed simp

section \<open>The optimised escaper\<close>

lemma c_escaped_len_eq:
  "c_escaped_len = map (\<lambda>n. if n \<in> {9, 10, 13, 34, 39, 92} then 2
     else if 32 \<le> n \<and> n < 127 then 1 else 4) [0..<256]"
  by (simp add: c_escaped_len_def upt_conv_Cons)

lemma byte_table_nth: "map f [0..<256] ! unat (c :: byte) = f (unat c)"
  by simp

lemma c_escaped_len_nth:
  "c_escaped_len ! unat (c :: byte) = (if unat c \<in> {9, 10, 13, 34, 39, 92} then 2
     else if 32 \<le> unat c \<and> unat c < 127 then 1 else 4)"
  unfolding c_escaped_len_eq by (rule byte_table_nth)

lemma ascii_isprint_iff: "ascii_isprint c \<longleftrightarrow> 32 \<le> unat c \<and> unat c < 127"
  by (simp add: ascii_ranges)

lemma escaped_length: "length (fst (escaped False False False c)) = c_escaped_len ! unat c"
  by (auto simp: escaped_def c_escaped_len_nth ascii_isprint_iff word_eq_unat)

lemma unat_numeral_byte: "unat (64 :: byte) = 64" "unat (8 :: byte) = 8"
  by simp_all

lemma word_of_nat_unat_byte: "of_nat (unat (c :: byte)) = c"
  by simp

lemma append_escaped_eq: "append_escaped c = append_ptr_bytes (fst (escaped False False False c))"
proof -
  have "of_nat (unat c div 64) = c div 64" "of_nat (unat c mod 64 div 8) = c mod 64 div 8"
    "of_nat (unat c mod 8) = c mod 8"
    by (metis unat_div unat_mod unat_numeral_byte word_of_nat_unat_byte)+
  then have "kHexChar ! (unat c div 64) = 48 + c div 64" "kHexChar ! (unat c mod 64 div 8) = 48 + c mod 64 div 8"
    "kHexChar ! (unat c mod 8) = 48 + c mod 8"
    using byte_div_less [of c] by (simp_all add: kHexChar_octal)
  then have hex: "[backslash, 48 + c div 64, 48 + c mod 64 div 8, 48 + c mod 8] =
      [backslash, kHexChar ! (unat c div 64), kHexChar ! (unat c mod 64 div 8), kHexChar ! (unat c mod 8)]"
    by simp
  show ?thesis
  proof (cases "c \<in> {10, 13, 9, 0x22, 0x27, backslash}")
    case True
    then have len: "c_escaped_len ! unat c = 2" by (auto simp: c_escaped_len_nth)
    show ?thesis
      using True unfolding append_escaped_def len by (elim insertE emptyE) (simp_all add: escaped_def)
  next
    case False
    then have "unat c \<notin> {9, 10, 13, 34, 39, 92}" by (simp add: word_eq_unat)
    with False show ?thesis
      unfolding append_escaped_def hex escaped_def c_escaped_len_nth by (simp add: ascii_isprint_iff)
  qed
qed

lemma CEscapedLength_eq: "CEscapedLength src = length (CEscapeInternal src False False)"
proof -
  have "foldl (\<lambda>n c. n + c_escaped_len ! unat c) k src =
      k + length (CEscape_loop False False False [] src)" for k
  proof (induction src arbitrary: k)
    case (Cons c src)
    show ?case unfolding foldl_Cons Cons.IH CEscape_loop_append by (simp add: escaped_length)
  qed simp
  then show ?thesis by (simp add: CEscapedLength_def CEscapeInternal_def)
qed

lemma append_escaped_run:
  assumes "n = length (CEscape_loop False False False [] src)"
  shows "foldl (\<lambda>s c. append_escaped c s) (length dest, dest @ replicate n 0) src =
    (length dest + n, dest @ CEscape_loop False False False [] src)"
  using assms
proof (induction src arbitrary: dest n)
  case (Cons c src)
  let ?e = "fst (escaped False False False c)" and ?R = "CEscape_loop False False False [] src"
  have n: "n = length ?e + length ?R" using Cons.prems by (simp add: CEscape_loop_append)
  then have "append_escaped c (length dest, dest @ replicate n 0) =
      (length (dest @ ?e), (dest @ ?e) @ replicate (length ?R) 0)"
    by (simp add: append_escaped_eq append_ptr_bytes_def write_at_def replicate_add)
  then show ?case using Cons.IH [OF refl, of "dest @ ?e"] n by (simp add: CEscape_loop_append)
qed simp

text \<open>If the escaped string is no longer than the source, no character was escaped.\<close>

lemma CEscape_loop_longer:
  "length src \<le> length (CEscape_loop False False False [] src) \<and>
   (length (CEscape_loop False False False [] src) = length src \<longrightarrow>
      CEscape_loop False False False [] src = src)"
proof (induction src)
  case (Cons c src)
  have "fst (escaped False False False c) = [c] \<or> 2 \<le> length (fst (escaped False False False c))"
    by (simp add: escaped_def)
  then show ?case using Cons.IH by (auto simp: CEscape_loop_append)
qed simp

lemma CEscapeAndAppend_eq: "CEscapeAndAppendInternal src dest = dest @ CEscapeInternal src False False"
  using append_escaped_run [OF refl, of dest src] CEscape_loop_longer [of src]
  by (auto simp: CEscapeAndAppendInternal_def CEscapedLength_eq CEscapeInternal_def resize_def Let_def)

text \<open>
  Claim C24. The optimised escaper, which adds up a table of lengths, resizes the string once
  and writes through a pointer, appends exactly what the character-by-character escaper
  returns; \<open>CEscapedLength\<close> is the length of that.
\<close>

theorem CEscapeAndAppend_correct:
  "CEscapeAndAppendInternal src dest = dest @ CEscapeInternal src False False \<and>
   CEscapedLength src = length (CEscapeInternal src False False)"
  by (simp add: CEscapeAndAppend_eq CEscapedLength_eq)

text \<open>
  Claim C23. Every variant of the escaper is undone by \<open>CUnescape\<close>: octal or hexadecimal,
  with or without keeping UTF-8 bytes, for every string of bytes.
\<close>

theorem CUnescape_CEscape:
  "CUnescape (CEscapeInternal src use_hex utf8_safe) = Inr src \<and>
   CUnescape (CEscapeAndAppendInternal src []) = Inr src \<and>
   CUnescape (CEscape src) = Inr src \<and> CUnescape (CHexEscape src) = Inr src \<and>
   CUnescape (Utf8SafeCEscape src) = Inr src \<and> CUnescape (Utf8SafeCHexEscape src) = Inr src"
  by (simp add: CEscapeAndAppend_eq CUnescape_def CUnescapeInternal_def CEscapeInternal_def CEscape_def
      CHexEscape_def Utf8SafeCEscape_def Utf8SafeCHexEscape_def CUnescape_CEscape_loop)

section \<open>The unescaper stays in its buffer\<close>

lemma EncodeUTF8Char_length: "1 \<le> length (EncodeUTF8Char c) \<and> length (EncodeUTF8Char c) \<le> 4"
  by (simp add: EncodeUTF8Char_def Let_def)

lemma octal_digit_nonempty: "snd s \<noteq> [] \<Longrightarrow> snd (octal_digit s) \<noteq> []"
  by (induction s rule: octal_digit.induct) auto

lemma hex_digits_nonempty: "p \<noteq> [] \<Longrightarrow> snd (hex_digits ch p) \<noteq> []"
  by (induction ch p rule: hex_digits.induct) auto

lemma u_digits_moves: "u_digits i start rune p = Inr (rune', p') \<Longrightarrow> length p' = length p - i"
  by (induction i start rune p rule: u_digits.induct) (fastforce split: if_splits)+

lemma U_digits_moves: "U_digits i start rune p = Inr (rune', p') \<Longrightarrow> length p' = length p - i"
  by (induction i start rune p rule: U_digits.induct) (fastforce simp: Let_def split: if_splits)+

lemma copied_length:
  "p' \<noteq> [] \<Longrightarrow> length p' \<le> length p \<Longrightarrow> length (backslash # upto_ptr p p') + length (tl p') \<le> 1 + length p"
  by (cases p') (simp_all add: upto_ptr_def)

lemma octal_escape_writes:
  assumes "octal_escape leave p = Inr (bs, p')" and "p \<noteq> []"
  shows "length bs + length (tl p') \<le> 1 + length p"
proof -
  obtain ch q where q: "octal_digit (octal_digit (ucast (hd p) - 48, p)) = (ch, q)" by fastforce
  then have "length q \<le> length p" "q \<noteq> []"
    using octal_digit_length [of "octal_digit (ucast (hd p) - 48, p)"]
      octal_digit_length [of "(ucast (hd p) - 48, p)"] assms(2)
      octal_digit_nonempty [of "octal_digit (ucast (hd p) - 48, p)"]
      octal_digit_nonempty [of "(ucast (hd p) - 48, p)"] by auto
  then show ?thesis
    using assms(1) q copied_length [of q p] by (cases q) (auto simp: octal_escape_def split: if_splits)
qed

lemma hex_escape_writes:
  assumes "hex_escape leave p = Inr (bs, p')" and "p \<noteq> []"
  shows "length bs + length (tl p') \<le> 1 + length p"
proof -
  obtain ch q where q: "hex_digits 0 p = (ch, q)" by fastforce
  then have "length q \<le> length p" "q \<noteq> []"
    using hex_digits_length [of 0 p] hex_digits_nonempty [OF assms(2), of 0] by auto
  then show ?thesis
    using assms(1) q copied_length [of q p]
    by (cases q) (auto simp: hex_escape_def split: if_splits list.splits)
qed

lemma u_escape_writes:
  assumes "u_escape leave p = Inr (bs, p')"
  shows "length bs + length (tl p') \<le> 1 + length p"
proof -
  obtain rune where p: "4 < length p" and "u_digits 4 p 0 p = Inr (rune, p')"
    and bs: "bs = backslash # take 5 p \<or> bs = EncodeUTF8Char rune"
    using assms by (auto simp: u_escape_def split: if_splits sum.splits)
  then have "length p' = length p - 4" by (blast dest: u_digits_moves)
  with p bs show ?thesis using EncodeUTF8Char_length [of rune] by (elim disjE, simp, simp, arith)
qed

lemma U_escape_writes:
  assumes "U_escape leave p = Inr (bs, p')"
  shows "length bs + length (tl p') \<le> 1 + length p"
proof -
  obtain rune where p: "8 < length p" and "U_digits 8 p 0 p = Inr (rune, p')"
    and bs: "bs = backslash # take 9 p \<or> bs = EncodeUTF8Char rune"
    using assms by (auto simp: U_escape_def split: if_splits sum.splits)
  then have "length p' = length p - 8" by (blast dest: U_digits_moves)
  with p bs show ?thesis using EncodeUTF8Char_length [of rune] by (elim disjE, simp, simp, arith)
qed

lemma escape_sequence_writes:
  assumes "escape_sequence leave p = Inr (bs, p')" and "p \<noteq> []"
  shows "length bs + length (tl p') \<le> 1 + length p"
  using assms octal_escape_writes [of leave p bs p'] hex_escape_writes [of leave p bs p']
    u_escape_writes [of leave p bs p'] U_escape_writes [of leave p bs p']
  by (auto simp: escape_sequence_def split: if_splits option.splits)

lemma CUnescape_loop_length:
  "CUnescape_loop leave d p = Inr out \<Longrightarrow> length out \<le> length d + length p"
proof (induction leave d p rule: CUnescape_loop.induct)
  case (2 leave d c p)
  show ?case
  proof (cases "c = backslash")
    case True
    with "2.prems" obtain bs p' where "p \<noteq> []" and seq: "escape_sequence leave p = Inr (bs, p')"
      and rest: "CUnescape_loop leave (d @ bs) (tl p') = Inr out"
      by (auto split: if_splits sum.splits)
    then show ?thesis
      using "2.IH"(2) [of "(bs, p')"] escape_sequence_writes [OF seq] True by fastforce
  next
    case False
    then show ?thesis using "2.IH"(1) "2.prems" by simp
  qed
qed simp

text \<open>
  The unescaper writes at most as many bytes as the source has, in both modes,
  so the buffer of the size of the source that its callers provide is large enough.
\<close>

theorem CUnescapeInternal_fits:
  assumes "CUnescapeInternal source leave_nulls_escaped = Inr dest"
  shows "length dest \<le> length source"
  using CUnescape_loop_length [of leave_nulls_escaped "[]" source dest] assms
  by (simp add: CUnescapeInternal_def)

theorem CUnescapeInternal_fits_witness:
  "CUnescapeInternal (map chr ''A'' @ [backslash, 48, backslash, 110]) True = Inr [65, backslash, 48, 10] \<and>
   length [65, backslash, 48, 10 :: byte] \<le> length (map chr ''A'' @ [backslash, 48, backslash, 110])"
proof -
  have "CUnescapeInternal (map chr ''A'' @ [backslash, 48, backslash, 110]) True = Inr [65, backslash, 48, 10]"
    by (simp add: CUnescapeInternal_def escape_sequence_def simple_escape_def octal_escape_def
        is_octal_digit_def upto_ptr_def)
  then show ?thesis using CUnescapeInternal_fits by blast
qed

section \<open>Wrap-around of hexadecimal sequences\<close>

lemma hex_digits_run:
  assumes "\<forall>d\<in>set ds. ascii_isxdigit d"
  shows "hex_digits ch (p0 # ds) =
    (foldl (\<lambda>ch d. push_bit 4 ch + hex_digit_to_int d) ch ds, [last (p0 # ds)])"
  using assms by (induction ds arbitrary: ch p0) auto

lemma xdigit_0: "ascii_isxdigit 48"
  by (simp add: ascii_isxdigit_iff)

text \<open>Eight more digits shift all earlier ones out of the 32 bits.\<close>

lemma foldl_zero_digits:
  "foldl (\<lambda>ch d. push_bit 4 ch + hex_digit_to_int d) ch (replicate n 48) = push_bit (4 * n) ch"
proof (induction n arbitrary: ch)
  case (Suc n)
  have "hex_digit_to_int 48 = 0" by (simp add: hex_digit_to_int_def)
  then show ?case using Suc.IH [of "push_bit 4 ch"] by (simp add: push_bit_push_bit add.commute)
qed simp

lemma eight_digits_wrap:
  "foldl (\<lambda>ch d. push_bit 4 ch + hex_digit_to_int d) (ch :: 32 word)
     (replicate 6 48 @ [kHexChar ! (unat c div 16), kHexChar ! (unat c mod 16)]) = ucast (c :: byte)"
proof -
  have "push_bit 4 (push_bit 4 (push_bit 24 ch) + x) = push_bit 4 x" for x :: "32 word"
    by (simp add: push_bit_add)
  then show ?thesis
    using byte_div_less [of c] by (simp add: foldl_zero_digits kHexChar_value hex_pair)
qed

text \<open>
  The value of \<open>\x\<close> is accumulated modulo 2^32, so the check that it does not exceed
  0xff misses large values: after any hexadecimal digits, six zeros and the two digits of a
  byte, the sequence is accepted and stands for that byte.
\<close>

theorem CUnescape_hex_wraps:
  assumes "\<forall>d\<in>set ds. ascii_isxdigit d"
  shows "CUnescape ([backslash, chr (CHR ''x'')] @ ds @ replicate 6 48 @
      [kHexChar ! (unat c div 16), kHexChar ! (unat c mod 16)]) = Inr [c]"
proof -
  let ?ds = "ds @ replicate 6 48 @ [kHexChar ! (unat c div 16), kHexChar ! (unat c mod 16)]"
  have digits: "\<forall>d\<in>set ?ds. ascii_isxdigit d"
    using assms byte_div_less [of c] xdigit_0 by (auto simp: kHexChar_xdigit)
  then obtain e R where ds: "?ds = e # R" "ascii_isxdigit e" by (cases ?ds) auto
  have "hex_digits 0 (chr (CHR ''x'') # ?ds) = (ucast c, [kHexChar ! (unat c mod 16)])"
    unfolding hex_digits_run [OF digits] foldl_append [where xs = ds] eight_digits_wrap by simp
  then have "escape_sequence False (chr (CHR ''x'') # ?ds) = Inr ([c], [kHexChar ! (unat c mod 16)])"
    using ds ucast_byte_le [of c]
    by (simp add: escape_sequence_def simple_escape_def is_octal_digit_def hex_escape_def
        ucast_ucast_byte not_less)
  then show ?thesis by (simp add: CUnescape_def CUnescapeInternal_def)
qed

theorem CUnescape_hex_wraps_witness:
  "CUnescape ([backslash, chr (CHR ''x'')] @ [49] @ replicate 6 48 @
      [kHexChar ! (unat (65 :: byte) div 16), kHexChar ! (unat (65 :: byte) mod 16)]) = Inr [65] \<and>
   ascii_isxdigit 49"
  by (rule conjI, rule CUnescape_hex_wraps) (simp_all add: ascii_isxdigit_iff)

section \<open>Hexadecimal strings\<close>

definition hex_digits_of :: "byte \<Rightarrow> byte list" where
  "hex_digits_of b = [kHexChar ! (unat b div 16), kHexChar ! (unat b mod 16)]"

text \<open>The table holds the two digits of every byte, one byte after the other.\<close>

lemma pairs_at:
  assumes "i < length xs"
  shows "take 2 (drop (i * 2) (concat (map (\<lambda>x. [f x, g x]) xs))) = [f (xs ! i), g (xs ! i)]"
  using assms
proof (induction xs arbitrary: i)
  case (Cons x xs)
  then show ?case by (cases i) simp_all
qed simp

lemma kHexTable_pairs:
  "kHexTable = concat (map (\<lambda>n. [kHexChar ! (n div 16), kHexChar ! (n mod 16)]) [0..<256])"
  by (simp add: kHexTable_def kHexChar_def upt_conv_Cons)

lemma kHexTable_at: "take 2 (drop (unat b * 2) kHexTable) = hex_digits_of b"
  unfolding kHexTable_pairs hex_digits_of_def by (subst pairs_at) simp_all

lemma BytesToHexString_run:
  "foldl (\<lambda>(dest_ptr, dest) src.
       (dest_ptr + 2, write_at dest_ptr (take 2 (drop (unat src * 2) kHexTable)) dest))
     (length dest, dest @ replicate (2 * length from) 0) from =
   (length dest + 2 * length from, dest @ concat (map hex_digits_of from))"
proof (induction "from" arbitrary: dest)
  case (Cons b bs)
  have "write_at (length dest) (hex_digits_of b) (dest @ replicate (2 * length (b # bs)) 0) =
      (dest @ hex_digits_of b) @ replicate (2 * length bs) 0"
    by (simp add: write_at_def hex_digits_of_def)
  then show ?case
    using Cons.IH [of "dest @ hex_digits_of b"] by (simp add: kHexTable_at) (simp add: hex_digits_of_def)
qed simp

lemma BytesToHexString_eq: "BytesToHexString from = concat (map hex_digits_of from)"
  using BytesToHexString_run [of "[]" "from"] by (simp add: BytesToHexString_def)

lemma foldl_update:
  "n \<le> length to \<Longrightarrow> foldl (\<lambda>to i. to[i := f i]) to [0..<n] = map f [0..<n] @ drop n to"
proof (induction n)
  case (Suc n)
  then have "drop n to = to ! n # drop (Suc n) to" by (simp add: Cons_nth_drop_Suc)
  then show ?case using Suc by (simp add: list_update_append)
qed simp

lemma HexStringToBytes_eq:
  "HexStringToBytes from = map (\<lambda>i. push_bit 4 (kHexValueLenient ! unat (from ! (i * 2)))
     + kHexValueLenient ! unat (from ! (i * 2 + 1))) [0..<length from div 2]"
  unfolding HexStringToBytes_def Let_def by (subst foldl_update) simp_all

lemma kHexValueLenient_digit: "n < 16 \<Longrightarrow> kHexValueLenient ! unat (kHexChar ! n) = of_nat n"
  by (drule less_16_cases) (auto simp: kHexChar_def kHexValueLenient_def)

lemma hex_digits_value:
  "push_bit 4 (kHexValueLenient ! unat (kHexChar ! (unat b div 16)))
     + kHexValueLenient ! unat (kHexChar ! (unat (b :: byte) mod 16)) = b"
proof -
  have "push_bit 4 (of_nat (unat b div 16)) + of_nat (unat b mod 16) =
      (of_nat (unat b div 16 * 16 + unat b mod 16) :: byte)"
    unfolding of_nat_add of_nat_mult push_bit_eq_mult by simp
  also have "\<dots> = b" by (simp only: div_mult_mod_eq word_of_nat_unat_byte)
  finally show ?thesis using byte_div_less [of b] by (simp add: kHexValueLenient_digit)
qed

lemma hex_pair_at:
  assumes "i < length from"
  shows "concat (map hex_digits_of from) ! (i * 2) = kHexChar ! (unat (from ! i) div 16)"
    and "concat (map hex_digits_of from) ! (i * 2 + 1) = kHexChar ! (unat (from ! i) mod 16)"
  using assms
proof (induction "from" arbitrary: i)
  case (Cons b bs)
  {
    case 1
    with Cons.IH show ?case by (cases i) (simp_all add: hex_digits_of_def)
  next
    case 2
    with Cons.IH show ?case by (cases i) (simp_all add: hex_digits_of_def)
  }
qed simp_all

text \<open>
  \<open>HexStringToBytes\<close> reads back what \<open>BytesToHexString\<close> has printed, for every
  string of bytes, and the printed string has two characters for each byte.
\<close>

theorem HexStringToBytes_BytesToHexString:
  "HexStringToBytes (BytesToHexString from) = from \<and>
   length (BytesToHexString from) = 2 * length from"
proof -
  have len: "length (BytesToHexString from) = 2 * length from"
    unfolding BytesToHexString_eq by (induction "from") (simp_all add: hex_digits_of_def)
  have "HexStringToBytes (BytesToHexString from) = map (\<lambda>i. from ! i) [0..<length from]"
    unfolding HexStringToBytes_eq len unfolding BytesToHexString_eq
    by (rule nth_equalityI) (simp_all add: hex_pair_at hex_pair_at(2) [unfolded Suc_eq_plus1 [symmetric]] hex_digits_value del: map_nth)
  then show ?thesis using len by (simp add: map_nth)
qed

end
