(* ===== verification/Base64_Results.thy ===== *)
theory Base64_Results
  imports Base64 C_Escape_Results
begin

text \<open>
  What holds of Base64. \<open>base64_decode\<close> and \<open>base64_encode\<close> are reference definitions, with
  neither buffers nor words; the decoder of the code, with its two loops and its state that
  carries over from one to the other, computes the first, and the encoder the second. Both
  alphabets are instances of one locale.
\<close>

section \<open>Reference definitions\<close>

definition sextets :: "nat list \<Rightarrow> nat" where
  "sextets vs = foldl (\<lambda>n v. n * 64 + v) 0 vs"

fun decode_values :: "nat list \<Rightarrow> byte list" where
  "decode_values (a # b # c # d # vs) =
     (let n = sextets [a, b, c, d] in [of_nat (n div 65536), of_nat (n div 256), of_nat n]) @ decode_values vs"
| "decode_values [a, b] = [of_nat (sextets [a, b] div 16)]"
| "decode_values [a, b, c] = [of_nat (sextets [a, b, c] div 1024), of_nat (sextets [a, b, c] div 4)]"
| "decode_values vs = []"

text \<open>
  White space is skipped wherever it is. The data characters come first; what follows must be
  no pad character at all, or as many as complete the last group of four.
\<close>

definition no_space :: "byte list \<Rightarrow> byte list" where
  "no_space src = filter (\<lambda>c. \<not> ascii_isspace c) src"

definition data_of :: "int list \<Rightarrow> byte list \<Rightarrow> byte list" where
  "data_of unbase64 src = takeWhile (\<lambda>c. 0 \<le> unbase64 ! unat c) (no_space src)"

definition values_of :: "int list \<Rightarrow> byte list \<Rightarrow> nat list" where
  "values_of unbase64 src = map (\<lambda>c. nat (unbase64 ! unat c)) (data_of unbase64 src)"

definition pads_of :: "int list \<Rightarrow> byte list \<Rightarrow> byte list" where
  "pads_of unbase64 src = dropWhile (\<lambda>c. 0 \<le> unbase64 ! unat c) (no_space src)"

definition base64_decode :: "int list \<Rightarrow> byte list \<Rightarrow> bool \<times> byte list" where
  "base64_decode unbase64 src =
     (let vs = values_of unbase64 src; pads = pads_of unbase64 src in
      if list_all is_pad pads \<and> length vs mod 4 \<noteq> 1 \<and>
         (pads = [] \<or> length pads = (4 - length vs mod 4) mod 4)
      then (True, decode_values vs) else (False, []))"

section \<open>Arithmetic of the accumulator\<close>

lemma sextets_append [simp]: "sextets (vs @ [v]) = sextets vs * 64 + v"
  by (simp add: sextets_def)

lemma sextets_Nil [simp]: "sextets [] = 0"
  by (simp add: sextets_def)

lemma or_sextet:
  assumes "v < 64"
  shows "push_bit 6 t OR of_nat v = (t * 64 + of_nat v :: 32 word)"
proof -
  have v: "of_nat v = (take_bit 6 (of_nat v) :: 32 word)"
    using assms by (simp add: take_bit_of_nat take_bit_nat_eq_self)
  have "push_bit 6 t + take_bit 6 (of_nat v) = (push_bit 6 t OR take_bit 6 (of_nat v) :: 32 word)"
    by (rule disjunctive_add) (auto simp: bit_simps)
  then show ?thesis using v by (simp add: push_bit_eq_mult)
qed

lemma mod_sextet: "v < 64 \<Longrightarrow> (a * 64 + v) mod (m * 64) = (a mod m) * 64 + (v :: nat)"
  using mod_mult2_eq [of "a * 64 + v" 64 m] by (simp add: mult.commute)

lemma unat_mod_dvd: "m dvd 2 ^ 32 \<Longrightarrow> unat (of_nat n :: 32 word) mod m = n mod m"
  by (simp add: unsigned_of_nat take_bit_eq_mod mod_mod_cancel)

lemma accumulate:
  assumes "unat t mod 64 ^ k = n" and "v < 64" and "k < 4"
  shows "unat (push_bit 6 t OR of_nat v :: 32 word) mod 64 ^ Suc k = n * 64 + v"
proof -
  have "t * 64 + of_nat v = (of_nat (unat t * 64 + v) :: 32 word)" by simp
  then have "push_bit 6 t OR of_nat v = (of_nat (unat t * 64 + v) :: 32 word)"
    using or_sextet [OF assms(2), of t] by simp
  moreover have "(64 :: nat) ^ Suc k dvd 2 ^ 32"
  proof -
    have "(2 ^ 6) ^ Suc k dvd (2 ^ 32 :: nat)"
      unfolding power_mult [symmetric] by (rule le_imp_power_dvd) (use assms(3) in simp)
    then show ?thesis by simp
  qed
  ultimately have "unat (push_bit 6 t OR of_nat v :: 32 word) mod 64 ^ Suc k = (unat t * 64 + v) mod 64 ^ Suc k"
    by (simp only: unat_mod_dvd)
  then show ?thesis using mod_sextet [OF assms(2), of "unat t" "64 ^ k"] assms(1) by (simp add: mult.commute)
qed

text \<open>A byte cut out of the accumulator.\<close>

lemma cut_mod: "t mod (p * (256 * q)) div p mod 256 = t div p mod (256 :: nat)"
proof (cases "p = 0")
  case False
  then have "t mod (p * (256 * q)) div p = t div p mod (256 * q)" by (simp add: mod_mult2_eq)
  then show ?thesis by (simp add: mod_mod_cancel)
qed simp

lemma cut_byte:
  assumes "unat t mod (2 ^ k * (256 * q)) = n"
  shows "(ucast (drop_bit k (t :: 32 word)) :: byte) = of_nat (n div 2 ^ k)"
proof -
  have "unat (drop_bit k t) = unat t div 2 ^ k" by (rule trans [OF unat_drop_bit_eq drop_bit_eq_div])
  then have "unat (ucast (drop_bit k t) :: byte) = n div 2 ^ k mod 256"
    using cut_mod [of "unat t" "2 ^ k" q] assms by (simp add: unat_ucast_to_byte)
  then show ?thesis by (simp add: word_eq_unat unsigned_of_nat take_bit_eq_mod)
qed

section \<open>What the variables of the decoder stand for\<close>

text \<open>
  The groups of four values in \<open>full\<close> have been written out; the ones in \<open>pend\<close> are the low
  bits of the accumulator, above which there may be bits of earlier groups.
\<close>

fun quads :: "nat list \<Rightarrow> bool" where
  "quads (a # b # c # d # vs) = quads vs"
| "quads vs = (vs = [])"

definition stands_for :: "nat \<Rightarrow> nat list \<Rightarrow> nat list \<Rightarrow> decoder \<Rightarrow> bool" where
  "stands_for szdest full pend s \<longleftrightarrow>
     quads full \<and> dec_destidx s = length (decode_values full) \<and> length (dec_dest s) = szdest \<and>
     take (length (decode_values full)) (dec_dest s) = decode_values full \<and>
     unat (dec_temp s) mod 64 ^ length pend = sextets pend"

lemma stands_for_cong:
  "stands_for szdest full pend s \<Longrightarrow> dec_destidx s' = dec_destidx s \<Longrightarrow> dec_dest s' = dec_dest s \<Longrightarrow>
    dec_temp s' = dec_temp s \<Longrightarrow> stands_for szdest full pend s'"
  by (simp add: stands_for_def)

lemma stands_for_fresh: "stands_for szdest full [] s \<Longrightarrow> stands_for szdest full [] (s\<lparr>dec_temp := t\<rparr>)"
  by (simp add: stands_for_def)

lemma stands_for_first:
  "stands_for szdest full [] s \<Longrightarrow> v < 64 \<Longrightarrow> stands_for szdest full [v] (s\<lparr>dec_temp := of_nat v\<rparr>)"
  by (simp add: stands_for_def sextets_def unsigned_of_nat take_bit_nat_eq_self)

lemma stands_for_shift_in:
  assumes "stands_for szdest full pend s" and "dec_decode s = int v" and "v < 64" and "length pend < 4"
  shows "stands_for szdest full (pend @ [v]) (shift_in s)"
  using assms accumulate [of "dec_temp s" "length pend" "sextets pend" v]
  by (simp add: stands_for_def shift_in_def)

lemma stands_for_shift_in':
  "stands_for szdest full pend s \<Longrightarrow> dec_decode s = int v \<Longrightarrow> v < 64 \<Longrightarrow> length pend < 4 \<Longrightarrow>
    vs = pend @ [v] \<Longrightarrow> stands_for szdest full vs (shift_in s)"
  by (simp add: stands_for_shift_in)

lemma decode_values_append: "quads vs \<Longrightarrow> decode_values (vs @ ws) = decode_values vs @ decode_values ws"
  by (induction vs rule: quads.induct) (simp_all add: Let_def)

lemma length_decode_values: "quads vs \<Longrightarrow> 4 * length (decode_values vs) = 3 * length vs"
  by (induction vs rule: quads.induct) (simp_all add: Let_def)

lemma quads_append: "quads vs \<Longrightarrow> length ws = 4 \<Longrightarrow> quads (vs @ ws)"
  by (induction vs rule: quads.induct) (auto simp: length_Suc_conv numeral_eq_Suc)

lemma quads_mod: "quads vs \<Longrightarrow> length vs mod 4 = 0"
  by (induction vs rule: quads.induct) auto

lemma put_three_bytes:
  assumes "unat (dec_temp s) mod 16777216 = n"
  shows "put_three s = s\<lparr>dec_temp := drop_bit 8 (drop_bit 8 (dec_temp s)), dec_destidx := dec_destidx s + 3,
    dec_dest := (dec_dest s)[dec_destidx s + 2 := of_nat n, dec_destidx s + 1 := of_nat (n div 256),
      dec_destidx s := of_nat (n div 65536)]\<rparr>"
  using cut_byte [of "dec_temp s" 0 65536 n] cut_byte [of "dec_temp s" 8 256 n]
    cut_byte [of "dec_temp s" 16 1 n] assms
  by (simp add: put_three_def Let_def)

lemma take_three:
  "i + 3 \<le> length xs \<Longrightarrow> take (i + 3) (xs[i + 2 := z, i + 1 := y, i := x]) = take i xs @ [x, y, z]"
  by (rule nth_equalityI) (auto simp: nth_append nth_list_update nth_Cons' not_less)

lemma stands_for_put_three:
  assumes "stands_for szdest full pend s" and "length pend = 4" and "dec_destidx s + 3 \<le> szdest"
  shows "stands_for szdest (full @ pend) [] (put_three s)"
proof -
  have n: "unat (dec_temp s) mod 16777216 = sextets pend" using assms(1,2) by (simp add: stands_for_def)
  obtain a b c d where "pend = [a, b, c, d]"
    using assms(2) by (auto simp: length_Suc_conv numeral_eq_Suc)
  then have bytes: "decode_values (full @ pend) = decode_values full @
      [of_nat (sextets pend div 65536), of_nat (sextets pend div 256), of_nat (sextets pend)]"
    using assms(1) by (simp add: stands_for_def decode_values_append Let_def)
  have idx: "dec_destidx s = length (decode_values full)" "length (dec_dest s) = szdest"
    "take (dec_destidx s) (dec_dest s) = decode_values full" "quads full"
    using assms(1) by (auto simp: stands_for_def)
  show ?thesis
    using take_three [of "dec_destidx s" "dec_dest s"] idx assms(2,3) quads_append [OF idx(4) assms(2)]
    unfolding stands_for_def put_three_bytes [OF n] bytes by (simp add: numeral_3_eq_3)
qed

section \<open>The encoder\<close>

fun sextets_of :: "byte list \<Rightarrow> nat list" where
  "sextets_of (a # b # c # src) =
     (let n = unat a * 65536 + unat b * 256 + unat c
      in [n div 262144, n div 4096 mod 64, n div 64 mod 64, n mod 64]) @ sextets_of src"
| "sextets_of [a, b] =
     (let n = unat a * 256 + unat b in [n div 1024, n div 16 mod 64, n mod 16 * 4])"
| "sextets_of [a] = [unat a div 4, unat a mod 4 * 16]"
| "sextets_of [] = []"

definition base64_encode :: "byte list \<Rightarrow> bool \<Rightarrow> byte list \<Rightarrow> byte list" where
  "base64_encode base64 do_padding src =
     map (\<lambda>v. base64 ! v) (sextets_of src) @
     (if do_padding then replicate ((3 - length src mod 3) mod 3) kPad64 else [])"

lemma unat_and_mask: "unat ((w :: 32 word) AND mask k) = unat w mod 2 ^ k"
  unfolding take_bit_eq_mask [symmetric] unsigned_take_bit_eq by (rule take_bit_eq_mod)

lemma unat_of_nat_32: "n < 2 ^ 32 \<Longrightarrow> unat (of_nat n :: 32 word) = n"
  by (simp add: unsigned_of_nat take_bit_nat_eq_self)

lemma masks: "(0x3FFFF :: 32 word) = mask 18" "(0xFFF :: 32 word) = mask 12" "(0x3F :: 32 word) = mask 6"
  "(0x3FF :: 32 word) = mask 10" "(0xF :: 32 word) = mask 4" "(0x3 :: 32 word) = mask 2"
  by (simp_all add: mask_eq_exp_minus_1)

lemma unat_drop_div: "unat (drop_bit k (w :: 32 word)) = unat w div 2 ^ k"
  by (rule trans [OF unat_drop_bit_eq drop_bit_eq_div])

lemma mod_div_low: "(n :: nat) mod (p * q) div p = n div p mod q"
  by (cases "p = 0") (simp_all add: mod_mult2_eq)

lemma four_chars_eq:
  assumes "unat w = n"
  shows "four_chars base64 w =
    map (\<lambda>v. base64 ! v) [n div 262144, n div 4096 mod 64, n div 64 mod 64, n mod 64]"
  using mod_div_low [of n 4096 64] mod_div_low [of n 64 64] assms
  by (simp add: four_chars_def Let_def masks unat_and_mask unat_drop_div mod_mod_cancel)

lemma append_byte:
  assumes "unat x < 16777216"
  shows "unat (push_bit 8 x OR ucast (b :: byte) :: 32 word) = unat x * 256 + unat b"
proof -
  have b: "(ucast b :: 32 word) = take_bit 8 (ucast b)"
    by (rule bit_word_eqI) (auto simp: bit_simps dest: bit_imp_le_length)
  have "push_bit 8 x + take_bit 8 (ucast b) = push_bit 8 x OR take_bit 8 (ucast b :: 32 word)"
    by (rule disjunctive_add) (auto simp: bit_simps)
  then have "push_bit 8 x OR ucast b = (of_nat (unat x * 256 + unat b) :: 32 word)"
    using b by (simp add: push_bit_eq_mult of_nat_unat_byte)
  moreover have "unat x * 256 + unat b < 2 ^ 32" using assms unat_byte_le [of b] by simp
  ultimately show ?thesis by (simp only: unat_of_nat_32)
qed

lemma unat_Load16: "unat (Load16 a b) = unat a * 256 + unat b"
  using append_byte [of "ucast a" b] unat_byte_le [of a] by (simp add: Load16_def unat_ucast_byte)

lemma unat_Load32: "unat (drop_bit 8 (Load32 a b c d)) = unat a * 65536 + unat b * 256 + unat c"
proof -
  have "Load32 a b c d = push_bit 8 (push_bit 8 (Load16 a b) OR ucast c) OR ucast d"
    by (simp add: Load32_def Load16_def push_bit_or or.assoc)
  moreover have "unat (push_bit 8 (Load16 a b) OR ucast c) = unat a * 65536 + unat b * 256 + unat c"
    using append_byte [of "Load16 a b" c] unat_byte_le [of a] unat_byte_le [of b] by (simp add: unat_Load16)
  ultimately have "unat (Load32 a b c d) = (unat a * 65536 + unat b * 256 + unat c) * 256 + unat d"
    using append_byte [of "push_bit 8 (Load16 a b) OR ucast c" d] unat_byte_le [of a] unat_byte_le [of b]
      unat_byte_le [of c] by simp
  then show ?thesis using unat_byte_le [of d] by (simp add: unat_drop_div)
qed

lemma unat_Load24: "unat (push_bit 16 (ucast (a :: byte)) + Load16 b c) = unat a * 65536 + unat b * 256 + unat c"
proof -
  have "push_bit 16 (ucast a) + Load16 b c =
      (of_nat (unat a * 65536 + (unat b * 256 + unat c)) :: 32 word)"
    using arg_cong [OF unat_Load16 [of b c], of "of_nat :: nat \<Rightarrow> 32 word"]
    by (simp add: push_bit_eq_mult of_nat_unat_byte)
  moreover have "unat a * 65536 + (unat b * 256 + unat c) < 2 ^ 32"
    using unat_byte_le [of a] unat_byte_le [of b] unat_byte_le [of c] by simp
  ultimately show ?thesis by (simp only: unat_of_nat_32 add.assoc)
qed

lemma escape_chunks_run:
  assumes "4 * (length src div 3) \<le> length free"
  shows "\<exists>src' enc. escape_chunks base64 src (length out) (out @ free) =
      (src', length out + length enc, out @ enc @ drop (length enc) free) \<and>
    length src' \<le> 3 \<and> length enc mod 4 = 0 \<and> 4 * length src = 4 * length src' + 3 * length enc \<and>
    (src = [] \<longleftrightarrow> src' = []) \<and>
    map (\<lambda>v. base64 ! v) (sextets_of src) = enc @ map (\<lambda>v. base64 ! v) (sextets_of src')"
  using assms
proof (induction base64 src "length out" "out @ free" arbitrary: out free rule: escape_chunks.induct)
  case (1 base64 a b c d src)
  let ?e = "four_chars base64 (drop_bit 8 (Load32 a b c d))"
  have e: "length ?e = 4" by (simp add: four_chars_def Let_def)
  have n: "?e = map (\<lambda>v. base64 ! v) (take 4 (sextets_of (a # b # c # d # src)))"
    unfolding four_chars_eq [OF unat_Load32] by (simp add: Let_def)
  have dest: "write_at (length out) ?e (out @ free) = (out @ ?e) @ drop 4 free"
    using e "1.prems" by (simp add: write_at_def)
  have "4 * (length (d # src) div 3) \<le> length (drop 4 free)"
    using "1.prems" div_add_self1 [of 3 "Suc (length src)"] by simp
  then obtain src' enc where "escape_chunks base64 (d # src) (length (out @ ?e)) ((out @ ?e) @ drop 4 free) =
      (src', length (out @ ?e) + length enc, (out @ ?e) @ enc @ drop (length enc) (drop 4 free))"
    and r: "length src' \<le> 3" "length enc mod 4 = 0" "4 * length (d # src) = 4 * length src' + 3 * length enc"
      "d # src = [] \<longleftrightarrow> src' = []"
      "map (\<lambda>v. base64 ! v) (sextets_of (d # src)) = enc @ map (\<lambda>v. base64 ! v) (sextets_of src')"
    using "1.hyps" [of "out @ ?e" "drop 4 free"] e dest by fastforce
  then have "escape_chunks base64 (a # b # c # d # src) (length out) (out @ free) =
      (src', length out + length (?e @ enc), out @ (?e @ enc) @ drop (length (?e @ enc)) free)"
    using e dest by (simp add: add.assoc add.commute)
  moreover have "map (\<lambda>v. base64 ! v) (sextets_of (a # b # c # d # src)) =
      (?e @ enc) @ map (\<lambda>v. base64 ! v) (sextets_of src')"
    using r(5) unfolding n by (simp add: Let_def)
  ultimately show ?case
    using r e by (intro exI [of _ src'] exI [of _ "?e @ enc"]) simp
qed (auto)

lemma unat_push: "unat w * 2 ^ k < 2 ^ 32 \<Longrightarrow> unat (push_bit k (w :: 32 word)) = unat w * 2 ^ k"
  using unat_of_nat_32 [of "unat w * 2 ^ k"] by (simp add: push_bit_eq_mult)

lemma one_byte_tail:
  "unat (drop_bit 2 (ucast (a :: byte) :: 32 word)) = unat a div 4"
  "unat (push_bit 4 ((ucast a :: 32 word) AND 3)) = unat a mod 4 * 16"
proof -
  show "unat (drop_bit 2 (ucast a :: 32 word)) = unat a div 4" by (simp add: unat_drop_div unat_ucast_byte)
  have "unat ((ucast a :: 32 word) AND 3) = unat a mod 4" by (simp add: masks unat_and_mask unat_ucast_byte)
  moreover have "unat a mod 4 < 4" by simp
  ultimately show "unat (push_bit 4 ((ucast a :: 32 word) AND 3)) = unat a mod 4 * 16"
    by (subst unat_push) simp_all
qed

lemma two_byte_tail:
  "unat (drop_bit 10 (Load16 a b)) = (unat a * 256 + unat b) div 1024"
  "unat (drop_bit 4 (Load16 a b AND 0x3FF)) = (unat a * 256 + unat b) div 16 mod 64"
  "unat (push_bit 2 ((Load16 a b AND 0x3FF) AND 0xF)) = (unat a * 256 + unat b) mod 16 * 4"
proof -
  let ?n = "unat a * 256 + unat b"
  show "unat (drop_bit 10 (Load16 a b)) = ?n div 1024" by (simp add: unat_drop_div unat_Load16)
  show "unat (drop_bit 4 (Load16 a b AND 0x3FF)) = ?n div 16 mod 64"
    using mod_div_low [of ?n 16 64] unfolding masks unat_drop_div unat_and_mask unat_Load16 by simp
  have "unat ((Load16 a b AND 0x3FF) AND 0xF) = ?n mod 16"
    unfolding masks unat_and_mask unat_Load16 by (simp add: mod_mod_cancel)
  moreover have "?n mod 16 < 16" by simp
  ultimately show "unat (push_bit 2 ((Load16 a b AND 0x3FF) AND 0xF)) = ?n mod 16 * 4"
    by (subst unat_push) simp_all
qed

lemma escaped_len_tail:
  assumes "4 * n = 4 * k + 3 * m" and "m mod 4 = 0" and "k \<le> 3" and "k = 0 \<longrightarrow> n = 0"
  shows "base64_len n do_padding = m + base64_len k do_padding \<and>
    n mod 3 = k mod 3"
proof -
  obtain q where "m = 4 * q" using assms(2) by (metis mod_0_imp_dvd dvd_def)
  then have "n = 3 * q + k" using assms(1) by simp
  then have "n div 3 = q + k div 3" "n mod 3 = k mod 3" by simp_all
  moreover have "k \<in> {0, 1, 2, 3}" using assms(3) by auto
  ultimately show ?thesis
    using \<open>m = 4 * q\<close> by (elim insertE emptyE) (simp_all add: base64_len_def)
qed

lemma escaped_len_large: "4 * n \<le> 3 * base64_len n do_padding"
proof -
  obtain q r where n: "n = q * 3 + r" "r < 3" "n div 3 = q" "n mod 3 = r"
    by (metis div_mult_mod_eq mod_less_divisor zero_less_numeral)
  from n(2) have "r \<in> {0, 1, 2}" by auto
  then show ?thesis
    unfolding base64_len_def Let_def n(3,4) unfolding n(1)
    by (elim insertE emptyE) simp_all
qed

lemma write_at_end [simp]:
  "length bs = length free \<Longrightarrow> write_at (length out) bs (out @ free) = out @ bs"
  by (simp add: write_at_def)

lemma Base64EscapeBuffer_run:
  assumes "length dest = base64_len (length src) do_padding"
  shows "Base64EscapeBuffer src dest base64 do_padding = (length dest, base64_encode base64 do_padding src)"
proof -
  let ?chars = "\<lambda>src. map (\<lambda>v. base64 ! v) (sextets_of src)"
  have "4 * (length src div 3) \<le> length dest"
    using assms by (simp add: base64_len_def Let_def)
  from escape_chunks_run [OF this, of base64 "[]", unfolded append_Nil list.size(3) add_0] obtain rest enc where
    run: "escape_chunks base64 src 0 dest = (rest, length enc, enc @ drop (length enc) dest)"
    and rest: "length rest \<le> 3" "length enc mod 4 = 0" "4 * length src = 4 * length rest + 3 * length enc"
      "src = [] \<longleftrightarrow> rest = []" and chars: "?chars src = enc @ ?chars rest"
    by (elim exE conjE) (rule that)
  have len: "length dest = length enc + base64_len (length rest) do_padding"
    and mod3: "length src mod 3 = length rest mod 3"
    using escaped_len_tail [OF rest(3,2,1)] rest(4) assms by auto
  have fits: "\<not> length src * 4 > length dest * 3"
    using escaped_len_large [of "length src" do_padding] assms by simp
  let ?free = "drop (length enc) dest"
  have encode: "base64_encode base64 do_padding src =
      enc @ ?chars rest @ (if do_padding then replicate ((3 - length rest mod 3) mod 3) kPad64 else [])"
    unfolding base64_encode_def chars mod3 by simp
  consider "rest = []" | a where "rest = [a]" | a b where "rest = [a, b]" | a b c where "rest = [a, b, c]"
    using rest(1) by (cases rest rule: sextets_of.cases) auto
  then show ?thesis
  proof cases
    case 1
    then show ?thesis
      using fits run len encode by (simp add: Base64EscapeBuffer_def base64_len_def)
  next
    case 2
    have "length ?free = (if do_padding then 4 else 2)"
      using len 2 by (simp add: base64_len_def)
    then obtain free where free: "?free = free" "length free = (if do_padding then 4 else 2)" by blast
    have "free = [free ! 0, free ! 1] @ (if do_padding then [free ! 2, free ! 3] else [])"
      using free(2) by (auto simp: length_Suc_conv numeral_eq_Suc)
    then obtain w x y z where "free = [w, x] @ (if do_padding then [y, z] else [])" by blast
    then show ?thesis
      using fits run encode 2 free len one_byte_tail [of a]
      by (auto simp: Base64EscapeBuffer_def write_at_def Let_def base64_len_def
          numeral_2_eq_2)
  next
    case 3
    have "length ?free = (if do_padding then 4 else 3)"
      using len 3 by (simp add: base64_len_def)
    then obtain free where free: "?free = free" "length free = (if do_padding then 4 else 3)" by blast
    have "free = [free ! 0, free ! 1, free ! 2] @ (if do_padding then [free ! 3] else [])"
      using free(2) by (auto simp: length_Suc_conv numeral_eq_Suc)
    then obtain w x y z where "free = [w, x, y] @ (if do_padding then [z] else [])" by blast
    then show ?thesis
      using fits run encode 3 free len two_byte_tail [of a b]
      by (auto simp: Base64EscapeBuffer_def write_at_def Let_def base64_len_def)
  next
    case 4
    have "length ?free = 4" using len 4 by (simp add: base64_len_def)
    then show ?thesis
      using fits run encode 4 unfolding Base64EscapeBuffer_def four_chars_eq [OF unat_Load24]
      by (simp add: Let_def)
  qed
qed

text \<open>The sextets of a string are decoded to it.\<close>

lemma sextets_split:
  assumes "n < 16777216"
  shows "sextets [n div 262144, n div 4096 mod 64, n div 64 mod 64, n mod 64] = n"
proof -
  have "n div 262144 = n div 4096 div 64" "n div 4096 = n div 64 div 64" by (simp_all add: div_mult2_eq [symmetric])
  then have "n div 262144 * 64 + n div 4096 mod 64 = n div 4096"
    "n div 4096 * 64 + n div 64 mod 64 = n div 64" by simp_all
  then show ?thesis by (simp add: sextets_def)
qed

lemma sextets_split_16: "sextets [n div 1024, n div 16 mod 64, n mod 16 * 4] = n * 4"
proof -
  have "n div 1024 = n div 16 div 64" by (simp add: div_mult2_eq [symmetric])
  then have "n div 1024 * 64 + n div 16 mod 64 = n div 16" by simp
  moreover have "n div 16 * 64 + n mod 16 * 4 = n * 4" using div_mult_mod_eq [of n 16] by linarith
  ultimately show ?thesis by (simp add: sextets_def)
qed

lemma sextets_of_less: "v \<in> set (sextets_of src) \<Longrightarrow> v < 64"
proof (induction src rule: sextets_of.induct)
  case (1 a b c src)
  have "unat a * 65536 + unat b * 256 + unat c < 64 * 262144"
    using unat_byte_le [of a] unat_byte_le [of b] unat_byte_le [of c] by simp
  then have "(unat a * 65536 + unat b * 256 + unat c) div 262144 < 64" by (rule less_mult_imp_div_less)
  then show ?case using 1 by (auto simp: Let_def)
next
  case (2 a b)
  have "unat a * 256 + unat b < 64 * 1024" using unat_byte_le [of a] unat_byte_le [of b] by simp
  then have "(unat a * 256 + unat b) div 1024 < 64" by (rule less_mult_imp_div_less)
  moreover have "(unat a * 256 + unat b) mod 16 < 16" by simp
  ultimately show ?case using 2 by (auto simp: Let_def)
next
  case (3 a)
  have "unat a < 64 * 4" using unat_byte_le [of a] by simp
  then have "unat a div 4 < 64" by (rule less_mult_imp_div_less)
  moreover have "unat a mod 4 < 4" by simp
  ultimately show ?case using 3 by auto
qed simp

lemma of_nat_byte_add: "(of_nat (m * 256 + unat (b :: byte)) :: byte) = b"
  unfolding word_eq_unat unsigned_of_nat by (simp add: take_bit_eq_mod)

lemma byte_add_div: "(m * 256 + unat (b :: byte)) div 256 = m"
  using unat_byte_less [of b] by (simp add: div_add1_eq)

lemma decode_sextets: "decode_values (sextets_of src) = src"
proof (induction src rule: sextets_of.induct)
  case (1 a b c src)
  let ?n = "unat a * 65536 + unat b * 256 + unat c"
  have n: "?n < 16777216" using unat_byte_le [of a] unat_byte_le [of b] unat_byte_le [of c] by simp
  have split: "?n = (unat a * 256 + unat b) * 256 + unat c" by simp
  have "?n div 256 = unat a * 256 + unat b" unfolding split by (rule byte_add_div)
  moreover have "?n div 65536 = ?n div 256 div 256" by (simp add: div_mult2_eq [symmetric])
  ultimately have "of_nat (?n div 65536) = a" "of_nat (?n div 256) = b"
    using of_nat_byte_add [of "unat a" b] byte_add_div [of "unat a" b] by simp_all
  moreover have "of_nat ?n = c" unfolding split by (rule of_nat_byte_add)
  ultimately have "of_nat (?n div 65536) = a" "of_nat (?n div 256) = b" "of_nat ?n = c" .
  then show ?case using "1.IH" sextets_split [OF n] by (simp only: sextets_of.simps decode_values.simps Let_def append.simps)
next
  case (2 a b)
  let ?n = "unat a * 256 + unat b"
  have "?n * 4 div 1024 = ?n div 256" using div_mult_mult2 [of 4 ?n 256] by simp
  then have "?n * 4 div 1024 = unat a" by (simp only: byte_add_div)
  moreover have "?n * 4 div 4 = ?n" by (rule nonzero_mult_div_cancel_right) simp
  ultimately show ?case
    using of_nat_byte_add [of "unat a" b]
    by (simp only: sextets_of.simps decode_values.simps Let_def sextets_split_16) simp
next
  case (3 a)
  have "unat a div 4 * 64 + unat a mod 4 * 16 = unat a * 16" using div_mult_mod_eq [of "unat a" 4] by linarith
  then have "sextets [unat a div 4, unat a mod 4 * 16] = unat a * 16" by (simp add: sextets_def)
  then show ?case by simp
qed simp

lemma length_sextets_of:
  "length (sextets_of src) mod 4 = (if length src mod 3 = 0 then 0 else length src mod 3 + 1)"
  by (induction src rule: sextets_of.induct) (simp_all add: Let_def)

section \<open>The alphabets\<close>

locale base64_alphabet =
  fixes base64 :: "byte list" and unbase64 :: "int list"
  assumes length_base64: "length base64 = 64"
    and unbase64_base64: "i < 64 \<Longrightarrow> unbase64 ! unat (base64 ! i) = int i"
    and unbase64_range: "- 1 \<le> unbase64 ! unat (c :: byte) \<and> unbase64 ! unat c < 64"
    and unbase64_skipped: "ascii_isspace c \<or> is_pad c \<or> c = 0 \<Longrightarrow> unbase64 ! unat c = - 1"
begin

lemma unbase64_int: "0 \<le> unbase64 ! unat (c :: byte) \<Longrightarrow> \<exists>v<64. unbase64 ! unat c = int v"
  using unbase64_range [of c] by (metis int_nat_eq nat_less_iff of_nat_numeral)

lemma values_of_Nil [simp]: "values_of unbase64 [] = []" "pads_of unbase64 [] = []" "no_space [] = []"
  by (simp_all add: values_of_def data_of_def pads_of_def no_space_def)

lemma scan_space [simp]:
  "ascii_isspace c \<Longrightarrow> values_of unbase64 (c # src) = values_of unbase64 src"
  "ascii_isspace c \<Longrightarrow> pads_of unbase64 (c # src) = pads_of unbase64 src"
  "ascii_isspace c \<Longrightarrow> no_space (c # src) = no_space src"
  by (simp_all add: values_of_def data_of_def pads_of_def no_space_def)

lemma scan_data [simp]:
  "unbase64 ! unat c = int v \<Longrightarrow> values_of unbase64 (c # src) = v # values_of unbase64 src"
  "unbase64 ! unat c = int v \<Longrightarrow> pads_of unbase64 (c # src) = pads_of unbase64 src"
  using unbase64_skipped [of c] by (auto simp: values_of_def data_of_def pads_of_def no_space_def)

lemma scan_other [simp]:
  "unbase64 ! unat c < 0 \<Longrightarrow> \<not> ascii_isspace c \<Longrightarrow> values_of unbase64 (c # src) = []"
  "unbase64 ! unat c < 0 \<Longrightarrow> \<not> ascii_isspace c \<Longrightarrow> pads_of unbase64 (c # src) = c # no_space src"
  by (simp_all add: values_of_def data_of_def pads_of_def no_space_def)

text \<open>
  What reading the rest of a group of four from \<open>src\<close> gives, with \<open>pend\<close> read before: the
  full group, or as many data characters as come before a character that leaves the loop.
\<close>

definition stopped_at :: "byte list \<Rightarrow> nat list \<Rightarrow> byte list \<Rightarrow> byte \<Rightarrow> bool" where
  "stopped_at src vs src' ch \<longleftrightarrow>
     (if ascii_isspace ch
      then values_of unbase64 src = vs @ values_of unbase64 src' \<and> pads_of unbase64 src = pads_of unbase64 src'
      else values_of unbase64 src = vs \<and> pads_of unbase64 src = ch # no_space src')"

definition reads_quad ::
    "nat \<Rightarrow> nat list \<Rightarrow> nat list \<Rightarrow> byte list \<Rightarrow> fault + byte list \<times> decoder \<times> bool \<Rightarrow> bool" where
  "reads_quad szdest full pend src r \<longleftrightarrow>
     (\<exists>src' s' vs. stands_for szdest full (pend @ vs) s' \<and>
        (r = Inr (src', s', True) \<and> length src' + length vs < length src \<and>
           dec_state s' = length (pend @ vs) \<and> length (pend @ vs) < 4 \<and> dec_decode s' < 0 \<and>
           stopped_at src vs src' (dec_ch s') \<or>
         r = Inr (src', s', False) \<and> length src' + length vs \<le> length src \<and>
           dec_state s' = 0 \<and> length (pend @ vs) = 4 \<and> 0 \<le> dec_decode s' \<and> \<not> is_pad (dec_ch s') \<and>
           values_of unbase64 src = vs @ values_of unbase64 src' \<and>
           pads_of unbase64 src = pads_of unbase64 src'))"

lemma GET_INPUT_run:
  assumes "n \<le> length src" and "1 \<le> n"
  shows "\<exists>src' s'. length src' < length src \<and>
    dec_destidx s' = dec_destidx s \<and> dec_dest s' = dec_dest s \<and> dec_temp s' = dec_temp s \<and>
    (GET_INPUT unbase64 n src s = Inr (src', s', True) \<and> dec_state s' = 4 - n \<and> dec_decode s' < 0 \<and>
       stopped_at src [] src' (dec_ch s') \<or>
     GET_INPUT unbase64 n src s = Inr (src', s', False) \<and> dec_state s' = dec_state s \<and> n - 1 \<le> length src' \<and>
       \<not> is_pad (dec_ch s') \<and> (\<exists>v<64. dec_decode s' = int v \<and>
         values_of unbase64 src = v # values_of unbase64 src' \<and> pads_of unbase64 src = pads_of unbase64 src'))"
  using assms
proof (induction src arbitrary: s)
  case (Cons ch src)
  let ?s = "s\<lparr>dec_ch := ch, dec_decode := unbase64 ! unat ch\<rparr>"
  consider (data) v where "v < 64" "unbase64 ! unat ch = int v"
    | (skip) "unbase64 ! unat ch < 0" "ascii_isspace ch" "n \<le> length src"
    | (stop) "unbase64 ! unat ch < 0" "ascii_isspace ch \<longrightarrow> \<not> n \<le> length src"
    using unbase64_int [of ch] by force
  then show ?case
  proof cases
    case data
    then have "\<not> is_pad ch" using unbase64_skipped [of ch] by auto
    then show ?thesis using data Cons.prems by (intro exI [of _ src] exI [of _ ?s]) auto
  next
    case skip
    then have "GET_INPUT unbase64 n (ch # src) s = GET_INPUT unbase64 n src ?s" by simp
    then show ?thesis using Cons.IH [of ?s] skip Cons.prems(2) by (fastforce simp: stopped_at_def)
  next
    case stop
    then show ?thesis
      by (intro exI [of _ src] exI [of _ "?s\<lparr>dec_state := 4 - n\<rparr>"]) (auto simp: stopped_at_def)
  qed
qed simp

lemma reads_quad_next:
  assumes "stands_for szdest full pend s" and "length pend + n = 4" and "1 \<le> n" and "n \<le> length src"
    and "dec_state s = 0"
    and step: "\<And>src' s' v. stands_for szdest full pend s' \<Longrightarrow> dec_decode s' = int v \<Longrightarrow> v < 64 \<Longrightarrow>
      dec_state s' = 0 \<Longrightarrow> \<not> is_pad (dec_ch s') \<Longrightarrow> n - 1 \<le> length src' \<Longrightarrow>
      reads_quad szdest full (pend @ [v]) src' (f src' s')"
  shows "reads_quad szdest full pend src (next_input (GET_INPUT unbase64 n src s) f)"
proof -
  obtain src' s' where shorter: "length src' < length src"
    and same: "dec_destidx s' = dec_destidx s" "dec_dest s' = dec_dest s" "dec_temp s' = dec_temp s"
    and got: "GET_INPUT unbase64 n src s = Inr (src', s', True) \<and> dec_state s' = 4 - n \<and> dec_decode s' < 0 \<and>
       stopped_at src [] src' (dec_ch s') \<or>
     GET_INPUT unbase64 n src s = Inr (src', s', False) \<and> dec_state s' = dec_state s \<and> n - 1 \<le> length src' \<and>
       \<not> is_pad (dec_ch s') \<and> (\<exists>v<64. dec_decode s' = int v \<and>
         values_of unbase64 src = v # values_of unbase64 src' \<and> pads_of unbase64 src = pads_of unbase64 src')"
    using GET_INPUT_run [OF assms(4,3), of s] by blast
  have rep: "stands_for szdest full pend s'" by (rule stands_for_cong [OF assms(1) same])
  from got show ?thesis
  proof (elim disjE conjE exE)
    assume "GET_INPUT unbase64 n src s = Inr (src', s', True)" "dec_state s' = 4 - n" "dec_decode s' < 0"
      "stopped_at src [] src' (dec_ch s')"
    then show ?thesis
      unfolding reads_quad_def next_input_def using rep shorter assms(2,3)
      by (intro exI [of _ src'] exI [of _ s'] exI [of _ "[]"]) auto
  next
    fix v
    assume get: "GET_INPUT unbase64 n src s = Inr (src', s', False)" and "dec_state s' = dec_state s"
      and "n - 1 \<le> length src'" "\<not> is_pad (dec_ch s')" "v < 64" "dec_decode s' = int v"
      and scan: "values_of unbase64 src = v # values_of unbase64 src'" "pads_of unbase64 src = pads_of unbase64 src'"
    then have "reads_quad szdest full (pend @ [v]) src' (f src' s')"
      using step [OF rep, of v src'] assms(5) by simp
    then obtain src'' s'' vs where r: "stands_for szdest full ((pend @ [v]) @ vs) s''"
      "f src' s' = Inr (src'', s'', True) \<and> length src'' + length vs < length src' \<and>
         dec_state s'' = length ((pend @ [v]) @ vs) \<and> length ((pend @ [v]) @ vs) < 4 \<and> dec_decode s'' < 0 \<and>
         stopped_at src' vs src'' (dec_ch s'') \<or>
       f src' s' = Inr (src'', s'', False) \<and> length src'' + length vs \<le> length src' \<and>
         dec_state s'' = 0 \<and> length ((pend @ [v]) @ vs) = 4 \<and> 0 \<le> dec_decode s'' \<and> \<not> is_pad (dec_ch s'') \<and>
         values_of unbase64 src' = vs @ values_of unbase64 src'' \<and>
         pads_of unbase64 src' = pads_of unbase64 src''"
      unfolding reads_quad_def by blast
    have "next_input (GET_INPUT unbase64 n src s) f = f src' s'" by (simp add: next_input_def get)
    then show ?thesis
      unfolding reads_quad_def using r scan shorter
      by (intro exI [of _ src''] exI [of _ s''] exI [of _ "v # vs"]) (auto simp: stopped_at_def)
  qed
qed

lemma reads_quad_full:
  assumes "stands_for szdest full pend s" and "length pend = 4" and "dec_state s = 0"
    and "0 \<le> dec_decode s" and "\<not> is_pad (dec_ch s)"
  shows "reads_quad szdest full pend src (Inr (src, s, False))"
  unfolding reads_quad_def using assms by (intro exI [of _ src] exI [of _ s] exI [of _ "[]"]) simp

lemma shift_in_simps [simp]:
  "dec_state (shift_in s) = dec_state s" "dec_decode (shift_in s) = dec_decode s"
  "dec_ch (shift_in s) = dec_ch s"
  by (simp_all add: shift_in_def)

lemma slow_quad:
  assumes "stands_for szdest full [] s" and "4 \<le> length src" and "dec_state s = 0"
  shows "reads_quad szdest full [] src
    (next_input (GET_INPUT unbase64 4 src s) (\<lambda>src s.
     next_input (GET_INPUT unbase64 3 src (s\<lparr>dec_temp := word_of_int (dec_decode s)\<rparr>)) (\<lambda>src s.
     next_input (GET_INPUT unbase64 2 src (shift_in s)) (\<lambda>src s.
     next_input (GET_INPUT unbase64 1 src (shift_in s)) (\<lambda>src s. Inr (src, shift_in s, False))))))"
  using assms
  by (intro reads_quad_next reads_quad_full)
    (auto intro: stands_for_shift_in' simp: stands_for_first)

text \<open>The four values at once.\<close>

lemma quick_temp_bit:
  assumes "quick_temp unbase64 src AND 0x80000000 = 0" and "i < 4"
  shows "0 \<le> unbase64 ! unat (src ! i)"
proof (rule ccontr)
  assume "\<not> 0 \<le> unbase64 ! unat (src ! i)"
  then have neg: "unbase64 ! unat (src ! i) = - 1" using unbase64_range [of "src ! i"] by simp
  have "i \<in> {0, 1, 2, 3}" using assms(2) by auto
  then have "bit (quick_temp unbase64 src) 31"
    using neg by (elim insertE emptyE) (simp_all add: quick_temp_def bit_simps)
  then show False
    using assms(1) bit_iff_and_push_bit_not_eq_0 [of "quick_temp unbase64 src" 31] by simp
qed

lemma quick_temp_value:
  assumes "unbase64 ! unat (src ! 0) = int a" "unbase64 ! unat (src ! 1) = int b"
    "unbase64 ! unat (src ! 2) = int c" "unbase64 ! unat (src ! 3) = int d"
    and "a < 64" "b < 64" "c < 64" "d < 64"
  shows "unat (quick_temp unbase64 src) mod 64 ^ 4 = sextets [a, b, c, d]"
proof -
  have temp: "quick_temp unbase64 src =
      push_bit 6 (push_bit 6 (push_bit 6 (of_nat a) OR of_nat b) OR of_nat c) OR of_nat d"
    by (simp add: quick_temp_def assms(1-4) push_bit_or or.assoc del: One_nat_def)
  have "unat (of_nat a :: 32 word) mod 64 ^ 1 = a"
    using assms(5) by (simp add: unsigned_of_nat take_bit_nat_eq_self)
  from accumulate [OF accumulate [OF accumulate [OF this assms(6)] assms(7)] assms(8)]
  show ?thesis unfolding temp by (simp add: sextets_def)
qed

lemma get_quad_run:
  assumes "stands_for szdest full [] s" and "4 \<le> length src" and "dec_state s = 0"
    and "0 \<le> dec_decode s" and "\<not> is_pad (dec_ch s)"
  shows "reads_quad szdest full [] src (get_quad unbase64 src s)"
proof -
  let ?nulls = "src ! 0 = 0 \<or> src ! 1 = 0 \<or> src ! 2 = 0"
  let ?s = "if ?nulls then s else s\<lparr>dec_temp := quick_temp unbase64 src\<rparr>"
  have fresh: "stands_for szdest full [] ?s" "dec_state ?s = 0" using assms by (simp_all add: stands_for_fresh)
  show ?thesis
  proof (cases "?nulls \<or> dec_temp ?s AND 0x80000000 \<noteq> 0")
    case True
    then have "get_quad unbase64 src s = next_input (GET_INPUT unbase64 4 src ?s) (\<lambda>src s.
        next_input (GET_INPUT unbase64 3 src (s\<lparr>dec_temp := word_of_int (dec_decode s)\<rparr>)) (\<lambda>src s.
        next_input (GET_INPUT unbase64 2 src (shift_in s)) (\<lambda>src s.
        next_input (GET_INPUT unbase64 1 src (shift_in s)) (\<lambda>src s. Inr (src, shift_in s, False)))))"
      unfolding get_quad_def Let_def by (rule if_P)
    then show ?thesis using slow_quad [OF fresh(1) assms(2) fresh(2)] by simp
  next
    case False
    then have nulls: "\<not> ?nulls" by blast
    then have temp: "?s = s\<lparr>dec_temp := quick_temp unbase64 src\<rparr>" by (rule if_not_P)
    have quick: "quick_temp unbase64 src AND 0x80000000 = 0" using False unfolding temp by simp
    have run: "get_quad unbase64 src s = Inr (drop 4 src, s\<lparr>dec_temp := quick_temp unbase64 src\<rparr>, False)"
      unfolding get_quad_def Let_def using False temp by (simp only: if_False)
    have data: "\<exists>v<64. unbase64 ! unat (src ! i) = int v" if "i < 4" for i
      by (rule unbase64_int [OF quick_temp_bit [OF quick that]])
    obtain a where a: "a < 64" "unbase64 ! unat (src ! 0) = int a" using data [of 0] by auto
    obtain b where b: "b < 64" "unbase64 ! unat (src ! 1) = int b" using data [of 1] by auto
    obtain c where c: "c < 64" "unbase64 ! unat (src ! 2) = int c" using data [of 2] by auto
    obtain d where d: "d < 64" "unbase64 ! unat (src ! 3) = int d" using data [of 3] by auto
    note abcd = a(2) b(2) c(2) d(2) a(1) b(1) c(1) d(1)
    obtain c0 c1 c2 c3 src' where src: "src = c0 # c1 # c2 # c3 # src'"
      using assms(2) by (auto simp: Suc_le_length_iff numeral_eq_Suc)
    have "stands_for szdest full [a, b, c, d] (s\<lparr>dec_temp := quick_temp unbase64 src\<rparr>)"
      using assms(1) quick_temp_value [OF abcd] by (simp add: stands_for_def)
    moreover have "values_of unbase64 src = [a, b, c, d] @ values_of unbase64 src'"
      "pads_of unbase64 src = pads_of unbase64 src'"
      using abcd(1-4) by (simp_all add: src)
    ultimately show ?thesis
      unfolding run reads_quad_def using assms(3-5)
      by (intro exI [of _ src'] exI [of _ "s\<lparr>dec_temp := quick_temp unbase64 src\<rparr>"] exI [of _ "[a, b, c, d]"])
        (simp add: src)
  qed
qed

text \<open>
  The buffer has room: of \<open>n\<close> characters, three bytes for each group of four, and the rest.
\<close>

lemma room:
  assumes "quads full" and "length full + k \<le> n" and "k \<le> 4"
  shows "length (decode_values full) + (k - 1) \<le> 3 * (n div 4) + n mod 4"
proof -
  obtain q where q: "length full = 4 * q" using quads_mod [OF assms(1)] by (metis mod_0_imp_dvd dvd_def)
  have "length (decode_values full) = 3 * q" using q length_decode_values [OF assms(1)] by simp
  obtain d r where n: "n = 4 * d + r" "r < 4" "n div 4 = d" "n mod 4 = r"
    by (metis div_mult_mod_eq mod_less_divisor mult.commute zero_less_numeral)
  then have "3 * q + (k - 1) \<le> 3 * d + r" using assms(2,3) q by arith
  then show ?thesis using n \<open>length (decode_values full) = 3 * q\<close> by simp
qed

definition loop_done :: "nat \<Rightarrow> nat list \<Rightarrow> byte list \<Rightarrow> byte list \<Rightarrow> decoder \<Rightarrow> bool" where
  "loop_done szdest full src src' s' \<longleftrightarrow>
     (\<exists>full' pend vs. stands_for szdest full' pend s' \<and> dec_state s' = length pend \<and> length pend < 4 \<and>
        full' @ pend = full @ vs \<and>
        length vs + length src' + (if dec_decode s' < 0 then 1 else 0) \<le> length src \<and>
        (if dec_decode s' < 0 then stopped_at src vs src' (dec_ch s')
         else \<not> is_pad (dec_ch s') \<and> values_of unbase64 src = vs @ values_of unbase64 src' \<and>
           pads_of unbase64 src = pads_of unbase64 src'))"

lemma quad_loop_run:
  assumes "stands_for szdest full [] s" and "dec_state s = 0" and "0 \<le> dec_decode s"
    and "\<not> is_pad (dec_ch s)" and "length full + length src \<le> n"
    and "szdest = 3 * (n div 4) + n mod 4"
  shows "\<exists>src' s'. quad_loop unbase64 szdest src s = Inr (Some (src', s')) \<and>
    loop_done szdest full src src' s'"
  using assms(1-5)
proof (induction "length src" arbitrary: src s full rule: less_induct)
  case less
  show ?case
  proof (cases "4 \<le> length src")
    case False
    then have "quad_loop unbase64 szdest src s = Inr (Some (src, s))" by (simp add: quad_loop.simps)
    moreover have "loop_done szdest full src src s"
      unfolding loop_done_def using less.prems
      by (intro exI [of _ full] exI [of _ "[]"] exI [of _ "[]"]) simp
    ultimately show ?thesis by blast
  next
    case True
    obtain src' s' vs where rep: "stands_for szdest full vs s'"
      and got: "get_quad unbase64 src s = Inr (src', s', True) \<and> length src' + length vs < length src \<and>
           dec_state s' = length vs \<and> length vs < 4 \<and> dec_decode s' < 0 \<and> stopped_at src vs src' (dec_ch s') \<or>
         get_quad unbase64 src s = Inr (src', s', False) \<and> length src' + length vs \<le> length src \<and>
           dec_state s' = 0 \<and> length vs = 4 \<and> 0 \<le> dec_decode s' \<and> \<not> is_pad (dec_ch s') \<and>
           values_of unbase64 src = vs @ values_of unbase64 src' \<and> pads_of unbase64 src = pads_of unbase64 src'"
      using get_quad_run [OF less.prems(1) True less.prems(2-4)] unfolding reads_quad_def by auto
    from got show ?thesis
    proof (elim disjE conjE)
      assume stop: "get_quad unbase64 src s = Inr (src', s', True)" "length src' + length vs < length src"
        "dec_state s' = length vs" "length vs < 4" "dec_decode s' < 0" "stopped_at src vs src' (dec_ch s')"
      then have "quad_loop unbase64 szdest src s = Inr (Some (src', s'))"
        using True by (simp add: quad_loop.simps)
      moreover have "loop_done szdest full src src' s'"
        unfolding loop_done_def using rep stop
        by (intro exI [of _ full] exI [of _ vs] exI [of _ vs]) simp
      ultimately show ?thesis by blast
    next
      assume go: "get_quad unbase64 src s = Inr (src', s', False)" "length src' + length vs \<le> length src"
        "dec_state s' = 0" "length vs = 4" "0 \<le> dec_decode s'" "\<not> is_pad (dec_ch s')"
        and scan: "values_of unbase64 src = vs @ values_of unbase64 src'" "pads_of unbase64 src = pads_of unbase64 src'"
      have "quads full" using rep by (simp add: stands_for_def)
      then have "length (decode_values full) + 3 \<le> szdest"
        using room [of full 4 n] less.prems(5) go(2,4) assms(6) by simp
      then have space: "dec_destidx s' + 3 \<le> szdest" using rep by (simp add: stands_for_def)
      have "dec_state (put_three s') = 0" "0 \<le> dec_decode (put_three s')" "\<not> is_pad (dec_ch (put_three s'))"
        using go by (simp_all add: put_three_def Let_def)
      moreover have "length (full @ vs) + length src' \<le> n" using go(2) less.prems(5) by simp
      ultimately obtain src'' s'' where run: "quad_loop unbase64 szdest src' (put_three s') = Inr (Some (src'', s''))"
        and after: "loop_done szdest (full @ vs) src' src'' s''"
        using less.hyps [OF _ stands_for_put_three [OF rep go(4) space]] go(2,4) by force
      have "quad_loop unbase64 szdest src s = Inr (Some (src'', s''))"
        using True go(1) space run by (subst quad_loop.simps) simp
      moreover from after obtain full' pend ws where
        "stands_for szdest full' pend s''" "dec_state s'' = length pend" "length pend < 4"
        "full' @ pend = (full @ vs) @ ws"
        "length ws + length src'' + (if dec_decode s'' < 0 then 1 else 0) \<le> length src'"
        "if dec_decode s'' < 0 then stopped_at src' ws src'' (dec_ch s'')
         else \<not> is_pad (dec_ch s'') \<and> values_of unbase64 src' = ws @ values_of unbase64 src'' \<and>
           pads_of unbase64 src' = pads_of unbase64 src''"
        unfolding loop_done_def by blast
      then have "loop_done szdest full src src'' s''"
        unfolding loop_done_def using go(2) scan
        by (intro exI [of _ full'] exI [of _ pend] exI [of _ "vs @ ws"]) (auto simp: stopped_at_def split: if_splits)
      ultimately show ?thesis by blast
    qed
  qed
qed

lemma rest_loop_run:
  assumes "stands_for szdest full pend s" and "dec_state s = length pend" and "length pend < 4"
    and "length full + length pend + length src \<le> n" and "szdest = 3 * (n div 4) + n mod 4"
  shows "rest_loop unbase64 szdest src s = None \<and> \<not> list_all is_pad (pads_of unbase64 src) \<or>
    (\<exists>src' s' full' pend'. rest_loop unbase64 szdest src s = Some (src', s') \<and>
       stands_for szdest full' pend' s' \<and> dec_state s' = length pend' \<and> length pend' < 4 \<and>
       full' @ pend' = full @ pend @ values_of unbase64 src \<and>
       pads_of unbase64 src = no_space src' \<and> length full' + length pend' \<le> n)"
  using assms(1-4)
proof (induction src arbitrary: s full pend)
  case Nil
  then show ?case by (intro disjI2 exI [of _ "[]"] exI [of _ s] exI [of _ full] exI [of _ pend]) simp
next
  case (Cons ch src)
  let ?s = "s\<lparr>dec_ch := ch, dec_decode := unbase64 ! unat ch\<rparr>"
  have rep: "stands_for szdest full pend ?s" by (rule stands_for_cong [OF Cons.prems(1)]) simp_all
  consider (data) v where "v < 64" "unbase64 ! unat ch = int v"
    | (skip) "unbase64 ! unat ch < 0" "ascii_isspace ch"
    | (stop) "unbase64 ! unat ch < 0" "\<not> ascii_isspace ch"
    using unbase64_int [of ch] by force
  then show ?case
  proof cases
    case skip
    then have "rest_loop unbase64 szdest (ch # src) s = rest_loop unbase64 szdest src ?s" by simp
    then show ?thesis using Cons.IH [OF rep] Cons.prems skip by simp
  next
    case stop
    show ?thesis
    proof (cases "is_pad ch")
      case True
      with stop have "rest_loop unbase64 szdest (ch # src) s = Some (ch # src, ?s)"
        "no_space (ch # src) = ch # no_space src"
        by (simp_all add: no_space_def)
      then show ?thesis
        using stop rep Cons.prems
        by (intro disjI2 exI [of _ "ch # src"] exI [of _ ?s] exI [of _ full] exI [of _ pend]) simp
    qed (use stop in simp)
  next
    case data
    let ?t = "(shift_in ?s)\<lparr>dec_state := dec_state s + 1\<rparr>"
    have t: "stands_for szdest full (pend @ [v]) ?t"
      using stands_for_shift_in [OF rep _ data(1) Cons.prems(3)] data(2)
      by (auto intro: stands_for_cong)
    show ?thesis
    proof (cases "length pend = 3")
      case True
      have "quads full" using t by (simp add: stands_for_def)
      then have "length (decode_values full) + 3 \<le> szdest"
        using room [of full 4 n] Cons.prems(4) True assms(5) by simp
      then have space: "dec_destidx ?t + 3 \<le> szdest" using t by (simp add: stands_for_def)
      let ?u = "(put_three ?t)\<lparr>dec_state := 0, dec_temp := 0\<rparr>"
      have u: "stands_for szdest (full @ pend @ [v]) [] ?u"
        using stands_for_put_three [OF t _ space] True by (auto simp: stands_for_def)
      have "rest_loop unbase64 szdest (ch # src) s = rest_loop unbase64 szdest src ?u"
        using data space Cons.prems(2) True by simp
      then show ?thesis using Cons.IH [OF u] Cons.prems(4) data True by simp
    next
      case False
      then have "rest_loop unbase64 szdest (ch # src) s = rest_loop unbase64 szdest src ?t"
        using data Cons.prems(2) by simp
      then show ?thesis using Cons.IH [OF t] Cons.prems data False by simp
    qed
  qed
qed

lemma take_one: "i < length xs \<Longrightarrow> take (Suc i) (xs[i := x]) = take i xs @ [x]"
  by (simp add: take_Suc_conv_app_nth)

lemma take_two: "Suc i < length xs \<Longrightarrow> take (Suc (Suc i)) (xs[Suc i := y, i := x]) = take i xs @ [x, y]"
  by (rule nth_equalityI) (auto simp: nth_append nth_list_update nth_Cons' not_less)

lemma leftover_run:
  assumes rep: "stands_for szdest full pend s" and "dec_state s = length pend" and "length pend < 4"
    and "length full + length pend \<le> n" and "szdest = 3 * (n div 4) + n mod 4"
  shows "if length pend = 1 then leftover szdest s = Inr None
    else \<exists>s'. leftover szdest s = Inr (Some (s', (4 - length pend) mod 4)) \<and>
      dec_destidx s' = length (decode_values (full @ pend)) \<and> dec_destidx s' \<le> szdest \<and>
      take (dec_destidx s') (dec_dest s') = decode_values (full @ pend)"
proof -
  have full: "quads full" "dec_destidx s = length (decode_values full)" "length (dec_dest s) = szdest"
    "take (length (decode_values full)) (dec_dest s) = decode_values full"
    and temp: "unat (dec_temp s) mod 64 ^ length pend = sextets pend"
    using rep by (simp_all add: stands_for_def)
  have space: "length (decode_values full) + (length pend - 1) \<le> szdest"
    using room [OF full(1), of "length pend" n] assms(3-5) by simp
  consider "pend = []" | a where "pend = [a]" | a b where "pend = [a, b]" | a b c where "pend = [a, b, c]"
    using assms(3) by (auto simp: less_Suc_eq length_Suc_conv numeral_eq_Suc)
  then show ?thesis
  proof cases
    case 3
    have "(ucast (drop_bit 4 (dec_temp s)) :: byte) = of_nat (sextets pend div 16)"
      using cut_byte [of "dec_temp s" 4 1 "sextets pend"] temp 3 by simp
    then show ?thesis
      using full space 3 assms(2) by (simp add: leftover_def decode_values_append take_one Let_def)
  next
    case 4
    have "(ucast (drop_bit 2 (dec_temp s)) :: byte) = of_nat (sextets pend div 4)"
      "(ucast (drop_bit 8 (drop_bit 2 (dec_temp s))) :: byte) = of_nat (sextets pend div 1024)"
      using cut_byte [of "dec_temp s" 2 256 "sextets pend"] cut_byte [of "dec_temp s" 10 1 "sextets pend"] temp 4
      by simp_all
    then show ?thesis
      using full space 4 assms(2) by (simp add: leftover_def decode_values_append take_two Let_def)
  qed (use full assms(2) space in \<open>simp_all add: leftover_def\<close>)
qed

lemma pad_not_space: "is_pad c \<Longrightarrow> \<not> ascii_isspace c"
  by (auto simp: is_pad_def ascii_isspace_iff)

lemma count_pads_eq:
  "count_pads src k = (if list_all is_pad (no_space src) then Some (k + length (no_space src)) else None)"
  by (induction src arbitrary: k) (auto simp: no_space_def pad_not_space)

lemma finish_run:
  assumes rep: "stands_for szdest full pend s" and "dec_state s = length pend" and "length pend < 4"
    and "length full + length pend \<le> n" and "szdest = 3 * (n div 4) + n mod 4"
    and scan: "values_of unbase64 src = full @ pend" "pads_of unbase64 src = no_space src'"
    and base: "base64_decode unbase64 src = d"
  shows "\<exists>len dest. len \<le> szdest \<and>
    (case leftover szdest s of
       Inl e \<Rightarrow> Inl e
     | Inr None \<Rightarrow> Inr None
     | Inr (Some (s, expected_equals)) \<Rightarrow>
         (case count_pads src' 0 of
            None \<Rightarrow> Inr None
          | Some equals \<Rightarrow> Inr (if equals = 0 \<or> equals = expected_equals
              then Some (dec_destidx s, dec_dest s) else None))) =
    Inr (if fst d then Some (len, dest) else None) \<and> (if fst d then take len dest = snd d else snd d = [])"
proof -
  have len: "length (values_of unbase64 src) mod 4 = length pend"
    using quads_mod [of full] rep assms(3) unfolding scan(1) by (simp add: stands_for_def mod_add_eq [symmetric])
  have fst: "fst d \<longleftrightarrow> list_all is_pad (no_space src') \<and> length pend \<noteq> 1 \<and>
      (no_space src' = [] \<or> length (no_space src') = (4 - length pend) mod 4)"
    and snd: "snd d = (if fst d then decode_values (full @ pend) else [])"
    unfolding base [symmetric] base64_decode_def Let_def len scan(2) by (simp_all add: scan(1))
  show ?thesis
  proof (cases "length pend = 1")
    case True
    then have "leftover szdest s = Inr None" using leftover_run [OF assms(1-5)] by simp
    then show ?thesis using fst snd True by (intro exI [of _ 0]) simp
  next
    case False
    then obtain s' where "leftover szdest s = Inr (Some (s', (4 - length pend) mod 4))"
      "dec_destidx s' \<le> szdest" "take (dec_destidx s') (dec_dest s') = decode_values (full @ pend)"
      using leftover_run [OF assms(1-5)] by auto
    then show ?thesis
      using fst snd False by (intro exI [of _ "dec_destidx s'"] exI [of _ "dec_dest s'"]) (simp add: count_pads_eq)
  qed
qed

lemma Base64UnescapeBuffer_run:
  assumes "length dest = 3 * (length src div 4) + length src mod 4"
  shows "\<exists>len dest'. len \<le> length dest \<and>
    Base64UnescapeBuffer src dest unbase64 =
      Inr (if fst (base64_decode unbase64 src) then Some (len, dest') else None) \<and>
    (if fst (base64_decode unbase64 src) then take len dest' = snd (base64_decode unbase64 src)
     else snd (base64_decode unbase64 src) = [])"
proof -
  let ?sz = "length dest" and ?d = "base64_decode unbase64 src"
  let ?s = "\<lparr>dec_destidx = 0, dec_decode = 0, dec_state = 0, dec_ch = 0, dec_temp = 0, dec_dest = dest\<rparr>"
  have "stands_for ?sz [] [] ?s" by (simp add: stands_for_def)
  moreover have "\<not> is_pad 0" by (simp add: is_pad_def)
  ultimately obtain src' s' where loop: "quad_loop unbase64 ?sz src ?s = Inr (Some (src', s'))"
    and after: "loop_done ?sz [] src src' s'"
    using quad_loop_run [of ?sz "[]" ?s src "length src"] assms by auto
  obtain full pend where rep: "stands_for ?sz full pend s'" "dec_state s' = length pend" "length pend < 4"
    and size: "length full + length pend + length src' + (if dec_decode s' < 0 then 1 else 0) \<le> length src"
    and scan: "if dec_decode s' < 0 then stopped_at src (full @ pend) src' (dec_ch s')
      else \<not> is_pad (dec_ch s') \<and> values_of unbase64 src = (full @ pend) @ values_of unbase64 src' \<and>
        pads_of unbase64 src = pads_of unbase64 src'"
    using after unfolding loop_done_def by (auto simp: length_append [symmetric] simp del: length_append)
  let ?finish = "\<lambda>src s. (case leftover ?sz s of
       Inl e \<Rightarrow> Inl e
     | Inr None \<Rightarrow> Inr None
     | Inr (Some (s, expected_equals)) \<Rightarrow>
         (case count_pads src 0 of
            None \<Rightarrow> Inr None
          | Some equals \<Rightarrow> Inr (if equals = 0 \<or> equals = expected_equals
              then Some (dec_destidx s, dec_dest s) else None)))"
  consider (bad) "dec_decode s' < 0" "\<not> is_pad (dec_ch s')" "\<not> ascii_isspace (dec_ch s')"
    | (pad) "is_pad (dec_ch s')" "values_of unbase64 src = full @ pend" "pads_of unbase64 src = dec_ch s' # no_space src'"
    | (more) "\<not> is_pad (dec_ch s')" "dec_decode s' < 0 \<longrightarrow> ascii_isspace (dec_ch s')"
        "values_of unbase64 src = (full @ pend) @ values_of unbase64 src'" "pads_of unbase64 src = pads_of unbase64 src'"
    using scan pad_not_space by (fastforce simp: stopped_at_def split: if_splits)
  then show ?thesis
  proof cases
    case bad
    then have "pads_of unbase64 src = dec_ch s' # no_space src'" using scan by (simp add: stopped_at_def)
    then have "?d = (False, [])" using bad(2) by (simp add: base64_decode_def)
    moreover have "Base64UnescapeBuffer src dest unbase64 = Inr None"
      using bad unfolding Base64UnescapeBuffer_def Let_def loop by simp
    ultimately show ?thesis by auto
  next
    case pad
    have "pads_of unbase64 src = no_space (dec_ch s' # src')"
      using pad pad_not_space [OF pad(1)] by (simp add: no_space_def)
    moreover have "Base64UnescapeBuffer src dest unbase64 = ?finish (dec_ch s' # src') s'"
      using pad(1) unfolding Base64UnescapeBuffer_def Let_def loop by simp
    ultimately show ?thesis
      using finish_run [OF rep _ assms pad(2) _ refl] size by simp
  next
    case more
    have code: "Base64UnescapeBuffer src dest unbase64 =
        (case rest_loop unbase64 ?sz src' s' of None \<Rightarrow> Inr None | Some (src, s) \<Rightarrow> ?finish src s)"
      using more unfolding Base64UnescapeBuffer_def Let_def loop by auto
    have fits: "length full + length pend + length src' \<le> length src" using size by simp
    from rest_loop_run [OF rep fits assms] show ?thesis
    proof (elim disjE exE conjE)
      assume "rest_loop unbase64 ?sz src' s' = None" "\<not> list_all is_pad (pads_of unbase64 src')"
      then show ?thesis unfolding code using more(4) by (auto simp: base64_decode_def)
    next
      fix src'' s'' full' pend'
      assume "rest_loop unbase64 ?sz src' s' = Some (src'', s'')" "pads_of unbase64 src' = no_space src''"
        "full' @ pend' = full @ pend @ values_of unbase64 src'"
        and r: "stands_for ?sz full' pend' s''" "dec_state s'' = length pend'" "length pend' < 4"
        "length full' + length pend' \<le> length src"
      then show ?thesis unfolding code using finish_run [OF r assms _ _ refl, of src src''] more(3,4) by simp
    qed
  qed
qed

lemma length_resize [simp]: "length (resize n s) = n"
  by (simp add: resize_def)

lemma Base64UnescapeInternal_eq:
  "Base64UnescapeInternal src dest unbase64 = Inr (base64_decode unbase64 src)"
  using Base64UnescapeBuffer_run [of "resize (3 * (length src div 4) + length src mod 4) dest" src]
  by (cases "base64_decode unbase64 src") (auto simp: Base64UnescapeInternal_def Let_def split: if_splits)

lemma base64_decode_encode: "base64_decode unbase64 (base64_encode base64 do_padding src) = (True, src)"
proof -
  let ?data = "map (\<lambda>v. base64 ! v) (sextets_of src)"
  let ?pads = "if do_padding then replicate ((3 - length src mod 3) mod 3) kPad64 else []"
  have data: "unbase64 ! unat c = int v \<Longrightarrow> \<not> ascii_isspace c" for c v
    using unbase64_skipped [of c] by auto
  have dec: "v \<in> set (sextets_of src) \<Longrightarrow> unbase64 ! unat (base64 ! v) = int v" for v
    by (rule unbase64_base64 [OF sextets_of_less])
  have pad: "is_pad kPad64" "\<not> ascii_isspace kPad64" "unbase64 ! unat kPad64 = - 1"
    using unbase64_skipped [of kPad64] by (simp_all add: is_pad_def kPad64_def ascii_isspace_iff)
  have no_space: "no_space (?data @ ?pads) = ?data @ ?pads"
    unfolding no_space_def filter_append using pad(2) data [OF dec]
    by (auto simp: filter_id_conv)
  have "takeWhile (\<lambda>c. 0 \<le> unbase64 ! unat c) (?data @ ?pads) = ?data"
    "dropWhile (\<lambda>c. 0 \<le> unbase64 ! unat c) (?data @ ?pads) = ?pads"
    using dec pad(3) by (subst takeWhile_append2 dropWhile_append2; force)+
  then have "values_of unbase64 (?data @ ?pads) = sextets_of src" "pads_of unbase64 (?data @ ?pads) = ?pads"
    unfolding values_of_def data_of_def pads_of_def no_space
    using dec by (simp_all add: map_idI)
  moreover have "length src mod 3 \<in> {0, 1, 2}" by auto
  ultimately show ?thesis
    using pad(1) length_sextets_of [of src]
    by (auto simp: base64_decode_def base64_encode_def decode_sextets Let_def list_all_iff)
qed

end

section \<open>Both alphabets\<close>

lemma byte_cases_skipped:
  assumes "ascii_isspace c \<or> is_pad c \<or> c = 0"
  shows "unat c \<in> {0, 9, 10, 11, 12, 13, 32, 46, 61}"
  using assms by (auto simp: ascii_isspace_iff is_pad_def)

lemma tables_decode:
  "list_all (\<lambda>i. kUnBase64 ! unat (kBase64Chars ! i) = int i) [0..<64]"
  "list_all (\<lambda>i. kUnWebSafeBase64 ! unat (kWebSafeBase64Chars ! i) = int i) [0..<64]"
  by (simp_all add: kUnBase64_def kBase64Chars_def kUnWebSafeBase64_def kWebSafeBase64Chars_def upt_conv_Cons)

lemma tables_range:
  "list_all (\<lambda>v. - 1 \<le> v \<and> v < 64) kUnBase64" "list_all (\<lambda>v. - 1 \<le> v \<and> v < 64) kUnWebSafeBase64"
  "length kUnBase64 = 256" "length kUnWebSafeBase64 = 256"
  by (simp_all add: kUnBase64_def kUnWebSafeBase64_def)

lemma tables_skipped:
  "n \<in> {0, 9, 10, 11, 12, 13, 32, 46, 61} \<Longrightarrow> kUnBase64 ! n = - 1 \<and> kUnWebSafeBase64 ! n = - 1"
  by (elim insertE emptyE) (simp_all add: kUnBase64_def kUnWebSafeBase64_def)

interpretation std64: base64_alphabet kBase64Chars kUnBase64
proof unfold_locales
  show "length kBase64Chars = 64" by (simp add: kBase64Chars_def)
  show "i < 64 \<Longrightarrow> kUnBase64 ! unat (kBase64Chars ! i) = int i" for i
    using tables_decode(1) by (simp add: list_all_iff)
  show "- 1 \<le> kUnBase64 ! unat c \<and> kUnBase64 ! unat c < 64" for c :: byte
    using tables_range by (simp add: list_all_length)
  show "ascii_isspace c \<or> is_pad c \<or> c = 0 \<Longrightarrow> kUnBase64 ! unat c = - 1" for c
    using tables_skipped [OF byte_cases_skipped] by simp
qed

interpretation web64: base64_alphabet kWebSafeBase64Chars kUnWebSafeBase64
proof unfold_locales
  show "length kWebSafeBase64Chars = 64" by (simp add: kWebSafeBase64Chars_def)
  show "i < 64 \<Longrightarrow> kUnWebSafeBase64 ! unat (kWebSafeBase64Chars ! i) = int i" for i
    using tables_decode(2) by (simp add: list_all_iff)
  show "- 1 \<le> kUnWebSafeBase64 ! unat c \<and> kUnWebSafeBase64 ! unat c < 64" for c :: byte
    using tables_range by (simp add: list_all_length)
  show "ascii_isspace c \<or> is_pad c \<or> c = 0 \<Longrightarrow> kUnWebSafeBase64 ! unat c = - 1" for c
    using tables_skipped [OF byte_cases_skipped] by simp
qed

lemma length_base64_encode:
  "length (base64_encode base64 do_padding src) = base64_len (length src) do_padding"
proof -
  have "length (sextets_of src) = base64_len (length src) False"
  proof (induction src rule: sextets_of.induct)
    case (1 a b c src)
    then show ?case
      using div_add_self1 [of 3 "length src"] by (simp add: base64_len_def Let_def)
  qed (simp_all add: base64_len_def Let_def)
  moreover have "length src mod 3 \<in> {0, 1, 2}" by auto
  ultimately show ?thesis
    by (auto simp: base64_encode_def base64_len_def)
qed

lemma CalculateBase64EscapedLenInternal_eq:
  "CalculateBase64EscapedLenInternal n do_padding = Inr (base64_len n do_padding)"
  using escaped_len_large [of n do_padding] by (simp add: CalculateBase64EscapedLenInternal_def)

lemma Base64EscapeInternal_eq:
  "Base64EscapeInternal src dest do_padding base64 = Inr (base64_encode base64 do_padding src)"
proof -
  have "Base64EscapeBuffer src (resize (base64_len (length src) do_padding) dest) base64 do_padding =
      (base64_len (length src) do_padding, base64_encode base64 do_padding src)"
    by (subst Base64EscapeBuffer_run) simp_all
  then show ?thesis
    by (simp add: Base64EscapeInternal_def CalculateBase64EscapedLenInternal_eq length_base64_encode)
qed

text \<open>
  Claim C21. The decoder, with its fast path for four data bytes, its slow path that skips white
  space and its clean-up loop, computes the reference decoding for both alphabets, and never
  reads behind the source or runs into its fatal state.
\<close>

theorem Base64Unescape_reference:
  "Base64Unescape src dest = Inr (base64_decode kUnBase64 src) \<and>
   WebSafeBase64Unescape src dest = Inr (base64_decode kUnWebSafeBase64 src)"
  by (simp add: Base64Unescape_def WebSafeBase64Unescape_def std64.Base64UnescapeInternal_eq
      web64.Base64UnescapeInternal_eq)

text \<open>
  The encoder fills exactly the buffer whose size is computed in advance, with the
  reference encoding, padded for the standard alphabet and not for the web-safe one.
\<close>

theorem Base64Escape_reference:
  "Base64Escape src dest = Inr (base64_encode kBase64Chars True src) \<and>
   WebSafeBase64Escape src dest = Inr (base64_encode kWebSafeBase64Chars False src) \<and>
   CalculateBase64EscapedLenInternal (length src) True = Inr (length (base64_encode kBase64Chars True src)) \<and>
   CalculateBase64EscapedLenInternal (length src) False = Inr (length (base64_encode kWebSafeBase64Chars False src))"
  by (simp add: Base64Escape_def WebSafeBase64Escape_def Base64EscapeInternal_eq
      CalculateBase64EscapedLenInternal_eq length_base64_encode)

text \<open>
  Claim C22. Encoding a string passes its assertions, and decoding the result succeeds and gives the string back, for both alphabets
  and every string of bytes, whatever the destinations held before.
\<close>

theorem Base64_roundtrip:
  "(\<exists>enc. Base64Escape src dest = Inr enc \<and> Base64Unescape enc dest' = Inr (True, src)) \<and>
   (\<exists>enc. WebSafeBase64Escape src dest = Inr enc \<and> WebSafeBase64Unescape enc dest' = Inr (True, src))"
  by (simp add: Base64Unescape_def WebSafeBase64Unescape_def Base64Escape_def WebSafeBase64Escape_def
      Base64EscapeInternal_eq std64.Base64UnescapeInternal_eq web64.Base64UnescapeInternal_eq
      std64.base64_decode_encode web64.base64_decode_encode)

end
