(* ===== verification/Bits.thy ===== *)
theory Bits
  imports Prelude
begin

text \<open>
  Counting zero bits, \<open>absl/base/internal/bits.h\<close>: the portable versions, which search by halves and
  end in a table or in masks, and the versions that call the compiler's builtins
  (\<open>__builtin_clzll\<close> and \<open>__builtin_ctzll\<close> count the zeros above the highest and below the lowest set bit, and
  are not called with 0).
\<close>

section \<open>Counting zeros\<close>

text \<open>\<open>if (n >> k) { zeroes -= k; n >>= k; }\<close>\<close>

definition clz_halve :: "nat \<Rightarrow> int \<times> 64 word \<Rightarrow> int \<times> 64 word" where
  "clz_halve k = (\<lambda>(zeroes, n).
     if drop_bit k n \<noteq> 0 then (zeroes - int k, drop_bit k n) else (zeroes, n))"

text \<open>The table is a string literal of 15 characters; its last entry is the terminator.\<close>

definition clz_table :: "int list" where
  "clz_table = [4, 3, 2, 2, 1, 1, 1, 1, 0, 0, 0, 0, 0, 0, 0, 0]"

definition CountLeadingZeros64Slow :: "64 word \<Rightarrow> int" where
  "CountLeadingZeros64Slow n =
     (let (zeroes, n) = clz_halve 4 (clz_halve 8 (clz_halve 16 (clz_halve 32 (60, n))))
      in clz_table ! unat n + zeroes)"

definition CountLeadingZeros32Slow :: "64 word \<Rightarrow> int" where
  "CountLeadingZeros32Slow n =
     (let (zeroes, n) = clz_halve 4 (clz_halve 8 (clz_halve 16 (28, n)))
      in clz_table ! unat n + zeroes)"

fun bit_length :: "nat \<Rightarrow> nat" where
  "bit_length n = (if n = 0 then 0 else Suc (bit_length (n div 2)))"

declare bit_length.simps [simp del]

definition builtin_clz :: "'a::len word \<Rightarrow> int" where
  "builtin_clz n = int (LENGTH('a)) - int (bit_length (unat n))"

definition CountLeadingZeros64 :: "64 word \<Rightarrow> int" where
  "CountLeadingZeros64 n = (if n = 0 then 64 else builtin_clz n)"

definition CountLeadingZeros32 :: "32 word \<Rightarrow> int" where
  "CountLeadingZeros32 n = (if n = 0 then 32 else builtin_clz n)"

text \<open>\<open>if (n & mask) c -= k;\<close>\<close>

definition ctz_mask :: "'a::len word \<Rightarrow> 'a word \<Rightarrow> int \<Rightarrow> int \<Rightarrow> int" where
  "ctz_mask n m k c = (if n AND m \<noteq> 0 then c - k else c)"

definition CountTrailingZerosNonZero64Slow :: "64 word \<Rightarrow> int" where
  "CountTrailingZerosNonZero64Slow n =
     (let n = n AND (NOT n + 1)
      in ctz_mask n 0x5555555555555555 1 (ctz_mask n 0x3333333333333333 2
        (ctz_mask n 0x0F0F0F0F0F0F0F0F 4 (ctz_mask n 0x00FF00FF00FF00FF 8
        (ctz_mask n 0x0000FFFF0000FFFF 16 (ctz_mask n 0x00000000FFFFFFFF 32 63))))))"

definition CountTrailingZerosNonZero32Slow :: "32 word \<Rightarrow> int" where
  "CountTrailingZerosNonZero32Slow n =
     (let n = n AND (NOT n + 1)
      in ctz_mask n 0x55555555 1 (ctz_mask n 0x33333333 2
        (ctz_mask n 0x0F0F0F0F 4 (ctz_mask n 0x00FF00FF 8 (ctz_mask n 0x0000FFFF 16 31)))))"

section \<open>The length of a number in bits\<close>

lemma bit_length_0 [simp]: "bit_length 0 = 0"
  by (simp add: bit_length.simps)

lemma bit_length_le_iff: "bit_length n \<le> k \<longleftrightarrow> n < 2 ^ k"
proof (induction n arbitrary: k rule: bit_length.induct)
  case (1 n)
  show ?case
  proof (cases "n = 0 \<or> k = 0")
    case True
    then show ?thesis by (auto simp: bit_length.simps [of n])
  next
    case False
    then obtain j where "k = Suc j" using not0_implies_Suc by blast
    with 1 False show ?thesis
      by (simp add: bit_length.simps [of n] less_mult_imp_div_less div_less_iff_less_mult mult.commute)
  qed
qed

lemma less_two_bit_length: "n < 2 ^ bit_length n"
  using bit_length_le_iff [of n "bit_length n"] by simp

lemma two_bit_length_le: "n \<noteq> 0 \<Longrightarrow> 2 ^ (bit_length n - 1) \<le> n"
  using bit_length_le_iff [of n "bit_length n - 1"] bit_length_le_iff [of n 0]
  by (cases "bit_length n") auto

lemma bit_length_div: "bit_length (n div 2 ^ k) = bit_length n - k"
proof (induction k arbitrary: n)
  case (Suc k)
  have "n div 2 ^ Suc k = n div 2 div 2 ^ k" by (simp add: div_mult2_eq)
  then have "bit_length (n div 2 ^ Suc k) = bit_length (n div 2) - k" by (simp only: Suc)
  also have "\<dots> = bit_length n - Suc k" by (cases "n = 0") (simp_all add: bit_length.simps [of n])
  finally show ?case .
qed simp

lemma bit_length_word: "bit_length (unat (w :: 'a::len word)) \<le> LENGTH('a)"
  by (simp add: bit_length_le_iff)

section \<open>Leading zeros\<close>

lemma clz_halve:
  assumes "clz_halve k (zeroes, n) = (zeroes', n')" and "unat n < 2 ^ (k + k)"
  shows "unat n' < 2 ^ k \<and> zeroes' - int (bit_length (unat n')) = zeroes - int (bit_length (unat n))"
proof (cases "drop_bit k n = 0")
  case True
  then have "unat n div 2 ^ k = 0" by (simp only: unsigned_0 flip: unat_drop_bit_eq drop_bit_eq_div)
  then have "unat n < 2 ^ k" by (simp add: div_eq_0_iff)
  with True assms show ?thesis by (simp add: clz_halve_def)
next
  case False
  then have "unat n div 2 ^ k \<noteq> 0" by (simp only: unat_eq_0 not_False_eq_True flip: unat_drop_bit_eq drop_bit_eq_div)
  then have "\<not> unat n < 2 ^ k" by (simp add: div_eq_0_iff)
  then have "k \<le> bit_length (unat n)"
    using bit_length_le_iff [of "unat n" k] by simp
  moreover have "unat n div 2 ^ k < 2 ^ k"
    using assms(2) by (simp add: power_add less_mult_imp_div_less)
  moreover have "zeroes' = zeroes - int k" "n' = drop_bit k n"
    using False assms(1) by (auto simp: clz_halve_def)
  ultimately show ?thesis
    by (simp only: unat_drop_bit_eq) (simp add: drop_bit_eq_div bit_length_div)
qed

lemma clz_table:
  assumes "unat n < 2 ^ 4"
  shows "clz_table ! unat n = 4 - int (bit_length (unat n))"
proof -
  have "unat n \<in> set [0..<16]" using assms by simp
  moreover have "\<forall>k \<in> set [0..<16]. clz_table ! k = 4 - int (bit_length k)" by code_simp
  ultimately show ?thesis by blast
qed

lemma CountLeadingZeros64Slow_eq: "CountLeadingZeros64Slow n = 64 - int (bit_length (unat n))"
proof -
  obtain z1 n1 where 1: "clz_halve 32 (60, n) = (z1, n1)" by (metis surj_pair)
  obtain z2 n2 where 2: "clz_halve 16 (z1, n1) = (z2, n2)" by (metis surj_pair)
  obtain z3 n3 where 3: "clz_halve 8 (z2, n2) = (z3, n3)" by (metis surj_pair)
  obtain z4 n4 where 4: "clz_halve 4 (z3, n3) = (z4, n4)" by (metis surj_pair)
  have n: "unat n < 2 ^ (32 + 32)" using unsigned_less [of n] by simp
  note a = clz_halve [OF 1 n]
  then have "unat n1 < 2 ^ (16 + 16)" by simp
  note b = clz_halve [OF 2 this]
  then have "unat n2 < 2 ^ (8 + 8)" by simp
  note c = clz_halve [OF 3 this]
  then have "unat n3 < 2 ^ (4 + 4)" by simp
  note d = clz_halve [OF 4 this]
  show ?thesis
    using a b c d clz_table [of n4] by (simp add: CountLeadingZeros64Slow_def 1 2 3 4)
qed

lemma CountLeadingZeros32Slow_eq:
  assumes "unat n < 2 ^ 32"
  shows "CountLeadingZeros32Slow n = 32 - int (bit_length (unat n))"
proof -
  obtain z2 n2 where 2: "clz_halve 16 (28, n) = (z2, n2)" by (metis surj_pair)
  obtain z3 n3 where 3: "clz_halve 8 (z2, n2) = (z3, n3)" by (metis surj_pair)
  obtain z4 n4 where 4: "clz_halve 4 (z3, n3) = (z4, n4)" by (metis surj_pair)
  have "unat n < 2 ^ (16 + 16)" using assms by simp
  note b = clz_halve [OF 2 this]
  then have "unat n2 < 2 ^ (8 + 8)" by simp
  note c = clz_halve [OF 3 this]
  then have "unat n3 < 2 ^ (4 + 4)" by simp
  note d = clz_halve [OF 4 this]
  show ?thesis
    using b c d clz_table [of n4] by (simp add: CountLeadingZeros32Slow_def 2 3 4)
qed

lemma CountLeadingZeros64_eq: "CountLeadingZeros64 n = 64 - int (bit_length (unat n))"
  by (simp add: CountLeadingZeros64_def builtin_clz_def)

lemma CountLeadingZeros32_eq: "CountLeadingZeros32 n = 32 - int (bit_length (unat n))"
  by (simp add: CountLeadingZeros32_def builtin_clz_def)

section \<open>Trailing zeros\<close>

lemma lowest_bit_odd:
  assumes "odd (m :: int)"
  shows "m AND - m = 1"
proof (rule bit_eqI)
  fix j
  have "m - 1 = unset_bit 0 m" using assms by (auto simp: unset_bit_0 elim!: oddE)
  then have "- m = NOT (unset_bit 0 m)" by (simp add: minus_eq_not_minus_1)
  with assms show "bit (m AND - m) j = bit 1 j"
    by (cases j) (auto simp: bit_simps simp flip: bit_0)
qed

lemma lowest_bit:
  assumes "bit (n :: 'a::len word) k" and "\<forall>j < k. \<not> bit n j"
  shows "n AND (NOT n + 1) = 2 ^ k"
proof -
  have k: "k < LENGTH('a)" using assms(1) by (rule bit_imp_le_length)
  define m where "m = drop_bit k (uint n)"
  have "odd m" using assms(1) by (simp add: m_def bit_uint_iff k flip: bit_iff_odd_drop_bit)
  have "uint n = push_bit k m"
  proof (rule bit_eqI)
    show "bit (uint n) j \<longleftrightarrow> bit (push_bit k m) j" for j
      using assms(2) by (cases "j < k") (auto simp: m_def bit_simps)
  qed
  then have n: "n = word_of_int (push_bit k m)" by (metis word_of_int_uint)
  have "NOT n + 1 = - n" by (simp add: minus_eq_not_plus_1)
  also have "\<dots> = word_of_int (push_bit k (- m))" by (simp add: n push_bit_minus)
  finally have "n AND (NOT n + 1) = word_of_int (push_bit k m AND push_bit k (- m))"
    by (simp only: n of_int_and_eq)
  also have "\<dots> = word_of_int (push_bit k (m AND - m))" by (simp only: push_bit_and)
  also have "\<dots> = 2 ^ k"
    by (simp add: lowest_bit_odd [OF \<open>odd m\<close>] push_bit_eq_mult)
  finally show ?thesis .
qed

text \<open>What the masks do with a word of one bit.\<close>

definition ctz64_masks :: "64 word \<Rightarrow> int" where
  "ctz64_masks n = ctz_mask n 0x5555555555555555 1 (ctz_mask n 0x3333333333333333 2
     (ctz_mask n 0x0F0F0F0F0F0F0F0F 4 (ctz_mask n 0x00FF00FF00FF00FF 8
     (ctz_mask n 0x0000FFFF0000FFFF 16 (ctz_mask n 0x00000000FFFFFFFF 32 63)))))"

definition ctz32_masks :: "32 word \<Rightarrow> int" where
  "ctz32_masks n = ctz_mask n 0x55555555 1 (ctz_mask n 0x33333333 2
     (ctz_mask n 0x0F0F0F0F 4 (ctz_mask n 0x00FF00FF 8 (ctz_mask n 0x0000FFFF 16 31))))"

lemma ctz_mask_power:
  assumes "k < LENGTH('a)"
  shows "ctz_mask (2 ^ k) (m :: 'a::len word) i c = (if bit m k then c - i else c)"
proof -
  have "2 ^ k AND m = (if bit m k then 2 ^ k else 0)"
    using assms by (intro bit_word_eqI) (auto simp: bit_simps)
  moreover have "(2 ^ k :: 'a word) \<noteq> 0" using assms by simp
  ultimately show ?thesis by (simp add: ctz_mask_def)
qed

definition ctz64_bits :: "nat \<Rightarrow> int" where
  "ctz64_bits k = 63 - (if bit (0x00000000FFFFFFFF :: int) k then 32 else 0)
      - (if bit (0x0000FFFF0000FFFF :: int) k then 16 else 0)
      - (if bit (0x00FF00FF00FF00FF :: int) k then 8 else 0)
      - (if bit (0x0F0F0F0F0F0F0F0F :: int) k then 4 else 0)
      - (if bit (0x3333333333333333 :: int) k then 2 else 0)
      - (if bit (0x5555555555555555 :: int) k then 1 else 0)"

lemma ctz64_masks_power:
  assumes "k < 64"
  shows "ctz64_masks (2 ^ k) = int k"
proof -
  have "ctz64_masks (2 ^ k) = ctz64_bits k"
    using assms by (simp add: ctz64_masks_def ctz64_bits_def ctz_mask_power)
  moreover have "\<forall>k \<in> set [0..<64]. ctz64_bits k = int k" by code_simp
  ultimately show ?thesis using assms by simp
qed

definition ctz32_bits :: "nat \<Rightarrow> int" where
  "ctz32_bits k = 31 - (if bit (0x0000FFFF :: int) k then 16 else 0)
      - (if bit (0x00FF00FF :: int) k then 8 else 0)
      - (if bit (0x0F0F0F0F :: int) k then 4 else 0)
      - (if bit (0x33333333 :: int) k then 2 else 0)
      - (if bit (0x55555555 :: int) k then 1 else 0)"

lemma ctz32_masks_power:
  assumes "k < 32"
  shows "ctz32_masks (2 ^ k) = int k"
proof -
  have "ctz32_masks (2 ^ k) = ctz32_bits k"
    using assms by (simp add: ctz32_masks_def ctz32_bits_def ctz_mask_power)
  moreover have "\<forall>k \<in> set [0..<32]. ctz32_bits k = int k" by code_simp
  ultimately show ?thesis using assms by simp
qed

lemma CountTrailingZerosNonZero64Slow_eq:
  assumes "bit n k" and "\<forall>j < k. \<not> bit n j"
  shows "CountTrailingZerosNonZero64Slow n = int k"
proof -
  have "k < 64" using bit_imp_le_length [OF assms(1)] by simp
  with ctz64_masks_power show ?thesis
    by (simp add: CountTrailingZerosNonZero64Slow_def Let_def lowest_bit [OF assms] flip: ctz64_masks_def)
qed

lemma CountTrailingZerosNonZero32Slow_eq:
  assumes "bit n k" and "\<forall>j < k. \<not> bit n j"
  shows "CountTrailingZerosNonZero32Slow n = int k"
proof -
  have "k < 32" using bit_imp_le_length [OF assms(1)] by simp
  with ctz32_masks_power show ?thesis
    by (simp add: CountTrailingZerosNonZero32Slow_def Let_def lowest_bit [OF assms] flip: ctz32_masks_def)
qed

lemma lowest_set_bit:
  assumes "(n :: 'a::len word) \<noteq> 0"
  obtains k where "bit n k" and "\<forall>j < k. \<not> bit n j"
proof -
  have "\<exists>k. bit n k" using assms by (auto simp: bit_eq_iff)
  then show thesis using exists_least_iff [of "bit n"] that by blast
qed

text \<open>
  The portable versions agree with the compiler's builtins: for every word other than 0 the
  searches by halves count the zeros above the highest set bit, and the masks find the
  position of the lowest set bit, in both widths.
\<close>

theorem portable_zero_counts:
  assumes "n \<noteq> 0" and "m \<noteq> 0"
  shows "CountLeadingZeros64Slow n = builtin_clz n \<and> CountLeadingZeros32Slow (ucast m) = builtin_clz (m :: 32 word) \<and>
    (\<exists>k. CountTrailingZerosNonZero64Slow n = int k \<and> bit n k \<and> (\<forall>j < k. \<not> bit n j)) \<and>
    (\<exists>k. CountTrailingZerosNonZero32Slow m = int k \<and> bit m k \<and> (\<forall>j < k. \<not> bit m j))"
proof (intro conjI)
  show "CountLeadingZeros64Slow n = builtin_clz n"
    by (simp add: CountLeadingZeros64Slow_eq builtin_clz_def)
  have "unat (ucast m :: 64 word) = unat m" by (simp add: unsigned_ucast_eq take_bit_nat_eq_self order_less_trans [OF unsigned_less])
  then show "CountLeadingZeros32Slow (ucast m) = builtin_clz m"
    using unsigned_less [of m, where ?'a = nat] by (simp add: CountLeadingZeros32Slow_eq builtin_clz_def)
  show "\<exists>k. CountTrailingZerosNonZero64Slow n = int k \<and> bit n k \<and> (\<forall>j < k. \<not> bit n j)"
    using lowest_set_bit [OF assms(1)] CountTrailingZerosNonZero64Slow_eq by metis
  show "\<exists>k. CountTrailingZerosNonZero32Slow m = int k \<and> bit m k \<and> (\<forall>j < k. \<not> bit m j)"
    using lowest_set_bit [OF assms(2)] CountTrailingZerosNonZero32Slow_eq by metis
qed

theorem portable_zero_counts_witness:
  "CountLeadingZeros64Slow 40 = builtin_clz (40 :: 64 word) \<and> CountLeadingZeros32Slow (ucast (9 :: 32 word)) = builtin_clz (9 :: 32 word) \<and>
    (\<exists>k. CountTrailingZerosNonZero64Slow 40 = int k \<and> bit (40 :: 64 word) k \<and> (\<forall>j < k. \<not> bit (40 :: 64 word) j)) \<and>
    (\<exists>k. CountTrailingZerosNonZero32Slow 9 = int k \<and> bit (9 :: 32 word) k \<and> (\<forall>j < k. \<not> bit (9 :: 32 word) j))"
  by (rule portable_zero_counts) simp_all

end
