(* ===== verification/Int128.thy ===== *)
theory Int128
  imports Bits
begin

text \<open>
  128-bit integers from two 64-bit halves: \<open>absl/numeric/int128.h\<close>, \<open>int128.cc\<close> and
  \<open>int128_no_intrinsic.inc\<close>, the versions for compilers without \<open>__int128\<close>.

  \<open>uint64_t\<close> is a word, whose arithmetic wraps around. \<open>int64_t\<close> is the word of its 64 bits, read by
  \<^const>\<open>sint\<close>; a sum or difference of \<open>int64_t\<close> values outside the range is a fault. Shifts of
  signed values are those of C++20. A shift amount is a natural number below 128; other amounts
  are undefined in C++ and the definitions say nothing of interest about them.
\<close>

section \<open>Unsigned: construction and conversion\<close>

datatype uint128 = UInt128 (u_hi: "64 word") (u_lo: "64 word")

definition MakeUint128_halves :: "64 word \<Rightarrow> 64 word \<Rightarrow> uint128" where
  "MakeUint128_halves high low = UInt128 high low"

definition Uint128Low64 :: "uint128 \<Rightarrow> 64 word" where
  "Uint128Low64 v = u_lo v"

definition Uint128High64 :: "uint128 \<Rightarrow> 64 word" where
  "Uint128High64 v = u_hi v"

definition Uint128Max :: uint128 where
  "Uint128Max = UInt128 (- 1) (- 1)"

text \<open>The constructors from the signed and from the unsigned integer types.\<close>

definition uint128_of_signed :: "int \<Rightarrow> uint128" where
  "uint128_of_signed v = UInt128 (if v < 0 then - 1 else 0) (word_of_int v)"

definition uint128_of_unsigned :: "64 word \<Rightarrow> uint128" where
  "uint128_of_unsigned v = UInt128 0 v"

text \<open>
  The conversions to integer types, \<open>static_cast<T>(lo_)\<close>: a signed \<open>T\<close> reads the resulting bits by
  \<^const>\<open>sint\<close>.
\<close>

definition uint128_to_bool :: "uint128 \<Rightarrow> bool" where
  "uint128_to_bool v \<longleftrightarrow> u_lo v \<noteq> 0 \<or> u_hi v \<noteq> 0"

definition uint128_to_integer :: "uint128 \<Rightarrow> 'a::len word" where
  "uint128_to_integer v = ucast (u_lo v)"

section \<open>Unsigned: comparison\<close>

definition uint128_eq :: "uint128 \<Rightarrow> uint128 \<Rightarrow> bool" where
  "uint128_eq lhs rhs \<longleftrightarrow>
     Uint128Low64 lhs = Uint128Low64 rhs \<and> Uint128High64 lhs = Uint128High64 rhs"

definition uint128_less :: "uint128 \<Rightarrow> uint128 \<Rightarrow> bool" where
  "uint128_less lhs rhs \<longleftrightarrow>
     (if Uint128High64 lhs = Uint128High64 rhs then Uint128Low64 lhs < Uint128Low64 rhs
      else Uint128High64 lhs < Uint128High64 rhs)"

text \<open>The order of the type is the one its operators define.\<close>

instantiation uint128 :: linorder
begin

definition less_uint128 :: "uint128 \<Rightarrow> uint128 \<Rightarrow> bool" where
  "less_uint128 lhs rhs \<longleftrightarrow> uint128_less lhs rhs"

definition less_eq_uint128 :: "uint128 \<Rightarrow> uint128 \<Rightarrow> bool" where
  "less_eq_uint128 lhs rhs \<longleftrightarrow> \<not> uint128_less rhs lhs"

instance
proof
  fix x y z :: uint128
  show "x < y \<longleftrightarrow> x \<le> y \<and> \<not> y \<le> x" and "x \<le> x" and "x \<le> y \<or> y \<le> x"
    by (auto simp: less_uint128_def less_eq_uint128_def uint128_less_def)
  show "x \<le> y \<Longrightarrow> y \<le> z \<Longrightarrow> x \<le> z" and "x \<le> y \<Longrightarrow> y \<le> x \<Longrightarrow> x = y"
    by (auto simp: less_uint128_def less_eq_uint128_def uint128_less_def Uint128High64_def
        Uint128Low64_def uint128.expand split: if_splits)
qed

end

section \<open>Unsigned: bits\<close>

definition uint128_lnot :: "uint128 \<Rightarrow> bool" where
  "uint128_lnot val \<longleftrightarrow> Uint128High64 val = 0 \<and> Uint128Low64 val = 0"

definition uint128_not :: "uint128 \<Rightarrow> uint128" where
  "uint128_not val = MakeUint128_halves (NOT (Uint128High64 val)) (NOT (Uint128Low64 val))"

definition uint128_or :: "uint128 \<Rightarrow> uint128 \<Rightarrow> uint128" where
  "uint128_or lhs rhs = MakeUint128_halves (Uint128High64 lhs OR Uint128High64 rhs)
     (Uint128Low64 lhs OR Uint128Low64 rhs)"

definition uint128_and :: "uint128 \<Rightarrow> uint128 \<Rightarrow> uint128" where
  "uint128_and lhs rhs = MakeUint128_halves (Uint128High64 lhs AND Uint128High64 rhs)
     (Uint128Low64 lhs AND Uint128Low64 rhs)"

definition uint128_xor :: "uint128 \<Rightarrow> uint128 \<Rightarrow> uint128" where
  "uint128_xor lhs rhs = MakeUint128_halves (Uint128High64 lhs XOR Uint128High64 rhs)
     (Uint128Low64 lhs XOR Uint128Low64 rhs)"

text \<open>The assignment forms return the new value of \<open>*this\<close>.\<close>

definition uint128_or_assign :: "uint128 \<Rightarrow> uint128 \<Rightarrow> uint128" where
  "uint128_or_assign this other = UInt128 (u_hi this OR u_hi other) (u_lo this OR u_lo other)"

definition uint128_and_assign :: "uint128 \<Rightarrow> uint128 \<Rightarrow> uint128" where
  "uint128_and_assign this other = UInt128 (u_hi this AND u_hi other) (u_lo this AND u_lo other)"

definition uint128_xor_assign :: "uint128 \<Rightarrow> uint128 \<Rightarrow> uint128" where
  "uint128_xor_assign this other = UInt128 (u_hi this XOR u_hi other) (u_lo this XOR u_lo other)"

definition uint128_shl :: "uint128 \<Rightarrow> nat \<Rightarrow> uint128" where
  "uint128_shl lhs amount =
     (if amount < 64 then
        if amount \<noteq> 0 then
          MakeUint128_halves (push_bit amount (Uint128High64 lhs) OR drop_bit (64 - amount) (Uint128Low64 lhs))
            (push_bit amount (Uint128Low64 lhs))
        else lhs
      else MakeUint128_halves (push_bit (amount - 64) (Uint128Low64 lhs)) 0)"

definition uint128_shr :: "uint128 \<Rightarrow> nat \<Rightarrow> uint128" where
  "uint128_shr lhs amount =
     (if amount < 64 then
        if amount \<noteq> 0 then
          MakeUint128_halves (drop_bit amount (Uint128High64 lhs))
            (drop_bit amount (Uint128Low64 lhs) OR push_bit (64 - amount) (Uint128High64 lhs))
        else lhs
      else MakeUint128_halves 0 (drop_bit (amount - 64) (Uint128High64 lhs)))"

section \<open>Unsigned: arithmetic\<close>

definition uint128_neg :: "uint128 \<Rightarrow> uint128" where
  "uint128_neg val =
     (let hi = NOT (Uint128High64 val);
          lo = NOT (Uint128Low64 val) + 1;
          hi = (if lo = 0 then hi + 1 else hi)
      in MakeUint128_halves hi lo)"

definition uint128_add :: "uint128 \<Rightarrow> uint128 \<Rightarrow> uint128" where
  "uint128_add lhs rhs =
     (let result = MakeUint128_halves (Uint128High64 lhs + Uint128High64 rhs)
                     (Uint128Low64 lhs + Uint128Low64 rhs)
      in if Uint128Low64 result < Uint128Low64 lhs
         then MakeUint128_halves (Uint128High64 result + 1) (Uint128Low64 result) else result)"

definition uint128_sub :: "uint128 \<Rightarrow> uint128 \<Rightarrow> uint128" where
  "uint128_sub lhs rhs =
     (let result = MakeUint128_halves (Uint128High64 lhs - Uint128High64 rhs)
                     (Uint128Low64 lhs - Uint128Low64 rhs)
      in if Uint128Low64 lhs < Uint128Low64 rhs
         then MakeUint128_halves (Uint128High64 result - 1) (Uint128Low64 result) else result)"

definition uint128_mult :: "uint128 \<Rightarrow> uint128 \<Rightarrow> uint128" where
  "uint128_mult lhs rhs =
     (let a32 = drop_bit 32 (Uint128Low64 lhs);
          a00 = Uint128Low64 lhs AND 0xffffffff;
          b32 = drop_bit 32 (Uint128Low64 rhs);
          b00 = Uint128Low64 rhs AND 0xffffffff;
          result = MakeUint128_halves (Uint128High64 lhs * Uint128Low64 rhs
                     + Uint128Low64 lhs * Uint128High64 rhs + a32 * b32) (a00 * b00);
          result = uint128_add result (uint128_shl (uint128_of_unsigned (a32 * b00)) 32);
          result = uint128_add result (uint128_shl (uint128_of_unsigned (a00 * b32)) 32)
      in result)"

text \<open>Increment and decrement: the value of the expression and the new value of \<open>*this\<close>.\<close>

definition uint128_post_inc :: "uint128 \<Rightarrow> uint128 \<times> uint128" where
  "uint128_post_inc this = (let tmp = this; this = uint128_add this (uint128_of_signed 1) in (tmp, this))"

definition uint128_post_dec :: "uint128 \<Rightarrow> uint128 \<times> uint128" where
  "uint128_post_dec this = (let tmp = this; this = uint128_sub this (uint128_of_signed 1) in (tmp, this))"

definition uint128_pre_inc :: "uint128 \<Rightarrow> uint128 \<times> uint128" where
  "uint128_pre_inc this = (let this = uint128_add this (uint128_of_signed 1) in (this, this))"

definition uint128_pre_dec :: "uint128 \<Rightarrow> uint128 \<times> uint128" where
  "uint128_pre_dec this = (let this = uint128_sub this (uint128_of_signed 1) in (this, this))"

section \<open>Division\<close>

definition Fls128 :: "uint128 \<Rightarrow> int" where
  "Fls128 n = (if Uint128High64 n \<noteq> 0 then 127 - CountLeadingZeros64 (Uint128High64 n)
     else 63 - CountLeadingZeros64 (Uint128Low64 n))"

text \<open>The loop, with the number of rounds that are left: quotient, dividend, denominator.\<close>

fun div_mod_loop :: "nat \<Rightarrow> uint128 \<Rightarrow> uint128 \<Rightarrow> uint128 \<Rightarrow> uint128 \<times> uint128" where
  "div_mod_loop 0 quot dividend denominator = (quot, dividend)"
| "div_mod_loop (Suc n) quot dividend denominator =
     (let quot = uint128_shl quot 1;
          (quot, dividend) =
            (if \<not> uint128_less dividend denominator
             then (uint128_or_assign quot (uint128_of_signed 1), uint128_sub dividend denominator)
             else (quot, dividend));
          denominator = uint128_shr denominator 1
      in div_mod_loop n quot dividend denominator)"

definition DivModImpl :: "uint128 \<Rightarrow> uint128 \<Rightarrow> fault + uint128 \<times> uint128" where
  "DivModImpl dividend divisor =
     (if uint128_eq divisor (uint128_of_signed 0) then Inl Assertion
      else if uint128_less dividend divisor then Inr (uint128_of_signed 0, dividend)
      else if uint128_eq divisor dividend then Inr (uint128_of_signed 1, uint128_of_signed 0)
      else
        let denominator = divisor;
            quot = uint128_of_signed 0;
            shift = Fls128 dividend - Fls128 denominator;
            denominator = uint128_shl denominator (nat shift)
        in Inr (div_mod_loop (nat (shift + 1)) quot dividend denominator))"

definition uint128_div :: "uint128 \<Rightarrow> uint128 \<Rightarrow> fault + uint128" where
  "uint128_div lhs rhs = map_sum id fst (DivModImpl lhs rhs)"

definition uint128_mod :: "uint128 \<Rightarrow> uint128 \<Rightarrow> fault + uint128" where
  "uint128_mod lhs rhs = map_sum id snd (DivModImpl lhs rhs)"

section \<open>Signed: construction and conversion\<close>

datatype int128 = Int128 (s_hi: "64 word") (s_lo: "64 word")

definition MakeInt128 :: "64 word \<Rightarrow> 64 word \<Rightarrow> int128" where
  "MakeInt128 high low = Int128 high low"

definition Int128Low64 :: "int128 \<Rightarrow> 64 word" where
  "Int128Low64 v = s_lo v"

definition Int128High64 :: "int128 \<Rightarrow> 64 word" where
  "Int128High64 v = s_hi v"

definition Int128Max :: int128 where
  "Int128Max = Int128 0x7fffffffffffffff (- 1)"

definition Int128Min :: int128 where
  "Int128Min = Int128 0x8000000000000000 0"

definition int128_of_signed :: "int \<Rightarrow> int128" where
  "int128_of_signed v = Int128 (if v < 0 then NOT 0 else 0) (word_of_int v)"

definition int128_of_unsigned :: "64 word \<Rightarrow> int128" where
  "int128_of_unsigned v = Int128 0 v"

definition int128_of_uint128 :: "uint128 \<Rightarrow> int128" where
  "int128_of_uint128 v = Int128 (Uint128High64 v) (Uint128Low64 v)"

definition uint128_of_int128 :: "int128 \<Rightarrow> uint128" where
  "uint128_of_int128 v = UInt128 (Int128High64 v) (Int128Low64 v)"

text \<open>The cast of the negative half avoids an implementation-defined conversion.\<close>

definition BitCastToSigned :: "64 word \<Rightarrow> int" where
  "BitCastToSigned v = (if v AND push_bit 63 1 \<noteq> 0 then NOT (uint (NOT v)) else uint v)"

definition int128_to_bool :: "int128 \<Rightarrow> bool" where
  "int128_to_bool v \<longleftrightarrow> s_lo v \<noteq> 0 \<or> s_hi v \<noteq> 0"

definition int128_to_long_long :: "int128 \<Rightarrow> int" where
  "int128_to_long_long v = BitCastToSigned (s_lo v)"

definition int128_to_unsigned :: "int128 \<Rightarrow> 'a::len word" where
  "int128_to_unsigned v = ucast (s_lo v)"

section \<open>Signed: comparison\<close>

definition int128_eq :: "int128 \<Rightarrow> int128 \<Rightarrow> bool" where
  "int128_eq lhs rhs \<longleftrightarrow>
     Int128Low64 lhs = Int128Low64 rhs \<and> Int128High64 lhs = Int128High64 rhs"

definition int128_less :: "int128 \<Rightarrow> int128 \<Rightarrow> bool" where
  "int128_less lhs rhs \<longleftrightarrow>
     (if Int128High64 lhs = Int128High64 rhs then Int128Low64 lhs < Int128Low64 rhs
      else sint (Int128High64 lhs) < sint (Int128High64 rhs))"

definition int128_greater :: "int128 \<Rightarrow> int128 \<Rightarrow> bool" where
  "int128_greater lhs rhs \<longleftrightarrow>
     (if Int128High64 lhs = Int128High64 rhs then Int128Low64 rhs < Int128Low64 lhs
      else sint (Int128High64 rhs) < sint (Int128High64 lhs))"

lemma sint_inject: "sint v = sint w \<longleftrightarrow> v = w"
  by (auto intro: signed_word_eqI)

instantiation int128 :: linorder
begin

definition less_int128 :: "int128 \<Rightarrow> int128 \<Rightarrow> bool" where
  "less_int128 lhs rhs \<longleftrightarrow> int128_less lhs rhs"

definition less_eq_int128 :: "int128 \<Rightarrow> int128 \<Rightarrow> bool" where
  "less_eq_int128 lhs rhs \<longleftrightarrow> \<not> int128_greater lhs rhs"

instance
proof
  fix x y z :: int128
  show "x < y \<longleftrightarrow> x \<le> y \<and> \<not> y \<le> x" and "x \<le> x" and "x \<le> y \<or> y \<le> x"
    by (auto simp: less_int128_def less_eq_int128_def int128_less_def int128_greater_def)
  show "x \<le> y \<Longrightarrow> y \<le> z \<Longrightarrow> x \<le> z" and "x \<le> y \<Longrightarrow> y \<le> x \<Longrightarrow> x = y"
    by (auto simp: less_int128_def less_eq_int128_def int128_greater_def Int128High64_def
        Int128Low64_def int128.expand sint_inject split: if_splits)
qed

end

section \<open>Signed: arithmetic\<close>

text \<open>Addition and subtraction of \<open>int64_t\<close>: leaving the range is undefined.\<close>

definition in_int64 :: "int \<Rightarrow> bool" where
  "in_int64 i \<longleftrightarrow> - (2 ^ 63) \<le> i \<and> i < 2 ^ 63"

definition int64_add :: "64 word \<Rightarrow> 64 word \<Rightarrow> fault + 64 word" where
  "int64_add a b = (if in_int64 (sint a + sint b) then Inr (a + b) else Inl Signed_overflow)"

definition int64_sub :: "64 word \<Rightarrow> 64 word \<Rightarrow> fault + 64 word" where
  "int64_sub a b = (if in_int64 (sint a - sint b) then Inr (a - b) else Inl Signed_overflow)"

definition int128_neg :: "int128 \<Rightarrow> fault + int128" where
  "int128_neg v =
     (let hi = NOT (Int128High64 v);
          lo = NOT (Int128Low64 v) + 1
      in case (if lo = 0 then int64_add hi 1 else Inr hi) of
           Inl e \<Rightarrow> Inl e
         | Inr hi \<Rightarrow> Inr (MakeInt128 hi lo))"

definition int128_lnot :: "int128 \<Rightarrow> bool" where
  "int128_lnot v \<longleftrightarrow> Int128Low64 v = 0 \<and> Int128High64 v = 0"

definition int128_not :: "int128 \<Rightarrow> int128" where
  "int128_not val = MakeInt128 (NOT (Int128High64 val)) (NOT (Int128Low64 val))"

definition int128_add :: "int128 \<Rightarrow> int128 \<Rightarrow> fault + int128" where
  "int128_add lhs rhs =
     (case int64_add (Int128High64 lhs) (Int128High64 rhs) of
        Inl e \<Rightarrow> Inl e
      | Inr hi \<Rightarrow>
          let result = MakeInt128 hi (Int128Low64 lhs + Int128Low64 rhs)
          in if Int128Low64 result < Int128Low64 lhs
             then (case int64_add (Int128High64 result) 1 of
                     Inl e \<Rightarrow> Inl e
                   | Inr hi \<Rightarrow> Inr (MakeInt128 hi (Int128Low64 result)))
             else Inr result)"

definition int128_sub :: "int128 \<Rightarrow> int128 \<Rightarrow> fault + int128" where
  "int128_sub lhs rhs =
     (case int64_sub (Int128High64 lhs) (Int128High64 rhs) of
        Inl e \<Rightarrow> Inl e
      | Inr hi \<Rightarrow>
          let result = MakeInt128 hi (Int128Low64 lhs - Int128Low64 rhs)
          in if Int128Low64 lhs < Int128Low64 rhs
             then (case int64_sub (Int128High64 result) 1 of
                     Inl e \<Rightarrow> Inl e
                   | Inr hi \<Rightarrow> Inr (MakeInt128 hi (Int128Low64 result)))
             else Inr result)"

definition int128_mult :: "int128 \<Rightarrow> int128 \<Rightarrow> int128" where
  "int128_mult lhs rhs =
     (let result = uint128_mult (uint128_of_int128 lhs) (uint128_of_int128 rhs)
      in MakeInt128 (word_of_int (BitCastToSigned (Uint128High64 result))) (Uint128Low64 result))"

definition int128_post_inc :: "int128 \<Rightarrow> fault + int128 \<times> int128" where
  "int128_post_inc this = (let tmp = this in map_sum id (\<lambda>this. (tmp, this)) (int128_add this (int128_of_signed 1)))"

definition int128_post_dec :: "int128 \<Rightarrow> fault + int128 \<times> int128" where
  "int128_post_dec this = (let tmp = this in map_sum id (\<lambda>this. (tmp, this)) (int128_sub this (int128_of_signed 1)))"

definition int128_pre_inc :: "int128 \<Rightarrow> fault + int128 \<times> int128" where
  "int128_pre_inc this = map_sum id (\<lambda>this. (this, this)) (int128_add this (int128_of_signed 1))"

definition int128_pre_dec :: "int128 \<Rightarrow> fault + int128 \<times> int128" where
  "int128_pre_dec this = map_sum id (\<lambda>this. (this, this)) (int128_sub this (int128_of_signed 1))"

definition int128_or :: "int128 \<Rightarrow> int128 \<Rightarrow> int128" where
  "int128_or lhs rhs = MakeInt128 (Int128High64 lhs OR Int128High64 rhs)
     (Int128Low64 lhs OR Int128Low64 rhs)"

definition int128_and :: "int128 \<Rightarrow> int128 \<Rightarrow> int128" where
  "int128_and lhs rhs = MakeInt128 (Int128High64 lhs AND Int128High64 rhs)
     (Int128Low64 lhs AND Int128Low64 rhs)"

definition int128_xor :: "int128 \<Rightarrow> int128 \<Rightarrow> int128" where
  "int128_xor lhs rhs = MakeInt128 (Int128High64 lhs XOR Int128High64 rhs)
     (Int128Low64 lhs XOR Int128Low64 rhs)"

definition int128_shl :: "int128 \<Rightarrow> nat \<Rightarrow> int128" where
  "int128_shl lhs amount =
     (if amount < 64 then
        if amount \<noteq> 0 then
          MakeInt128 (push_bit amount (Int128High64 lhs) OR drop_bit (64 - amount) (Int128Low64 lhs))
            (push_bit amount (Int128Low64 lhs))
        else lhs
      else MakeInt128 (push_bit (amount - 64) (Int128Low64 lhs)) 0)"

definition int128_shr :: "int128 \<Rightarrow> nat \<Rightarrow> int128" where
  "int128_shr lhs amount =
     (if amount < 64 then
        if amount \<noteq> 0 then
          MakeInt128 (signed_drop_bit amount (Int128High64 lhs))
            (drop_bit amount (Int128Low64 lhs) OR push_bit (64 - amount) (Int128High64 lhs))
        else lhs
      else MakeInt128 0 (signed_drop_bit (amount - 64) (Int128High64 lhs)))"

section \<open>Signed: division\<close>

definition UnsignedAbsoluteValue :: "int128 \<Rightarrow> uint128" where
  "UnsignedAbsoluteValue v =
     (if sint (Int128High64 v) < 0 then uint128_neg (uint128_of_int128 v) else uint128_of_int128 v)"

definition int128_div :: "int128 \<Rightarrow> int128 \<Rightarrow> fault + int128" where
  "int128_div lhs rhs =
     (if \<not> (\<not> int128_eq lhs Int128Min \<or> \<not> int128_eq rhs (int128_of_signed (- 1))) then Inl Assertion
      else case DivModImpl (UnsignedAbsoluteValue lhs) (UnsignedAbsoluteValue rhs) of
        Inl e \<Rightarrow> Inl e
      | Inr (quot, remainder) \<Rightarrow>
          let quot = (if (sint (Int128High64 lhs) < 0) \<noteq> (sint (Int128High64 rhs) < 0)
                      then uint128_neg quot else quot)
          in Inr (MakeInt128 (word_of_int (BitCastToSigned (Uint128High64 quot))) (Uint128Low64 quot)))"

definition int128_mod :: "int128 \<Rightarrow> int128 \<Rightarrow> fault + int128" where
  "int128_mod lhs rhs =
     (if \<not> (\<not> int128_eq lhs Int128Min \<or> \<not> int128_eq rhs (int128_of_signed (- 1))) then Inl Assertion
      else case DivModImpl (UnsignedAbsoluteValue lhs) (UnsignedAbsoluteValue rhs) of
        Inl e \<Rightarrow> Inl e
      | Inr (quot, remainder) \<Rightarrow>
          let remainder = (if sint (Int128High64 lhs) < 0 then uint128_neg remainder else remainder)
          in Inr (MakeInt128 (word_of_int (BitCastToSigned (Uint128High64 remainder)))
               (Uint128Low64 remainder)))"

end
