(* ===== verification/Int128_Results.thy ===== *)
theory Int128_Results
  imports Int128
begin

text \<open>
  What holds of 128-bit integers: the operations on two halves compute those of a word of 128 bits,
  division by shifting and subtracting is the division of the numbers, and signed values behave
  as integers as long as no 64-bit sum leaves its range.
\<close>

section \<open>The number two halves stand for\<close>

definition w128 :: "uint128 \<Rightarrow> 128 word" where
  "w128 u = word_cat (u_hi u) (u_lo u)"

abbreviation up :: "64 word \<Rightarrow> 128 word" where
  "up w \<equiv> ucast w"

definition upper64 :: "64 word \<Rightarrow> 128 word" where
  "upper64 w = push_bit 64 (up w)"

lemma w128_eq: "w128 u = upper64 (u_hi u) + up (u_lo u)"
  by (simp add: w128_def word_cat_eq upper64_def)

lemma w128_simp: "w128 (UInt128 h l) = upper64 h + up l"
  by (simp add: w128_eq)

lemma bit_w128:
  "bit (w128 u) n \<longleftrightarrow> (if n < 64 then bit (u_lo u) n else bit (u_hi u) (n - 64))"
  using bit_imp_le_length [of "u_hi u" "n - 64"] by (auto simp: w128_def bit_word_cat_iff)

lemma w128_UInt128: "bit (w128 (UInt128 h l)) n \<longleftrightarrow> (if n < 64 then bit l n else bit h (n - 64))"
  by (simp add: bit_w128)

lemma w128_inject [simp]: "w128 a = w128 b \<longleftrightarrow> a = b"
proof
  assume eq: "w128 a = w128 b"
  have "u_lo a = u_lo b"
  proof (rule bit_word_eqI)
    show "bit (u_lo a) n = bit (u_lo b) n" if "n < LENGTH(64)" for n
      using that eq bit_w128 [of a n] bit_w128 [of b n] by simp
  qed
  moreover have "u_hi a = u_hi b"
  proof (rule bit_word_eqI)
    show "bit (u_hi a) n = bit (u_hi b) n" for n
      using eq bit_w128 [of a "n + 64"] bit_w128 [of b "n + 64"] by simp
  qed
  ultimately show "a = b" by (simp add: uint128.expand)
qed simp

lemma uint_w128: "uint (w128 u) = uint (u_hi u) * 2 ^ 64 + uint (u_lo u)"
proof -
  have "uint (u_hi u) * 2 ^ 64 + uint (u_lo u) < 2 ^ 128"
    using unsigned_less [of "u_hi u", where ?'a = int] unsigned_less [of "u_lo u", where ?'a = int]
    by simp
  moreover have "w128 u = word_of_int (uint (u_hi u) * 2 ^ 64 + uint (u_lo u))"
    by (simp only: w128_eq upper64_def push_bit_eq_mult ucast_eq of_int_add of_int_mult of_int_power of_int_numeral)
  ultimately show ?thesis by (simp add: word_of_int_inverse)
qed

lemma unat_w128: "unat (w128 u) = unat (u_hi u) * 2 ^ 64 + unat (u_lo u)"
proof -
  have "int (unat (w128 u)) = int (unat (u_hi u) * 2 ^ 64 + unat (u_lo u))"
    using uint_w128 [of u] by simp
  then show ?thesis by (simp only: of_nat_eq_iff)
qed

section \<open>The upper half as a factor\<close>

lemma high_add: "upper64 (x + y) = upper64 x + upper64 y"
  unfolding upper64_def by transfer (simp add: push_bit_take_bit take_bit_add push_bit_add)

lemma high_minus: "upper64 (- x) = - upper64 x"
  unfolding upper64_def by transfer (simp add: push_bit_take_bit take_bit_minus push_bit_minus)

lemma high_diff: "upper64 (x - y) = upper64 x - upper64 y"
  using high_add [of x "- y"] by (simp add: high_minus)

lemma push_bit_times: "push_bit n a * b = push_bit n (a * b :: int)"
  by (simp add: push_bit_eq_mult)

lemma high_mult: "upper64 (x * y) = upper64 x * up y"
  unfolding upper64_def by transfer (simp add: push_bit_times take_bit_push_bit take_bit_mult)

lemma high_high: "upper64 x * upper64 y = 0"
proof -
  have "upper64 x * upper64 y = push_bit 128 (up x * up y)"
    by (simp add: upper64_def push_bit_eq_mult)
  also have "\<dots> = 0" by (rule bit_word_eqI) (simp add: bit_simps)
  finally show ?thesis .
qed

lemma low_add: "up (x + y) = up x + up y - (if x + y < x then 2 ^ 64 else 0)"
proof -
  have "uint (x + y) = uint x + uint y - (if x + y < x then 2 ^ 64 else 0)"
    using unsigned_less [of x, where ?'a = int] unsigned_less [of y, where ?'a = int]
    by (auto simp: uint_plus_if' word_less_def)
  then have "word_of_int (uint (x + y)) = (word_of_int (uint x + uint y - (if x + y < x then 2 ^ 64 else 0)) :: 128 word)"
    by (rule arg_cong)
  then show ?thesis
    by (simp only: ucast_eq of_int_add of_int_diff of_int_power of_int_numeral of_int_0 if_distrib [of word_of_int])
qed

lemma low_diff: "up (x - y) = up x - up y + (if x < y then 2 ^ 64 else 0)"
proof -
  have "uint (x - y) = uint x - uint y + (if x < y then 2 ^ 64 else 0)"
    by (auto simp: uint_sub_if' word_less_def)
  then have "word_of_int (uint (x - y)) = (word_of_int (uint x - uint y + (if x < y then 2 ^ 64 else 0)) :: 128 word)"
    by (rule arg_cong)
  then show ?thesis
    by (simp only: ucast_eq of_int_add of_int_diff of_int_power of_int_numeral of_int_0 if_distrib [of word_of_int])
qed

section \<open>The unsigned operations\<close>

lemmas uint128_defs = MakeUint128_halves_def Uint128High64_def Uint128Low64_def Let_def

lemma high_simps [simp]: "upper64 1 = 2 ^ 64" "upper64 0 = 0"
  by (simp_all add: upper64_def push_bit_eq_mult)

lemma w128_add [simp]: "w128 (uint128_add a b) = w128 a + w128 b"
  by (cases a; cases b) (simp add: uint128_add_def uint128_defs w128_eq high_add low_add)

lemma w128_sub [simp]: "w128 (uint128_sub a b) = w128 a - w128 b"
  by (cases a; cases b) (simp add: uint128_sub_def uint128_defs w128_eq high_diff low_diff)

lemma low_minus: "up (- x) = - up x + (if x = 0 then 0 else 2 ^ 64)"
  using low_diff [of 0 x] by (simp add: word_gt_0)

lemma w128_neg [simp]: "w128 (uint128_neg a) = - w128 a"
  by (cases a) (simp add: uint128_neg_def uint128_defs w128_simp not_eq_complement high_diff high_minus
      low_minus)

lemma w128_not [simp]: "w128 (uint128_not a) = NOT (w128 a)"
  by (rule bit_word_eqI) (auto simp: uint128_not_def uint128_defs w128_UInt128 bit_w128 bit_not_iff)

lemma w128_and [simp]: "w128 (uint128_and a b) = w128 a AND w128 b"
  by (rule bit_word_eqI) (auto simp: uint128_and_def uint128_defs w128_UInt128 bit_w128 bit_and_iff)

lemma w128_or [simp]: "w128 (uint128_or a b) = w128 a OR w128 b"
  by (rule bit_word_eqI) (auto simp: uint128_or_def uint128_defs w128_UInt128 bit_w128 bit_or_iff)

lemma w128_xor [simp]: "w128 (uint128_xor a b) = w128 a XOR w128 b"
  by (rule bit_word_eqI) (auto simp: uint128_xor_def uint128_defs w128_UInt128 bit_w128 bit_xor_iff)

lemma uint128_assign_eq [simp]:
  "uint128_or_assign a b = uint128_or a b" "uint128_and_assign a b = uint128_and a b"
  "uint128_xor_assign a b = uint128_xor a b"
  by (simp_all add: uint128_or_assign_def uint128_or_def uint128_and_assign_def uint128_and_def
      uint128_xor_assign_def uint128_xor_def uint128_defs)

lemma w128_shl [simp]: "w128 (uint128_shl a n) = push_bit n (w128 a)"
proof (rule bit_word_eqI)
  fix i assume "i < LENGTH(128)"
  then show "bit (w128 (uint128_shl a n)) i = bit (push_bit n (w128 a)) i"
    by (auto simp: uint128_shl_def uint128_defs w128_UInt128 bit_w128 bit_or_iff bit_push_bit_iff
        bit_drop_bit_eq not_less ac_simps dest: bit_imp_le_length)
qed

lemma w128_shr [simp]: "w128 (uint128_shr a n) = drop_bit n (w128 a)"
proof (rule bit_word_eqI)
  fix i assume "i < LENGTH(128)"
  then show "bit (w128 (uint128_shr a n)) i = bit (drop_bit n (w128 a)) i"
    by (auto simp: uint128_shr_def uint128_defs w128_UInt128 bit_w128 bit_or_iff bit_push_bit_iff
        bit_drop_bit_eq not_less ac_simps dest: bit_imp_le_length)
qed

lemma lex_less:
  fixes h h' l l' :: int
  assumes "0 \<le> l" and "l < 2 ^ 64" and "0 \<le> l'" and "l' < 2 ^ 64"
  shows "h * 2 ^ 64 + l < h' * 2 ^ 64 + l' \<longleftrightarrow> (if h = h' then l < l' else h < h')"
  using assms by auto

lemma lex_eq:
  fixes h h' l l' :: int
  assumes "0 \<le> l" and "l < 2 ^ 64" and "0 \<le> l'" and "l' < 2 ^ 64"
  shows "h * 2 ^ 64 + l = h' * 2 ^ 64 + l' \<longleftrightarrow> h = h' \<and> l = l'"
  using lex_less [OF assms, of h h'] lex_less [OF assms(3,4,1,2), of h' h] by (auto split: if_splits)

lemma uint_less_64: "uint (w :: 64 word) < 2 ^ 64"
  using unsigned_less [of w, where ?'a = int] by simp

lemma uint128_less_iff: "uint128_less a b \<longleftrightarrow> w128 a < w128 b"
  unfolding word_less_def uint_w128
  by (subst lex_less) (simp_all only: uint_less_64 unsigned_greater_eq uint128_less_def uint128_defs
      word_less_def word_uint_eq_iff)

lemma uint128_eq_iff: "uint128_eq a b \<longleftrightarrow> w128 a = w128 b"
  by (auto simp: uint128_eq_def uint128_defs uint128.expand)

lemma w128_of_unsigned [simp]: "w128 (uint128_of_unsigned v) = ucast v"
  by (simp add: uint128_of_unsigned_def w128_eq)

lemma w128_of_signed_nonneg [simp]: "0 \<le> i \<Longrightarrow> i < 2 ^ 64 \<Longrightarrow> w128 (uint128_of_signed i) = word_of_int i"
  by (simp add: uint128_of_signed_def w128_eq ucast_eq word_of_int_inverse)

section \<open>Multiplication\<close>

text \<open>A product of two halves of 32 bits does not leave 64 bits.\<close>

lemma up_mult:
  assumes "unat x < 2 ^ 32" and "unat y < 2 ^ 32"
  shows "up (x * y) = up x * up y"
proof -
  have "unat x * unat y < 2 ^ 32 * 2 ^ 32"
    using assms by (intro mult_strict_mono) auto
  then have "unat x * unat y < 2 ^ LENGTH(64)" by simp
  then have "unat (x * y) = unat x * unat y" by (rule iffD1 [OF unat_mult_lem])
  then have "uint (x * y) = uint x * uint y" by (metis of_nat_mult uint_nat)
  then show ?thesis by (simp only: ucast_eq of_int_mult)
qed

lemma low_halves:
  fixes x :: "64 word"
  shows "up x = up (drop_bit 32 x) * 2 ^ 32 + up (x AND 0xffffffff)"
    and "unat (drop_bit 32 x) < 2 ^ 32" and "unat (x AND 0xffffffff) < 2 ^ 32"
proof -
  have "(0xffffffff :: 64 word) = mask 32" by (simp add: mask_eq_exp_minus_1)
  then have low: "x AND 0xffffffff = take_bit 32 x" by (simp add: take_bit_eq_mask)
  have "uint x = uint (drop_bit 32 x) * 2 ^ 32 + uint (take_bit 32 x)"
    by (simp add: drop_bit_eq_div take_bit_eq_mod uint_div_distrib uint_mod_distrib)
  then show "up x = up (drop_bit 32 x) * 2 ^ 32 + up (x AND 0xffffffff)"
    unfolding low by (simp only: ucast_eq of_int_add of_int_mult of_int_power of_int_numeral)
  show "unat (drop_bit 32 x) < 2 ^ 32"
    using unsigned_less [of x, where ?'a = nat]
    by (simp add: drop_bit_eq_div unat_div_distrib less_mult_imp_div_less)
  show "unat (x AND 0xffffffff) < 2 ^ 32"
    unfolding low by (simp add: take_bit_eq_mod unat_mod_distrib)
qed

lemma w128_mult [simp]: "w128 (uint128_mult a b) = w128 a * w128 b"
proof -
  define a32 a00 b32 b00 where "a32 = drop_bit 32 (u_lo a)" and "a00 = u_lo a AND 0xffffffff"
    and "b32 = drop_bit 32 (u_lo b)" and "b00 = u_lo b AND 0xffffffff"
  note split = low_halves [of "u_lo a", folded a32_def a00_def] low_halves [of "u_lo b", folded b32_def b00_def]
  have "w128 (uint128_mult a b) = upper64 (u_hi a) * up (u_lo b) + up (u_lo a) * upper64 (u_hi b)
      + upper64 a32 * up b32 + up a00 * up b00
      + push_bit 32 (up a32 * up b00) + push_bit 32 (up a00 * up b32)"
    using split
    by (simp add: uint128_mult_def uint128_defs w128_simp high_add high_mult up_mult mult.commute [of "u_lo a"]
        flip: a32_def a00_def b32_def b00_def)
  also have "\<dots> = w128 a * w128 b"
    unfolding w128_eq distrib_left distrib_right high_high split(1,4)
    by (simp add: upper64_def push_bit_eq_mult algebra_simps)
  finally show ?thesis .
qed

section \<open>Division\<close>

abbreviation n128 :: "uint128 \<Rightarrow> nat" where
  "n128 u \<equiv> unat (w128 u)"

lemma n128_less: "n128 u < 2 ^ 128"
  using unsigned_less [of "w128 u", where ?'a = nat] by simp

lemma Fls128_eq: "Fls128 n = int (bit_length (n128 n)) - 1"
proof (cases "u_hi n = 0")
  case True
  then show ?thesis
    by (simp add: Fls128_def uint128_defs CountLeadingZeros64_eq unat_w128)
next
  case False
  have "n128 n div 2 ^ 64 = unat (u_hi n)"
    using unsigned_less [of "u_lo n", where ?'a = nat] by (simp add: unat_w128)
  then have "bit_length (unat (u_hi n)) = bit_length (n128 n) - 64" by (metis bit_length_div)
  moreover have "\<not> bit_length (n128 n) \<le> 64"
  proof -
    have "unat (u_hi n) \<noteq> 0" using False by (simp add: unat_eq_0)
    then have "2 ^ 64 \<le> n128 n" by (cases "unat (u_hi n)") (simp_all add: unat_w128)
    then show ?thesis by (simp only: bit_length_le_iff not_less)
  qed
  ultimately show ?thesis
    using False by (simp add: Fls128_def uint128_defs CountLeadingZeros64_eq)
qed

lemma n128_shl:
  "n128 a * 2 ^ k < 2 ^ 128 \<Longrightarrow> n128 (uint128_shl a k) = n128 a * 2 ^ k"
  by (simp only: w128_shl unsigned_push_bit_eq) (simp add: push_bit_eq_mult take_bit_nat_eq_self)

lemma n128_shr: "n128 (uint128_shr a k) = n128 a div 2 ^ k"
  by (simp only: w128_shr unat_drop_bit_eq) (simp only: drop_bit_eq_div)

lemma n128_shl_or_1:
  assumes "n128 a * 2 < 2 ^ 128"
  shows "n128 (uint128_or (uint128_shl a 1) (uint128_of_signed 1)) = n128 a * 2 + 1"
proof -
  have "even (w128 (uint128_shl a 1))" by simp
  then have "w128 (uint128_or (uint128_shl a 1) (uint128_of_signed 1)) = w128 (uint128_shl a 1) OR 1"
    by simp
  moreover have "n128 (uint128_shl a 1) = n128 a * 2" using n128_shl [of a 1] assms by simp
  moreover have "unat (w128 (uint128_shl a 1) OR 1) = n128 (uint128_shl a 1) OR 1"
    by (simp add: unsigned_or_eq)
  ultimately show ?thesis by (simp add: or_Suc_0_eq)
qed

lemma n128_sub: "n128 b \<le> n128 a \<Longrightarrow> n128 (uint128_sub a b) = n128 a - n128 b"
  by (simp add: unat_sub word_le_nat_alt)

text \<open>The loop with \<open>n\<close> rounds left: the part of the dividend that is not yet divided is below \<open>d * 2 ^ n\<close>.\<close>

lemma div_mod_loop_correct:
  assumes "n128 quot * (d * 2 ^ n) + n128 dividend = a" and "n128 dividend < d * 2 ^ n"
    and "0 < n \<Longrightarrow> n128 denominator = d * 2 ^ (n - 1)" and "a < 2 ^ 128" and "0 < d"
    and "div_mod_loop n quot dividend denominator = (q, r)"
  shows "n128 q = a div d \<and> n128 r = a mod d"
  using assms
proof (induction n arbitrary: quot dividend denominator)
  case 0
  then have "a = n128 q * d + n128 r" "n128 r < d" by auto
  then show ?case by simp
next
  case (Suc n)
  let ?D = "d * 2 ^ n"
  have den: "n128 denominator = ?D" using Suc.prems(3) by simp
  have a: "n128 quot * 2 * ?D + n128 dividend = a" using Suc.prems(1) by (simp add: ac_simps)
  have "n128 quot * 2 * 1 \<le> n128 quot * 2 * ?D" using Suc.prems(5) by (intro mult_le_mono) auto
  with a Suc.prems(4) have room: "n128 quot * 2 < 2 ^ 128" by linarith
  have next_den: "0 < n \<Longrightarrow> n128 (uint128_shr denominator 1) = d * 2 ^ (n - 1)"
    by (cases n) (simp_all add: n128_shr den del: w128_shr)
  show ?case
  proof (cases "n128 dividend < ?D")
    case True
    then have "div_mod_loop n (uint128_shl quot 1) dividend (uint128_shr denominator 1) = (q, r)"
      using Suc.prems(6) by (simp add: uint128_less_iff word_less_nat_alt den Let_def)
    from Suc.IH [OF _ True next_den Suc.prems(4,5) this] a n128_shl [of quot 1] room
    show ?thesis by (simp del: w128_shl)
  next
    case False
    then have step: "div_mod_loop n (uint128_or (uint128_shl quot 1) (uint128_of_signed 1))
        (uint128_sub dividend denominator) (uint128_shr denominator 1) = (q, r)"
      using Suc.prems(6) by (simp add: uint128_less_iff word_less_nat_alt den Let_def)
    have sub: "n128 (uint128_sub dividend denominator) = n128 dividend - ?D"
      using False n128_sub [of denominator dividend] by (simp add: den)
    have less: "n128 (uint128_sub dividend denominator) < ?D"
      using sub Suc.prems(2) by simp
    have "(n128 quot * 2 + 1) * ?D + (n128 dividend - ?D) = a"
      using a False by (simp add: add_mult_distrib)
    then show ?thesis
      using Suc.IH [OF _ less next_den Suc.prems(4,5) step] by (simp only: n128_shl_or_1 [OF room] sub)
  qed
qed

lemma DivModImpl_eq:
  assumes "w128 b \<noteq> 0"
  obtains q r where "DivModImpl a b = Inr (q, r)" and "n128 q = n128 a div n128 b"
    and "n128 r = n128 a mod n128 b"
proof -
  consider "n128 a < n128 b" | "n128 a = n128 b" | "n128 b < n128 a" by linarith
  then show thesis
  proof cases
    case 1
    then have "DivModImpl a b = Inr (uint128_of_signed 0, a)"
      using assms by (simp add: DivModImpl_def uint128_eq_iff uint128_less_iff word_less_nat_alt)
    then show thesis by (rule that) (use 1 in simp_all)
  next
    case 2
    then have "w128 a = w128 b" by (rule unsigned_word_eqI)
    then have "DivModImpl a b = Inr (uint128_of_signed 1, uint128_of_signed 0)"
      using assms by (simp add: DivModImpl_def uint128_eq_iff uint128_less_iff word_less_nat_alt)
    then show thesis by (rule that) (use 2 assms in \<open>simp_all add: unat_eq_0\<close>)
  next
    case 3
    define s where "s = bit_length (n128 a) - bit_length (n128 b)"
    have b0: "n128 b \<noteq> 0" using assms by (simp add: unat_eq_0)
    have "n128 b < 2 ^ bit_length (n128 a)" using 3 less_two_bit_length [of "n128 a"] by simp
    then have le: "bit_length (n128 b) \<le> bit_length (n128 a)" by (simp add: bit_length_le_iff)
    then have len: "bit_length (n128 a) = bit_length (n128 b) + s" by (simp add: s_def)
    have "bit_length (n128 a) \<le> 128" using n128_less [of a] by (simp add: bit_length_le_iff)
    then have top: "(2 :: nat) ^ bit_length (n128 a) \<le> 2 ^ 128" by (intro power_increasing) auto
    have "n128 b * 2 ^ s < 2 ^ bit_length (n128 b) * 2 ^ s" using less_two_bit_length by simp
    also have "\<dots> = 2 ^ bit_length (n128 a)" by (simp add: len power_add)
    finally have fits: "n128 b * 2 ^ s < 2 ^ 128" using top by linarith
    have pos: "0 < bit_length (n128 b)" using b0 by (simp add: bit_length.simps [of "n128 b"])
    have "2 ^ bit_length (n128 a) = 2 * (2 ^ (bit_length (n128 b) - 1) * 2 ^ s :: nat)"
      using pos by (cases "bit_length (n128 b)") (simp_all add: len power_add)
    also have "\<dots> \<le> 2 * (n128 b * 2 ^ s)" using two_bit_length_le [OF b0] by simp
    finally have start: "n128 a < n128 b * 2 ^ Suc s"
      using less_two_bit_length [of "n128 a"] by (simp add: ac_simps)
    obtain q r where loop: "div_mod_loop (Suc s) (uint128_of_signed 0) a (uint128_shl b s) = (q, r)"
      by (metis surj_pair)
    have shift: "Fls128 a - Fls128 b = int s" using le by (simp add: Fls128_eq s_def)
    have "b \<noteq> a" using 3 by auto
    then have "DivModImpl a b = Inr (q, r)"
      using assms 3 loop
      by (simp add: DivModImpl_def uint128_eq_iff uint128_less_iff word_less_nat_alt shift nat_add_distrib Let_def
          del: div_mod_loop.simps)
    moreover have "n128 q = n128 a div n128 b \<and> n128 r = n128 a mod n128 b"
      by (rule div_mod_loop_correct [OF _ start _ _ _ loop])
        (use n128_shl [OF fits] n128_less [of a] b0 in \<open>simp_all del: w128_shl\<close>)
    ultimately show thesis using that by blast
  qed
qed

section \<open>The integer a signed value stands for\<close>

definition s128 :: "int128 \<Rightarrow> int" where
  "s128 v = sint (s_hi v) * 2 ^ 64 + uint (s_lo v)"

definition in_int128 :: "int \<Rightarrow> bool" where
  "in_int128 i \<longleftrightarrow> - (2 ^ 127) \<le> i \<and> i < 2 ^ 127"

lemmas int128_defs = MakeInt128_def Int128High64_def Int128Low64_def Let_def

lemma in_int64_sint [simp]: "in_int64 (sint (w :: 64 word))"
  using sint_range_size [of w] by (simp add: in_int64_def word_size)

lemma sint_of_in_int64: "in_int64 i \<Longrightarrow> sint (word_of_int i :: 64 word) = i"
  by (simp add: in_int64_def int_word_sint sint_word_ariths signed_take_bit_int_eq_self)

lemma halves_range:
  fixes h l :: int
  shows "0 \<le> l \<Longrightarrow> l < 2 ^ 64 \<Longrightarrow> in_int64 h \<Longrightarrow> in_int128 (h * 2 ^ 64 + l)"
  by (auto simp: in_int64_def in_int128_def)

lemma s128_range [simp]: "in_int128 (s128 v)"
  unfolding s128_def by (rule halves_range) (simp_all only: unsigned_greater_eq uint_less_64 in_int64_sint)

lemma s128_inject [simp]: "s128 a = s128 b \<longleftrightarrow> a = b"
proof
  assume eq: "s128 a = s128 b"
  have bounds: "0 \<le> uint (s_lo a)" "uint (s_lo a) < 2 ^ 64" "0 \<le> uint (s_lo b)" "uint (s_lo b) < 2 ^ 64"
    using uint_less_64 by simp_all
  have "sint (s_hi a) = sint (s_hi b) \<and> uint (s_lo a) = uint (s_lo b)"
    using eq bounds unfolding s128_def by (simp only: lex_eq)
  then show "a = b" by (simp add: int128.expand sint_inject word_uint_eq_iff)
qed simp

lemma w128_of_int128: "w128 (uint128_of_int128 v) = word_of_int (s128 v)"
proof -
  have "upper64 w = word_of_int (push_bit 64 (sint w))" for w
    unfolding upper64_def by transfer (simp add: take_bit_push_bit take_bit_signed_take_bit)
  then show ?thesis
    by (simp only: push_bit_eq_mult uint128_of_int128_def int128_defs w128_simp s128_def of_int_add ucast_eq)
qed

lemma sint_w128: "sint (w128 (uint128_of_int128 v)) = s128 v"
  using s128_range [of v] unfolding w128_of_int128 in_int128_def
  by (simp add: int_word_sint sint_word_ariths signed_take_bit_int_eq_self)

text \<open>A signed result made of the halves of an unsigned one.\<close>

lemma BitCastToSigned_eq: "BitCastToSigned v = sint v"
proof -
  have test: "v AND push_bit 63 1 \<noteq> 0 \<longleftrightarrow> bit v 63"
  proof -
    have "v AND push_bit k 1 = (if bit v k then push_bit k 1 else 0)" for k
      by (rule bit_word_eqI) (auto simp: bit_simps)
    from this [of 63] have "v AND push_bit 63 1 = (if bit v 63 then push_bit 63 1 else 0)" .
    moreover have "push_bit 63 1 \<noteq> (0 :: 64 word)" by simp
    ultimately show ?thesis by simp
  qed
  show ?thesis
  proof (cases "bit v 63")
    case True
    have "NOT (uint (NOT v)) = sint v"
    proof (rule bit_eqI)
      show "bit (NOT (uint (NOT v))) n \<longleftrightarrow> bit (sint v) n" for n
        using True by (cases "n = 63") (auto simp: bit_simps not_less min_def)
    qed
    with True test show ?thesis by (simp only: BitCastToSigned_def if_True)
  next
    case False
    have "uint v = sint v"
    proof (rule bit_eqI)
      show "bit (uint v) n \<longleftrightarrow> bit (sint v) n" for n
        using False by (cases "n = 63") (auto simp: bit_simps min_def not_le dest: bit_imp_le_length)
    qed
    with False test show ?thesis by (simp only: BitCastToSigned_def if_False)
  qed
qed

text \<open>A signed value from the halves of an unsigned one is the same bits, read as signed.\<close>

lemma s128_cast:
  "s128 (MakeInt128 (word_of_int (BitCastToSigned (Uint128High64 u))) (Uint128Low64 u)) = sint (w128 u)"
proof -
  have "u = uint128_of_int128 (MakeInt128 (word_of_int (BitCastToSigned (Uint128High64 u))) (Uint128Low64 u))"
    by (cases u) (simp add: uint128_of_int128_def int128_defs uint128_defs BitCastToSigned_eq)
  then show ?thesis by (metis sint_w128)
qed

lemma sint_of_in_int128: "in_int128 i \<Longrightarrow> sint (word_of_int i :: 128 word) = i"
  by (simp add: in_int128_def int_word_sint sint_word_ariths signed_take_bit_int_eq_self)

section \<open>The signed operations\<close>

lemma int128_less_iff: "int128_less a b \<longleftrightarrow> s128 a < s128 b"
  unfolding s128_def
  by (subst lex_less) (simp_all only: uint_less_64 unsigned_greater_eq int128_less_def int128_defs
      word_less_def sint_inject)

lemma int128_greater_iff: "int128_greater a b \<longleftrightarrow> s128 b < s128 a"
  using int128_less_iff [of b a] by (auto simp: int128_less_def int128_greater_def)

lemma int128_eq_iff: "int128_eq a b \<longleftrightarrow> a = b"
  by (auto simp: int128_eq_def int128_defs int128.expand)

text \<open>A 64-bit sum with its carry.\<close>

lemma uint_add_carry: "uint (x + y) = uint x + uint y - (if x + y < x then 2 ^ 64 else 0)" for x y :: "64 word"
  using unsigned_less [of x, where ?'a = int] unsigned_less [of y, where ?'a = int]
  by (auto simp: uint_plus_if' word_less_def)

lemma uint_sub_borrow: "uint (x - y) = uint x - uint y + (if x < y then 2 ^ 64 else 0)" for x y :: "64 word"
  by (auto simp: uint_sub_if' word_less_def)

lemma sint_add_in_int64: "in_int64 (sint x + sint y) \<Longrightarrow> sint (x + y :: 64 word) = sint x + sint y"
  using sint_of_in_int64 [of "sint x + sint y"] by simp

lemma sint_sub_in_int64: "in_int64 (sint x - sint y) \<Longrightarrow> sint (x - y :: 64 word) = sint x - sint y"
  using sint_of_in_int64 [of "sint x - sint y"] by simp

lemma in_int128_halves: "0 \<le> l \<Longrightarrow> l < 2 ^ 64 \<Longrightarrow> in_int128 (h * 2 ^ 64 + l) \<longleftrightarrow> in_int64 h" for h l :: int
  by (auto simp: in_int64_def in_int128_def)

lemma int128_add_eq:
  "int128_add a b =
     (if in_int64 (sint (s_hi a) + sint (s_hi b)) \<and> in_int128 (s128 a + s128 b)
      then Inr (int128_of_uint128 (uint128_add (uint128_of_int128 a) (uint128_of_int128 b)))
      else Inl Signed_overflow)"
proof -
  let ?c = "s_lo a + s_lo b < s_lo a"
  have "s128 a + s128 b = (sint (s_hi a) + sint (s_hi b) + (if ?c then 1 else 0)) * 2 ^ 64 + uint (s_lo a + s_lo b)"
    unfolding s128_def uint_add_carry by (simp add: algebra_simps)
  then have range: "in_int128 (s128 a + s128 b) \<longleftrightarrow> in_int64 (sint (s_hi a) + sint (s_hi b) + (if ?c then 1 else 0))"
    by (simp only: in_int128_halves unsigned_greater_eq uint_less_64)
  show ?thesis
    unfolding range
    by (simp add: int128_add_def int128_defs int64_add_def sint_add_in_int64 int128_of_uint128_def
        uint128_of_int128_def uint128_add_def uint128_defs)
qed

lemma int128_sub_eq:
  "int128_sub a b =
     (if in_int64 (sint (s_hi a) - sint (s_hi b)) \<and> in_int128 (s128 a - s128 b)
      then Inr (int128_of_uint128 (uint128_sub (uint128_of_int128 a) (uint128_of_int128 b)))
      else Inl Signed_overflow)"
proof -
  let ?c = "s_lo a < s_lo b"
  have "s128 a - s128 b = (sint (s_hi a) - sint (s_hi b) - (if ?c then 1 else 0)) * 2 ^ 64 + uint (s_lo a - s_lo b)"
    unfolding s128_def uint_sub_borrow by (simp add: algebra_simps)
  then have range: "in_int128 (s128 a - s128 b) \<longleftrightarrow> in_int64 (sint (s_hi a) - sint (s_hi b) - (if ?c then 1 else 0))"
    by (simp only: in_int128_halves unsigned_greater_eq uint_less_64)
  show ?thesis
    unfolding range
    by (simp add: int128_sub_def int128_defs int64_sub_def sint_sub_in_int64 int128_of_uint128_def
        uint128_of_int128_def uint128_sub_def uint128_defs)
qed

lemma s128_of_uint128: "s128 (int128_of_uint128 u) = sint (w128 u)"
  using s128_cast [of u] by (simp add: int128_of_uint128_def BitCastToSigned_eq int128_defs)

lemma s128_add: "int128_add a b = Inr c \<Longrightarrow> s128 c = s128 a + s128 b"
  by (auto simp: int128_add_eq s128_of_uint128 w128_of_int128 sint_of_in_int128 simp flip: of_int_add
      split: if_splits)

lemma s128_sub: "int128_sub a b = Inr c \<Longrightarrow> s128 c = s128 a - s128 b"
  by (auto simp: int128_sub_eq s128_of_uint128 w128_of_int128 sint_of_in_int128 simp flip: of_int_diff
      split: if_splits)

lemma s128_mult: "s128 (int128_mult a b) = sint (word_of_int (s128 a * s128 b) :: 128 word)"
  by (simp only: int128_mult_def Let_def s128_cast w128_mult w128_of_int128 of_int_mult)

lemma int128_neg_eq:
  "int128_neg v = (if v = Int128Min then Inl Signed_overflow
     else Inr (int128_of_uint128 (uint128_neg (uint128_of_int128 v))))"
proof -
  have not: "sint (NOT w) = - sint w - 1" for w :: "64 word"
  proof -
    have "in_int64 (- sint w - 1)" using in_int64_sint [of w] by (auto simp: in_int64_def)
    then show ?thesis using sint_of_in_int64 [of "- sint w - 1"] by (simp add: not_eq_complement)
  qed
  have "in_int64 (- sint w) \<longleftrightarrow> w \<noteq> 0x8000000000000000" for w :: "64 word"
  proof -
    have "w = 0x8000000000000000 \<longleftrightarrow> sint w = - (2 ^ 63)"
      by (simp flip: sint_inject)
    then show ?thesis using in_int64_sint [of w] unfolding in_int64_def by auto
  qed
  then have inc: "int64_add (NOT w) 1 = (if w = 0x8000000000000000 then Inl Signed_overflow else Inr (NOT w + 1))"
    for w by (simp add: int64_add_def not)
  from inc [of "0x8000000000000000"] have top: "int64_add (- 0x8000000000000001) 1 = Inl Signed_overflow"
    by simp
  show ?thesis
    by (cases v) (auto simp: int128_neg_def int128_defs Int128Min_def int128_of_uint128_def inc top
        uint128_neg_def uint128_of_int128_def uint128_defs minus_eq_not_plus_1 [symmetric])
qed

lemma s128_Int128Min [simp]: "s128 Int128Min = - (2 ^ 127)"
  by (simp add: s128_def Int128Min_def)

lemma s128_neg: "int128_neg v = Inr c \<Longrightarrow> s128 c = - s128 v"
proof -
  assume "int128_neg v = Inr c"
  then have v: "v \<noteq> Int128Min" and c: "c = int128_of_uint128 (uint128_neg (uint128_of_int128 v))"
    by (auto simp: int128_neg_eq split: if_splits)
  have "s128 v \<noteq> - (2 ^ 127)" using v s128_inject [of v Int128Min] by (simp del: s128_inject)
  then have "in_int128 (- s128 v)" using s128_range [of v] by (auto simp: in_int128_def)
  then show ?thesis
    by (simp add: c s128_of_uint128 w128_of_int128 sint_of_in_int128 flip: of_int_minus)
qed

lemma s128_concat: "s128 v = concat_bit 64 (uint (s_lo v)) (sint (s_hi v))"
proof -
  have "take_bit 64 (uint (s_lo v)) = uint (s_lo v)"
    by (rule take_bit_int_eq_self) (simp_all only: unsigned_greater_eq uint_less_64)
  then show ?thesis by (simp add: s128_def concat_bit_eq push_bit_eq_mult)
qed

lemma bit_s128: "bit (s128 v) k \<longleftrightarrow> (if k < 64 then bit (s_lo v) k else bit (sint (s_hi v)) (k - 64))"
  by (auto simp: s128_concat bit_concat_bit_iff bit_uint_iff)

lemma s128_shl: "s128 (int128_shl a n) = sint (push_bit n (word_of_int (s128 a)) :: 128 word)"
proof -
  have "uint128_of_int128 (int128_shl a n) = uint128_shl (uint128_of_int128 a) n"
    by (cases a) (simp add: int128_shl_def uint128_shl_def uint128_of_int128_def int128_defs uint128_defs)
  then show ?thesis by (metis sint_w128 w128_of_int128 w128_shl)
qed

lemma bit_sint_low: "j < 64 \<Longrightarrow> bit (sint (w :: 64 word)) j \<longleftrightarrow> bit w j"
  by (cases "j = 63") (auto simp: bit_simps min_def)

lemma bit_shr_low: "j < 64 \<Longrightarrow> bit (signed_drop_bit m (w :: 64 word)) j \<longleftrightarrow> bit (sint w) (m + j)"
  using bit_sint_low [of j "signed_drop_bit m w"] by (simp add: sint_signed_drop_bit_eq bit_drop_bit_eq)

lemma s128_shr_small:
  assumes "n < 64"
  shows "s128 (int128_shr a n) = s128 a div 2 ^ n"
proof -
  have "s128 (int128_shr a n) = drop_bit n (s128 a)"
  proof (rule bit_eqI)
    show "bit (s128 (int128_shr a n)) k \<longleftrightarrow> bit (drop_bit n (s128 a)) k" for k
      using assms
      by (auto simp: int128_shr_def int128_defs bit_s128 bit_drop_bit_eq sint_signed_drop_bit_eq
          bit_or_iff bit_push_bit_iff bit_sint_low not_less ac_simps dest: bit_imp_le_length)
  qed
  then show ?thesis by (simp add: drop_bit_eq_div)
qed

lemma s128_shr_large:
  assumes "64 \<le> n"
  shows "s128 (int128_shr a n) = s128 a div 2 ^ n mod 2 ^ 64"
proof -
  have "s128 (int128_shr a n) = take_bit 64 (drop_bit n (s128 a))"
  proof (rule bit_eqI)
    show "bit (s128 (int128_shr a n)) k \<longleftrightarrow> bit (take_bit 64 (drop_bit n (s128 a))) k" for k
      using assms
      by (auto simp: int128_shr_def int128_defs bit_s128 bit_drop_bit_eq bit_take_bit_iff
          bit_shr_low not_less ac_simps)
  qed
  then show ?thesis by (simp add: drop_bit_eq_div take_bit_eq_mod)
qed

section \<open>Signed division\<close>

lemma sint_hi_negative: "sint (s_hi v) < 0 \<longleftrightarrow> s128 v < 0"
  using lex_less [of "uint (s_lo v)" 0 "sint (s_hi v)" 0] uint_less_64 [of "s_lo v"]
  unfolding s128_def by (auto split: if_splits)

lemma UnsignedAbsoluteValue_eq: "n128 (UnsignedAbsoluteValue v) = nat \<bar>s128 v\<bar>"
proof -
  have "w128 (UnsignedAbsoluteValue v) = word_of_int \<bar>s128 v\<bar>"
    by (simp add: UnsignedAbsoluteValue_def int128_defs sint_hi_negative w128_of_int128)
  moreover have "\<bar>s128 v\<bar> < 2 ^ 128" using s128_range [of v] by (auto simp: in_int128_def)
  ultimately show ?thesis by (simp add: unat_eq_nat_uint word_of_int_inverse)
qed

text \<open>Both divisions: the quotient and the remainder of the absolute values, with signs.\<close>

lemma nat_abs_div_mod:
  fixes a b :: int
  shows "int (nat \<bar>a\<bar> div nat \<bar>b\<bar>) = \<bar>a\<bar> div \<bar>b\<bar>" and "int (nat \<bar>a\<bar> mod nat \<bar>b\<bar>) = \<bar>a\<bar> mod \<bar>b\<bar>"
  by (simp_all add: zdiv_int zmod_int)

lemma word_of_n128: "n128 u = n \<Longrightarrow> w128 u = word_of_int (int n)"
  by auto

lemma sdiv_in_int128:
  assumes "in_int128 a" and "in_int128 b" and "\<not> (a = - (2 ^ 127) \<and> b = - 1)"
  shows "in_int128 (a sdiv b)"
proof -
  consider "b = 0" | "\<bar>b\<bar> = 1" | "2 \<le> \<bar>b\<bar>" by linarith
  then show ?thesis
  proof cases
    case 2
    then have "b = 1 \<or> b = - 1" by auto
    with assms show ?thesis by (auto simp: in_int128_def)
  next
    case 3
    have "\<bar>a\<bar> div \<bar>b\<bar> \<le> \<bar>a\<bar> div 2" using 3 by (intro zdiv_mono2) auto
    moreover have "\<bar>a\<bar> \<le> 2 ^ 127" using assms(1) by (auto simp: in_int128_def)
    moreover have "0 \<le> \<bar>a\<bar> div \<bar>b\<bar>" using 3 by (simp add: pos_imp_zdiv_nonneg_iff)
    ultimately show ?thesis by (auto simp: signed_divide_int_def sgn_if in_int128_def)
  qed (simp add: in_int128_def)
qed

lemma smod_in_int128:
  assumes "in_int128 a" and "in_int128 b" and "b \<noteq> 0"
  shows "in_int128 (a smod b)"
proof -
  have "\<bar>a\<bar> mod \<bar>b\<bar> < \<bar>b\<bar>" "0 \<le> \<bar>a\<bar> mod \<bar>b\<bar>" using assms(3) by simp_all
  moreover have "\<bar>b\<bar> \<le> 2 ^ 127" using assms(2) by (auto simp: in_int128_def)
  ultimately show ?thesis by (auto simp: signed_modulo_int_def sgn_if in_int128_def)
qed

lemma s128_minus_1 [simp]: "s128 (int128_of_signed (- 1)) = - 1"
  by (simp add: s128_def int128_of_signed_def unsigned_minus_1_eq_mask mask_eq_exp_minus_1)

lemma int128_div_eq:
  assumes "s128 b \<noteq> 0" and "\<not> (s128 a = - (2 ^ 127) \<and> s128 b = - 1)"
  obtains c where "int128_div a b = Inr c" and "s128 c = s128 a sdiv s128 b"
proof -
  have ok: "\<not> int128_eq a Int128Min \<or> \<not> int128_eq b (int128_of_signed (- 1))"
    using assms(2) by (auto simp: int128_eq_iff)
  have "n128 (UnsignedAbsoluteValue b) \<noteq> 0" using assms(1) by (simp add: UnsignedAbsoluteValue_eq)
  then have "w128 (UnsignedAbsoluteValue b) \<noteq> 0" by auto
  then obtain q r where dm: "DivModImpl (UnsignedAbsoluteValue a) (UnsignedAbsoluteValue b) = Inr (q, r)"
    and q: "n128 q = nat \<bar>s128 a\<bar> div nat \<bar>s128 b\<bar>"
    by (rule DivModImpl_eq [of "UnsignedAbsoluteValue b" "UnsignedAbsoluteValue a"])
      (simp add: UnsignedAbsoluteValue_eq)
  let ?q = "if (sint (Int128High64 a) < 0) \<noteq> (sint (Int128High64 b) < 0) then uint128_neg q else q"
  have "w128 q = word_of_int (\<bar>s128 a\<bar> div \<bar>s128 b\<bar>)"
    using word_of_n128 [OF q] by (simp only: nat_abs_div_mod)
  then have "w128 ?q = word_of_int (s128 a sdiv s128 b)"
    by (auto simp: int128_defs sint_hi_negative signed_divide_int_def sgn_if)
  then have "sint (w128 ?q) = s128 a sdiv s128 b"
    using sdiv_in_int128 [OF _ _ assms(2)] by (simp only: sint_of_in_int128 s128_range)
  moreover have "int128_div a b =
      Inr (MakeInt128 (word_of_int (BitCastToSigned (Uint128High64 ?q))) (Uint128Low64 ?q))"
    using ok by (auto simp: int128_div_def dm Let_def)
  ultimately show thesis using that s128_cast [of ?q] by metis
qed

lemma int128_mod_eq:
  assumes "s128 b \<noteq> 0" and "\<not> (s128 a = - (2 ^ 127) \<and> s128 b = - 1)"
  obtains c where "int128_mod a b = Inr c" and "s128 c = s128 a smod s128 b"
proof -
  have ok: "\<not> int128_eq a Int128Min \<or> \<not> int128_eq b (int128_of_signed (- 1))"
    using assms(2) by (auto simp: int128_eq_iff)
  have "n128 (UnsignedAbsoluteValue b) \<noteq> 0" using assms(1) by (simp add: UnsignedAbsoluteValue_eq)
  then have "w128 (UnsignedAbsoluteValue b) \<noteq> 0" by auto
  then obtain q r where dm: "DivModImpl (UnsignedAbsoluteValue a) (UnsignedAbsoluteValue b) = Inr (q, r)"
    and r: "n128 r = nat \<bar>s128 a\<bar> mod nat \<bar>s128 b\<bar>"
    by (rule DivModImpl_eq [of "UnsignedAbsoluteValue b" "UnsignedAbsoluteValue a"])
      (simp add: UnsignedAbsoluteValue_eq)
  let ?r = "if sint (Int128High64 a) < 0 then uint128_neg r else r"
  have "w128 r = word_of_int (\<bar>s128 a\<bar> mod \<bar>s128 b\<bar>)"
    using word_of_n128 [OF r] by (simp only: nat_abs_div_mod)
  then have "w128 ?r = word_of_int (s128 a smod s128 b)"
    by (auto simp: int128_defs sint_hi_negative signed_modulo_int_def sgn_if)
  then have "sint (w128 ?r) = s128 a smod s128 b"
    using smod_in_int128 [OF _ _ assms(1)] by (simp only: sint_of_in_int128 s128_range)
  moreover have "int128_mod a b =
      Inr (MakeInt128 (word_of_int (BitCastToSigned (Uint128High64 ?r))) (Uint128Low64 ?r))"
    using ok by (auto simp: int128_mod_def dm Let_def)
  ultimately show thesis using that s128_cast [of ?r] by metis
qed

section \<open>Properties\<close>

text \<open>
  Claim C27. The operators on two 64-bit halves compute those of a 128-bit word: carries, borrows, the
  product from four 32-bit products, shifts by any amount below 128, and the order.
\<close>

theorem uint128_computes_128_bits:
  assumes "n < 128"
  shows "w128 (uint128_add a b) = w128 a + w128 b \<and> w128 (uint128_sub a b) = w128 a - w128 b \<and>
    w128 (uint128_mult a b) = w128 a * w128 b \<and> w128 (uint128_neg a) = - w128 a \<and>
    w128 (uint128_not a) = NOT (w128 a) \<and> w128 (uint128_and a b) = w128 a AND w128 b \<and>
    w128 (uint128_or a b) = w128 a OR w128 b \<and> w128 (uint128_xor a b) = w128 a XOR w128 b \<and>
    w128 (uint128_shl a n) = push_bit n (w128 a) \<and> w128 (uint128_shr a n) = drop_bit n (w128 a) \<and>
    (a < b \<longleftrightarrow> w128 a < w128 b) \<and> (uint128_eq a b \<longleftrightarrow> w128 a = w128 b)"
  by (simp add: less_uint128_def uint128_less_iff uint128_eq_iff)

theorem uint128_computes_128_bits_witness:
  "w128 (uint128_shl (UInt128 1 (- 1)) 100) = push_bit 100 (w128 (UInt128 1 (- 1))) \<and>
   w128 (uint128_mult (UInt128 1 (- 1)) (UInt128 0 3)) = w128 (UInt128 1 (- 1)) * w128 (UInt128 0 3)"
  using uint128_computes_128_bits [of 100 "UInt128 1 (- 1)" "UInt128 0 3"] by simp

text \<open>
  Claim C28. Long division by shifting and subtracting is division: it returns the quotient and the
  remainder of the two numbers for every divisor but 0, for which the assertion fails.
\<close>

theorem uint128_division:
  "(case uint128_div a b of
      Inl e \<Rightarrow> e = Assertion \<and> w128 b = 0
    | Inr q \<Rightarrow> w128 b \<noteq> 0 \<and> unat (w128 q) = unat (w128 a) div unat (w128 b)) \<and>
   (case uint128_mod a b of
      Inl e \<Rightarrow> e = Assertion \<and> w128 b = 0
    | Inr r \<Rightarrow> w128 b \<noteq> 0 \<and> unat (w128 r) = unat (w128 a) mod unat (w128 b))"
proof (cases "w128 b = 0")
  case True
  then show ?thesis by (simp add: uint128_div_def uint128_mod_def DivModImpl_def uint128_eq_iff)
next
  case False
  obtain q r where "DivModImpl a b = Inr (q, r)" and "n128 q = n128 a div n128 b"
    and "n128 r = n128 a mod n128 b"
    using DivModImpl_eq [OF False, of a] by blast
  with False show ?thesis by (simp add: uint128_div_def uint128_mod_def)
qed

text \<open>
  Claim C29. Signed division truncates towards zero and the remainder has the sign of the dividend, for
  every divisor but 0, except for the smallest value divided by -1.
\<close>

theorem int128_division:
  assumes "s128 b \<noteq> 0" and "\<not> (s128 a = - (2 ^ 127) \<and> s128 b = - 1)"
  shows "\<exists>q r. int128_div a b = Inr q \<and> int128_mod a b = Inr r \<and>
    s128 q = s128 a sdiv s128 b \<and> s128 r = s128 a smod s128 b \<and> s128 q * s128 b + s128 r = s128 a"
proof -
  obtain q where q: "int128_div a b = Inr q" "s128 q = s128 a sdiv s128 b"
    by (rule int128_div_eq [OF assms])
  obtain r where r: "int128_mod a b = Inr r" "s128 r = s128 a smod s128 b"
    by (rule int128_mod_eq [OF assms])
  have "s128 q * s128 b + s128 r = s128 a"
    using q(2) r(2) by (simp add: sdiv_mult_smod_eq)
  with q r show ?thesis by blast
qed

theorem int128_division_witness:
  "\<exists>q r. int128_div (Int128 (- 1) (- 7)) (Int128 0 2) = Inr q \<and> int128_mod (Int128 (- 1) (- 7)) (Int128 0 2) = Inr r \<and>
    s128 q = s128 (Int128 (- 1) (- 7)) sdiv s128 (Int128 0 2) \<and>
    s128 r = s128 (Int128 (- 1) (- 7)) smod s128 (Int128 0 2) \<and>
    s128 q * s128 (Int128 0 2) + s128 r = s128 (Int128 (- 1) (- 7))"
  by (rule int128_division) (simp_all add: s128_def)

text \<open>\<open>(-2^127 + 2^64 - 1) + (-1)\<close> fits in 128 bits and overflows.\<close>

lemma int128_add_overflows_early:
  "in_int128 (s128 (Int128 0x8000000000000000 (- 1)) + s128 (Int128 (- 1) (- 1))) \<and>
   int128_add (Int128 0x8000000000000000 (- 1)) (Int128 (- 1) (- 1)) = Inl Signed_overflow"
proof
  have "s128 (Int128 0x8000000000000000 (- 1)) + s128 (Int128 (- 1) (- 1)) = - (2 ^ 127) + 2 ^ 64 - 2"
    by (simp add: s128_def unsigned_minus_1_eq_mask mask_eq_exp_minus_1)
  then show "in_int128 (s128 (Int128 0x8000000000000000 (- 1)) + s128 (Int128 (- 1) (- 1)))"
    by (simp add: in_int128_def)
  show "int128_add (Int128 0x8000000000000000 (- 1)) (Int128 (- 1) (- 1)) = Inl Signed_overflow"
    by (simp add: int128_add_def int128_defs int64_add_def in_int64_def)
qed


text \<open>
  Shifting a negative value right by 64 or more loses its sign: the upper half of the
  result is 0, so that the result is \<open>2^64\<close> above the value shifted. By less than 64 the shift is exact.
\<close>

theorem int128_shr_loses_sign:
  assumes "s128 a < 0" and "n < 128"
  shows "s128 (int128_shr a n) = s128 a div 2 ^ n + (if n < 64 then 0 else 2 ^ 64)"
proof (cases "n < 64")
  case True
  then show ?thesis by (simp add: s128_shr_small)
next
  case False
  have "- (2 ^ 127) div 2 ^ n \<le> s128 a div 2 ^ n"
    using s128_range [of a] by (intro zdiv_mono1) (simp_all add: in_int128_def)
  moreover have "- (2 ^ 64) \<le> - (2 ^ 127) div (2 ^ n :: int)"
  proof -
    have "(2 :: int) ^ 127 = 2 ^ n * 2 ^ (127 - n)" using assms(2) by (simp flip: power_add)
    then have "- (2 ^ 127) div (2 ^ n :: int) = - (2 ^ (127 - n))"
      by (metis mult_minus_right nonzero_mult_div_cancel_left power_not_zero zero_neq_numeral)
    moreover have "(2 :: int) ^ (127 - n) \<le> 2 ^ 64" using False by (intro power_increasing) auto
    ultimately show ?thesis by linarith
  qed
  moreover have "s128 a div 2 ^ n < 0" using assms(1) by (simp add: div_neg_pos_less0)
  ultimately have "s128 a div 2 ^ n mod 2 ^ 64 = s128 a div 2 ^ n + 2 ^ 64"
    by (subst mod_add_self2 [symmetric], intro mod_pos_pos_trivial) auto
  with False show ?thesis by (simp add: s128_shr_large)
qed

theorem int128_shr_loses_sign_witness:
  "s128 (int128_shr (Int128 (- 1) (- 1)) 64) = s128 (Int128 (- 1) (- 1)) div 2 ^ 64 + 2 ^ 64"
  using int128_shr_loses_sign [of "Int128 (- 1) (- 1)" 64]
  by (simp add: s128_def unsigned_minus_1_eq_mask mask_eq_exp_minus_1)

end
