(* ===== verification/Int128_Print.thy ===== *)
theory Int128_Print
  imports Int128_Results
begin

text \<open>
  Printing 128-bit integers, \<open>absl/numeric/int128.cc\<close>: the digits from three 64-bit chunks, the sign and
  the padding. The stream is the part of its state that formatting reads: its flags, its width and
  its fill character.
\<close>

section \<open>Streams\<close>

text \<open>
  \<open>No_base\<close> and \<open>No_adjust\<close> are fields without any flag; integers are then printed in decimal,
  adjusted to the right.
\<close>

datatype basefield = Dec | Oct | Hex | No_base

datatype adjustfield = Adjust_left | Adjust_right | Adjust_internal | No_adjust

record ios_flags =
  f_basefield :: basefield
  f_adjustfield :: adjustfield
  f_showbase :: bool
  f_uppercase :: bool
  f_showpos :: bool

text \<open>
  What the standard library prints for a \<open>uint64_t\<close>: digits in the base, with a prefix for \<open>showbase\<close>
  unless the value is 0. \<open>setw\<close> and \<open>setfill\<close> pad one such output on the left, in a stream without an
  adjustment flag.
\<close>

definition digit_of :: "bool \<Rightarrow> nat \<Rightarrow> char" where
  "digit_of upper d = (if upper then ''0123456789ABCDEF'' else ''0123456789abcdef'') ! d"

fun print_base :: "nat \<Rightarrow> bool \<Rightarrow> nat \<Rightarrow> string" where
  "print_base b upper n = (if n < b \<or> b < 2 then [digit_of upper n]
     else print_base b upper (n div b) @ [digit_of upper (n mod b)])"

declare print_base.simps [simp del]

fun base_of :: "basefield \<Rightarrow> nat" where
  "base_of Hex = 16"
| "base_of Oct = 8"
| "base_of _ = 10"

definition base_prefix :: "ios_flags \<Rightarrow> nat \<Rightarrow> string" where
  "base_prefix flags n = (if f_showbase flags \<and> n \<noteq> 0 then
     (case f_basefield flags of
        Hex \<Rightarrow> if f_uppercase flags then ''0X'' else ''0x'' | Oct \<Rightarrow> ''0'' | _ \<Rightarrow> []) else [])"

definition print_uint64 :: "ios_flags \<Rightarrow> 64 word \<Rightarrow> string" where
  "print_uint64 flags v = base_prefix flags (unat v) @
     print_base (base_of (f_basefield flags)) (f_uppercase flags) (unat v)"

definition setw_zero :: "nat \<Rightarrow> string \<Rightarrow> string" where
  "setw_zero width s = replicate (width - length s) (CHR ''0'') @ s"

section \<open>Formatting\<close>

text \<open>The first \<open>switch\<close>: the largest power of the base below \<open>2^64\<close>, and its exponent.\<close>

fun largest_power :: "basefield \<Rightarrow> uint128 \<times> nat" where
  "largest_power Hex = (uint128_of_unsigned 0x1000000000000000, 15)"
| "largest_power Oct = (uint128_of_unsigned 0x8000000000000000, 21)"
| "largest_power _ = (uint128_of_unsigned 10000000000000000000, 19)"

definition Uint128ToFormattedString :: "uint128 \<Rightarrow> ios_flags \<Rightarrow> fault + string" where
  "Uint128ToFormattedString v flags =
     (let (divisor, div_base_log) = largest_power (f_basefield flags);
          noshow = flags\<lparr>f_showbase := False\<rparr>
      in case DivModImpl v divisor of
        Inl e \<Rightarrow> Inl e
      | Inr (high, low) \<Rightarrow>
          (case DivModImpl high divisor of
             Inl e \<Rightarrow> Inl e
           | Inr (high, mid) \<Rightarrow>
               Inr (if Uint128Low64 high \<noteq> 0 then
                      print_uint64 flags (Uint128Low64 high)
                      @ setw_zero div_base_log (print_uint64 noshow (Uint128Low64 mid))
                      @ setw_zero div_base_log (print_uint64 noshow (Uint128Low64 low))
                    else if Uint128Low64 mid \<noteq> 0 then
                      print_uint64 flags (Uint128Low64 mid)
                      @ setw_zero div_base_log (print_uint64 noshow (Uint128Low64 low))
                    else print_uint64 flags (Uint128Low64 low))))"

text \<open>\<open>rep.insert(at, width - rep.size(), fill)\<close>\<close>

definition insert_fill :: "nat \<Rightarrow> nat \<Rightarrow> char \<Rightarrow> string \<Rightarrow> string" where
  "insert_fill at n fill rep = take at rep @ replicate n fill @ drop at rep"

text \<open>\<open>operator<<\<close>: what it writes to a stream with these flags, this width and this fill character.\<close>

definition uint128_print :: "ios_flags \<Rightarrow> nat \<Rightarrow> char \<Rightarrow> uint128 \<Rightarrow> fault + string" where
  "uint128_print flags width fill v =
     map_sum id (\<lambda>rep.
       if length rep < width then
         if f_adjustfield flags = Adjust_left then rep @ replicate (width - length rep) fill
         else if f_adjustfield flags = Adjust_internal \<and> f_showbase flags \<and> f_basefield flags = Hex
             \<and> \<not> uint128_eq v (uint128_of_signed 0)
           then insert_fill 2 (width - length rep) fill rep
           else insert_fill 0 (width - length rep) fill rep
       else rep) (Uint128ToFormattedString v flags)"

definition int128_print :: "ios_flags \<Rightarrow> nat \<Rightarrow> char \<Rightarrow> int128 \<Rightarrow> fault + string" where
  "int128_print flags width fill v =
     (let print_as_decimal = (f_basefield flags = Dec \<or> f_basefield flags = No_base);
          sign = (if print_as_decimal then
                    if sint (Int128High64 v) < 0 then ''-'' else if f_showpos flags then ''+'' else []
                  else [])
      in map_sum id (\<lambda>digits.
        let rep = sign @ digits;
            pad = width - length rep
        in if length rep < width then
             (case f_adjustfield flags of
                Adjust_left \<Rightarrow> rep @ replicate pad fill
              | Adjust_internal \<Rightarrow>
                  if print_as_decimal \<and> (rep ! 0 = CHR ''+'' \<or> rep ! 0 = CHR ''-'') then insert_fill 1 pad fill rep
                  else if f_basefield flags = Hex \<and> f_showbase flags \<and> \<not> int128_eq v (int128_of_signed 0)
                  then insert_fill 2 pad fill rep
                  else insert_fill 0 pad fill rep
              | _ \<Rightarrow> insert_fill 0 pad fill rep)
           else rep)
        (Uint128ToFormattedString
          (if print_as_decimal then UnsignedAbsoluteValue v else uint128_of_int128 v) flags))"

section \<open>Digits in chunks\<close>

lemma base_cases: "base_of f = 16 \<or> base_of f = 8 \<or> base_of f = 10"
  by (cases f) simp_all

lemma digit_of_0 [simp]: "digit_of upper 0 = CHR ''0''"
  by (simp add: digit_of_def)

lemma setw_zero_snoc: "setw_zero (Suc k) (xs @ [d]) = setw_zero k xs @ [d]"
  by (simp add: setw_zero_def)

lemma print_base_chunk:
  assumes "2 \<le> b" and "0 < h" and "m < b ^ Suc k"
  shows "print_base b upper (h * b ^ Suc k + m) = print_base b upper h @ setw_zero (Suc k) (print_base b upper m)"
  using assms(3)
proof (induction k arbitrary: m)
  case 0
  then have "m < b" by simp
  have "b \<le> h * b + m" using assms(1,2) by (cases h) auto
  with assms(1) have "print_base b upper (h * b + m) = print_base b upper ((h * b + m) div b) @ [digit_of upper ((h * b + m) mod b)]"
    by (subst print_base.simps) simp
  also have "(h * b + m) div b = h" using \<open>m < b\<close> by simp
  also have "(h * b + m) mod b = m" using \<open>m < b\<close> by simp
  finally have "print_base b upper (h * b + m) = print_base b upper h @ [digit_of upper m]" .
  then show ?case
    using \<open>m < b\<close> by (simp add: setw_zero_def print_base.simps [of b upper m])
next
  case (Suc k)
  let ?n = "h * b ^ Suc (Suc k) + m"
  have "b \<le> b ^ Suc (Suc k)" using assms(1) by (intro self_le_power) auto
  also have "\<dots> \<le> h * b ^ Suc (Suc k)" using assms(2) by simp
  finally have "b \<le> ?n" by (rule trans_le_add1)
  with assms(1) have "print_base b upper ?n = print_base b upper (?n div b) @ [digit_of upper (?n mod b)]"
    by (subst print_base.simps) simp
  also have "?n = h * b ^ Suc k * b + m" by (simp add: ac_simps)
  also have "(h * b ^ Suc k * b + m) div b = h * b ^ Suc k + m div b" using assms(1) by simp
  also have "(h * b ^ Suc k * b + m) mod b = m mod b" by simp
  also have "print_base b upper (h * b ^ Suc k + m div b) =
      print_base b upper h @ setw_zero (Suc k) (print_base b upper (m div b))"
    using Suc.prems by (intro Suc.IH) (simp add: less_mult_imp_div_less mult.commute)
  finally have "print_base b upper ?n =
      print_base b upper h @ setw_zero (Suc k) (print_base b upper (m div b)) @ [digit_of upper (m mod b)]"
    by (simp add: ac_simps)
  moreover have "setw_zero (Suc (Suc k)) (print_base b upper m) =
      setw_zero (Suc k) (print_base b upper (m div b)) @ [digit_of upper (m mod b)]"
  proof (cases "m < b")
    case True
    then show ?thesis
      using assms(1) by (simp add: print_base.simps [of b upper m] print_base.simps [of b upper 0] setw_zero_def
          replicate_append_same)
  next
    case False
    then show ?thesis
      using assms(1) by (subst print_base.simps) (simp add: setw_zero_snoc)
  qed
  ultimately show ?case by simp
qed

section \<open>The formatted text\<close>

lemma unat_Low64: "n128 u < 2 ^ 64 \<Longrightarrow> unat (Uint128Low64 u) = n128 u"
  by (cases "unat (u_hi u)") (simp_all add: Uint128Low64_def unat_w128)

lemma largest_power:
  assumes "largest_power f = (p, k)"
  shows "n128 p = base_of f ^ k" and "0 < k" and "n128 p < 2 ^ 64" and "2 ^ 128 \<le> n128 p * n128 p * 2 ^ 64"
  using assms by (cases f; auto simp: unsigned_ucast_eq take_bit_nat_eq_self)+

lemma print_uint64_eq:
  "print_uint64 flags v = base_prefix flags (unat v) @ print_base (base_of (f_basefield flags)) (f_uppercase flags) (unat v)"
  by (simp add: print_uint64_def)

lemma print_noshow:
  "print_uint64 (flags\<lparr>f_showbase := False\<rparr>) v = print_base (base_of (f_basefield flags)) (f_uppercase flags) (unat v)"
  by (simp add: print_uint64_def base_prefix_def)

lemma base_prefix_nonzero: "0 < m \<Longrightarrow> 0 < n \<Longrightarrow> base_prefix flags m = base_prefix flags n"
  by (simp add: base_prefix_def)

lemma Uint128ToFormattedString_eq:
  "Uint128ToFormattedString v flags = Inr (base_prefix flags (n128 v) @
     print_base (base_of (f_basefield flags)) (f_uppercase flags) (n128 v))"
proof -
  let ?b = "base_of (f_basefield flags)" and ?print = "print_base (base_of (f_basefield flags)) (f_uppercase flags)"
  obtain p k where pk: "largest_power (f_basefield flags) = (p, k)" by (metis surj_pair)
  obtain j where k: "k = Suc j" using largest_power(2) [OF pk] gr0_implies_Suc by blast
  have p: "n128 p = ?b ^ Suc j" and p64: "n128 p < 2 ^ 64" and p128: "2 ^ 128 \<le> n128 p * n128 p * 2 ^ 64"
    using largest_power [OF pk] by (simp_all add: k)
  have b: "2 \<le> ?b" using base_cases [of "f_basefield flags"] by auto
  have p0: "0 < n128 p" using b by (simp add: p)
  then have w: "w128 p \<noteq> 0" by auto
  obtain high low where 1: "DivModImpl v p = Inr (high, low)" and high: "n128 high = n128 v div n128 p"
    and low: "n128 low = n128 v mod n128 p"
    by (rule DivModImpl_eq [OF w])
  obtain top mid where 2: "DivModImpl high p = Inr (top, mid)" and top: "n128 top = n128 high div n128 p"
    and mid: "n128 mid = n128 high mod n128 p"
    by (rule DivModImpl_eq [OF w])
  have small: "n128 low < n128 p" "n128 mid < n128 p" using p0 by (simp_all add: low mid)
  have "n128 v < n128 p * n128 p * 2 ^ 64" using n128_less [of v] p128 by linarith
  then have "n128 top < 2 ^ 64"
    by (simp add: top high less_mult_imp_div_less mult.commute mult.left_commute flip: div_mult2_eq)
  then have low64: "unat (Uint128Low64 top) = n128 top" "unat (Uint128Low64 mid) = n128 mid"
    "unat (Uint128Low64 low) = n128 low"
    using small p64 by (simp_all add: unat_Low64)
  have v: "n128 v = n128 high * n128 p + n128 low" and h: "n128 high = n128 top * n128 p + n128 mid"
    by (simp_all add: low high mid top)
  have chunk: "0 < n \<Longrightarrow> m < n128 p \<Longrightarrow> ?print (n * n128 p + m) = ?print n @ setw_zero (Suc j) (?print m)" for n m
    unfolding p by (rule print_base_chunk [OF b])
  have zero: "Uint128Low64 top = 0 \<longleftrightarrow> n128 top = 0" "Uint128Low64 mid = 0 \<longleftrightarrow> n128 mid = 0"
    by (simp_all only: low64 flip: unat_eq_0)
  show ?thesis
  proof (cases "n128 top = 0")
    case False
    then have "0 < n128 high" using p0 by (simp add: h)
    then have "0 < n128 v" using p0 by (simp add: v)
    have "?print (n128 v) = (?print (n128 top) @ setw_zero (Suc j) (?print (n128 mid))) @ setw_zero (Suc j) (?print (n128 low))"
      using chunk [OF \<open>0 < n128 high\<close> small(1)] chunk [of "n128 top", OF _ small(2)] False by (simp flip: v h)
    with False show ?thesis
      using base_prefix_nonzero [OF _ \<open>0 < n128 v\<close>, of "n128 top"]
      by (simp add: Uint128ToFormattedString_def pk k 1 2 zero Let_def print_noshow
            print_uint64_eq [of flags] low64)
  next
    case True
    then have h: "n128 high = n128 mid" using h by simp
    show ?thesis
    proof (cases "n128 mid = 0")
      case False
      then have "0 < n128 v" using p0 by (simp add: v h)
      have "?print (n128 v) = ?print (n128 mid) @ setw_zero (Suc j) (?print (n128 low))"
        using chunk [of "n128 mid", OF _ small(1)] False by (simp add: v h)
      with False True show ?thesis
        using base_prefix_nonzero [OF _ \<open>0 < n128 v\<close>, of "n128 mid"]
        by (simp add: Uint128ToFormattedString_def pk k 1 2 zero Let_def print_noshow
            print_uint64_eq [of flags] low64)
    next
      case False': True
      then have "n128 v = n128 low" by (simp add: v h)
      with False' True show ?thesis
        by (simp add: Uint128ToFormattedString_def pk k 1 2 zero Let_def print_uint64_eq [of flags] low64)
    qed
  qed
qed

section \<open>Properties\<close>

lemma length_insert_fill [simp]: "length (insert_fill at n fill rep) = length rep + n"
  by (simp add: insert_fill_def)

text \<open>
  Printing is exact: for every flag setting the text of an unsigned value is the prefix and its
  digits in the base of the stream; a signed value is printed in decimal as its sign and the digits of its absolute
  value, the smallest value included; and padding fills up to the width and no further.
\<close>

theorem int128_prints:
  "Uint128ToFormattedString u flags = Inr (base_prefix flags (unat (w128 u)) @
     print_base (base_of (f_basefield flags)) (f_uppercase flags) (unat (w128 u))) \<and>
   int128_print (flags\<lparr>f_basefield := Dec\<rparr>) 0 fill v = Inr (
     (if s128 v < 0 then ''-'' else if f_showpos flags then ''+'' else [])
       @ print_base 10 (f_uppercase flags) (nat \<bar>s128 v\<bar>)) \<and>
   map_sum id length (int128_print flags width fill v) =
     map_sum id (max width \<circ> length) (int128_print flags 0 fill v) \<and>
   map_sum id length (uint128_print flags width fill u) =
     map_sum id (max width \<circ> length) (uint128_print flags 0 fill u)"
proof (intro conjI)
  show "Uint128ToFormattedString u flags = Inr (base_prefix flags (unat (w128 u)) @
     print_base (base_of (f_basefield flags)) (f_uppercase flags) (unat (w128 u)))"
    by (rule Uint128ToFormattedString_eq)
  show "int128_print (flags\<lparr>f_basefield := Dec\<rparr>) 0 fill v = Inr (
     (if s128 v < 0 then ''-'' else if f_showpos flags then ''+'' else [])
       @ print_base 10 (f_uppercase flags) (nat \<bar>s128 v\<bar>))"
    by (simp add: int128_print_def Uint128ToFormattedString_eq UnsignedAbsoluteValue_eq int128_defs
        sint_hi_negative base_prefix_def)
  show "map_sum id length (int128_print flags width fill v) =
     map_sum id (max width \<circ> length) (int128_print flags 0 fill v)"
    by (auto simp: int128_print_def Uint128ToFormattedString_eq Let_def split: adjustfield.split)
  show "map_sum id length (uint128_print flags width fill u) =
     map_sum id (max width \<circ> length) (uint128_print flags 0 fill u)"
    by (auto simp: uint128_print_def Uint128ToFormattedString_eq)
qed

end
