(* ===== verification/Fallible.thy ===== *)
theory Fallible
  imports Prelude
begin

text \<open>
  Values that may be faults: sequencing, array accesses that are checked, and \<open>returns\<close>, the judgement that
  a computation has a value and what holds of it.
\<close>

named_theorems returns_rules
  \<open>introduction rules for \<open>returns\<close>\<close>

section \<open>Sequencing\<close>

definition bind_f :: "fault + 'a \<Rightarrow> ('a \<Rightarrow> fault + 'b) \<Rightarrow> fault + 'b" where
  "bind_f m f = (case m of Inl e \<Rightarrow> Inl e | Inr a \<Rightarrow> f a)"

lemma bind_f_simps [simp]:
  "bind_f (Inl e) f = Inl e"
  "bind_f (Inr a) f = f a"
  by (simp_all add: bind_f_def)

lemma bind_f_cong [fundef_cong]:
  "m = m' \<Longrightarrow> (\<And>a. m' = Inr a \<Longrightarrow> f a = g a) \<Longrightarrow> bind_f m f = bind_f m' g"
  by (cases m') simp_all

lemma bind_f_assoc: "bind_f (bind_f m f) g = bind_f m (\<lambda>a. bind_f (f a) g)"
  by (cases m) simp_all

lemma bind_f_Inr_iff: "bind_f m f = Inr b \<longleftrightarrow> (\<exists>a. m = Inr a \<and> f a = Inr b)"
  by (cases m) simp_all

definition assert_f :: "bool \<Rightarrow> fault + unit" where
  "assert_f b = (if b then Inr () else Inl Assertion)"

lemma assert_f_simps [simp]: "assert_f True = Inr ()" "assert_f False = Inl Assertion"
  by (simp_all add: assert_f_def)

section \<open>Arrays\<close>

text \<open>Reading and writing one element, and filling from the start.\<close>

definition rd :: "'a list \<Rightarrow> nat \<Rightarrow> fault + 'a" where
  "rd xs i = (if i < length xs then Inr (xs ! i) else Inl Buffer_overrun)"

definition wr :: "'a list \<Rightarrow> nat \<Rightarrow> 'a \<Rightarrow> fault + 'a list" where
  "wr xs i x = (if i < length xs then Inr (xs[i := x]) else Inl Buffer_overrun)"

definition fill_f :: "'a list \<Rightarrow> nat \<Rightarrow> 'a \<Rightarrow> fault + 'a list" where
  "fill_f xs n x = (if n \<le> length xs then Inr (replicate n x @ drop n xs) else Inl Buffer_overrun)"

lemma rd_in [simp]: "i < length xs \<Longrightarrow> rd xs i = Inr (xs ! i)"
  by (simp add: rd_def)

lemma wr_in [simp]: "i < length xs \<Longrightarrow> wr xs i x = Inr (xs[i := x])"
  by (simp add: wr_def)

lemma rd_out [simp]: "length xs \<le> i \<Longrightarrow> rd xs i = Inl Buffer_overrun"
  by (simp add: rd_def)

lemma wr_out [simp]: "length xs \<le> i \<Longrightarrow> wr xs i x = Inl Buffer_overrun"
  by (simp add: wr_def)

lemma fill_f_in [simp]: "n \<le> length xs \<Longrightarrow> fill_f xs n x = Inr (replicate n x @ drop n xs)"
  by (simp add: fill_f_def)

section \<open>Having a value\<close>

definition returns :: "fault + 'a \<Rightarrow> ('a \<Rightarrow> bool) \<Rightarrow> bool" where
  "returns m P \<longleftrightarrow> (case m of Inl _ \<Rightarrow> False | Inr a \<Rightarrow> P a)"

lemma returns_simps [simp]:
  "returns (Inr a) P \<longleftrightarrow> P a"
  "\<not> returns (Inl e) P"
  by (simp_all add: returns_def)

lemma returns_iff: "returns m P \<longleftrightarrow> (\<exists>a. m = Inr a \<and> P a)"
  by (cases m) simp_all

lemma returnsE:
  assumes "returns m P"
  obtains a where "m = Inr a" and "P a"
  using assms by (auto simp: returns_iff)

lemma returns_bind [returns_rules]:
  "returns m P \<Longrightarrow> (\<And>a. P a \<Longrightarrow> returns (f a) Q) \<Longrightarrow> returns (bind_f m f) Q"
  by (cases m) simp_all

lemma returns_mono: "returns m P \<Longrightarrow> (\<And>a. P a \<Longrightarrow> Q a) \<Longrightarrow> returns m Q"
  by (cases m) simp_all

lemma returns_conj: "returns m P \<Longrightarrow> returns m Q \<Longrightarrow> returns m (\<lambda>a. P a \<and> Q a)"
  by (cases m) simp_all

lemma returns_bind_iff: "returns (bind_f m f) Q \<longleftrightarrow> returns m (\<lambda>a. returns (f a) Q)"
  by (cases m) simp_all

lemma returns_check_int [simp]: "returns (check_int i) P \<longleftrightarrow> in_int i \<and> P i"
  by (simp add: check_int_def)

end
