(* ===== verification/Numbers.thy ===== *)
theory Numbers
  imports C_Escape
begin

text \<open>
  Printing and parsing of integers, \<open>absl/strings/numbers.cc\<close> and \<open>numbers.h\<close>, with the
  comparison of strings without case of \<open>absl/strings/match.cc\<close>.

  The printing functions keep the widths of the code: \<open>uint32_t\<close> and \<open>uint64_t\<close> are words,
  and their divisions and subtractions are those of words. A pointer into the output buffer
  is a position with the buffer. The parsers are templates over the integer type; their
  variables are integers, and arithmetic that leaves the range of the type is a fault.
\<close>

section \<open>Comparison without case\<close>

fun memcasecmp :: "byte list \<Rightarrow> byte list \<Rightarrow> int" where
  "memcasecmp (a # s1) (b # s2) =
     (let diff = int (unat (ascii_tolower a)) - int (unat (ascii_tolower b))
      in if diff \<noteq> 0 then diff else memcasecmp s1 s2)"
| "memcasecmp s1 s2 = 0"

definition EqualsIgnoreCase :: "byte list \<Rightarrow> byte list \<Rightarrow> bool" where
  "EqualsIgnoreCase piece1 piece2 \<longleftrightarrow> length piece1 = length piece2 \<and> 0 = memcasecmp piece1 piece2"

definition StartsWithIgnoreCase :: "byte list \<Rightarrow> byte list \<Rightarrow> bool" where
  "StartsWithIgnoreCase str prefix \<longleftrightarrow>
     length str \<ge> length prefix \<and> EqualsIgnoreCase (take (length prefix) str) prefix"

definition EndsWithIgnoreCase :: "byte list \<Rightarrow> byte list \<Rightarrow> bool" where
  "EndsWithIgnoreCase str suffix \<longleftrightarrow>
     length str \<ge> length suffix \<and> EqualsIgnoreCase (drop (length str - length suffix) str) suffix"

text \<open>The result and the value of \<open>out\<close>, which is left alone on failure.\<close>

definition SimpleAtob :: "byte list \<Rightarrow> bool \<Rightarrow> bool \<times> bool" where
  "SimpleAtob str out =
     (if EqualsIgnoreCase str (map chr ''true'') \<or> EqualsIgnoreCase str (map chr ''t'') \<or>
         EqualsIgnoreCase str (map chr ''yes'') \<or> EqualsIgnoreCase str (map chr ''y'') \<or>
         EqualsIgnoreCase str (map chr ''1'')
      then (True, True)
      else if EqualsIgnoreCase str (map chr ''false'') \<or> EqualsIgnoreCase str (map chr ''f'') \<or>
         EqualsIgnoreCase str (map chr ''no'') \<or> EqualsIgnoreCase str (map chr ''n'') \<or>
         EqualsIgnoreCase str (map chr ''0'')
      then (True, False)
      else (False, out))"

section \<open>Printing\<close>

type_synonym out_ptr = "nat \<times> byte list"

definition two_ASCII_digits :: "byte list list" where
  "two_ASCII_digits = map (map chr) [
     ''00'', ''01'', ''02'', ''03'', ''04'', ''05'', ''06'', ''07'', ''08'', ''09'',
     ''10'', ''11'', ''12'', ''13'', ''14'', ''15'', ''16'', ''17'', ''18'', ''19'',
     ''20'', ''21'', ''22'', ''23'', ''24'', ''25'', ''26'', ''27'', ''28'', ''29'',
     ''30'', ''31'', ''32'', ''33'', ''34'', ''35'', ''36'', ''37'', ''38'', ''39'',
     ''40'', ''41'', ''42'', ''43'', ''44'', ''45'', ''46'', ''47'', ''48'', ''49'',
     ''50'', ''51'', ''52'', ''53'', ''54'', ''55'', ''56'', ''57'', ''58'', ''59'',
     ''60'', ''61'', ''62'', ''63'', ''64'', ''65'', ''66'', ''67'', ''68'', ''69'',
     ''70'', ''71'', ''72'', ''73'', ''74'', ''75'', ''76'', ''77'', ''78'', ''79'',
     ''80'', ''81'', ''82'', ''83'', ''84'', ''85'', ''86'', ''87'', ''88'', ''89'',
     ''90'', ''91'', ''92'', ''93'', ''94'', ''95'', ''96'', ''97'', ''98'', ''99'']"

definition one_ASCII_final_digits :: "byte list list" where
  "one_ASCII_final_digits = map (\<lambda>c. [chr c, 0]) ''0123456789''"

text \<open>Two digits, and the pointer moved behind them; the caller's argument is below 100.\<close>

definition PutTwoDigits :: "nat \<Rightarrow> out_ptr \<Rightarrow> out_ptr" where
  "PutTwoDigits i buffer = append_ptr_bytes (two_ASCII_digits ! i) buffer"

definition put_char :: "byte \<Rightarrow> out_ptr \<Rightarrow> out_ptr" where
  "put_char c buffer = append_ptr_bytes [c] buffer"

text \<open>The labels of the printing function: what remains to be printed, with leading zeros.\<close>

definition lt100 :: "32 word \<Rightarrow> out_ptr \<Rightarrow> out_ptr" where
  "lt100 i buffer =
     (let digits = i; (p, buf) = PutTwoDigits (unat digits) buffer in (p, write_at p [0] buf))"

definition lt10_000 :: "32 word \<Rightarrow> out_ptr \<Rightarrow> out_ptr" where
  "lt10_000 i buffer =
     (let digits = i div 100; i = i - digits * 100 in lt100 i (PutTwoDigits (unat digits) buffer))"

definition lt1_000_000 :: "32 word \<Rightarrow> out_ptr \<Rightarrow> out_ptr" where
  "lt1_000_000 i buffer =
     (let digits = i div 10000; i = i - digits * 10000 in lt10_000 i (PutTwoDigits (unat digits) buffer))"

definition lt100_000_000 :: "32 word \<Rightarrow> out_ptr \<Rightarrow> out_ptr" where
  "lt100_000_000 i buffer =
     (let digits = i div 1000000; i = i - digits * 1000000
      in lt1_000_000 i (PutTwoDigits (unat digits) buffer))"

definition FastIntToBuffer_u32 :: "32 word \<Rightarrow> out_ptr \<Rightarrow> out_ptr" where
  "FastIntToBuffer_u32 i buffer =
     (if i \<ge> 1000000000 then
        let digits = i div 100000000; i = i - digits * 100000000
        in lt100_000_000 i (PutTwoDigits (unat digits) buffer)
      else if i < 100 then
        (if i \<ge> 10 then lt100 i buffer
         else let (p, buf) = buffer in (p + 1, write_at p (one_ASCII_final_digits ! unat i) buf))
      else if i < 10000 then
        (if i \<ge> 1000 then lt10_000 i buffer
         else let digits = i div 100; i = i - digits * 100
           in lt100 i (put_char (ucast (48 + digits)) buffer))
      else if i < 1000000 then
        (if i \<ge> 100000 then lt1_000_000 i buffer
         else let digits = i div 10000; i = i - digits * 10000
           in lt10_000 i (put_char (ucast (48 + digits)) buffer))
      else if i < 100000000 then
        (if i \<ge> 10000000 then lt100_000_000 i buffer
         else let digits = i div 1000000; i = i - digits * 1000000
           in lt1_000_000 i (put_char (ucast (48 + digits)) buffer))
      else let digits = i div 100000000; i = i - digits * 100000000
        in lt100_000_000 i (put_char (ucast (48 + digits)) buffer))"

definition FastIntToBuffer_i32 :: "32 word \<Rightarrow> out_ptr \<Rightarrow> out_ptr" where
  "FastIntToBuffer_i32 i buffer =
     (let u = i in
      if sint i < 0 then FastIntToBuffer_u32 (0 - u) (put_char (chr (CHR ''-'')) buffer)
      else FastIntToBuffer_u32 u buffer)"

text \<open>The last nine digits of a 64-bit number.\<close>

definition last_9_digits :: "32 word \<Rightarrow> out_ptr \<Rightarrow> out_ptr" where
  "last_9_digits u32 buffer =
     (let digits = u32 div 10000000; u32 = u32 - digits * 10000000; buffer = PutTwoDigits (unat digits) buffer;
          digits = u32 div 100000; u32 = u32 - digits * 100000; buffer = PutTwoDigits (unat digits) buffer;
          digits = u32 div 1000; u32 = u32 - digits * 1000; buffer = PutTwoDigits (unat digits) buffer;
          digits = u32 div 10; u32 = u32 - digits * 10; (p, buf) = PutTwoDigits (unat digits) buffer
      in (p + 1, write_at p (one_ASCII_final_digits ! unat u32) buf))"

definition FastIntToBuffer_u64 :: "64 word \<Rightarrow> out_ptr \<Rightarrow> out_ptr" where
  "FastIntToBuffer_u64 i buffer =
     (let u32 = ucast i :: 32 word in
      if ucast u32 = i then FastIntToBuffer_u32 u32 buffer
      else
        let top_1to11 = i div 1000000000;
            u32 = ucast (i - top_1to11 * 1000000000);
            top_1to11_32 = ucast top_1to11 :: 32 word
        in last_9_digits u32
             (if ucast top_1to11_32 = top_1to11 then FastIntToBuffer_u32 top_1to11_32 buffer
              else
                let top_8to9 = ucast (top_1to11 div 100) :: 32 word;
                    mid_2 = ucast (top_1to11 - ucast top_8to9 * 100) :: 32 word
                in PutTwoDigits (unat mid_2) (FastIntToBuffer_u32 top_8to9 buffer)))"

definition FastIntToBuffer_i64 :: "64 word \<Rightarrow> out_ptr \<Rightarrow> out_ptr" where
  "FastIntToBuffer_i64 i buffer =
     (let u = i in
      if sint i < 0 then FastIntToBuffer_u64 (0 - u) (put_char (chr (CHR ''-'')) buffer)
      else FastIntToBuffer_u64 u buffer)"

section \<open>Parsing\<close>

definition kAsciiToInt :: "int list" where
  "kAsciiToInt = [
     36, 36, 36, 36, 36, 36, 36, 36, 36, 36, 36, 36, 36, 36, 36, 36,
     36, 36, 36, 36, 36, 36, 36, 36, 36, 36, 36, 36, 36, 36, 36, 36,
     36, 36, 36, 36, 36, 36, 36, 36, 36, 36, 36, 36, 36, 36, 36, 36,
     0, 1, 2, 3, 4, 5, 6, 7, 8, 9, 36, 36, 36, 36, 36, 36,
     36, 10, 11, 12, 13, 14, 15, 16, 17, 18, 19, 20, 21, 22, 23, 24,
     25, 26, 27, 28, 29, 30, 31, 32, 33, 34, 35, 36, 36, 36, 36, 36,
     36, 10, 11, 12, 13, 14, 15, 16, 17, 18, 19, 20, 21, 22, 23, 24,
     25, 26, 27, 28, 29, 30, 31, 32, 33, 34, 35, 36, 36, 36, 36, 36,
     36, 36, 36, 36, 36, 36, 36, 36, 36, 36, 36, 36, 36, 36, 36, 36,
     36, 36, 36, 36, 36, 36, 36, 36, 36, 36, 36, 36, 36, 36, 36, 36,
     36, 36, 36, 36, 36, 36, 36, 36, 36, 36, 36, 36, 36, 36, 36, 36,
     36, 36, 36, 36, 36, 36, 36, 36, 36, 36, 36, 36, 36, 36, 36, 36,
     36, 36, 36, 36, 36, 36, 36, 36, 36, 36, 36, 36, 36, 36, 36, 36,
     36, 36, 36, 36, 36, 36, 36, 36, 36, 36, 36, 36, 36, 36, 36, 36,
     36, 36, 36, 36, 36, 36, 36, 36, 36, 36, 36, 36, 36, 36, 36, 36,
     36, 36, 36, 36, 36, 36, 36, 36, 36, 36, 36, 36, 36, 36, 36, 36]"

text \<open>The prefix of the base, and the check of the base: the range behind the prefix and the base.\<close>

definition consume_prefix :: "byte list \<Rightarrow> int \<Rightarrow> bool \<Rightarrow> (byte list \<times> int \<times> bool) option" where
  "consume_prefix start base negative =
     (let hex = length start \<ge> 2 \<and> start ! 0 = chr (CHR ''0'') \<and>
            (start ! 1 = chr (CHR ''x'') \<or> start ! 1 = chr (CHR ''X''))
      in if base = 0 then
           (if hex then (if drop 2 start = [] then None else Some (drop 2 start, 16, negative))
            else if length start \<ge> 1 \<and> start ! 0 = chr (CHR ''0'') then Some (drop 1 start, 8, negative)
            else Some (start, 10, negative))
         else if base = 16 then
           (if hex then (if drop 2 start = [] then None else Some (drop 2 start, 16, negative))
            else Some (start, 16, negative))
         else if base \<ge> 2 \<and> base \<le> 36 then Some (start, base, negative)
         else None)"

text \<open>
  The range without white space, the base and whether there is a minus sign; \<open>None\<close> is
  false. A view without data is empty, and an empty view is refused further down as well.
\<close>

definition safe_parse_sign_and_base :: "byte list \<Rightarrow> int \<Rightarrow> (byte list \<times> int \<times> bool) option" where
  "safe_parse_sign_and_base str base =
     (let start = dropWhile ascii_isspace str;
          start = rev (dropWhile ascii_isspace (rev start))
      in if start = [] then None
         else
           let negative = hd start = chr (CHR ''-'');
               signed = negative \<or> hd start = chr (CHR ''+'');
               start = (if signed then tl start else start)
           in if signed \<and> start = [] then None
              else consume_prefix start base negative)"

text \<open>The integer types of the template and their limits.\<close>

datatype int_type = Int32 | Int64 | Uint32 | Uint64 | Uint128

fun type_max :: "int_type \<Rightarrow> int" where
  "type_max Int32 = 2 ^ 31 - 1"
| "type_max Int64 = 2 ^ 63 - 1"
| "type_max Uint32 = 2 ^ 32 - 1"
| "type_max Uint64 = 2 ^ 64 - 1"
| "type_max Uint128 = 2 ^ 128 - 1"

fun type_min :: "int_type \<Rightarrow> int" where
  "type_min Int32 = - (2 ^ 31)"
| "type_min Int64 = - (2 ^ 63)"
| "type_min _ = 0"

definition in_type :: "int_type \<Rightarrow> int \<Rightarrow> fault + int" where
  "in_type ty v = (if type_min ty \<le> v \<and> v \<le> type_max ty then Inr v else Inl Signed_overflow)"

definition X_OVER_BASE_INITIALIZER :: "int \<Rightarrow> int list" where
  "X_OVER_BASE_INITIALIZER X = [
     0, 0, X sdiv 2, X sdiv 3, X sdiv 4, X sdiv 5, X sdiv 6, X sdiv 7, X sdiv 8, X sdiv 9, X sdiv 10,
     X sdiv 11, X sdiv 12, X sdiv 13, X sdiv 14, X sdiv 15, X sdiv 16, X sdiv 17, X sdiv 18,
     X sdiv 19, X sdiv 20, X sdiv 21, X sdiv 22, X sdiv 23, X sdiv 24, X sdiv 25, X sdiv 26,
     X sdiv 27, X sdiv 28, X sdiv 29, X sdiv 30, X sdiv 31, X sdiv 32, X sdiv 33, X sdiv 34,
     X sdiv 35, X sdiv 36]"

definition MakeUint128 :: "int \<Rightarrow> int \<Rightarrow> int" where
  "MakeUint128 high low = high * 2 ^ 64 + low"

definition kVmaxOverBase_uint128 :: "int list" where
  "kVmaxOverBase_uint128 = [
     0,
     0,
     MakeUint128 9223372036854775807 18446744073709551615,
     MakeUint128 6148914691236517205 6148914691236517205,
     MakeUint128 4611686018427387903 18446744073709551615,
     MakeUint128 3689348814741910323 3689348814741910323,
     MakeUint128 3074457345618258602 12297829382473034410,
     MakeUint128 2635249153387078802 5270498306774157604,
     MakeUint128 2305843009213693951 18446744073709551615,
     MakeUint128 2049638230412172401 14347467612885206812,
     MakeUint128 1844674407370955161 11068046444225730969,
     MakeUint128 1676976733973595601 8384883669867978007,
     MakeUint128 1537228672809129301 6148914691236517205,
     MakeUint128 1418980313362273201 4256940940086819603,
     MakeUint128 1317624576693539401 2635249153387078802,
     MakeUint128 1229782938247303441 1229782938247303441,
     MakeUint128 1152921504606846975 18446744073709551615,
     MakeUint128 1085102592571150095 1085102592571150095,
     MakeUint128 1024819115206086200 16397105843297379214,
     MakeUint128 970881267037344821 16504981539634861972,
     MakeUint128 922337203685477580 14757395258967641292,
     MakeUint128 878416384462359600 14054662151397753612,
     MakeUint128 838488366986797800 13415813871788764811,
     MakeUint128 802032351030850070 4812194106185100421,
     MakeUint128 768614336404564650 12297829382473034410,
     MakeUint128 737869762948382064 11805916207174113034,
     MakeUint128 709490156681136600 11351842506898185609,
     MakeUint128 683212743470724133 17080318586768103348,
     MakeUint128 658812288346769700 10540996613548315209,
     MakeUint128 636094623231363848 15266270957552732371,
     MakeUint128 614891469123651720 9838263505978427528,
     MakeUint128 595056260442243600 9520900167075897608,
     MakeUint128 576460752303423487 18446744073709551615,
     MakeUint128 558992244657865200 8943875914525843207,
     MakeUint128 542551296285575047 9765923333140350855,
     MakeUint128 527049830677415760 8432797290838652167,
     MakeUint128 512409557603043100 8198552921648689607]"

definition kVmaxOverBase :: "int_type \<Rightarrow> int list" where
  "kVmaxOverBase ty =
     (if ty = Uint128 then kVmaxOverBase_uint128 else X_OVER_BASE_INITIALIZER (type_max ty))"

definition kVminOverBase :: "int_type \<Rightarrow> int list" where
  "kVminOverBase ty = X_OVER_BASE_INITIALIZER (type_min ty)"

text \<open>The loops over the digits: the result, and the value stored.\<close>

fun positive_loop :: "int_type \<Rightarrow> int \<Rightarrow> int \<Rightarrow> int \<Rightarrow> byte list \<Rightarrow> fault + bool \<times> int" where
  "positive_loop ty base vmax_over_base val [] = Inr (True, val)"
| "positive_loop ty base vmax_over_base val (c # str) =
     (let digit = kAsciiToInt ! unat c; vmax = type_max ty in
      if digit \<ge> base then Inr (False, val)
      else if val > vmax_over_base then Inr (False, vmax)
      else case in_type ty (val * base) of Inl e \<Rightarrow> Inl e
      | Inr val \<Rightarrow>
          if val > vmax - digit then Inr (False, vmax)
          else case in_type ty (val + digit) of Inl e \<Rightarrow> Inl e
          | Inr val \<Rightarrow> positive_loop ty base vmax_over_base val str)"

definition safe_parse_positive_int :: "int_type \<Rightarrow> byte list \<Rightarrow> int \<Rightarrow> fault + bool \<times> int" where
  "safe_parse_positive_int ty str base =
     (let vmax = type_max ty in
      if \<not> (vmax > 0 \<and> base \<ge> 0 \<and> vmax \<ge> base) then Inl Assertion
      else if nat base \<ge> length (kVmaxOverBase ty) then Inl Buffer_overrun
      else
        let vmax_over_base = kVmaxOverBase ty ! nat base in
        if \<not> (base < 2 \<or> vmax sdiv base = vmax_over_base) then Inl Assertion
        else positive_loop ty base vmax_over_base 0 str)"

fun negative_loop :: "int_type \<Rightarrow> int \<Rightarrow> int \<Rightarrow> int \<Rightarrow> byte list \<Rightarrow> fault + bool \<times> int" where
  "negative_loop ty base vmin_over_base val [] = Inr (True, val)"
| "negative_loop ty base vmin_over_base val (c # str) =
     (let digit = kAsciiToInt ! unat c; vmin = type_min ty in
      if digit \<ge> base then Inr (False, val)
      else if val < vmin_over_base then Inr (False, vmin)
      else case in_type ty (val * base) of Inl e \<Rightarrow> Inl e
      | Inr val \<Rightarrow>
          if val < vmin + digit then Inr (False, vmin)
          else case in_type ty (val - digit) of Inl e \<Rightarrow> Inl e
          | Inr val \<Rightarrow> negative_loop ty base vmin_over_base val str)"

definition safe_parse_negative_int :: "int_type \<Rightarrow> byte list \<Rightarrow> int \<Rightarrow> fault + bool \<times> int" where
  "safe_parse_negative_int ty str base =
     (let vmin = type_min ty in
      if \<not> (vmin < 0 \<and> vmin \<le> 0 - base) then Inl Assertion
      else if base < 0 \<or> nat base \<ge> length (kVminOverBase ty) then Inl Buffer_overrun
      else
        let vmin_over_base = kVminOverBase ty ! nat base in
        if \<not> (base < 2 \<or> vmin sdiv base = vmin_over_base) then Inl Assertion
        else if base = 0 then Inl Division_by_zero
        else
          let vmin_over_base = (if vmin smod base > 0 then vmin_over_base + 1 else vmin_over_base)
          in negative_loop ty base vmin_over_base 0 str)"

definition safe_int_internal :: "int_type \<Rightarrow> byte list \<Rightarrow> int \<Rightarrow> fault + bool \<times> int" where
  "safe_int_internal ty str base =
     (case safe_parse_sign_and_base str base of
        None \<Rightarrow> Inr (False, 0)
      | Some (str, base, negative) \<Rightarrow>
          if \<not> negative then safe_parse_positive_int ty str base
          else safe_parse_negative_int ty str base)"

definition safe_uint_internal :: "int_type \<Rightarrow> byte list \<Rightarrow> int \<Rightarrow> fault + bool \<times> int" where
  "safe_uint_internal ty str base =
     (case safe_parse_sign_and_base str base of
        None \<Rightarrow> Inr (False, 0)
      | Some (str, base, negative) \<Rightarrow>
          if negative then Inr (False, 0) else safe_parse_positive_int ty str base)"

definition safe_strto32_base :: "byte list \<Rightarrow> int \<Rightarrow> fault + bool \<times> int" where
  "safe_strto32_base str base = safe_int_internal Int32 str base"

definition safe_strto64_base :: "byte list \<Rightarrow> int \<Rightarrow> fault + bool \<times> int" where
  "safe_strto64_base str base = safe_int_internal Int64 str base"

definition safe_strtou32_base :: "byte list \<Rightarrow> int \<Rightarrow> fault + bool \<times> int" where
  "safe_strtou32_base str base = safe_uint_internal Uint32 str base"

definition safe_strtou64_base :: "byte list \<Rightarrow> int \<Rightarrow> fault + bool \<times> int" where
  "safe_strtou64_base str base = safe_uint_internal Uint64 str base"

definition safe_strtou128_base :: "byte list \<Rightarrow> int \<Rightarrow> fault + bool \<times> int" where
  "safe_strtou128_base str base = safe_uint_internal Uint128 str base"

text \<open>The template over the type of the result, for the types of 32 and 64 bits, and the overload for 128 bits.\<close>

fun safe_strtoi_base :: "int_type \<Rightarrow> byte list \<Rightarrow> int \<Rightarrow> fault + bool \<times> int" where
  "safe_strtoi_base Int64 str base = safe_strto64_base str base"
| "safe_strtoi_base Int32 str base = safe_strto32_base str base"
| "safe_strtoi_base Uint64 str base = safe_strtou64_base str base"
| "safe_strtoi_base Uint32 str base = safe_strtou32_base str base"
| "safe_strtoi_base Uint128 str base = safe_strtou128_base str base"

definition SimpleAtoi :: "int_type \<Rightarrow> byte list \<Rightarrow> fault + bool \<times> int" where
  "SimpleAtoi ty str = safe_strtoi_base ty str 10"

end
