(* ===== verification/Parse_Float.thy ===== *)
theory Parse_Float
  imports Fallible Numbers
begin

text \<open>
  Scanning of floating-point numbers, \<open>absl/strings/internal/charconv_parse.h\<close> and \<open>charconv_parse.cc\<close>,
  with the format flags of \<open>absl/strings/charconv.h\<close>.

  The text is a list of bytes and a pointer into it is a position; \<open>end\<close> is its length. A null
  pointer is \<^const>\<open>None\<close>. The type \<open>T\<close> of the scanned integer is a parameter, as in the template.
\<close>

section \<open>Format flags\<close>

type_synonym chars_format = "32 word"

definition scientific_fmt :: chars_format where "scientific_fmt = 1"
definition fixed_fmt :: chars_format where "fixed_fmt = 2"
definition hex_fmt :: chars_format where "hex_fmt = 4"
definition general_fmt :: chars_format where "general_fmt = fixed_fmt OR scientific_fmt"

definition AllowExponent :: "chars_format \<Rightarrow> bool" where
  "AllowExponent flags =
     (let fixed = (flags AND fixed_fmt = fixed_fmt);
          scientific = (flags AND scientific_fmt = scientific_fmt)
      in scientific \<or> \<not> fixed)"

definition RequireExponent :: "chars_format \<Rightarrow> bool" where
  "RequireExponent flags =
     (let fixed = (flags AND fixed_fmt = fixed_fmt);
          scientific = (flags AND scientific_fmt = scientific_fmt)
      in scientific \<and> \<not> fixed)"

section \<open>The scanned number\<close>

datatype FloatType = kNumber | kInfinity | kNan

record ParsedFloat =
  pf_mantissa :: "64 word"
  pf_exponent :: int
  pf_literal_exponent :: int
  pf_type :: FloatType
  pf_subrange_begin :: "nat option"
  pf_subrange_end :: "nat option"
  pf_end :: "nat option"

definition ParsedFloat_init :: ParsedFloat where
  "ParsedFloat_init = \<lparr>pf_mantissa = 0, pf_exponent = 0, pf_literal_exponent = 0, pf_type = kNumber,
     pf_subrange_begin = None, pf_subrange_end = None, pf_end = None\<rparr>"

section \<open>Digits\<close>

definition kAsciiToInt_float :: "int list" where
  "kAsciiToInt_float = [
    -1, -1, -1, -1, -1, -1, -1, -1, -1, -1, -1, -1, -1, -1, -1, -1, -1, -1, -1,
    -1, -1, -1, -1, -1, -1, -1, -1, -1, -1, -1, -1, -1, -1, -1, -1, -1, -1, -1,
    -1, -1, -1, -1, -1, -1, -1, -1, -1, -1, 0,  1,  2,  3,  4,  5,  6,  7,  8,
    9,  -1, -1, -1, -1, -1, -1, -1, 10, 11, 12, 13, 14, 15, -1, -1, -1, -1, -1,
    -1, -1, -1, -1, -1, -1, -1, -1, -1, -1, -1, -1, -1, -1, -1, -1, -1, -1, -1,
    -1, -1, 10, 11, 12, 13, 14, 15, -1, -1, -1, -1, -1, -1, -1, -1, -1, -1, -1,
    -1, -1, -1, -1, -1, -1, -1, -1, -1, -1, -1, -1, -1, -1, -1, -1, -1, -1, -1,
    -1, -1, -1, -1, -1, -1, -1, -1, -1, -1, -1, -1, -1, -1, -1, -1, -1, -1, -1,
    -1, -1, -1, -1, -1, -1, -1, -1, -1, -1, -1, -1, -1, -1, -1, -1, -1, -1, -1,
    -1, -1, -1, -1, -1, -1, -1, -1, -1, -1, -1, -1, -1, -1, -1, -1, -1, -1, -1,
    -1, -1, -1, -1, -1, -1, -1, -1, -1, -1, -1, -1, -1, -1, -1, -1, -1, -1, -1,
    -1, -1, -1, -1, -1, -1, -1, -1, -1, -1, -1, -1, -1, -1, -1, -1, -1, -1, -1,
    -1, -1, -1, -1, -1, -1, -1, -1, -1, -1, -1, -1, -1, -1, -1, -1, -1, -1, -1,
    -1, -1, -1, -1, -1, -1, -1, -1, -1]"

datatype base = Decimal | Hexadecimal

primrec base_value :: "base \<Rightarrow> int" where
  "base_value Decimal = 10"
| "base_value Hexadecimal = 16"

primrec IsDigit_base :: "base \<Rightarrow> byte \<Rightarrow> bool" where
  "IsDigit_base Decimal ch \<longleftrightarrow> 48 \<le> ch \<and> ch \<le> 57"
| "IsDigit_base Hexadecimal ch \<longleftrightarrow> kAsciiToInt_float ! unat ch \<ge> 0"

primrec ToDigit :: "base \<Rightarrow> byte \<Rightarrow> int" where
  "ToDigit Decimal ch = int (unat ch) - 48"
| "ToDigit Hexadecimal ch = kAsciiToInt_float ! unat ch"

primrec IsExponentCharacter :: "base \<Rightarrow> byte \<Rightarrow> bool" where
  "IsExponentCharacter Decimal ch \<longleftrightarrow> ch = 101 \<or> ch = 69"
| "IsExponentCharacter Hexadecimal ch \<longleftrightarrow> ch = 112 \<or> ch = 80"

definition kDecimalDigitLimit :: nat where "kDecimalDigitLimit = 50000000"
definition kHexadecimalDigitLimit :: nat where "kHexadecimalDigitLimit = kDecimalDigitLimit div 4"
definition kDecimalExponentDigitsMax :: nat where "kDecimalExponentDigitsMax = 9"

primrec MantissaDigitsMax :: "base \<Rightarrow> nat" where
  "MantissaDigitsMax Decimal = 19"
| "MantissaDigitsMax Hexadecimal = 15"

primrec DigitLimit :: "base \<Rightarrow> nat" where
  "DigitLimit Decimal = kDecimalDigitLimit"
| "DigitLimit Hexadecimal = kHexadecimalDigitLimit"

primrec DigitMagnitude :: "base \<Rightarrow> int" where
  "DigitMagnitude Decimal = 1"
| "DigitMagnitude Hexadecimal = 4"

text \<open>The two integer types that digits are read into: what their arithmetic does, and their limits.\<close>

datatype digit_type = U64 | I32

primrec arith :: "digit_type \<Rightarrow> int \<Rightarrow> fault + int" where
  "arith U64 x = Inr (x mod 2 ^ 64)"
| "arith I32 x = check_int x"

primrec type_digits10 :: "digit_type \<Rightarrow> nat" where
  "type_digits10 U64 = 19"
| "type_digits10 I32 = 9"

primrec type_digits2 :: "digit_type \<Rightarrow> nat" where
  "type_digits2 U64 = 64"
| "type_digits2 I32 = 31"

text \<open>\<open>while (p < end && P(*p)) ++p;\<close>\<close>

function skip_while :: "(byte \<Rightarrow> bool) \<Rightarrow> byte list \<Rightarrow> nat \<Rightarrow> nat" where
  "skip_while P src i = (if i < length src \<and> P (src ! i) then skip_while P src (i + 1) else i)"
  by auto
termination
  by (relation "measure (\<lambda>(P, src, i). length src - i)") auto

declare skip_while.simps [simp del]

function accumulate_loop :: "base \<Rightarrow> digit_type \<Rightarrow> byte list \<Rightarrow> nat \<Rightarrow> nat \<Rightarrow> int \<Rightarrow> fault + int \<times> nat" where
  "accumulate_loop base ty src significant_digits_end i accumulator =
     (if i < significant_digits_end then
        bind_f (rd src i) (\<lambda>c.
        if IsDigit_base base c then
          bind_f (arith ty (accumulator * base_value base)) (\<lambda>shifted.
          bind_f (assert_f (shifted \<ge> accumulator)) (\<lambda>_.
          bind_f (arith ty (shifted + ToDigit base c)) (\<lambda>sum.
          bind_f (assert_f (sum \<ge> shifted)) (\<lambda>_.
          accumulate_loop base ty src significant_digits_end (i + 1) sum))))
        else Inr (accumulator, i))
      else Inr (accumulator, i))"
  by auto
termination
  by (relation "measure (\<lambda>(base, ty, src, e, i, a). e - i)") auto

declare accumulate_loop.simps [simp del]

function dropped_loop :: "base \<Rightarrow> byte list \<Rightarrow> nat \<Rightarrow> bool \<Rightarrow> bool \<times> nat" where
  "dropped_loop base src i dropped_nonzero =
     (if i < length src \<and> IsDigit_base base (src ! i)
      then dropped_loop base src (i + 1) (dropped_nonzero \<or> src ! i \<noteq> 48)
      else (dropped_nonzero, i))"
  by auto
termination
  by (relation "measure (\<lambda>(base, src, i, d). length src - i)") auto

declare dropped_loop.simps [simp del]

text \<open>The results are the number of digits consumed, \<open>*out\<close> and \<open>*dropped_nonzero_digit\<close>.\<close>

definition ConsumeDigits :: "base \<Rightarrow> digit_type \<Rightarrow> byte list \<Rightarrow> nat \<Rightarrow> nat \<Rightarrow> int \<Rightarrow> bool \<Rightarrow>
    fault + nat \<times> int \<times> bool" where
  "ConsumeDigits base ty src begin max_digits out dropped_nonzero_digit =
     bind_f (case base of
         Decimal \<Rightarrow> assert_f (max_digits \<le> type_digits10 ty)
       | Hexadecimal \<Rightarrow> assert_f (max_digits * 4 \<le> type_digits2 ty)) (\<lambda>_.
     let original_begin = begin;
         begin = (if out = 0 then skip_while (\<lambda>c. c = 48) src begin else begin);
         significant_digits_end =
           (if length src - begin > max_digits then begin + max_digits else length src)
     in bind_f (accumulate_loop base ty src significant_digits_end begin out) (\<lambda>(accumulator, begin).
     let (dropped_nonzero, begin) = dropped_loop base src begin False
     in Inr (begin - original_begin, accumulator,
          if dropped_nonzero then True else dropped_nonzero_digit)))"

section \<open>Infinities and NaNs\<close>

definition IsNanChar :: "byte \<Rightarrow> bool" where
  "IsNanChar v \<longleftrightarrow> v = 95 \<or> (48 \<le> v \<and> v \<le> 57) \<or> (97 \<le> v \<and> v \<le> 122) \<or> (65 \<le> v \<and> v \<le> 90)"

text \<open>\<open>memcasecmp(p, word, strlen(word)) != 0\<close>; it reads at \<open>p\<close> up to the first difference.\<close>

fun differs_at :: "byte list \<Rightarrow> nat \<Rightarrow> string \<Rightarrow> fault + bool" where
  "differs_at src p [] = Inr False"
| "differs_at src p (w # ws) =
     bind_f (rd src p) (\<lambda>c.
     if ascii_tolower c \<noteq> ascii_tolower (chr w) then Inr True else differs_at src (p + 1) ws)"

definition ParseInfinityOrNan :: "byte list \<Rightarrow> nat \<Rightarrow> ParsedFloat \<Rightarrow> fault + bool \<times> ParsedFloat" where
  "ParseInfinityOrNan src begin out =
     (if length src - begin < 3 then Inr (False, out)
      else
        bind_f (rd src begin) (\<lambda>c.
        if c = 105 \<or> c = 73 then
          bind_f (differs_at src (begin + 1) ''nf'') (\<lambda>differs.
          if differs then Inr (False, out)
          else
            let out = out\<lparr>pf_type := kInfinity\<rparr>
            in bind_f (if length src - begin \<ge> 8
                 then bind_f (differs_at src (begin + 3) ''inity'') (\<lambda>differs. Inr (\<not> differs)) else Inr False)
               (\<lambda>infinity.
               Inr (True, out\<lparr>pf_end := Some (if infinity then begin + 8 else begin + 3)\<rparr>)))
        else if c = 110 \<or> c = 78 then
          bind_f (differs_at src (begin + 1) ''an'') (\<lambda>differs.
          if differs then Inr (False, out)
          else
            let out = out\<lparr>pf_type := kNan, pf_end := Some (begin + 3)\<rparr>;
                begin = begin + 3
            in if begin < length src then
                 bind_f (rd src begin) (\<lambda>c.
                 if c = 40 then
                   let nan_begin = skip_while IsNanChar src (begin + 1)
                   in if nan_begin < length src then
                        bind_f (rd src nan_begin) (\<lambda>c.
                        if c = 41
                        then Inr (True, out\<lparr>pf_subrange_begin := Some (begin + 1), pf_subrange_end := Some nan_begin,
                          pf_end := Some (nan_begin + 1)\<rparr>)
                        else Inr (True, out))
                      else Inr (True, out)
                 else Inr (True, out))
               else Inr (True, out))
        else Inr (False, out)))"

section \<open>Numbers\<close>

text \<open>
  The digits before the point: the position, the mantissa, whether it is inexact, the adjustment of the exponent and how many
  more digits fit. \<^const>\<open>None\<close> is the early return for too many digits.
\<close>

definition scan_integer_part :: "base \<Rightarrow> byte list \<Rightarrow> nat \<Rightarrow> fault + (nat \<times> int \<times> bool \<times> int \<times> int) option" where
  "scan_integer_part base src begin =
     (let begin = skip_while (\<lambda>c. c = 48) src begin
      in bind_f (ConsumeDigits base U64 src begin (MantissaDigitsMax base) 0 False)
        (\<lambda>(pre_decimal_digits, mantissa, mantissa_is_inexact).
        let begin = begin + pre_decimal_digits
        in if pre_decimal_digits \<ge> DigitLimit base then Inr None
           else if pre_decimal_digits > MantissaDigitsMax base then
             Inr (Some (begin, mantissa, mantissa_is_inexact,
               int pre_decimal_digits - int (MantissaDigitsMax base), 0))
           else
             Inr (Some (begin, mantissa, mantissa_is_inexact, 0,
               int (MantissaDigitsMax base) - int pre_decimal_digits))))"

text \<open>The digits after the point: the position, the mantissa, whether it is inexact and the adjustment.\<close>

definition scan_fraction_part :: "base \<Rightarrow> byte list \<Rightarrow> nat \<Rightarrow> int \<Rightarrow> bool \<Rightarrow> int \<Rightarrow> int \<Rightarrow>
    fault + (nat \<times> int \<times> bool \<times> int) option" where
  "scan_fraction_part base src begin mantissa mantissa_is_inexact exponent_adjustment digits_left =
     (if begin < length src \<and> src ! begin = 46 then
        let begin_zeros = begin + 1;
            begin = (if mantissa = 0 then skip_while (\<lambda>c. c = 48) src begin_zeros else begin_zeros);
            zeros_skipped = begin - begin_zeros
        in if mantissa = 0 \<and> zeros_skipped \<ge> DigitLimit base then Inr None
           else bind_f (check_int (exponent_adjustment - int zeros_skipped)) (\<lambda>exponent_adjustment.
           bind_f (ConsumeDigits base U64 src begin (nat digits_left) mantissa mantissa_is_inexact)
             (\<lambda>(post_decimal_digits, mantissa, mantissa_is_inexact).
           let begin = begin + post_decimal_digits
           in if post_decimal_digits \<ge> DigitLimit base then Inr None
              else if int post_decimal_digits > digits_left then
                bind_f (check_int (exponent_adjustment - digits_left)) (\<lambda>exponent_adjustment.
                Inr (Some (begin, mantissa, mantissa_is_inexact, exponent_adjustment)))
              else
                bind_f (check_int (exponent_adjustment - int post_decimal_digits)) (\<lambda>exponent_adjustment.
                Inr (Some (begin, mantissa, mantissa_is_inexact, exponent_adjustment)))))
      else Inr (Some (begin, mantissa, mantissa_is_inexact, exponent_adjustment)))"

text \<open>The exponent: the position, \<open>literal_exponent\<close> and \<open>found_exponent\<close>.\<close>

definition scan_exponent :: "base \<Rightarrow> byte list \<Rightarrow> nat \<Rightarrow> chars_format \<Rightarrow> fault + nat \<times> int \<times> bool" where
  "scan_exponent base src begin format_flags =
     (let exponent_begin = begin
      in if AllowExponent format_flags \<and> begin < length src \<and> IsExponentCharacter base (src ! begin) then
           let begin = begin + 1;
               negative_exponent = (begin < length src \<and> src ! begin = 45);
               begin = (if negative_exponent then begin + 1
                        else if begin < length src \<and> src ! begin = 43 then begin + 1 else begin);
               exponent_digits_begin = begin
           in bind_f (ConsumeDigits Decimal I32 src begin kDecimalExponentDigitsMax 0 False)
             (\<lambda>(digits, literal_exponent, _).
             let begin = begin + digits
             in if begin = exponent_digits_begin then Inr (exponent_begin, literal_exponent, False)
                else if negative_exponent then
                  bind_f (check_int (- literal_exponent)) (\<lambda>literal_exponent.
                  Inr (begin, literal_exponent, True))
                else Inr (begin, literal_exponent, True))
         else Inr (begin, 0, False))"

definition ParseFloat :: "base \<Rightarrow> byte list \<Rightarrow> nat \<Rightarrow> chars_format \<Rightarrow> fault + ParsedFloat" where
  "ParseFloat base src begin format_flags =
     (let result = ParsedFloat_init
      in if begin = length src then Inr result
      else bind_f (ParseInfinityOrNan src begin result) (\<lambda>(special, result).
      if special then Inr result
      else
        let mantissa_begin = begin
        in bind_f (scan_integer_part base src begin) (\<lambda>integer_part. case integer_part of
          None \<Rightarrow> Inr result
        | Some (begin, mantissa, mantissa_is_inexact, exponent_adjustment, digits_left) \<Rightarrow>
          bind_f (scan_fraction_part base src begin mantissa mantissa_is_inexact exponent_adjustment
            digits_left) (\<lambda>fraction_part. case fraction_part of
          None \<Rightarrow> Inr result
        | Some (begin, mantissa, mantissa_is_inexact, exponent_adjustment) \<Rightarrow>
          if mantissa_begin = begin then Inr result
          else if begin - mantissa_begin = 1 \<and> src ! mantissa_begin = 46 then Inr result
          else
            let (mantissa, result) =
                  (if mantissa_is_inexact then
                     (case base of
                        Decimal \<Rightarrow> (mantissa, result\<lparr>pf_subrange_begin := Some mantissa_begin,
                          pf_subrange_end := Some begin\<rparr>)
                      | Hexadecimal \<Rightarrow> (mantissa OR 1, result))
                   else (mantissa, result));
                result = result\<lparr>pf_mantissa := word_of_int mantissa\<rparr>
            in bind_f (scan_exponent base src begin format_flags)
              (\<lambda>(begin, literal_exponent, found_exponent).
              let result = result\<lparr>pf_literal_exponent := literal_exponent\<rparr>
              in if \<not> found_exponent \<and> RequireExponent format_flags then Inr result
              else
                let result = result\<lparr>pf_type := kNumber\<rparr>
                in if pf_mantissa result > 0 then
                     bind_f (check_int (DigitMagnitude base * exponent_adjustment)) (\<lambda>adjustment.
                     bind_f (check_int (literal_exponent + adjustment)) (\<lambda>exponent.
                     Inr (result\<lparr>pf_exponent := exponent, pf_end := Some begin\<rparr>)))
                   else Inr (result\<lparr>pf_exponent := 0, pf_end := Some begin\<rparr>))))))"

end
