(* ===== verification/Big_Unsigned.thy ===== *)
theory Big_Unsigned
  imports Parse_Float
begin

text \<open>
  Large integers of a fixed number of 32-bit words, \<open>absl/strings/internal/charconv_bigint.h\<close> and
  \<open>charconv_bigint.cc\<close>.

  A \<open>BigUnsigned<max_words>\<close> is its size and its array of words; \<open>max_words\<close> is the length of the array, as
  it is in the class. All operations work in place and are functions from the old value of \<open>*this\<close> to the new. The
  \<open>int\<close> variables that are never negative are natural numbers. Accesses of the array that are outside it are faults.
\<close>

section \<open>Representation\<close>

record big =
  bu_size :: nat
  bu_words :: "32 word list"

definition max_words :: "big \<Rightarrow> nat" where
  "max_words b = length (bu_words b)"

definition BigUnsigned_zero :: "nat \<Rightarrow> big" where
  "BigUnsigned_zero words = \<lparr>bu_size = 0, bu_words = replicate words 0\<rparr>"

definition BigUnsigned_of_u64 :: "nat \<Rightarrow> 64 word \<Rightarrow> big" where
  "BigUnsigned_of_u64 words v =
     \<lparr>bu_size = (if drop_bit 32 v \<noteq> 0 then 2 else if v \<noteq> 0 then 1 else 0),
      bu_words = [ucast v, ucast (drop_bit 32 v)] @ replicate (words - 2) 0\<rparr>"

definition Digits10 :: "nat \<Rightarrow> nat" where
  "Digits10 words = words * 9975007 div 1035508"

definition SetToZero :: "big \<Rightarrow> fault + big" where
  "SetToZero b = bind_f (fill_f (bu_words b) (bu_size b) 0) (\<lambda>words. Inr \<lparr>bu_size = 0, bu_words = words\<rparr>)"

definition GetWord :: "big \<Rightarrow> int \<Rightarrow> fault + 32 word" where
  "GetWord b index = (if index < 0 \<or> index \<ge> int (bu_size b) then Inr 0 else rd (bu_words b) (nat index))"

section \<open>Shifting\<close>

fun shift_loop :: "nat \<Rightarrow> nat \<Rightarrow> nat \<Rightarrow> 32 word list \<Rightarrow> fault + 32 word list" where
  "shift_loop word_shift count i words =
     (if i > word_shift then
        bind_f (rd words (i - word_shift)) (\<lambda>a.
        bind_f (rd words (i - word_shift - 1)) (\<lambda>b.
        bind_f (wr words i (push_bit count a OR drop_bit (32 - count) b)) (\<lambda>words.
        shift_loop word_shift count (i - 1) words)))
      else Inr words)"

declare shift_loop.simps [simp del]

text \<open>\<open>std::copy_backward(words_, words_ + n, words_ + n + word_shift)\<close>\<close>

definition copy_backward :: "32 word list \<Rightarrow> nat \<Rightarrow> nat \<Rightarrow> fault + 32 word list" where
  "copy_backward words n word_shift =
     (if n + word_shift \<le> length words
      then Inr (take word_shift words @ take n words @ drop (n + word_shift) words)
      else Inl Buffer_overrun)"

definition ShiftLeft :: "int \<Rightarrow> big \<Rightarrow> fault + big" where
  "ShiftLeft count b =
     (if count > 0 then
        let word_shift = nat (count div 32)
        in if word_shift \<ge> max_words b then SetToZero b
        else
          let size = min (bu_size b + word_shift) (max_words b);
              count = nat (count mod 32)
          in bind_f (if count = 0 then
               bind_f (copy_backward (bu_words b) (size - word_shift) word_shift) (\<lambda>words. Inr (size, words))
             else
               bind_f (shift_loop word_shift count (min size (max_words b - 1)) (bu_words b)) (\<lambda>words.
               bind_f (rd words 0) (\<lambda>w.
               bind_f (wr words word_shift (push_bit count w)) (\<lambda>words.
               bind_f (if size < max_words b then bind_f (rd words size) (\<lambda>w. Inr (w \<noteq> 0)) else Inr False) (\<lambda>grow.
               Inr (if grow then size + 1 else size, words)))))) (\<lambda>(size, words).
          bind_f (fill_f words word_shift 0) (\<lambda>words.
          Inr \<lparr>bu_size = size, bu_words = words\<rparr>))
      else Inr b)"

section \<open>Multiplication by a word\<close>

function mul_loop :: "64 word \<Rightarrow> nat \<Rightarrow> nat \<Rightarrow> 64 word \<Rightarrow> 32 word list \<Rightarrow> fault + 64 word \<times> 32 word list" where
  "mul_loop factor n i window words =
     (if i < n then
        bind_f (rd words i) (\<lambda>w.
        let window = window + factor * ucast w
        in bind_f (wr words i (ucast window)) (\<lambda>words.
        mul_loop factor n (i + 1) (drop_bit 32 window) words))
      else Inr (window, words))"
  by auto
termination
  by (relation "measure (\<lambda>(factor, n, i, window, words). n - i)") auto

declare mul_loop.simps [simp del]

definition MultiplyBy_u32 :: "32 word \<Rightarrow> big \<Rightarrow> fault + big" where
  "MultiplyBy_u32 v b =
     (if bu_size b = 0 \<or> v = 1 then Inr b
      else if v = 0 then SetToZero b
      else
        bind_f (mul_loop (ucast v) (bu_size b) 0 0 (bu_words b)) (\<lambda>(window, words).
        if window \<noteq> 0 \<and> bu_size b < max_words b then
          bind_f (wr words (bu_size b) (ucast window)) (\<lambda>words.
          Inr \<lparr>bu_size = bu_size b + 1, bu_words = words\<rparr>)
        else Inr (b\<lparr>bu_words := words\<rparr>)))"

section \<open>Addition\<close>

text \<open>The loop of \<open>AddWithCarry(int, uint32_t)\<close>: the words and the index where it ends.\<close>

function carry_loop :: "nat \<Rightarrow> 32 word \<Rightarrow> 32 word list \<Rightarrow> fault + nat \<times> 32 word list" where
  "carry_loop index v words =
     (if index < length words \<and> v > 0 then
        bind_f (rd words index) (\<lambda>w.
        bind_f (wr words index (w + v)) (\<lambda>words.
        if v > w + v then carry_loop (index + 1) 1 words else carry_loop index 0 words))
      else Inr (index, words))"
  by auto
termination
  by (relation "measure (\<lambda>(index, v, words). (length words - index) + (if v > 0 then 1 else 0))")
    (auto simp: wr_def split: if_splits)

declare carry_loop.simps [simp del]

definition AddWithCarry_u32 :: "nat \<Rightarrow> 32 word \<Rightarrow> big \<Rightarrow> fault + big" where
  "AddWithCarry_u32 index v b =
     (if v \<noteq> 0 then
        bind_f (carry_loop index v (bu_words b)) (\<lambda>(index, words).
        Inr \<lparr>bu_size = min (max_words b) (max (index + 1) (bu_size b)), bu_words = words\<rparr>)
      else Inr b)"

definition AddWithCarry_u64 :: "nat \<Rightarrow> 64 word \<Rightarrow> big \<Rightarrow> fault + big" where
  "AddWithCarry_u64 index v b =
     (if v \<noteq> 0 \<and> index < max_words b then
        let high = ucast (drop_bit 32 v) :: 32 word;
            low = ucast v :: 32 word
        in bind_f (rd (bu_words b) index) (\<lambda>w.
           bind_f (wr (bu_words b) index (w + low)) (\<lambda>words.
           let b = b\<lparr>bu_words := words\<rparr>;
               carry = (w + low < low);
               high = (if carry then high + 1 else high)
           in if carry \<and> high = 0 then AddWithCarry_u32 (index + 2) 1 b
              else if high > 0 then AddWithCarry_u32 (index + 1) high b
              else Inr (b\<lparr>bu_size := min (max_words b) (max (index + 1) (bu_size b))\<rparr>)))
      else Inr b)"

section \<open>Multiplication\<close>

function step_loop :: "32 word list \<Rightarrow> 32 word list \<Rightarrow> nat \<Rightarrow> int \<Rightarrow> nat \<Rightarrow> 64 word \<Rightarrow> 64 word \<Rightarrow>
    fault + 64 word \<times> 64 word" where
  "step_loop words other_words other_size this_i other_i this_word carry =
     (if this_i \<ge> 0 \<and> other_i < other_size then
        bind_f (rd words (nat this_i)) (\<lambda>a.
        bind_f (rd other_words other_i) (\<lambda>b.
        let product = ucast a * ucast b;
            this_word = this_word + product;
            carry = carry + drop_bit 32 this_word;
            this_word = this_word AND 0xffffffff
        in step_loop words other_words other_size (this_i - 1) (other_i + 1) this_word carry))
      else Inr (this_word, carry))"
  by auto
termination
  by (relation "measure (\<lambda>(words, other_words, other_size, this_i, other_i, this_word, carry).
      other_size - other_i)") auto

declare step_loop.simps [simp del]

definition MultiplyStep :: "nat \<Rightarrow> 32 word list \<Rightarrow> nat \<Rightarrow> nat \<Rightarrow> big \<Rightarrow> fault + big" where
  "MultiplyStep original_size other_words other_size step b =
     (let this_i = min (int original_size - 1) (int step);
          other_i = nat (int step - this_i)
      in bind_f (step_loop (bu_words b) other_words other_size this_i other_i 0 0) (\<lambda>(this_word, carry).
         bind_f (AddWithCarry_u64 (step + 1) carry b) (\<lambda>b.
         bind_f (wr (bu_words b) step (ucast this_word)) (\<lambda>words.
         Inr \<lparr>bu_size = (if this_word > 0 \<and> bu_size b \<le> step then step + 1 else bu_size b),
              bu_words = words\<rparr>))))"

text \<open>\<open>for (int step = first_step; step >= 0; --step)\<close>, with \<open>n\<close> steps left.\<close>

primrec multiply_loop :: "nat \<Rightarrow> 32 word list \<Rightarrow> nat \<Rightarrow> nat \<Rightarrow> big \<Rightarrow> fault + big" where
  "multiply_loop original_size other_words other_size 0 b = Inr b"
| "multiply_loop original_size other_words other_size (Suc n) b =
     bind_f (MultiplyStep original_size other_words other_size n b) (\<lambda>b.
     multiply_loop original_size other_words other_size n b)"

definition MultiplyBy_words :: "nat \<Rightarrow> 32 word list \<Rightarrow> big \<Rightarrow> fault + big" where
  "MultiplyBy_words other_size other_words b =
     (let original_size = bu_size b;
          first_step = min (int original_size + int other_size - 2) (int (max_words b) - 1)
      in multiply_loop original_size other_words other_size (nat (first_step + 1)) b)"

definition MultiplyBy_u64 :: "64 word \<Rightarrow> big \<Rightarrow> fault + big" where
  "MultiplyBy_u64 v b =
     (let words = [ucast v, ucast (drop_bit 32 v)]
      in if words ! 1 = 0 then MultiplyBy_u32 (words ! 0) b else MultiplyBy_words 2 words b)"

definition MultiplyBy_big :: "big \<Rightarrow> big \<Rightarrow> fault + big" where
  "MultiplyBy_big other b = MultiplyBy_words (bu_size other) (bu_words other) b"

section \<open>Powers of five and ten\<close>

definition kMaxSmallPowerOfFive :: int where "kMaxSmallPowerOfFive = 13"
definition kMaxSmallPowerOfTen :: int where "kMaxSmallPowerOfTen = 9"
definition kLargePowerOfFiveStep :: int where "kLargePowerOfFiveStep = 27"
definition kLargestPowerOfFiveIndex :: int where "kLargestPowerOfFiveIndex = 20"

definition kFiveToNth :: "32 word list" where
  "kFiveToNth = [
     1,     5,      25,      125,     625,      3125,      15625,
     78125, 390625, 1953125, 9765625, 48828125, 244140625, 1220703125]"

definition kTenToNth :: "32 word list" where
  "kTenToNth = [1, 10, 100, 1000, 10000, 100000, 1000000, 10000000, 100000000, 1000000000]"

definition kLargePowersOfFive :: "32 word list" where
  "kLargePowersOfFive = [
     0xfa10079d, 0x6765c793,
     0x97d9f649, 0x6664242d, 0x29939b14, 0x29c30f10,
     0xc4f809c5, 0x7bf3f22a, 0x67bdae34, 0xad340517, 0x369d1b5f, 0x10de1593,
     0x92b260d1, 0x9efff7c7, 0x81de0ec6, 0xaeba5d56, 0x410664a4, 0x4f40737a, 0x20d3846f, 0x06d00f73,
     0xff1b172d, 0x13a1d71c, 0xefa07617, 0x7f682d3d, 0xff8c90c0, 0x3f0131e7, 0x3fdcb9fe, 0x917b0177,
     0x16c407a7, 0x02c06b9d,
     0x960f7199, 0x056667ec, 0xe07aefd8, 0x80f2b9cc, 0x8273f5e3, 0xeb9a214a, 0x40b38005, 0x0e477ad4,
     0x277d08e6, 0xfa28b11e, 0xd3f7d784, 0x011c835b,
     0xf723d9d5, 0x3282d3f3, 0xe00857d1, 0x69659d25, 0x2cf117cf, 0x24da6d07, 0x954d1417, 0x3e5d8ced,
     0x7a8bb766, 0xfd785ae6, 0x645436d2, 0x40c78b34, 0x94151217, 0x0072e9f7,
     0x2b416aa1, 0x7893c5a7, 0xe37dc6d4, 0x2bad2bea, 0xf0fc846c, 0x7575ae4b, 0x62587b14, 0x83b67a34,
     0x02110cdb, 0xf7992f55, 0x00deb022, 0xa4a23bec, 0x8af5c5cd, 0xb85b654f, 0x818df38b, 0x002e69d2,
     0x3518cbbd, 0x20b0c15f, 0x38756c2f, 0xfb5dc3dd, 0x22ad2d94, 0xbf35a952, 0xa699192a, 0x9a613326,
     0xad2a9ced, 0xd7f48968, 0xe87dfb54, 0xc8f05db6, 0x5ef67531, 0x31c1ab49, 0xe202ac9f, 0x9b2957b5,
     0xa143f6d3, 0x0012bf07,
     0x8b971de9, 0x21aba2e1, 0x63944362, 0x57172336, 0xd9544225, 0xfb534166, 0x08c563ee, 0x14640ee2,
     0x24e40d31, 0x02b06537, 0x03887f14, 0x0285e533, 0xb744ef26, 0x8be3a6c4, 0x266979b4, 0x6761ece2,
     0xd9cb39e4, 0xe67de319, 0x0d39e796, 0x00079250,
     0x260eb6e5, 0xf414a796, 0xee1a7491, 0xdb9368eb, 0xf50c105b, 0x59157750, 0x9ed2fb5c, 0xf6e56d8b,
     0xeaee8d23, 0x0f319f75, 0x2aa134d6, 0xac2908e9, 0xd4413298, 0x02f02a55, 0x989d5a7a, 0x70dde184,
     0xba8040a7, 0x03200981, 0xbe03b11c, 0x3c1c2a18, 0xd60427a1, 0x00030ee0,
     0xce566d71, 0xf1c4aa25, 0x4e93ca53, 0xa72283d0, 0x551a73ea, 0x3d0538e2, 0x8da4303f, 0x6a58de60,
     0x0e660221, 0x49cf61a6, 0x8d058fc1, 0xb9d1a14c, 0x4bab157d, 0xc85c6932, 0x518c8b9e, 0x9b92b8d0,
     0x0d8a0e21, 0xbd855df9, 0xb3ea59a1, 0x8da29289, 0x4584d506, 0x3752d80f, 0xb72569c6, 0x00013c33,
     0x190f354d, 0x83695cfe, 0xe5a4d0c7, 0xb60fb7e8, 0xee5bbcc4, 0xb922054c, 0xbb4f0d85, 0x48394028,
     0x1d8957db, 0x0d7edb14, 0x4ecc7587, 0x505e9e02, 0x4c87f36b, 0x99e66bd6, 0x44b9ed35, 0x753037d4,
     0xe5fe5f27, 0x2742c203, 0x13b2ed2b, 0xdc525d2c, 0xe6fde59a, 0x77ffb18f, 0x13c5752c, 0x08a84bcc,
     0x859a4940, 0x00007fb6,
     0x4f98cb39, 0xa60edbbc, 0x83b5872e, 0xa501acff, 0x9cc76f78, 0xbadd4c73, 0x43e989fa, 0xca7acf80,
     0x2e0c824f, 0xb19f4ffc, 0x092fd81c, 0xe4eb645b, 0xa1ff84c2, 0x8a5a83ba, 0xa8a1fae9, 0x1db43609,
     0xb0fed50b, 0x0dd7d2bd, 0x7d7accd8, 0x91fa640f, 0x37dcc6c5, 0x1c417fd5, 0xe4d462ad, 0xe8a43399,
     0x131bf9a5, 0x8df54d29, 0x36547dc1, 0x00003395,
     0x5bd330f5, 0x77d21967, 0x1ac481b7, 0x6be2f7ce, 0x7f4792a9, 0xe84c2c52, 0x84592228, 0x9dcaf829,
     0xdab44ce1, 0x3d0c311b, 0x532e297d, 0x4704e8b4, 0x9cdc32be, 0x41e64d9d, 0x7717bea1, 0xa824c00d,
     0x08f50b27, 0x0f198d77, 0x49bbfdf0, 0x025c6c69, 0xd4e55cd3, 0xf083602b, 0xb9f0fecd, 0xc0864aea,
     0x9cb98681, 0xaaf620e9, 0xacb6df30, 0x4faafe66, 0x8af13c3b, 0x000014d5,
     0x682bb941, 0x89a9f297, 0xcba75d7b, 0x404217b1, 0xb4e519e9, 0xa1bc162b, 0xf7f5910a, 0x98715af5,
     0x2ff53e57, 0xe3ef118c, 0x490c4543, 0xbc9b1734, 0x2affbe4d, 0x4cedcb4c, 0xfb14e99e, 0x35e34212,
     0xece39c24, 0x07673ab3, 0xe73115dd, 0xd15d38e7, 0x093eed3b, 0xf8e7eac5, 0x78a8cc80, 0x25227aac,
     0x3f590551, 0x413da1cb, 0xdf643a55, 0xab65ad44, 0xd70b23d7, 0xc672cd76, 0x3364ea62, 0x0000086a,
     0x22f163dd, 0x23cf07ac, 0xbe2af6c2, 0xf412f6f6, 0xc3ff541e, 0x6eeaf7de, 0xa47047e0, 0x408cda92,
     0x0f0eeb08, 0x56deba9d, 0xcfc6b090, 0x8bbbdf04, 0x3933cdb3, 0x9e7bb67d, 0x9f297035, 0x38946244,
     0xee1d37bb, 0xde898174, 0x63f3559d, 0x705b72fb, 0x138d27d9, 0xf8603a78, 0x735eec44, 0xe30987d5,
     0xc6d38070, 0x9cfe548e, 0x9ff01422, 0x7c564aa8, 0x91cc60ba, 0xcbc3565d, 0x7550a50b, 0x6909aead,
     0x13234c45, 0x00000366,
     0x17954989, 0x3a7d7709, 0x98042de5, 0xa9011443, 0x45e723c2, 0x269ffd6f, 0x58852a46, 0xaaa1042a,
     0x2eee8153, 0xb2b6c39e, 0xaf845b65, 0xf6c365d7, 0xe4cffb2b, 0xc840e90c, 0xabea8abb, 0x5c58f8d2,
     0x5c19fa3a, 0x4670910a, 0x4449f21c, 0xefa645b3, 0xcc427dec, 0x083c3d73, 0x467cb413, 0x6fe10ae4,
     0x3caffc72, 0x9f8da55e, 0x5e5c8ea7, 0x490594bb, 0xf0871b0b, 0xdd89816c, 0x8e931df8, 0xe85ce1c9,
     0xcca090a5, 0x575fa16b, 0x6b9f106c, 0x0000015f,
     0xee20d805, 0x57bc3c07, 0xcdea624e, 0xd3f0f52d, 0x9924b4f4, 0xcf968640, 0x61d41962, 0xe87fb464,
     0xeaaf51c7, 0x564c8b60, 0xccda4028, 0x529428bb, 0x313a1fa8, 0x96bd0f94, 0x7a82ebaa, 0xad99e7e9,
     0xf2668cd4, 0xbe33a45e, 0xfd0db669, 0x87ee369f, 0xd3ec20ed, 0x9c4d7db7, 0xdedcf0d8, 0x7cd2ca64,
     0xe25a6577, 0x61003fd4, 0xe56f54cc, 0x10b7c748, 0x40526e5e, 0x7300ae87, 0x5c439261, 0x2c0ff469,
     0xbf723f12, 0xb2379b61, 0xbf59b4f5, 0xc91b1c3f, 0xf0046d27, 0x0000008d,
     0x525c9e11, 0xf4e0eb41, 0xebb2895d, 0x5da512f9, 0x7d9b29d4, 0x452f4edc, 0x0b90bc37, 0x341777cb,
     0x63d269af, 0x1da77929, 0x0a5c1826, 0x77991898, 0x5aeddf86, 0xf853a877, 0x538c31cc, 0xe84896da,
     0xb7a0010b, 0x17ef4de5, 0xa52a2ade, 0x029fd81c, 0x987ce701, 0x27fefd77, 0xdb46c66f, 0x5d301900,
     0x496998c0, 0xbb6598b9, 0x5eebb607, 0xe547354a, 0xdf4a2f7e, 0xf06c4955, 0x96242ffa, 0x1775fb27,
     0xbecc58ce, 0xebf2a53b, 0x3eaad82a, 0xf41137ba, 0x573e6fba, 0xfb4866b8, 0x54002148, 0x00000039]"

definition LargePowerOfFiveData :: "int \<Rightarrow> 32 word list" where
  "LargePowerOfFiveData i = drop (nat (i * (i - 1))) kLargePowersOfFive"

definition LargePowerOfFiveSize :: "int \<Rightarrow> nat" where
  "LargePowerOfFiveSize i = nat (2 * i)"

function MultiplyByFiveToTheNth :: "int \<Rightarrow> big \<Rightarrow> fault + big" where
  "MultiplyByFiveToTheNth n b =
     (if n \<ge> kMaxSmallPowerOfFive then
        bind_f (MultiplyBy_u32 (kFiveToNth ! nat kMaxSmallPowerOfFive) b) (\<lambda>b.
        MultiplyByFiveToTheNth (n - kMaxSmallPowerOfFive) b)
      else if n > 0 then MultiplyBy_u32 (kFiveToNth ! nat n) b
      else Inr b)"
  by auto
termination
  by (relation "measure (\<lambda>(n, b). nat n)") (auto simp: kMaxSmallPowerOfFive_def)

declare MultiplyByFiveToTheNth.simps [simp del]

definition MultiplyByTenToTheNth :: "int \<Rightarrow> big \<Rightarrow> fault + big" where
  "MultiplyByTenToTheNth n b =
     (if n > kMaxSmallPowerOfTen then
        bind_f (MultiplyByFiveToTheNth n b) (\<lambda>b. ShiftLeft n b)
      else if n > 0 then MultiplyBy_u32 (kTenToNth ! nat n) b
      else Inr b)"

text \<open>\<open>std::copy(data, data + size, answer.words_)\<close>\<close>

definition copy_words :: "32 word list \<Rightarrow> nat \<Rightarrow> 32 word list \<Rightarrow> fault + 32 word list" where
  "copy_words data n words =
     (if n \<le> length data \<and> n \<le> length words then Inr (take n data @ drop n words)
      else Inl Buffer_overrun)"

function five_loop :: "int \<Rightarrow> bool \<Rightarrow> big \<Rightarrow> fault + int \<times> big" where
  "five_loop n first_pass answer =
     (if n \<ge> kLargePowerOfFiveStep then
        let big_power = min (n div kLargePowerOfFiveStep) kLargestPowerOfFiveIndex
        in bind_f (if first_pass then
             bind_f (copy_words (LargePowerOfFiveData big_power) (LargePowerOfFiveSize big_power)
               (bu_words answer)) (\<lambda>words.
             Inr \<lparr>bu_size = LargePowerOfFiveSize big_power, bu_words = words\<rparr>)
           else MultiplyBy_words (LargePowerOfFiveSize big_power) (LargePowerOfFiveData big_power) answer) (\<lambda>answer.
        five_loop (n - kLargePowerOfFiveStep * big_power) False answer)
      else Inr (n, answer))"
  by auto
termination
  by (relation "measure (\<lambda>(n, first_pass, answer). nat n)")
    (auto simp: kLargePowerOfFiveStep_def kLargestPowerOfFiveIndex_def)

declare five_loop.simps [simp del]

definition FiveToTheNth :: "nat \<Rightarrow> int \<Rightarrow> fault + big" where
  "FiveToTheNth words n =
     bind_f (five_loop n True (BigUnsigned_of_u64 words 1)) (\<lambda>(n, answer).
     MultiplyByFiveToTheNth n answer)"

section \<open>Division and printing\<close>

text \<open>\<open>for (int i = size_ - 1; i >= 0; --i)\<close>, with \<open>n\<close> words left.\<close>

primrec div_loop :: "64 word \<Rightarrow> nat \<Rightarrow> 64 word \<Rightarrow> 32 word list \<Rightarrow> fault + 64 word \<times> 32 word list" where
  "div_loop divisor 0 accumulator words = Inr (accumulator, words)"
| "div_loop divisor (Suc i) accumulator words =
     bind_f (rd words i) (\<lambda>w.
     let accumulator = push_bit 32 accumulator + ucast w
     in bind_f (wr words i (ucast (accumulator div divisor))) (\<lambda>words.
     div_loop divisor i (accumulator mod divisor) words))"

primrec trim_size :: "nat \<Rightarrow> 32 word list \<Rightarrow> fault + nat" where
  "trim_size 0 words = Inr 0"
| "trim_size (Suc n) words = bind_f (rd words n) (\<lambda>w. if w = 0 then trim_size n words else Inr (Suc n))"

definition DivMod :: "32 word \<Rightarrow> big \<Rightarrow> fault + 32 word \<times> big" where
  "DivMod divisor b =
     bind_f (div_loop (ucast divisor) (bu_size b) 0 (bu_words b)) (\<lambda>(accumulator, words).
     bind_f (trim_size (bu_size b) words) (\<lambda>size.
     Inr (ucast accumulator, \<lparr>bu_size = size, bu_words = words\<rparr>)))"

section \<open>Comparison\<close>

text \<open>The loops count down and up; \<open>n\<close> words are left.\<close>

primrec compare_loop :: "big \<Rightarrow> big \<Rightarrow> nat \<Rightarrow> fault + int" where
  "compare_loop lhs rhs 0 = Inr 0"
| "compare_loop lhs rhs (Suc i) =
     bind_f (GetWord lhs (int i)) (\<lambda>lhs_word.
     bind_f (GetWord rhs (int i)) (\<lambda>rhs_word.
     if lhs_word < rhs_word then Inr (- 1)
     else if lhs_word > rhs_word then Inr 1
     else compare_loop lhs rhs i))"

definition Compare :: "big \<Rightarrow> big \<Rightarrow> fault + int" where
  "Compare lhs rhs = compare_loop lhs rhs (max (bu_size lhs) (bu_size rhs))"

function equal_loop :: "big \<Rightarrow> big \<Rightarrow> nat \<Rightarrow> nat \<Rightarrow> fault + bool" where
  "equal_loop lhs rhs limit i =
     (if i < limit then
        bind_f (GetWord lhs (int i)) (\<lambda>a.
        bind_f (GetWord rhs (int i)) (\<lambda>b.
        if a \<noteq> b then Inr False else equal_loop lhs rhs limit (i + 1)))
      else Inr True)"
  by auto
termination
  by (relation "measure (\<lambda>(lhs, rhs, limit, i). limit - i)") auto

declare equal_loop.simps [simp del]

definition big_eq :: "big \<Rightarrow> big \<Rightarrow> fault + bool" where
  "big_eq lhs rhs = equal_loop lhs rhs (max (bu_size lhs) (bu_size rhs)) 0"

definition big_neq :: "big \<Rightarrow> big \<Rightarrow> fault + bool" where
  "big_neq lhs rhs = bind_f (big_eq lhs rhs) (\<lambda>e. Inr (\<not> e))"

definition big_less :: "big \<Rightarrow> big \<Rightarrow> fault + bool" where
  "big_less lhs rhs = bind_f (Compare lhs rhs) (\<lambda>c. Inr (c = - 1))"

definition big_greater :: "big \<Rightarrow> big \<Rightarrow> fault + bool" where
  "big_greater lhs rhs = big_less rhs lhs"

definition big_le :: "big \<Rightarrow> big \<Rightarrow> fault + bool" where
  "big_le lhs rhs = bind_f (big_less rhs lhs) (\<lambda>e. Inr (\<not> e))"

definition big_ge :: "big \<Rightarrow> big \<Rightarrow> fault + bool" where
  "big_ge lhs rhs = bind_f (big_less lhs rhs) (\<lambda>e. Inr (\<not> e))"

section \<open>Reading a decimal number\<close>

text \<open>
  \<open>ReadDigits\<close> first drops zeros from both ends of the text, then reads nine digits at a time. The text
  is the list of its characters. The first definitions are the dropping: the characters that are left and the
  adjustment of the exponent, an \<open>int\<close> that counts the dropped characters one by one.
\<close>

definition drop_zeros_back :: "byte list \<Rightarrow> fault + byte list \<times> int" where
  "drop_zeros_back s =
     (let kept = rev (dropWhile (\<lambda>c. c = 48) (rev s))
      in bind_f (check_int (int (length s) - int (length kept))) (\<lambda>dropped_digits.
         Inr (kept, dropped_digits)))"

definition drop_outer_zeros :: "byte list \<Rightarrow> fault + byte list \<times> int" where
  "drop_outer_zeros s =
     (let s = dropWhile (\<lambda>c. c = 48) s
      in bind_f (drop_zeros_back s) (\<lambda>(s, dropped_digits).
         if s \<noteq> [] \<and> last s = 46 then drop_zeros_back (butlast s)
         else if dropped_digits \<noteq> 0 \<and> 46 \<in> set s then Inr (s, 0)
         else Inr (s, dropped_digits)))"

text \<open>The state of the loop of \<open>ReadDigits\<close>.\<close>

record digit_reader =
  rd_after_point :: bool
  rd_adjust :: int
  rd_queued :: "32 word"
  rd_digits_queued :: nat
  rd_big :: big

text \<open>\<open>MultiplyBy(kTenToNth[n]); AddWithCarry(0, queued);\<close>\<close>

definition flush_digits :: "digit_reader \<Rightarrow> fault + big" where
  "flush_digits r =
     bind_f (rd kTenToNth (rd_digits_queued r)) (\<lambda>ten.
     bind_f (MultiplyBy_u32 ten (rd_big r)) (\<lambda>b.
     AddWithCarry_u32 0 (rd_queued r) b))"

text \<open>\<open>exponent_adjust += (decimal_point - begin)\<close>: a sum of 64 bits, stored in an \<open>int\<close>.\<close>

definition add_distance :: "int \<Rightarrow> nat \<Rightarrow> int" where
  "add_distance exponent_adjust distance = sint (word_of_int (exponent_adjust + int distance) :: 32 word)"

text \<open>The loop: the final state and the characters that are not read.\<close>

fun read_loop :: "byte list \<Rightarrow> int \<Rightarrow> digit_reader \<Rightarrow> fault + digit_reader \<times> byte list" where
  "read_loop [] significant_digits r = Inr (r, [])"
| "read_loop (c # s) significant_digits r =
     (if significant_digits > 0 then
        if c = 46 then read_loop s significant_digits (r\<lparr>rd_after_point := True\<rparr>)
        else
          bind_f (if rd_after_point r then check_int (rd_adjust r - 1) else Inr (rd_adjust r)) (\<lambda>exponent_adjust.
          let r = r\<lparr>rd_adjust := exponent_adjust\<rparr>;
              digit = int (unat c) - 48;
              significant_digits = significant_digits - 1;
              digit = (if significant_digits = 0 \<and> s \<noteq> [] \<and> (digit = 0 \<or> digit = 5) then digit + 1 else digit);
              r = r\<lparr>rd_queued := 10 * rd_queued r + word_of_int digit, rd_digits_queued := rd_digits_queued r + 1\<rparr>
          in if int (rd_digits_queued r) = kMaxSmallPowerOfTen then
               bind_f (flush_digits r) (\<lambda>b.
               read_loop s significant_digits (r\<lparr>rd_big := b, rd_queued := 0, rd_digits_queued := 0\<rparr>))
             else read_loop s significant_digits r)
      else Inr (r, c # s))"

definition ReadDigits :: "byte list \<Rightarrow> int \<Rightarrow> big \<Rightarrow> fault + big \<times> int" where
  "ReadDigits s significant_digits b =
     bind_f (assert_f (significant_digits \<le> int (Digits10 (max_words b)) + 1)) (\<lambda>_.
     bind_f (SetToZero b) (\<lambda>b.
     bind_f (drop_outer_zeros s) (\<lambda>(s, dropped_digits).
     bind_f (read_loop s significant_digits \<lparr>rd_after_point = False, rd_adjust = dropped_digits,
       rd_queued = 0, rd_digits_queued = 0, rd_big = b\<rparr>) (\<lambda>(r, s).
     bind_f (if rd_digits_queued r > 0 then flush_digits r else Inr (rd_big r)) (\<lambda>b.
     Inr (b, if s \<noteq> [] \<and> \<not> rd_after_point r
       then add_distance (rd_adjust r) (length (takeWhile (\<lambda>c. c \<noteq> 46) s)) else rd_adjust r))))))"

text \<open>The result is \<open>*this\<close> and the decimal exponent. The parsed number points into \<open>src\<close>.\<close>

definition ReadFloatMantissa :: "byte list \<Rightarrow> ParsedFloat \<Rightarrow> int \<Rightarrow> big \<Rightarrow> fault + big \<times> int" where
  "ReadFloatMantissa src fp significant_digits b =
     bind_f (SetToZero b) (\<lambda>b.
     bind_f (assert_f (pf_type fp = kNumber)) (\<lambda>_.
     case pf_subrange_begin fp of
       None \<Rightarrow>
         bind_f (wr (bu_words b) 0 (ucast (pf_mantissa fp))) (\<lambda>words.
         bind_f (wr words 1 (ucast (drop_bit 32 (pf_mantissa fp)))) (\<lambda>words.
         Inr (\<lparr>bu_size = (if words ! 1 \<noteq> 0 then 2 else if words ! 0 \<noteq> 0 then 1 else bu_size b),
           bu_words = words\<rparr>, pf_exponent fp)))
     | Some from \<Rightarrow>
         bind_f (ReadDigits (take (the (pf_subrange_end fp) - from) (drop from src)) significant_digits b)
           (\<lambda>(b, exponent_adjust).
         bind_f (check_int (pf_literal_exponent fp + exponent_adjust)) (\<lambda>exponent. Inr (b, exponent)))))"

definition BigUnsigned_of_string :: "nat \<Rightarrow> byte list \<Rightarrow> fault + big" where
  "BigUnsigned_of_string words sv =
     (if \<not> list_all ascii_isdigit sv \<or> sv = [] then Inr (BigUnsigned_zero words)
      else
        bind_f (ReadDigits sv (int (Digits10 words) + 1) (BigUnsigned_zero words)) (\<lambda>(b, exponent_adjust).
        if exponent_adjust > 0 then MultiplyByTenToTheNth exponent_adjust b else Inr b))"

end
