(* ===== verification/Big_Unsigned_Results.thy ===== *)
theory Big_Unsigned_Results
  imports Big_Unsigned
begin

text \<open>
  The large integers compute what they are named after, modulo \<open>2 ^ (32 * max_words)\<close>: every operation keeps the
  representation invariant \<open>big_ok\<close>, stays inside its arrays, and has the value of \<open>big_value\<close> that it should.
\<close>

section \<open>The value of a list of words\<close>

definition wsum :: "32 word list \<Rightarrow> int" where
  "wsum ws = horner_sum uint (2 ^ 32) ws"

lemma wsum_simps [simp]: "wsum [] = 0" "wsum (w # ws) = uint w + 2 ^ 32 * wsum ws"
  by (simp_all add: wsum_def)

lemma word32_bounds [simp]: "0 \<le> uint (w :: 32 word)" "uint (w :: 32 word) < 4294967296"
  using uint_lt2p [of w] by simp_all

lemma word64_less: "uint (w :: 64 word) < 2 ^ 64"
  using uint_lt2p [of w] by simp

lemma wsum_nonneg [simp]: "0 \<le> wsum ws"
  by (induction ws) simp_all

lemma wsum_less: "wsum ws < 2 ^ (32 * length ws)"
proof (induction ws)
  case (Cons w ws)
  have "uint w + 2 ^ 32 * wsum ws < 2 ^ 32 * (wsum ws + 1)"
    by (simp add: distrib_left)
  also have "\<dots> \<le> 2 ^ 32 * 2 ^ (32 * length ws)"
    using Cons by simp
  finally show ?case
    by (simp add: power_add)
qed simp

lemma wsum_append: "wsum (xs @ ys) = wsum xs + 2 ^ (32 * length xs) * wsum ys"
  by (simp add: wsum_def horner_sum_append power_mult)

lemma wsum_replicate_0 [simp]: "wsum (replicate n 0) = 0"
  by (induction n) simp_all

lemma wsum_split: "i \<le> length ws \<Longrightarrow> wsum ws = wsum (take i ws) + 2 ^ (32 * i) * wsum (drop i ws)"
  using wsum_append [of "take i ws" "drop i ws"] by simp

lemma wsum_drop_nth: "i < length ws \<Longrightarrow> wsum (drop i ws) = uint (ws ! i) + 2 ^ 32 * wsum (drop (Suc i) ws)"
  by (simp add: Cons_nth_drop_Suc [symmetric])

lemma wsum_take_nth: "i < length ws \<Longrightarrow> wsum (take (Suc i) ws) = wsum (take i ws) + 2 ^ (32 * i) * uint (ws ! i)"
  by (simp add: take_Suc_conv_app_nth wsum_append)

lemma wsum_mod: "i \<le> length ws \<Longrightarrow> wsum ws mod 2 ^ (32 * i) = wsum (take i ws)"
  using wsum_split [of i ws] wsum_less [of "take i ws"] wsum_nonneg [of "take i ws"]
  by (simp add: mod_pos_pos_trivial)

lemma wsum_eq_0_iff: "wsum ws = 0 \<longleftrightarrow> (\<forall>w \<in> set ws. w = 0)"
proof (induction ws)
  case (Cons w ws)
  have "uint w + 2 ^ 32 * wsum ws = 0 \<longleftrightarrow> uint w = 0 \<and> wsum ws = 0"
    by (subst add_nonneg_eq_0_iff) simp_all
  then show ?case
    using Cons by (simp add: uint_0_iff)
qed simp

lemma bit_wsum: "bit (wsum ws) m \<longleftrightarrow> m div 32 < length ws \<and> bit (ws ! (m div 32)) (m mod 32)"
  using bit_horner_sum_uint_exp_iff [of ws m] by (simp add: wsum_def)

section \<open>The representation\<close>

definition big_value :: "big \<Rightarrow> int" where
  "big_value b = wsum (bu_words b)"

definition big_ok :: "nat \<Rightarrow> big \<Rightarrow> bool" where
  "big_ok N b \<longleftrightarrow> length (bu_words b) = N \<and> bu_size b \<le> N \<and>
     drop (bu_size b) (bu_words b) = replicate (N - bu_size b) 0"

lemma drop_replicate_iff:
  "drop n ws = replicate (length ws - n) 0 \<longleftrightarrow> (\<forall>i. n \<le> i \<longrightarrow> i < length ws \<longrightarrow> ws ! i = (0 :: 32 word))"
proof
  assume *: "drop n ws = replicate (length ws - n) 0"
  show "\<forall>i. n \<le> i \<longrightarrow> i < length ws \<longrightarrow> ws ! i = 0"
  proof (intro allI impI)
    fix i assume "n \<le> i" "i < length ws"
    then have "ws ! i = drop n ws ! (i - n)" by simp
    then show "ws ! i = 0" using * \<open>n \<le> i\<close> \<open>i < length ws\<close> by simp
  qed
next
  assume "\<forall>i. n \<le> i \<longrightarrow> i < length ws \<longrightarrow> ws ! i = 0"
  then show "drop n ws = replicate (length ws - n) 0"
    by (intro nth_equalityI) simp_all
qed

lemma big_ok_iff:
  "big_ok N b \<longleftrightarrow> length (bu_words b) = N \<and> bu_size b \<le> N \<and>
     (\<forall>i. bu_size b \<le> i \<longrightarrow> i < N \<longrightarrow> bu_words b ! i = 0)"
  using drop_replicate_iff [of "bu_size b" "bu_words b"] by (auto simp: big_ok_def)

lemma big_okD:
  assumes "big_ok N b"
  shows "length (bu_words b) = N" "bu_size b \<le> N" "max_words b = N"
    "bu_size b \<le> i \<Longrightarrow> i < N \<Longrightarrow> bu_words b ! i = 0"
  using assms by (simp_all add: big_ok_iff max_words_def)

lemma big_value_nonneg [simp]: "0 \<le> big_value b"
  by (simp add: big_value_def)

lemma big_value_less: "big_ok N b \<Longrightarrow> big_value b < 2 ^ (32 * N)"
  using wsum_less [of "bu_words b"] by (simp add: big_ok_def big_value_def)

lemma big_value_take:
  assumes "big_ok N b" "bu_size b \<le> k"
  shows "big_value b = wsum (take k (bu_words b))"
proof -
  have "drop k (bu_words b) = replicate (N - k) 0"
    using assms by (auto simp: big_ok_iff intro!: nth_equalityI)
  moreover have "wsum (bu_words b) = wsum (take k (bu_words b)) +
      2 ^ (32 * length (take k (bu_words b))) * wsum (drop k (bu_words b))"
    by (metis append_take_drop_id wsum_append)
  ultimately show ?thesis
    by (simp add: big_value_def)
qed

text \<open>What an operation returns: a large integer of the given value.\<close>

abbreviation computes :: "nat \<Rightarrow> int \<Rightarrow> big \<Rightarrow> bool" where
  "computes N v b \<equiv> big_ok N b \<and> big_value b = v"

lemma BigUnsigned_zero_computes [simp]: "computes N 0 (BigUnsigned_zero N)"
  by (simp add: BigUnsigned_zero_def big_ok_def big_value_def)

lemma SetToZero_computes: "big_ok N b \<Longrightarrow> returns (SetToZero b) (computes N 0)"
  by (auto simp: SetToZero_def big_ok_def big_value_def replicate_add [symmetric])

lemma uint_ucast_32: "uint (ucast (v :: 64 word) :: 32 word) = uint v mod 2 ^ 32"
  by (simp add: unsigned_ucast_eq take_bit_eq_mod)

lemma uint_drop_bit_div: "uint (drop_bit n (w :: 'a::len word)) = uint w div 2 ^ n"
  by (simp only: unsigned_drop_bit_eq) (simp add: drop_bit_eq_div take_bit_int_eq_self)

lemma uint_halves: "uint (ucast v :: 32 word) + 2 ^ 32 * uint (ucast (drop_bit 32 v) :: 32 word) = uint (v :: 64 word)"
proof -
  have "uint v div 2 ^ 32 < 2 ^ 32"
    using word64_less [of v] by (simp add: div_less_iff_less_mult)
  moreover have "0 \<le> uint v div 2 ^ 32"
    by (simp add: pos_imp_zdiv_nonneg_iff)
  ultimately show ?thesis
    by (simp add: uint_ucast_32 uint_drop_bit_div)
qed

lemma drop_bit_32_eq_0: "drop_bit 32 (v :: 64 word) = 0 \<longleftrightarrow> uint v < 2 ^ 32"
proof -
  have "drop_bit 32 v = 0 \<longleftrightarrow> uint v div 2 ^ 32 = 0"
    by (metis uint_drop_bit_div uint_0_iff)
  then show ?thesis
    using word32_bounds by (auto simp: zdiv_eq_0_iff not_less)
qed

lemma BigUnsigned_of_u64_computes:
  assumes "2 \<le> N"
  shows "computes N (uint v) (BigUnsigned_of_u64 N v)"
proof
  have "ucast (drop_bit 32 v) = (0 :: 32 word)" if "drop_bit 32 v = 0"
    using that by simp
  then show "big_ok N (BigUnsigned_of_u64 N v)"
    using assms by (auto simp: big_ok_iff BigUnsigned_of_u64_def nth_append nth_Cons split: nat.splits)
  show "big_value (BigUnsigned_of_u64 N v) = uint v"
    using uint_halves [of v] by (simp add: big_value_def BigUnsigned_of_u64_def)
qed

section \<open>Multiplication by a word\<close>

lemma mul_add_less:
  assumes "0 \<le> (f::int)" "f < 2 ^ 32" "0 \<le> c" "c < 2 ^ 32" "0 \<le> w" "w < 2 ^ 32"
  shows "0 \<le> c + f * w" "c + f * w < 2 ^ 64"
proof -
  have "f * w \<le> (2 ^ 32 - 1) * (2 ^ 32 - 1)"
    using assms by (intro mult_mono) simp_all
  then show "c + f * w < 2 ^ 64"
    using assms by simp
qed (use assms in simp)

lemma uint_mul_add:
  assumes "uint (f :: 64 word) < 2 ^ 32" "uint (c :: 64 word) < 2 ^ 32"
  shows "uint (c + f * ucast (w :: 32 word)) = uint c + uint f * uint w"
proof -
  have "uint (c + f * ucast w) = (uint c + uint f * uint w) mod 2 ^ 64"
    by (simp add: uint_word_ariths unsigned_ucast_eq take_bit_eq_mod mod_simps)
  then show ?thesis
    using mul_add_less [of "uint f" "uint c" "uint w"] assms by simp
qed

lemma mul_loop_correct:
  assumes "i \<le> n" "n \<le> length words" "uint factor < 2 ^ 32" "uint window < 2 ^ 32"
  shows "returns (mul_loop factor n i window words) (\<lambda>(window', words').
    uint window' < 2 ^ 32 \<and> length words' = length words \<and> take i words' = take i words \<and>
    drop n words' = drop n words \<and>
    wsum (drop i (take n words')) + 2 ^ (32 * (n - i)) * uint window' =
      uint factor * wsum (drop i (take n words)) + uint window)"
  using assms
proof (induction factor n i window words rule: mul_loop.induct)
  case (1 factor n i window words)
  show ?case
  proof (cases "i < n")
    case False
    then show ?thesis
      using 1 by (simp add: mul_loop.simps)
  next
    case True
    define w where "w = words ! i"
    define s where "s = window + factor * ucast w"
    define words1 where "words1 = words[i := ucast s]"
    have len: "i < length words"
      using True 1 by simp
    have s: "uint s = uint window + uint factor * uint w"
      using 1 by (simp add: s_def uint_mul_add)
    have high: "uint (drop_bit 32 s) < 2 ^ 32"
      using word64_less [of s] by (simp add: uint_drop_bit_div div_less_iff_less_mult)
    have s_split: "uint (ucast s :: 32 word) + 2 ^ 32 * uint (drop_bit 32 s) = uint s"
      by (simp add: uint_ucast_32 uint_drop_bit_div)
    have seg: "drop i (take n xs) = xs ! i # drop (i + 1) (take n xs)" if "length xs = length words" for xs :: "32 word list"
      using Cons_nth_drop_Suc [of i "take n xs"] True 1 that by simp
    have "returns (mul_loop factor n (i + 1) (drop_bit 32 s) words1) (\<lambda>(window', words').
      uint window' < 2 ^ 32 \<and> length words' = length words1 \<and> take (i + 1) words' = take (i + 1) words1 \<and>
      drop n words' = drop n words1 \<and>
      wsum (drop (i + 1) (take n words')) + 2 ^ (32 * (n - (i + 1))) * uint window' =
        uint factor * wsum (drop (i + 1) (take n words1)) + uint (drop_bit 32 s))"
      using True 1(2-) len high by (intro 1(1)[of w _ words1]) (simp_all add: w_def s_def words1_def)
    then obtain window' words' where
      run: "mul_loop factor n (i + 1) (drop_bit 32 s) words1 = Inr (window', words')" and
      w': "uint window' < 2 ^ 32" "length words' = length words" "take (i + 1) words' = take (i + 1) words1"
      "drop n words' = drop n words1" and
      eq: "wsum (drop (i + 1) (take n words')) + 2 ^ (32 * (n - (i + 1))) * uint window' =
        uint factor * wsum (drop (i + 1) (take n words1)) + uint (drop_bit 32 s)"
      by (auto simp: returns_iff words1_def)
    have nth: "words' ! i = ucast s"
      using w'(3) len by (metis lessI nth_list_update_eq nth_take Suc_eq_plus1 words1_def)
    have "take i words' = take i words"
      using w'(3) by (metis min.absorb1 le_add1 take_take take_update_cancel words1_def order_refl)
    moreover have "drop n words' = drop n words"
      using w'(4) True by (simp add: words1_def)
    moreover have "drop (i + 1) (take n words1) = drop (i + 1) (take n words)"
      using True by (simp add: words1_def drop_take)
    moreover have "32 * (n - i) = 32 + 32 * (n - (i + 1))"
      using True by simp
    then have "(2 :: int) ^ (32 * (n - i)) = 2 ^ 32 * 2 ^ (32 * (n - (i + 1)))"
      by (simp only: power_add)
    then have "wsum (drop i (take n words')) + 2 ^ (32 * (n - i)) * uint window' =
        uint (ucast s :: 32 word) + 2 ^ 32 * (wsum (drop (i + 1) (take n words')) + 2 ^ (32 * (n - (i + 1))) * uint window')"
      using seg [of words'] w' nth by (simp add: distrib_left)
    ultimately have "wsum (drop i (take n words')) + 2 ^ (32 * (n - i)) * uint window' =
        uint factor * wsum (drop i (take n words)) + uint window"
      using eq s_split s seg [of words] by (simp add: distrib_left w_def algebra_simps)
    then show ?thesis
      using run w' True len \<open>take i words' = take i words\<close> \<open>drop n words' = drop n words\<close>
      by (simp add: mul_loop.simps [of factor n i] w_def [symmetric] s_def [symmetric] words1_def [symmetric] Let_def)
  qed
qed


lemma uint_ucast_64: "uint (ucast (v :: 32 word) :: 64 word) = uint v"
proof -
  have "uint v < 2 ^ 64"
    by (rule less_trans [OF word32_bounds(2)]) simp
  then show ?thesis
    by (simp add: unsigned_ucast_eq take_bit_int_eq_self)
qed

lemma drop_list_update_same: "n < length xs \<Longrightarrow> drop n (xs[n := x]) = x # drop (Suc n) xs"
  by (simp add: Cons_nth_drop_Suc [symmetric] drop_update_swap)

lemma MultiplyBy_u32_computes:
  assumes b: "big_ok N b"
  shows "returns (MultiplyBy_u32 v b) (computes N (big_value b * uint v mod 2 ^ (32 * N)))"
proof -
  consider "bu_size b = 0 \<or> v = 1" | "bu_size b \<noteq> 0" "v = 0" | "bu_size b \<noteq> 0" "v \<noteq> 1" "v \<noteq> 0"
    by blast
  then show ?thesis
  proof cases
    case 1
    moreover have "big_value b = 0" if "bu_size b = 0"
      using big_value_take [OF b, of 0] that by simp
    ultimately show ?thesis
      using b big_value_less [OF b] by (auto simp: MultiplyBy_u32_def)
  next
    case 2
    then show ?thesis
      using SetToZero_computes [OF b] by (simp add: MultiplyBy_u32_def)
  next
    case 3
    define n where "n = bu_size b"
    have len: "length (bu_words b) = N" and n: "n \<le> N" and zeros: "drop n (bu_words b) = replicate (N - n) 0"
      using b by (simp_all add: big_ok_def n_def)
    have factor: "uint (ucast v :: 64 word) = uint v"
      by (rule uint_ucast_64)
    obtain window words where
      run: "mul_loop (ucast v) n 0 0 (bu_words b) = Inr (window, words)" and
      w: "uint window < 2 ^ 32" "length words = N" "drop n words = replicate (N - n) 0" and
      eq: "wsum (take n words) + 2 ^ (32 * n) * uint window = uint v * big_value b"
      using mul_loop_correct [of 0 n "bu_words b" "ucast v" 0] big_value_take [OF b, of n] len n zeros factor
      by (auto simp: returns_iff n_def)
    have w32: "uint (ucast window :: 32 word) = uint window"
      using w(1) by (simp add: uint_ucast_32)
    have split: "words = take n words @ drop n words"
      by simp
    show ?thesis
    proof (cases "window \<noteq> 0 \<and> n < N")
      case True
      define words' where "words' = words[n := ucast window]"
      have "drop n words' = ucast window # replicate (N - Suc n) 0"
      proof -
        have "drop (Suc n) words = drop 1 (drop n words)"
          by simp
        also have "\<dots> = replicate (N - Suc n) 0"
          by (simp only: w(3)) simp
        finally show ?thesis
          using True w(2) by (simp add: words'_def drop_list_update_same)
      qed
      moreover have "take n words' = take n words"
        by (simp add: words'_def)
      moreover have "length words' = N"
        using w(2) by (simp add: words'_def)
      ultimately have "wsum words' = uint v * big_value b"
        using wsum_split [of n words'] eq n w32 by auto
      moreover have "drop (Suc n) words' = replicate (N - Suc n) 0"
      proof -
        have "drop (Suc n) words' = drop 1 (drop n words')"
          by simp
        then show ?thesis
          by (simp only: \<open>drop n words' = _\<close>) simp
      qed
      moreover have "wsum words' < 2 ^ (32 * N)"
        using wsum_less [of words'] \<open>length words' = N\<close> by simp
      ultimately show ?thesis
        using 3 run True w(2) len \<open>length words' = N\<close>
        by (simp add: MultiplyBy_u32_def n_def [symmetric] big_ok_def big_value_def max_words_def words'_def [symmetric]
            mult.commute)
    next
      case False
      have "wsum words = wsum (take n words)"
        using wsum_split [of n words] w n by simp
      moreover have "wsum words < 2 ^ (32 * N)"
        using wsum_less [of words] w(2) by simp
      ultimately have "wsum words = uint v * big_value b mod 2 ^ (32 * N)"
        using False eq n by (cases "window = 0") (auto simp flip: eq)
      then show ?thesis
        using 3 run False w len n zeros
        by (auto simp: MultiplyBy_u32_def n_def [symmetric] big_ok_def max_words_def big_value_def mult.commute)
    qed
  qed
qed

section \<open>Addition\<close>

text \<open>
  What the words above an index become. \<open>suffix_is i v b b'\<close> says that \<open>b'\<close> has the words of \<open>b\<close> below \<open>i\<close> and the
  value \<open>v\<close> from there on, as far as it fits.
\<close>

definition suffix_is :: "nat \<Rightarrow> int \<Rightarrow> 32 word list \<Rightarrow> 32 word list \<Rightarrow> bool" where
  "suffix_is i v ws ws' \<longleftrightarrow> length ws' = length ws \<and> take i ws' = take i ws \<and>
     wsum (drop i ws') = v mod 2 ^ (32 * (length ws - i))"

lemma shift_mod_words:
  assumes "0 \<le> (a :: int)" "a < 2 ^ (32 * i)"
  shows "a + 2 ^ (32 * i) * (x mod 2 ^ (32 * m)) = (a + 2 ^ (32 * i) * x) mod 2 ^ (32 * (i + m))"
proof -
  have "(a + 2 ^ (32 * i) * x) mod (2 ^ (32 * i) * 2 ^ (32 * m)) =
      2 ^ (32 * i) * ((a + 2 ^ (32 * i) * x) div 2 ^ (32 * i) mod 2 ^ (32 * m)) + (a + 2 ^ (32 * i) * x) mod 2 ^ (32 * i)"
    by (rule zmod_zmult2_eq) simp
  then show ?thesis
    using assms by (simp add: power_add distrib_left)
qed

lemma shift_mod:
  "0 \<le> (a :: int) \<Longrightarrow> a < 2 ^ 32 \<Longrightarrow> a + 2 ^ 32 * (x mod 2 ^ (32 * m)) = (a + 2 ^ 32 * x) mod 2 ^ (32 * Suc m)"
  using shift_mod_words [of a 1 x m] by simp

lemma uint_add_carry32:
  "uint (w + v :: 32 word) = uint w + uint v - (if w + v < v then 2 ^ 32 else 0)"
  using word32_bounds [of w] word32_bounds [of v]
  by (auto simp: uint_plus_if' word_less_def)

lemma carry_loop_correct:
  "returns (carry_loop index v words) (\<lambda>(j, words').
    suffix_is index (wsum (drop index words) + uint v) words words' \<and> index \<le> j \<and>
    drop (j + 1) words' = drop (j + 1) words)"
proof (induction index v words rule: carry_loop.induct)
  case (1 index v words)
  show ?case
  proof (cases "index < length words \<and> v > 0")
    case False
    then have "v = 0 \<or> length words \<le> index"
      by (auto simp: word_gt_0)
    then show ?thesis
      using wsum_less [of "drop index words"]
      by (elim disjE) (simp_all add: carry_loop.simps [of index v words] carry_loop.simps [of index 0 words] suffix_is_def)
  next
    case True
    define w where "w = words ! index"
    define words1 where "words1 = words[index := w + v]"
    have drop1: "drop index words1 = (w + v) # drop (Suc index) words" "drop (Suc index) words1 = drop (Suc index) words"
      using True by (simp_all add: words1_def drop_list_update_same)
    have drop0: "drop index words = w # drop (Suc index) words"
      using True by (simp add: w_def Cons_nth_drop_Suc)
    have len: "length words - index = Suc (length words - Suc index)"
      using True by (simp add: Suc_diff_Suc)
    show ?thesis
    proof (cases "v > w + v")
      case carry: True
      obtain j words' where run: "carry_loop (index + 1) 1 words1 = Inr (j, words')" and
        res: "suffix_is (index + 1) (wsum (drop (index + 1) words1) + 1) words1 words'" "index + 1 \<le> j"
          "drop (j + 1) words' = drop (j + 1) words1"
        using 1(1) [of w words1] True carry by (auto simp: returns_iff w_def words1_def)
      have sum: "uint (w + v) = uint w + uint v - 2 ^ 32"
        using carry by (simp add: uint_add_carry32)
      have nth: "words' ! index = w + v" and take': "take index words' = take index words"
        using res(1) True by (auto simp: suffix_is_def words1_def take_Suc_conv_app_nth)
      have "drop index words' = (w + v) # drop (Suc index) words'"
        using nth res(1) True by (simp add: suffix_is_def words1_def Cons_nth_drop_Suc [symmetric])
      then have "wsum (drop index words') = uint (w + v) +
          2 ^ 32 * ((wsum (drop (Suc index) words) + 1) mod 2 ^ (32 * (length words - Suc index)))"
        using res(1) drop1 by (simp add: suffix_is_def words1_def)
      also have "\<dots> = (uint (w + v) + 2 ^ 32 * (wsum (drop (Suc index) words) + 1)) mod 2 ^ (32 * (length words - index))"
        using shift_mod [of "uint (w + v)" _ "length words - Suc index"] len by simp
      also have "uint (w + v) + 2 ^ 32 * (wsum (drop (Suc index) words) + 1) = wsum (drop index words) + uint v"
        using sum drop0 by simp
      finally have "suffix_is index (wsum (drop index words) + uint v) words words'"
        using res(1) take' by (simp add: suffix_is_def words1_def)
      moreover have "drop (j + 1) words1 = drop (j + 1) words"
        using res(2) by (simp add: words1_def)
      ultimately show ?thesis
        using True carry run res by (simp add: carry_loop.simps [of index v words] w_def [symmetric] words1_def [symmetric])
    next
      case no_carry: False
      obtain j words' where run: "carry_loop index 0 words1 = Inr (j, words')" and
        res: "suffix_is index (wsum (drop index words1) + 0) words1 words'" "index \<le> j"
          "drop (j + 1) words' = drop (j + 1) words1"
        using 1(2) [of w words1] True no_carry by (auto simp: returns_iff w_def words1_def)
      have sum: "uint (w + v) = uint w + uint v"
        using no_carry by (simp add: uint_add_carry32)
      have "suffix_is index (wsum (drop index words) + uint v) words words'"
        using res(1) sum drop0 drop1 by (simp add: suffix_is_def words1_def algebra_simps)
      moreover have "drop (j + 1) words1 = drop (j + 1) words"
        using res(2) by (simp add: words1_def)
      ultimately show ?thesis
        using True no_carry run res by (simp add: carry_loop.simps [of index v words] w_def [symmetric] words1_def [symmetric])
    qed
  qed
qed


lemma suffix_is_beyond: "length ws \<le> i \<Longrightarrow> suffix_is i x ws ws' \<longleftrightarrow> ws' = ws"
  by (cases "length ws' = length ws") (simp add: suffix_is_def, auto simp only: suffix_is_def)

lemma suffix_is_value:
  assumes "suffix_is i x ws ws'" "i \<le> length ws"
  shows "wsum ws' = (wsum (take i ws) + 2 ^ (32 * i) * x) mod 2 ^ (32 * length ws)"
proof -
  have "wsum ws' = wsum (take i ws') + 2 ^ (32 * i) * wsum (drop i ws')"
    using assms by (intro wsum_split) (simp add: suffix_is_def)
  also have "\<dots> = wsum (take i ws) + 2 ^ (32 * i) * (x mod 2 ^ (32 * (length ws - i)))"
    using assms(1) by (simp only: suffix_is_def)
  also have "\<dots> = (wsum (take i ws) + 2 ^ (32 * i) * x) mod 2 ^ (32 * (i + (length ws - i)))"
    using wsum_less [of "take i ws"] assms(2) by (intro shift_mod_words) simp_all
  finally show ?thesis
    using assms(2) by simp
qed

lemma suffix_is_Suc:
  assumes "suffix_is (Suc i) x (ws[i := a]) ws'" "i < length ws"
  shows "suffix_is i (uint a + 2 ^ 32 * x) ws ws'"
proof -
  have len: "length ws' = length ws" and take: "take (Suc i) ws' = take i ws @ [a]"
    using assms by (simp_all add: suffix_is_def take_Suc_conv_app_nth)
  then have "take i ws' = take i ws" and "ws' ! i = a"
    using assms(2) by (simp_all add: take_Suc_conv_app_nth)
  moreover have "wsum (drop i ws') = uint a + 2 ^ 32 * (x mod 2 ^ (32 * (length ws - Suc i)))"
    using assms len \<open>ws' ! i = a\<close> by (simp add: wsum_drop_nth suffix_is_def)
  moreover have "\<dots> = (uint a + 2 ^ 32 * x) mod 2 ^ (32 * (length ws - i))"
    using shift_mod [of "uint a" x "length ws - Suc i"] assms(2) by (simp add: Suc_diff_Suc)
  ultimately show ?thesis
    using len by (simp add: suffix_is_def)
qed

lemma suffix_is_refl: "wsum (drop i ws) = x \<Longrightarrow> suffix_is i x ws ws"
  using wsum_less [of "drop i ws"] by (auto simp: suffix_is_def)

lemma AddWithCarry_u32_suffix:
  assumes "length (bu_words b) = N" "bu_size b \<le> N" "v \<noteq> 0"
    and zeros: "\<And>k. max (i + 1) (bu_size b) \<le> k \<Longrightarrow> k < N \<Longrightarrow> bu_words b ! k = 0"
  shows "returns (AddWithCarry_u32 i v b)
    (\<lambda>b'. big_ok N b' \<and> suffix_is i (wsum (drop i (bu_words b)) + uint v) (bu_words b) (bu_words b'))"
proof -
  obtain j words where run: "carry_loop i v (bu_words b) = Inr (j, words)"
    and suffix: "suffix_is i (wsum (drop i (bu_words b)) + uint v) (bu_words b) words"
    and j: "i \<le> j" "drop (j + 1) words = drop (j + 1) (bu_words b)"
    using carry_loop_correct [of i v "bu_words b"] by (auto simp: returns_iff)
  have "length words = N"
    using suffix assms(1) by (simp add: suffix_is_def)
  moreover have "words ! k = 0" if "max (j + 1) (bu_size b) \<le> k" "k < N" for k
  proof -
    have "words ! k = drop (j + 1) words ! (k - (j + 1))"
      using that \<open>length words = N\<close> by simp
    also have "\<dots> = bu_words b ! k"
      using that assms(1) by (simp only: j(2)) simp
    finally show ?thesis
      using zeros [of k] that j(1) by simp
  qed
  ultimately show ?thesis
    using run suffix assms by (auto simp: AddWithCarry_u32_def big_ok_iff max_words_def min_le_iff_disj)
qed

lemma AddWithCarry_u32_computes:
  assumes b: "big_ok N b"
  shows "returns (AddWithCarry_u32 0 v b) (computes N ((big_value b + uint v) mod 2 ^ (32 * N)))"
proof (cases "v = 0")
  case True
  then show ?thesis
    using b big_value_less [OF b] by (simp add: AddWithCarry_u32_def)
next
  case False
  have "returns (AddWithCarry_u32 0 v b)
    (\<lambda>b'. big_ok N b' \<and> suffix_is 0 (wsum (drop 0 (bu_words b)) + uint v) (bu_words b) (bu_words b'))"
    using b False by (intro AddWithCarry_u32_suffix) (auto simp: big_ok_iff)
  then show ?thesis
    using b by (auto elim!: returns_mono dest!: suffix_is_value simp: big_value_def big_ok_iff)
qed

lemma AddWithCarry_u64_suffix:
  assumes b: "big_ok N b"
  shows "returns (AddWithCarry_u64 i v b)
    (\<lambda>b'. big_ok N b' \<and> suffix_is i (wsum (drop i (bu_words b)) + uint v) (bu_words b) (bu_words b'))"
proof (cases "v \<noteq> 0 \<and> i < N")
  case False
  then show ?thesis
    using b big_okD(3) [OF b]
    by (auto simp: AddWithCarry_u64_def suffix_is_refl suffix_is_beyond big_okD(1))
next
  case True
  define high where "high = (ucast (drop_bit 32 v) :: 32 word)"
  define low where "low = (ucast v :: 32 word)"
  define w where "w = bu_words b ! i"
  define words1 where "words1 = (bu_words b)[i := w + low]"
  define carry where "carry \<longleftrightarrow> w + low < low"
  define high' where "high' = (if carry then high + 1 else high)"
  have len: "length (bu_words b) = N" and size: "bu_size b \<le> N" and zeros: "\<And>k. bu_size b \<le> k \<Longrightarrow> k < N \<Longrightarrow> bu_words b ! k = 0"
    using b by (auto simp: big_ok_iff)
  have v: "uint low + 2 ^ 32 * uint high = uint v"
    by (simp add: low_def high_def uint_halves [of v, simplified])
  have sum: "uint (w + low) = uint w + uint low - (if carry then 2 ^ 32 else 0)"
    by (simp add: uint_add_carry32 carry_def)
  have whole: "suffix_is i (wsum (drop i (bu_words b)) + uint v) (bu_words b) words'"
    if "suffix_is (i + 1) (wsum (drop (i + 1) words1) + h) words1 words'"
      and "uint (w + low) + 2 ^ 32 * h = uint w + uint v" for h words'
  proof -
    have "suffix_is i (uint (w + low) + 2 ^ 32 * (wsum (drop (i + 1) words1) + h)) (bu_words b) words'"
      using that(1) True len by (intro suffix_is_Suc) (simp_all add: words1_def)
    moreover have "uint (w + low) + 2 ^ 32 * (wsum (drop (i + 1) words1) + h) = wsum (drop i (bu_words b)) + uint v"
      using that(2) True len by (simp add: wsum_drop_nth words1_def w_def)
    ultimately show ?thesis
      by simp
  qed
  have zeros1: "words1 ! k = 0" if "max (i + 1) (bu_size b) \<le> k" "k < N" for k
    using zeros [of k] that by (simp add: words1_def)
  have len1: "length words1 = N"
    using len by (simp add: words1_def)
  have code: "AddWithCarry_u64 i v b = (if carry \<and> high' = 0 then AddWithCarry_u32 (i + 2) 1 (b\<lparr>bu_words := words1\<rparr>)
      else if high' > 0 then AddWithCarry_u32 (i + 1) high' (b\<lparr>bu_words := words1\<rparr>)
      else Inr (b\<lparr>bu_words := words1, bu_size := min N (max (i + 1) (bu_size b))\<rparr>))"
    using True len len1 by (simp add: AddWithCarry_u64_def Let_def max_words_def high_def low_def w_def words1_def carry_def high'_def word_gt_0)
  consider (wrap) "carry" "high' = 0" | (carry) "high' \<noteq> 0" | (none) "\<not> carry" "high' = 0"
    by blast
  then show ?thesis
  proof cases
    case wrap
    have "uint high + 1 = 2 ^ 32"
      using wrap uint_add_carry32 [of high 1] word32_bounds [of high]
      by (auto simp: high'_def split: if_splits)
    then have h: "uint (w + low) + 2 ^ 32 * 2 ^ 32 = uint w + uint v"
      using sum wrap v by simp
    have "returns (AddWithCarry_u32 (i + 2) 1 (b\<lparr>bu_words := words1\<rparr>))
      (\<lambda>b'. big_ok N b' \<and> suffix_is (i + 2) (wsum (drop (i + 2) words1) + uint (1 :: 32 word)) words1 (bu_words b'))"
      using AddWithCarry_u32_suffix [of "b\<lparr>bu_words := words1\<rparr>" N 1 "i + 2"] len1 size zeros1 by simp
    moreover have "suffix_is (i + 1) (wsum (drop (i + 1) words1) + 2 ^ 32) words1 words'"
      if "suffix_is (i + 2) (wsum (drop (i + 2) words1) + uint (1 :: 32 word)) words1 words'" for words'
    proof (cases "i + 1 < N")
      case True
      then show ?thesis
        using suffix_is_Suc [of "i + 1" "wsum (drop (i + 2) words1) + 1" words1 "words1 ! (i + 1)" words'] that len1
        by (simp add: wsum_drop_nth [of "Suc i"] distrib_left add.assoc)
    next
      case False
      then show ?thesis
        using that len1 by (simp add: suffix_is_beyond)
    qed
    ultimately show ?thesis
      using wrap whole [OF _ h] by (simp add: code) (erule returns_mono, simp)
  next
    case carry
    have h: "uint (w + low) + 2 ^ 32 * uint high' = uint w + uint v"
      using sum v carry uint_add_carry32 [of high 1] word32_bounds [of high]
      by (auto simp: high'_def algebra_simps split: if_splits)
    have "returns (AddWithCarry_u32 (i + 1) high' (b\<lparr>bu_words := words1\<rparr>))
      (\<lambda>b'. big_ok N b' \<and> suffix_is (i + 1) (wsum (drop (i + 1) words1) + uint high') words1 (bu_words b'))"
      using AddWithCarry_u32_suffix [of "b\<lparr>bu_words := words1\<rparr>" N high' "i + 1"] len1 size zeros1 carry by simp
    then show ?thesis
      using carry whole [OF _ h] by (simp add: code word_gt_0) (erule returns_mono, simp)
  next
    case none
    have h: "uint (w + low) + 2 ^ 32 * 0 = uint w + uint v"
      using sum v none by (auto simp: high'_def)
    have "suffix_is (i + 1) (wsum (drop (i + 1) words1) + 0) words1 words1"
      by (simp add: suffix_is_refl)
    then have "suffix_is i (wsum (drop i (bu_words b)) + uint v) (bu_words b) words1"
      using whole h by blast
    then show ?thesis
      using none zeros1 len1 by (simp add: code big_ok_iff min_le_iff_disj)
  qed
qed


section \<open>Multiplication\<close>

text \<open>
  The words of an operand as the digits of a number, zero beyond its size, and the digits of the product before carries.
\<close>

definition digit_at :: "nat \<Rightarrow> 32 word list \<Rightarrow> nat \<Rightarrow> int" where
  "digit_at n ws i = (if i < n then uint (ws ! i) else 0)"

definition column :: "(nat \<Rightarrow> int) \<Rightarrow> (nat \<Rightarrow> int) \<Rightarrow> nat \<Rightarrow> int" where
  "column A B k = (\<Sum>i\<le>k. A i * B (k - i))"

lemma wsum_as_sum: "n \<le> length ws \<Longrightarrow> wsum (take n ws) = (\<Sum>i<n. digit_at n ws i * 2 ^ (32 * i))"
proof -
  have *: "n \<le> length ws \<Longrightarrow> wsum (take n ws) = (\<Sum>i<n. uint (ws ! i) * 2 ^ (32 * i))"
    by (induction n) (simp_all add: wsum_take_nth)
  assume "n \<le> length ws"
  then show ?thesis
    using * by (simp add: digit_at_def)
qed

lemma uint_low_word: "uint ((p :: 64 word) AND 0xffffffff) = uint p mod 2 ^ 32"
proof -
  have "(0xffffffff :: 64 word) = mask 32"
    by (simp add: mask_eq_exp_minus_1)
  then show ?thesis
    unfolding \<open>0xffffffff = mask 32\<close> take_bit_eq_mask [symmetric] unsigned_take_bit_eq
    by (simp only: take_bit_eq_mod)
qed

lemma uint_plus_small: "uint (a :: 64 word) + uint b < 2 ^ 64 \<Longrightarrow> uint (a + b) = uint a + uint b"
  by (simp add: uint_plus_if')

lemma step_loop_correct:
  assumes "this_i < int (length words)" "m \<le> length others" "- 1 \<le> this_i"
    and "uint this_word < 2 ^ 32" "uint carry + 2 ^ 32 * int (m - other_i) < 2 ^ 64"
  shows "returns (step_loop words others m this_i other_i this_word carry) (\<lambda>(this_word', carry').
    uint this_word' < 2 ^ 32 \<and>
    uint this_word' + 2 ^ 32 * uint carry' = uint this_word + 2 ^ 32 * uint carry +
      (\<Sum>i<nat (this_i + 1). uint (words ! i) * digit_at m others (nat this_i + other_i - i)))"
  using assms
proof (induction words others m this_i other_i this_word carry rule: step_loop.induct)
  case (1 words others m this_i other_i this_word carry)
  show ?case
  proof (cases "this_i \<ge> 0 \<and> other_i < m")
    case False
    have "digit_at m others (nat this_i + other_i - i) = 0" if "i < nat (this_i + 1)" for i
      using False that by (auto simp: digit_at_def)
    then show ?thesis
      using False 1 by (auto simp: step_loop.simps [of words others m this_i])
  next
    case True
    define k where "k = nat this_i"
    have k: "this_i = int k" "nat (this_i + 1) = Suc k" "nat (this_i - 1 + 1) = k"
      using True by (auto simp: k_def)
    define p where "p = ucast (words ! k) * ucast (others ! other_i) + this_word"
    have p: "uint p = uint (words ! k) * uint (others ! other_i) + uint this_word"
      using uint_mul_add [of "ucast (words ! k)" this_word "others ! other_i"] 1(5)
      by (simp add: p_def uint_ucast_64 add.commute)
    have low: "uint (p AND 0xffffffff) = uint p mod 2 ^ 32"
      by (rule uint_low_word)
    have "int (m - other_i) = int (m - (other_i + 1)) + 1"
      using True by simp
    moreover have "0 \<le> uint p div 2 ^ 32" "uint p div 2 ^ 32 < 2 ^ 32"
      using word64_less [of p] by (simp_all add: pos_imp_zdiv_nonneg_iff div_less_iff_less_mult)
    ultimately have less: "uint carry + uint p div 2 ^ 32 + 2 ^ 32 * int (m - (other_i + 1)) < 2 ^ 64"
      using 1(6) by simp
    have high: "uint (carry + drop_bit 32 p) = uint carry + uint p div 2 ^ 32"
      using less \<open>0 \<le> uint p div 2 ^ 32\<close> by (subst uint_plus_small) (simp_all add: uint_drop_bit_div)
    have sum_eq: "(\<Sum>i<Suc k. uint (words ! i) * digit_at m others (k + other_i - i)) =
        (\<Sum>i<k. uint (words ! i) * digit_at m others (nat (this_i - 1) + (other_i + 1) - i)) +
        uint (words ! k) * uint (others ! other_i)"
    proof -
      have "(\<Sum>i<k. uint (words ! i) * digit_at m others (k + other_i - i)) =
          (\<Sum>i<k. uint (words ! i) * digit_at m others (nat (this_i - 1) + (other_i + 1) - i))"
        using k by (intro sum.cong) (auto simp: nat_diff_distrib')
      then show ?thesis
        using True by (simp add: digit_at_def)
    qed
    have "returns (step_loop words others m (this_i - 1) (other_i + 1) (p AND 0xffffffff) (carry + drop_bit 32 p))
      (\<lambda>(this_word', carry'). uint this_word' < 2 ^ 32 \<and>
        uint this_word' + 2 ^ 32 * uint carry' = uint (p AND 0xffffffff) + 2 ^ 32 * uint (carry + drop_bit 32 p) +
          (\<Sum>i<nat (this_i - 1 + 1). uint (words ! i) * digit_at m others (nat (this_i - 1) + (other_i + 1) - i)))"
      using True 1(2-4) low high less
      by (intro 1(1) [of "words ! k" "others ! other_i" _ p]) (simp_all add: nat_less_iff k_def p_def add.commute)
    moreover have "uint (p AND 0xffffffff) + 2 ^ 32 * uint (carry + drop_bit 32 p) = uint p + 2 ^ 32 * uint carry"
      by (simp add: low high)
    moreover have "step_loop words others m this_i other_i this_word carry =
        step_loop words others m (this_i - 1) (other_i + 1) (p AND 0xffffffff) (carry + drop_bit 32 p)"
      using True 1(2,3)
      by (simp add: step_loop.simps [of words others m this_i] nat_less_iff k_def p_def Let_def add.commute)
    ultimately show ?thesis
      unfolding k(2) k_def [symmetric] sum_eq by (simp add: p k_def [symmetric] add_ac)
  qed
qed


lemma MultiplyStep_suffix:
  assumes b: "big_ok N b" and k: "k < N" and same: "take (Suc k) (bu_words b) = take (Suc k) ws"
    and ws: "length ws = N" "n \<le> N" and others: "m \<le> length others" "int m < 2 ^ 31"
  shows "returns (MultiplyStep n others m k b) (\<lambda>b'. big_ok N b' \<and>
    suffix_is k (column (digit_at n ws) (digit_at m others) k + 2 ^ 32 * wsum (drop (Suc k) (bu_words b))) ws (bu_words b'))"
proof -
  define i where "i = min (int n - 1) (int k)"
  have i: "- 1 \<le> i" "i < int N" "i \<le> int k" "nat (i + 1) = min n (Suc k)"
    using ws k by (auto simp: i_def min_def)
  have len: "length (bu_words b) = N"
    using b by (simp add: big_ok_def)
  have small: "m - nat (int k - i) < 4294967296"
    using others(2) by simp
  obtain this_word carry where
    run: "step_loop (bu_words b) others m i (nat (int k - i)) 0 0 = Inr (this_word, carry)" and
    low: "uint this_word < 2 ^ 32" and
    sum: "uint this_word + 2 ^ 32 * uint carry =
      (\<Sum>j<min n (Suc k). uint (bu_words b ! j) * digit_at m others (nat i + nat (int k - i) - j))"
    using step_loop_correct [of i "bu_words b" m others 0 0 "nat (int k - i)"] i len others small
    by (auto simp: returns_iff)
  have "(\<Sum>j<min n (Suc k). uint (bu_words b ! j) * digit_at m others (nat i + nat (int k - i) - j)) =
      (\<Sum>j<min n (Suc k). digit_at n ws j * digit_at m others (k - j))"
  proof (rule sum.cong)
    fix j assume j: "j \<in> {..<min n (Suc k)}"
    then have "bu_words b ! j = ws ! j"
      using same by (metis lessThan_iff min_less_iff_conj nth_take)
    moreover have "nat i + nat (int k - i) = k"
      using j i by (auto simp: i_def)
    ultimately show "uint (bu_words b ! j) * digit_at m others (nat i + nat (int k - i) - j) =
        digit_at n ws j * digit_at m others (k - j)"
      using j by (simp add: digit_at_def)
  qed simp
  also have "\<dots> = column (digit_at n ws) (digit_at m others) k"
    unfolding column_def by (intro sum.mono_neutral_left) (auto simp: digit_at_def)
  finally have col: "uint this_word + 2 ^ 32 * uint carry = column (digit_at n ws) (digit_at m others) k"
    using sum by simp
  obtain b1 where run1: "AddWithCarry_u64 (Suc k) carry b = Inr b1" and b1: "big_ok N b1"
    and suffix: "suffix_is (Suc k) (wsum (drop (Suc k) (bu_words b)) + uint carry) (bu_words b) (bu_words b1)"
    using AddWithCarry_u64_suffix [OF b, of "Suc k" carry] by (auto simp: returns_iff)
  define words where "words = (bu_words b1)[k := ucast this_word]"
  have "suffix_is (Suc k) (wsum (drop (Suc k) (bu_words b)) + uint carry) (ws[k := ucast this_word]) words"
    using suffix same len ws k
    by (simp add: suffix_is_def words_def take_update_swap)
  then have suf: "suffix_is k (uint this_word + 2 ^ 32 * (wsum (drop (Suc k) (bu_words b)) + uint carry)) ws words"
    using suffix_is_Suc [of k "wsum (drop (Suc k) (bu_words b)) + uint carry" ws "ucast this_word" words] low ws k
    by (simp add: uint_ucast_32)
  have eq: "uint this_word + 2 ^ 32 * (wsum (drop (Suc k) (bu_words b)) + uint carry) =
      column (digit_at n ws) (digit_at m others) k + 2 ^ 32 * wsum (drop (Suc k) (bu_words b))"
    using col by simp
  have "big_ok N \<lparr>bu_size = (if this_word > 0 \<and> bu_size b1 \<le> k then k + 1 else bu_size b1), bu_words = words\<rparr>"
    using b1 k low
    by (auto simp: big_ok_iff words_def nth_list_update word_gt_0)
  then show ?thesis
    using run run1 big_okD(1) [OF b1] k suf [unfolded eq]
    by (simp add: MultiplyStep_def Let_def i_def [symmetric] words_def [symmetric])
qed


lemma suffix_is_mod:
  "x mod 2 ^ (32 * (length ws - i)) = y mod 2 ^ (32 * (length ws - i)) \<Longrightarrow> suffix_is i x ws ws' \<longleftrightarrow> suffix_is i y ws ws'"
  by (simp add: suffix_is_def)

lemma multiply_loop_correct:
  assumes "big_ok N b" "k \<le> N" "suffix_is k x ws (bu_words b)"
    and AB: "A = digit_at n ws" "B = digit_at m others"
    and ws: "length ws = N" "n \<le> N" and others: "m \<le> length others" "int m < 2 ^ 31"
  shows "returns (multiply_loop n others m k b) (\<lambda>b'. big_ok N b' \<and>
    suffix_is 0 ((\<Sum>j<k. column A B j * 2 ^ (32 * j)) + 2 ^ (32 * k) * x) ws (bu_words b'))"
  using assms(1-3)
proof (induction k arbitrary: b x)
  case 0
  then show ?case by simp
next
  case (Suc k)
  have same: "take (Suc k) (bu_words b) = take (Suc k) ws" and
    rest: "wsum (drop (Suc k) (bu_words b)) = x mod 2 ^ (32 * (N - Suc k))"
    using Suc.prems(3) ws(1) by (simp_all add: suffix_is_def)
  have "32 * (N - k) = 32 + 32 * (N - Suc k)"
    using Suc.prems(2) by simp
  then have modulus: "(2 :: int) ^ (32 * (N - k)) = 2 ^ 32 * 2 ^ (32 * (N - Suc k))"
    by (simp only: power_add)
  have cong: "(column A B k + 2 ^ 32 * wsum (drop (Suc k) (bu_words b))) mod 2 ^ (32 * (N - k)) =
      (column A B k + 2 ^ 32 * x) mod 2 ^ (32 * (N - k))"
    unfolding rest modulus by (simp only: mult_mod_right mod_add_right_eq)
  obtain b1 where run: "MultiplyStep n others m k b = Inr b1" and b1: "big_ok N b1"
    and suffix: "suffix_is k (column A B k + 2 ^ 32 * x) ws (bu_words b1)"
    using MultiplyStep_suffix [OF Suc.prems(1) _ same ws others] Suc.prems(2) suffix_is_mod [OF cong [folded ws(1)]]
    by (auto simp: returns_iff AB)
  have "(\<Sum>j<k. column A B j * 2 ^ (32 * j)) + 2 ^ (32 * k) * (column A B k + 2 ^ 32 * x) =
      (\<Sum>j<Suc k. column A B j * 2 ^ (32 * j)) + 2 ^ (32 * Suc k) * x"
    by (simp add: power_add distrib_left)
  then show ?case
    using Suc.IH [OF b1 _ suffix] Suc.prems(2) run by (simp only: multiply_loop.simps bind_f_simps Suc_leD)
qed

text \<open>The columns are the product.\<close>

lemma column_eq_0:
  assumes "\<And>i. n \<le> i \<Longrightarrow> A i = 0" "\<And>i. m \<le> i \<Longrightarrow> B i = (0 :: int)" "n + m \<le> Suc j"
  shows "column A B j = 0"
  unfolding column_def
proof (intro sum.neutral ballI)
  fix i assume "i \<in> {..j}"
  then have "n \<le> i \<or> m \<le> j - i"
    using assms(3) by auto
  then show "A i * B (j - i) = 0"
    using assms(1,2) by auto
qed

lemma column_product:
  assumes "\<And>i. n \<le> i \<Longrightarrow> A i = 0" "\<And>i. m \<le> i \<Longrightarrow> B i = (0 :: int)"
  shows "(\<Sum>j<n + m. column A B j * x ^ j) = (\<Sum>i<n. A i * x ^ i) * (\<Sum>i<m. B i * x ^ i)"
proof -
  have *: "(\<Sum>i\<le>n. A i * x ^ i) = (\<Sum>i<n. A i * x ^ i)" "(\<Sum>i\<le>m. B i * x ^ i) = (\<Sum>i<m. B i * x ^ i)"
    using assms by (simp_all flip: lessThan_Suc_atMost)
  have "column A B (n + m) = 0"
    using column_eq_0 [OF assms] by simp
  then have "(\<Sum>j<n + m. column A B j * x ^ j) = (\<Sum>j\<le>n + m. column A B j * x ^ j)"
    by (simp flip: lessThan_Suc_atMost)
  then show ?thesis
    using polynomial_product [of n A m B x] assms * by (simp add: column_def)
qed

theorem MultiplyBy_words_computes:
  assumes b: "big_ok N b" and others: "m \<le> length others" "int m < 2 ^ 31" and m: "0 < m \<or> bu_size b = 0"
  shows "returns (MultiplyBy_words m others b) (computes N (big_value b * wsum (take m others) mod 2 ^ (32 * N)))"
proof -
  define n where "n = bu_size b"
  define K where "K = nat (min (int n + int m - 2) (int N - 1) + 1)"
  define A where "A = digit_at n (bu_words b)"
  define B where "B = digit_at m others"
  let ?one_step = "\<lambda>j. column A B j * 2 ^ (32 * j)"
  have len: "length (bu_words b) = N" and n: "n \<le> N"
    using b by (simp_all add: big_ok_def n_def)
  have K: "K \<le> N" "n + m - 1 \<le> K \<or> K = N" "K \<le> n + m"
    by (auto simp: K_def)
  have AB: "n \<le> i \<Longrightarrow> A i = 0" "m \<le> i \<Longrightarrow> B i = 0" for i
    by (simp_all add: A_def B_def digit_at_def)
  have "drop K (bu_words b) = replicate (N - K) 0"
    using b K m by (auto simp: big_ok_iff n_def intro!: nth_equalityI)
  then have start: "suffix_is K 0 (bu_words b) (bu_words b)"
    by (intro suffix_is_refl) simp
  have "returns (multiply_loop n others m K b) (\<lambda>b'. big_ok N b' \<and>
      suffix_is 0 (\<Sum>j<K. ?one_step j) (bu_words b) (bu_words b'))"
    using multiply_loop_correct [OF b K(1) start A_def B_def len n others] by simp
  then have "returns (MultiplyBy_words m others b) (computes N ((\<Sum>j<K. ?one_step j) mod 2 ^ (32 * N)))"
    using suffix_is_value [of 0 _ "bu_words b"] len big_okD(3) [OF b]
    by (auto simp: MultiplyBy_words_def Let_def K_def n_def big_value_def elim!: returns_mono)
  moreover have "(\<Sum>j<K. ?one_step j) mod 2 ^ (32 * N) = (\<Sum>j<n + m. ?one_step j) mod 2 ^ (32 * N)"
  proof -
    have "(\<Sum>j<n + m. ?one_step j) = (\<Sum>j<K. ?one_step j) + (\<Sum>j=K..<n + m. ?one_step j)"
      using sum.atLeastLessThan_concat [of 0 K "n + m" ?one_step] K(3) by (simp add: lessThan_atLeast0)
    moreover have "2 ^ (32 * N) dvd (\<Sum>j=K..<n + m. ?one_step j)"
    proof (rule dvd_sum)
      fix j assume j: "j \<in> {K..<n + m}"
      show "2 ^ (32 * N) dvd ?one_step j"
      proof (cases "N \<le> j")
        case True
        then show ?thesis
          by (intro dvd_mult le_imp_power_dvd) simp
      next
        case False
        then have "n + m \<le> Suc j"
          using j K by auto
        then have "column A B j = 0"
          using column_eq_0 [of n A m B j] AB by blast
        then show ?thesis
          by simp
      qed
    qed
    ultimately show ?thesis
      by (auto elim!: dvdE)
  qed
  moreover have "(\<Sum>j<n + m. ?one_step j) = big_value b * wsum (take m others)"
    using column_product [of n A m B "2 ^ 32"] AB big_value_take [OF b, of n] wsum_as_sum [of n "bu_words b"]
      wsum_as_sum [of m others] others n len
    by (simp add: A_def B_def n_def power_mult)
  ultimately show ?thesis
    by simp
qed


lemma MultiplyBy_u64_computes:
  assumes b: "big_ok N b"
  shows "returns (MultiplyBy_u64 v b) (computes N (big_value b * uint v mod 2 ^ (32 * N)))"
proof (cases "ucast (drop_bit 32 v) = (0 :: 32 word)")
  case True
  then have "uint (ucast v :: 32 word) = uint v"
    using uint_halves [of v] by simp
  then show ?thesis
    using MultiplyBy_u32_computes [OF b, of "ucast v"] True by (simp add: MultiplyBy_u64_def Let_def)
next
  case False
  then show ?thesis
    using MultiplyBy_words_computes [OF b, of 2 "[ucast v, ucast (drop_bit 32 v)]"] uint_halves [of v]
    by (simp add: MultiplyBy_u64_def Let_def)
qed

lemma MultiplyBy_big_computes:
  assumes "big_ok N b" "big_ok M other" "int M < 2 ^ 31" "0 < bu_size other \<or> bu_size b = 0"
  shows "returns (MultiplyBy_big other b) (computes N (big_value b * big_value other mod 2 ^ (32 * N)))"
  using MultiplyBy_words_computes [OF assms(1), of "bu_size other" "bu_words other"] big_value_take [OF assms(2) order_refl] assms
  by (auto simp: MultiplyBy_big_def big_ok_def)

text \<open>Multiplication by a number of size 0, that is by zero, leaves the highest word.\<close>

lemma MultiplyBy_big_zero:
  assumes b: "big_ok N b" and "bu_size other = 0" and n: "bu_size b = Suc n"
  shows "returns (MultiplyBy_big other b) (computes N (2 ^ (32 * n) * uint (bu_words b ! n)))"
proof -
  have len: "length (bu_words b) = N" and "n < N"
    using b n by (simp_all add: big_ok_def)
  have top: "wsum (drop n (bu_words b)) = uint (bu_words b ! n)"
    using b n \<open>n < N\<close> len by (simp add: wsum_drop_nth big_ok_def)
  have zero: "column A (digit_at 0 ws) j = 0" for A ws j
    by (simp add: column_def digit_at_def)
  have "returns (multiply_loop (Suc n) (bu_words other) 0 n b) (\<lambda>b'. big_ok N b' \<and>
      suffix_is 0 (2 ^ (32 * n) * uint (bu_words b ! n)) (bu_words b) (bu_words b'))"
    using multiply_loop_correct [OF b _ suffix_is_refl [OF top] refl refl len, of "Suc n" 0 "bu_words other"] \<open>n < N\<close>
    by (simp add: zero)
  moreover have "2 ^ (32 * n) * uint (bu_words b ! n) < 2 ^ (32 * N)"
  proof -
    have "2 ^ (32 * n) * uint (bu_words b ! n) \<le> wsum (bu_words b)"
      using wsum_split [of n "bu_words b"] top \<open>n < N\<close> len by simp
    then show ?thesis
      using wsum_less [of "bu_words b"] len by simp
  qed
  ultimately show ?thesis
    using assms big_okD(3) [OF b] \<open>n < N\<close> suffix_is_value [of 0 _ "bu_words b"] len
    by (auto simp: MultiplyBy_big_def MultiplyBy_words_def big_value_def elim!: returns_mono)
qed

section \<open>Shifting\<close>

text \<open>The words after the loop: those from an index on are shifted.\<close>

lemma shift_loop_correct:
  assumes "i < length words" "0 < count" "count < 32"
  shows "returns (shift_loop k count i words) (\<lambda>words'. length words' = length words \<and>
    (\<forall>j < length words. words' ! j = (if k < j \<and> j \<le> i then push_bit count (words ! (j - k)) OR drop_bit (32 - count) (words ! (j - k - 1))
      else words ! j)))"
  using assms
proof (induction k count i words rule: shift_loop.induct)
  case (1 k count i words)
  show ?case
  proof (cases "k < i")
    case False
    then show ?thesis
      by (auto simp: shift_loop.simps [of k count i])
  next
    case True
    define w where "w = push_bit count (words ! (i - k)) OR drop_bit (32 - count) (words ! (i - k - 1))"
    have "returns (shift_loop k count (i - 1) (words[i := w])) (\<lambda>words'. length words' = length words \<and>
      (\<forall>j < length words. words' ! j = (if k < j \<and> j \<le> i - 1
        then push_bit count (words[i := w] ! (j - k)) OR drop_bit (32 - count) (words[i := w] ! (j - k - 1))
        else words[i := w] ! j)))"
      using 1(1) [of "words ! (i - k)" "words ! (i - k - 1)" "words[i := w]"] True 1(2-) by (simp add: w_def)
    moreover have "shift_loop k count i words = shift_loop k count (i - 1) (words[i := w])"
      using True 1(2) by (simp add: shift_loop.simps [of k count i] w_def)
    moreover have "j \<le> i \<longleftrightarrow> j \<le> i - 1 \<or> j = i" for j
      using True by auto
    ultimately show ?thesis
      using True 1(2) by (auto elim!: returns_mono simp: w_def nth_list_update)
  qed
qed

lemma bit_shifted:
  assumes "length ws' = length ws" "count < 32"
    and "\<And>j. j < length ws \<Longrightarrow> ws' ! j = (if j < k then 0 else if j = k then push_bit count (ws ! 0)
      else push_bit count (ws ! (j - k)) OR drop_bit (32 - count) (ws ! (j - k - 1)))"
  shows "wsum ws' = take_bit (32 * length ws) (push_bit (32 * k + count) (wsum ws))"
proof (rule bit_eqI)
  fix n
  define j r :: nat where "j = n div 32" and "r = n mod 32"
  have n: "n = 32 * j + r" "r < 32"
    by (simp_all add: j_def r_def)
  show "bit (wsum ws') n = bit (take_bit (32 * length ws) (push_bit (32 * k + count) (wsum ws))) n"
  proof (cases "j < length ws")
    case False
    then show ?thesis
      using n assms(1) by (simp add: bit_wsum bit_take_bit_iff)
  next
    case True
    have left: "bit (wsum ws') n = bit (ws' ! j) r"
      using n True assms(1) by (simp add: bit_wsum)
    have right: "bit (take_bit (32 * length ws) (push_bit (32 * k + count) (wsum ws))) n \<longleftrightarrow>
        32 * k + count \<le> n \<and> bit (wsum ws) (n - (32 * k + count))"
      using n True by (auto simp: bit_simps)
    consider "j < k" | "j = k" | "k < j" by linarith
    then show ?thesis
    proof cases
      case 1
      then show ?thesis
        unfolding left right using True n by (simp add: assms(3))
    next
      case 2
      then show ?thesis
        unfolding left right using True n assms(2) by (auto simp: assms(3) bit_push_bit_iff bit_wsum)
    next
      case 3
      define d where "d = j - k - 1"
      have d: "j - k = Suc d" "Suc d < length ws"
        using 3 True by (auto simp: d_def)
      show ?thesis
      proof (cases "count \<le> r")
        case le: True
        have pos: "32 * k + count \<le> n" "n - (32 * k + count) = 32 * Suc d + (r - count)"
          using n d 3 le by auto
        have dm: "(32 * Suc d + (r - count)) div 32 = Suc d" "(32 * Suc d + (r - count)) mod 32 = r - count"
          using n(2) by (simp_all only: div_mult_self4 mod_mult_self4) simp_all
        show ?thesis
          unfolding left right unfolding pos(2) bit_wsum dm using True 3 d le assms(2) n(2) pos(1)
          by (auto simp: assms(3) bit_simps dest: bit_imp_le_length)
      next
        case gt: False
        have pos: "32 * k + count \<le> n" "n - (32 * k + count) = 32 * d + (32 + r - count)"
          using n d 3 gt assms(2) by auto
        have dm: "(32 * d + (32 + r - count)) div 32 = d" "(32 * d + (32 + r - count)) mod 32 = 32 + r - count"
          using n(2) gt by (simp_all only: div_mult_self4 mod_mult_self4) simp_all
        show ?thesis
          unfolding left right unfolding pos(2) bit_wsum dm using True 3 d gt assms(2) n(2) pos(1)
          by (auto simp: assms(3) bit_simps add.commute)
      qed
    qed
  qed
qed


theorem ShiftLeft_computes:
  assumes b: "big_ok N b" and "0 \<le> count"
  shows "returns (ShiftLeft count b) (computes N (big_value b * 2 ^ nat count mod 2 ^ (32 * N)))"
proof -
  define k c where "k = nat (count div 32)" and "c = nat (count mod 32)"
  have count: "nat count = 32 * k + c" "c < 32"
    using assms(2) by (simp_all add: k_def c_def nat_div_distrib nat_mod_distrib nat_less_iff)
  have len: "length (bu_words b) = N" and size: "bu_size b \<le> N" and zeros: "\<And>i. bu_size b \<le> i \<Longrightarrow> i < N \<Longrightarrow> bu_words b ! i = 0"
    using b by (auto simp: big_ok_iff)
  consider "count = 0" | "0 < count" "N \<le> k" | "0 < count" "k < N" "c = 0" | "0 < count" "k < N" "0 < c"
    using assms(2) by linarith
  then show ?thesis
  proof cases
    case 1
    then show ?thesis
      using b big_value_less [OF b] by (simp add: ShiftLeft_def)
  next
    case 2
    then have "2 ^ (32 * N) dvd (2 :: int) ^ nat count"
      by (intro le_imp_power_dvd) (simp add: count)
    then have "big_value b * 2 ^ nat count mod 2 ^ (32 * N) = 0"
      by simp
    then show ?thesis
      using 2 SetToZero_computes [OF b] big_okD(3) [OF b] by (simp add: ShiftLeft_def k_def)
  next
    case 3
    define s where "s = min (bu_size b + k) N"
    define words where "words = replicate k 0 @ take (s - k) (bu_words b) @ drop s (bu_words b)"
    have s: "k \<le> s" "s \<le> N" "bu_size b \<le> s"
      using 3 size by (auto simp: s_def)
    have nth: "words ! j = (if j < k then 0 else bu_words b ! (j - k))" if "j < N" for j
      using that s len zeros [of j] zeros [of "j - k"] size
      by (auto simp: words_def nth_append s_def min_def split: if_splits)
    have "length words = N"
      using s len by (simp add: words_def)
    then have "wsum words = take_bit (32 * N) (push_bit (32 * k) (wsum (bu_words b)))"
      using bit_shifted [of words "bu_words b" 0 k] nth len by simp
    moreover have "words ! i = 0" if "s \<le> i" "i < N" for i
      using that nth [of i] zeros [of "i - k"] by (auto simp: s_def)
    moreover have "ShiftLeft count b = Inr \<lparr>bu_size = s, bu_words = words\<rparr>"
      using 3 s len
      by (simp add: ShiftLeft_def Let_def max_words_def k_def [symmetric] c_def [symmetric] s_def [symmetric] copy_backward_def words_def)
    ultimately show ?thesis
      using \<open>length words = N\<close> s 3
      by (simp add: big_ok_iff big_value_def count take_bit_eq_mod push_bit_eq_mult)
  next
    case 4
    define s where "s = min (bu_size b + k) N"
    have below: "min s (N - 1) < N"
      using 4 by (simp add: min_less_iff_disj)
    obtain words1 where run: "shift_loop k c (min s (N - 1)) (bu_words b) = Inr words1" and "length words1 = N"
      and nth1: "\<And>j. j < N \<Longrightarrow> words1 ! j = (if k < j \<and> j \<le> min s (N - 1)
        then push_bit c (bu_words b ! (j - k)) OR drop_bit (32 - c) (bu_words b ! (j - k - 1)) else bu_words b ! j)"
      using shift_loop_correct [of "min s (N - 1)" "bu_words b" c k] 4 count(2) len below
      by (auto simp: returns_iff)
    have s: "k \<le> s" "s \<le> N" "bu_size b \<le> s"
      using 4 size by (auto simp: s_def)
    define words2 where "words2 = words1[k := push_bit c (bu_words b ! 0)]"
    define words where "words = replicate k 0 @ drop k words2"
    have w0: "words1 ! 0 = bu_words b ! 0"
      using nth1 [of 0] 4 by simp
    have nth: "words ! j = (if j < k then 0 else if j = k then push_bit c (bu_words b ! 0)
        else push_bit c (bu_words b ! (j - k)) OR drop_bit (32 - c) (bu_words b ! (j - k - 1)))" if "j < N" for j
    proof (cases "k < j \<and> \<not> j \<le> min s (N - 1)")
      case True
      then have "s < j" "s = bu_size b + k"
        using that by (auto simp: s_def)
      then have "bu_words b ! j = 0" "bu_words b ! (j - k) = 0" "bu_words b ! (j - k - 1) = 0"
        using that zeros [of j] zeros [of "j - k"] zeros [of "j - k - 1"] by auto
      then show ?thesis
        using True that \<open>length words1 = N\<close> nth1 [of j] by (auto simp: words_def words2_def nth_append)
    next
      case False
      then show ?thesis
        using that \<open>length words1 = N\<close> nth1 [of j] by (auto simp: words_def words2_def nth_append)
    qed
    have "length words = N"
      using 4 \<open>length words1 = N\<close> by (simp add: words_def words2_def)
    then have "wsum words = take_bit (32 * N) (push_bit (32 * k + c) (wsum (bu_words b)))"
      using bit_shifted [of words "bu_words b" c k] nth len count by simp
    moreover have beyond: "words ! i = 0" if "s < i" "i < N" for i
      using that nth [of i] s zeros [of "i - k"] zeros [of "i - k - 1"] by (auto simp: s_def)
    define s' where "s' = (if s < N \<and> words2 ! s \<noteq> 0 then s + 1 else s)"
    have "words2 ! s = words ! s" if "s < N"
      using that s \<open>length words1 = N\<close> by (simp add: words_def words2_def nth_append)
    then have "words ! i = 0" if "s' \<le> i" "i < N" for i
      using that beyond [of i] by (cases "i = s") (auto simp: s'_def split: if_splits)
    moreover have "ShiftLeft count b = Inr \<lparr>bu_size = s', bu_words = words\<rparr>"
      using 4 s len run w0 \<open>length words1 = N\<close>
      by (auto simp: ShiftLeft_def Let_def max_words_def k_def [symmetric] c_def [symmetric] s_def [symmetric]
          words_def words2_def s'_def)
    ultimately show ?thesis
      using \<open>length words = N\<close> s
      by (auto simp: big_ok_iff big_value_def count(1) take_bit_eq_mod push_bit_eq_mult s'_def)
  qed
qed


section \<open>Powers of five and ten\<close>

lemma kFiveToNth_eq:
  assumes "0 \<le> n" "n \<le> 13"
  shows "uint (kFiveToNth ! nat n) = 5 ^ nat n"
proof -
  have "n \<in> {0, 1, 2, 3, 4, 5, 6, 7, 8, 9, 10, 11, 12, 13}"
    using assms unfolding insert_iff empty_iff by presburger
  then show ?thesis
    by (auto simp: kFiveToNth_def)
qed

lemma kTenToNth_eq:
  assumes "n \<le> 9"
  shows "uint (kTenToNth ! n) = 10 ^ n"
proof -
  have "n \<in> {0, 1, 2, 3, 4, 5, 6, 7, 8, 9}"
    using assms by auto
  then show ?thesis
    by (auto simp: kTenToNth_def)
qed

text \<open>Each entry of the table of large powers, evaluated.\<close>

lemma kLargePowersOfFive_eq:
  assumes "1 \<le> i" "i \<le> 20"
  shows "wsum (take (LargePowerOfFiveSize i) (LargePowerOfFiveData i)) = 5 ^ nat (27 * i)"
proof -
  have "i \<in> {1, 2, 3, 4, 5, 6, 7, 8, 9, 10, 11, 12, 13, 14, 15, 16, 17, 18, 19, 20}"
    using assms unfolding insert_iff empty_iff by presburger
  then show ?thesis
    unfolding LargePowerOfFiveSize_def LargePowerOfFiveData_def
    by (elim insertE emptyE) (simp_all add: kLargePowersOfFive_def)
qed

lemma length_LargePowerOfFiveData:
  "1 \<le> i \<Longrightarrow> i \<le> 20 \<Longrightarrow> LargePowerOfFiveSize i \<le> length (LargePowerOfFiveData i)"
proof -
  assume "1 \<le> i" "i \<le> 20"
  then have "i \<in> {1, 2, 3, 4, 5, 6, 7, 8, 9, 10, 11, 12, 13, 14, 15, 16, 17, 18, 19, 20}"
    unfolding insert_iff empty_iff by presburger
  then show ?thesis
    unfolding LargePowerOfFiveSize_def LargePowerOfFiveData_def kLargePowersOfFive_def by auto
qed

text \<open>One factor after the other, modulo the size of the number.\<close>

lemma computes_mult_trans:
  assumes "returns m (\<lambda>b. big_ok N b \<and> big_value b = x mod 2 ^ (32 * N))"
    and "\<And>b. m = Inr b \<Longrightarrow> big_ok N b \<Longrightarrow> returns (f b) (\<lambda>b'. big_ok N b' \<and> big_value b' = big_value b * y mod 2 ^ (32 * N))"
    and "x * y = z"
  shows "returns (bind_f m f) (\<lambda>b'. big_ok N b' \<and> big_value b' = z mod 2 ^ (32 * N))"
proof -
  obtain b where b: "m = Inr b" "big_ok N b" "big_value b = x mod 2 ^ (32 * N)"
    using assms(1) by (auto simp: returns_iff)
  then show ?thesis
    using assms(2) [OF b(1,2)] assms(3) by (auto simp: mod_mult_left_eq)
qed

lemma MultiplyByFiveToTheNth_computes:
  assumes "big_ok N b" "0 \<le> n"
  shows "returns (MultiplyByFiveToTheNth n b) (computes N (big_value b * 5 ^ nat n mod 2 ^ (32 * N)))"
  using assms
proof (induction n b rule: MultiplyByFiveToTheNth.induct)
  case (1 n b)
  show ?case
  proof (cases "13 \<le> n")
    case True
    have step: "returns (MultiplyBy_u32 (kFiveToNth ! nat 13) b) (\<lambda>b'. big_ok N b' \<and> big_value b' = (big_value b * 5 ^ 13) mod 2 ^ (32 * N))"
      using MultiplyBy_u32_computes [OF 1(2), of "kFiveToNth ! nat 13"] kFiveToNth_eq [of 13] by simp
    have pow: "big_value b * 5 ^ 13 * 5 ^ nat (n - 13) = big_value b * 5 ^ nat n"
    proof -
      have "nat n = 13 + nat (n - 13)"
        using True by simp
      then show ?thesis
        by (simp only: power_add mult.assoc)
    qed
    have "returns (bind_f (MultiplyBy_u32 (kFiveToNth ! nat 13) b) (\<lambda>b. MultiplyByFiveToTheNth (n - 13) b))
        (computes N (big_value b * 5 ^ nat n mod 2 ^ (32 * N)))"
      using True 1(1) by (intro computes_mult_trans [OF step _ pow]) (simp add: kMaxSmallPowerOfFive_def)
    then show ?thesis
      using True by (simp add: MultiplyByFiveToTheNth.simps [of n b] kMaxSmallPowerOfFive_def)
  next
    case False
    then show ?thesis
      using MultiplyBy_u32_computes [OF 1(2), of "kFiveToNth ! nat n"] kFiveToNth_eq [of n] 1(2,3) big_value_less [OF 1(2)]
      by (cases "n = 0") (simp_all add: MultiplyByFiveToTheNth.simps [of n b] MultiplyByFiveToTheNth.simps [of 0 b] kMaxSmallPowerOfFive_def)
  qed
qed

theorem MultiplyByTenToTheNth_computes:
  assumes b: "big_ok N b" and n: "0 \<le> n"
  shows "returns (MultiplyByTenToTheNth n b) (computes N (big_value b * 10 ^ nat n mod 2 ^ (32 * N)))"
proof (cases "9 < n")
  case True
  have "big_value b * 5 ^ nat n * 2 ^ nat n = big_value b * 10 ^ nat n"
    by (simp flip: power_mult_distrib)
  then have "returns (bind_f (MultiplyByFiveToTheNth n b) (\<lambda>b. ShiftLeft n b)) (computes N (big_value b * 10 ^ nat n mod 2 ^ (32 * N)))"
    by (intro computes_mult_trans [OF MultiplyByFiveToTheNth_computes [OF b n] ShiftLeft_computes [OF _ n]])
  then show ?thesis
    using True by (simp add: MultiplyByTenToTheNth_def kMaxSmallPowerOfTen_def)
next
  case False
  then have "nat n \<le> 9"
    by simp
  then show ?thesis
    using False n MultiplyBy_u32_computes [OF b, of "kTenToNth ! nat n"] kTenToNth_eq [of "nat n"] b big_value_less [OF b]
    by (cases "n = 0") (simp_all add: MultiplyByTenToTheNth_def kMaxSmallPowerOfTen_def)
qed

lemma five_loop_computes:
  assumes "big_ok N b" "0 \<le> n"
  shows "returns (five_loop n False b) (\<lambda>(n', b'). 0 \<le> n' \<and> n' \<le> n \<and> big_ok N b' \<and>
    big_value b' = big_value b * 5 ^ nat (n - n') mod 2 ^ (32 * N))"
  using assms
proof (induction "nat n" arbitrary: n b rule: less_induct)
  case less
  show ?case
  proof (cases "27 \<le> n")
    case False
    then show ?thesis
      using less.prems big_value_less [OF less.prems(1)] by (simp add: five_loop.simps [of n] kLargePowerOfFiveStep_def)
  next
    case True
    define p where "p = min (n div 27) 20"
    have p: "1 \<le> p" "p \<le> 20" "27 * p \<le> n"
      using True by (auto simp: p_def)
    have "0 < LargePowerOfFiveSize p" "int (LargePowerOfFiveSize p) < 2 ^ 31"
      using p by (simp_all add: LargePowerOfFiveSize_def)
    then obtain b1 where run: "MultiplyBy_words (LargePowerOfFiveSize p) (LargePowerOfFiveData p) b = Inr b1"
      and b1: "big_ok N b1" "big_value b1 = big_value b * 5 ^ nat (27 * p) mod 2 ^ (32 * N)"
      using MultiplyBy_words_computes [OF less.prems(1) length_LargePowerOfFiveData [OF p(1,2)]] kLargePowersOfFive_eq [OF p(1,2)]
      by (auto simp: returns_iff)
    have "returns (five_loop (n - 27 * p) False b1) (\<lambda>(n', b'). 0 \<le> n' \<and> n' \<le> n - 27 * p \<and> big_ok N b' \<and>
        big_value b' = big_value b1 * 5 ^ nat (n - 27 * p - n') mod 2 ^ (32 * N))"
      using p b1(1) by (intro less.hyps) auto
    moreover have "big_value b1 * 5 ^ nat (n - 27 * p - n') mod 2 ^ (32 * N) = big_value b * 5 ^ nat (n - n') mod 2 ^ (32 * N)"
      if "n' \<le> n - 27 * p" for n'
    proof -
      have "nat (n - n') = nat (27 * p) + nat (n - 27 * p - n')"
        using that p by (simp add: nat_add_distrib [symmetric])
      then show ?thesis
        by (simp add: b1(2) mod_mult_left_eq power_add mult.assoc)
    qed
    ultimately show ?thesis
      using True run p
      by (auto simp: five_loop.simps [of n] kLargePowerOfFiveStep_def kLargestPowerOfFiveIndex_def Let_def p_def [symmetric]
          elim!: returns_mono)
  qed
qed

theorem FiveToTheNth_computes:
  assumes "2 \<le> N" "0 \<le> n" "2 * min (n div 27) 20 \<le> int N"
  shows "returns (FiveToTheNth N n) (computes N (5 ^ nat n mod 2 ^ (32 * N)))"
proof -
  let ?one = "BigUnsigned_of_u64 N 1"
  have one: "computes N 1 ?one"
    using BigUnsigned_of_u64_computes [OF assms(1), of 1] by simp
  have "returns (five_loop n True ?one) (\<lambda>(n', b'). 0 \<le> n' \<and> n' \<le> n \<and> big_ok N b' \<and>
      big_value b' = 5 ^ nat (n - n') mod 2 ^ (32 * N))"
  proof (cases "27 \<le> n")
    case False
    then show ?thesis
      using assms one big_value_less [of N ?one] by (simp add: five_loop.simps [of n] kLargePowerOfFiveStep_def)
  next
    case True
    define p where "p = min (n div 27) 20"
    have p: "1 \<le> p" "p \<le> 20" "27 * p \<le> n" "LargePowerOfFiveSize p \<le> N"
      using True assms(3) by (auto simp: p_def LargePowerOfFiveSize_def)
    define words where "words = take (LargePowerOfFiveSize p) (LargePowerOfFiveData p) @ drop (LargePowerOfFiveSize p) (bu_words ?one)"
    have two: "2 \<le> LargePowerOfFiveSize p"
      using p by (simp add: LargePowerOfFiveSize_def)
    have len: "length (bu_words ?one) = N"
      using one by (simp add: big_ok_def)
    have tail: "drop (LargePowerOfFiveSize p) (bu_words ?one) = replicate (N - LargePowerOfFiveSize p) 0"
      using one two by (auto simp: big_ok_iff BigUnsigned_of_u64_def intro!: nth_equalityI)
    have size: "LargePowerOfFiveSize p \<le> length (LargePowerOfFiveData p)"
      using p by (intro length_LargePowerOfFiveData)
    have words: "wsum words = 5 ^ nat (27 * p)" "length words = N"
      using kLargePowersOfFive_eq [OF p(1,2)] size p(4) by (simp_all add: words_def tail wsum_append)
    have val: "computes N (5 ^ nat (27 * p)) \<lparr>bu_size = LargePowerOfFiveSize p, bu_words = words\<rparr>"
      using words p(4) size by (simp add: big_ok_def big_value_def) (simp add: words_def tail)
    have "returns (five_loop (n - 27 * p) False \<lparr>bu_size = LargePowerOfFiveSize p, bu_words = words\<rparr>)
      (\<lambda>(n', b'). 0 \<le> n' \<and> n' \<le> n - 27 * p \<and> big_ok N b' \<and>
        big_value b' = 5 ^ nat (27 * p) * 5 ^ nat (n - 27 * p - n') mod 2 ^ (32 * N))"
      using five_loop_computes [of N "\<lparr>bu_size = LargePowerOfFiveSize p, bu_words = words\<rparr>" "n - 27 * p"] val p(3) by simp
    moreover have "5 ^ nat (27 * p) * 5 ^ nat (n - 27 * p - n') = (5 :: int) ^ nat (n - n')" if "n' \<le> n - 27 * p" for n'
      using that p(1) by (simp flip: power_add nat_add_distrib)
    ultimately show ?thesis
      using True p size len
      by (auto simp: five_loop.simps [of n] kLargePowerOfFiveStep_def kLargestPowerOfFiveIndex_def Let_def p_def [symmetric]
          copy_words_def words_def [symmetric] elim!: returns_mono)
  qed
  then show ?thesis
    unfolding FiveToTheNth_def
  proof (rule returns_bind, clarify)
    fix n' b' assume "0 \<le> n'" "n' \<le> n" "big_ok N b'" "big_value b' = 5 ^ nat (n - n') mod 2 ^ (32 * N)"
    moreover have "5 ^ nat (n - n') * 5 ^ nat n' = (5 :: int) ^ nat n" if "0 \<le> n'" "n' \<le> n"
      using that by (simp flip: power_add nat_add_distrib)
    ultimately show "returns (MultiplyByFiveToTheNth n' b') (computes N (5 ^ nat n mod 2 ^ (32 * N)))"
      using MultiplyByFiveToTheNth_computes [of N b' n'] by (simp add: mod_mult_left_eq)
  qed
qed

end
