(* ===== verification/Float_Text.thy ===== *)
theory Float_Text
  imports Parse_Float
begin

text \<open>
  The numbers that texts stand for, independently of the code that scans them: the value of a list of digits in a
  base, and the parts of a floating-point literal.
\<close>

section \<open>Digits\<close>

text \<open>Which characters are digits in a base, and their values, by their place in the alphabet.\<close>

primrec base_radix :: "base \<Rightarrow> int" where
  "base_radix Decimal = 10"
| "base_radix Hexadecimal = 16"

primrec is_digit :: "base \<Rightarrow> byte \<Rightarrow> bool" where
  "is_digit Decimal c \<longleftrightarrow> 0x30 \<le> c \<and> c \<le> 0x39"
| "is_digit Hexadecimal c \<longleftrightarrow> 0x30 \<le> c \<and> c \<le> 0x39 \<or> 0x41 \<le> c \<and> c \<le> 0x46 \<or> 0x61 \<le> c \<and> c \<le> 0x66"

primrec digit_number :: "base \<Rightarrow> byte \<Rightarrow> int" where
  "digit_number Decimal c = int (unat c) - 0x30"
| "digit_number Hexadecimal c =
     (if c \<le> 0x39 then int (unat c) - 0x30
      else if c \<le> 0x46 then int (unat c) - 0x41 + 10
      else int (unat c) - 0x61 + 10)"

definition digits_value :: "base \<Rightarrow> byte list \<Rightarrow> int" where
  "digits_value base ds = foldl (\<lambda>v c. v * base_radix base + digit_number base c) 0 ds"

abbreviation all_digits :: "base \<Rightarrow> byte list \<Rightarrow> bool" where
  "all_digits base ds \<equiv> list_all (is_digit base) ds"

text \<open>
  The format of a literal: the characters that introduce an exponent, how many exponent steps a digit is worth, how many digits
  the scanner keeps, and from which number of digits on it refuses a literal.
\<close>

primrec is_exponent_char :: "base \<Rightarrow> byte \<Rightarrow> bool" where
  "is_exponent_char Decimal c \<longleftrightarrow> c = 0x65 \<or> c = 0x45"
| "is_exponent_char Hexadecimal c \<longleftrightarrow> c = 0x70 \<or> c = 0x50"

primrec digit_weight :: "base \<Rightarrow> int" where
  "digit_weight Decimal = 1"
| "digit_weight Hexadecimal = 4"

primrec mantissa_digits :: "base \<Rightarrow> nat" where
  "mantissa_digits Decimal = 19"
| "mantissa_digits Hexadecimal = 15"

primrec digit_limit :: "base \<Rightarrow> nat" where
  "digit_limit Decimal = 50000000"
| "digit_limit Hexadecimal = 12500000"

text \<open>The flags: bit 0 is \<open>scientific\<close>, bit 1 is \<open>fixed\<close>. Only \<open>fixed\<close> alone forbids an exponent, only \<open>scientific\<close> alone requires one.\<close>

definition exponent_allowed :: "32 word \<Rightarrow> bool" where
  "exponent_allowed flags \<longleftrightarrow> \<not> (bit flags 1 \<and> \<not> bit flags 0)"

definition exponent_required :: "32 word \<Rightarrow> bool" where
  "exponent_required flags \<longleftrightarrow> bit flags 0 \<and> \<not> bit flags 1"

section \<open>The tables and constants of the code\<close>

lemma byte_index: "unat (c :: byte) < 256"
  using unsigned_less [of c, where ?'a = nat] by simp

lemma table_eq:
  "kAsciiToInt_float = map (\<lambda>n. if 48 \<le> n \<and> n \<le> 57 then int n - 48 else if 65 \<le> n \<and> n \<le> 70 then int n - 55
     else if 97 \<le> n \<and> n \<le> 102 then int n - 87 else - 1) [0..<256]"
  by (simp add: kAsciiToInt_float_def upt_conv_Cons)

lemma table_nth:
  "kAsciiToInt_float ! unat (c :: byte) = (if is_digit Hexadecimal c then digit_number Hexadecimal c else - 1)"
  using byte_index [of c] by (simp add: table_eq word_le_nat_alt)

lemma base_value_eq [simp]: "base_value base = base_radix base"
  by (cases base) simp_all

lemma digit_number_Hex_range: "is_digit Hexadecimal c \<Longrightarrow> 0 \<le> digit_number Hexadecimal c \<and> digit_number Hexadecimal c < 16"
  by (auto simp: word_le_def)

lemma IsDigit_base_eq [simp]: "IsDigit_base base c \<longleftrightarrow> is_digit base c"
proof (cases base)
  case Hexadecimal
  then show ?thesis
    using digit_number_Hex_range [of c] table_nth [of c]
    by (auto simp del: is_digit.simps digit_number.simps split: if_splits)
qed simp

lemma ToDigit_eq [simp]: "is_digit base c \<Longrightarrow> ToDigit base c = digit_number base c"
  using table_nth [of c] by (cases base) (simp_all del: is_digit.simps(2) digit_number.simps(2))

lemma IsExponentCharacter_eq [simp]: "IsExponentCharacter base c \<longleftrightarrow> is_exponent_char base c"
  by (cases base) simp_all

lemma code_constants [simp]:
  "MantissaDigitsMax base = mantissa_digits base" "DigitLimit base = digit_limit base"
  "DigitMagnitude base = digit_weight base"
  by (cases base; simp add: kDecimalDigitLimit_def kHexadecimalDigitLimit_def)+

lemma word_and_bit:
  assumes "n < 32"
  shows "(w :: 32 word) AND 2 ^ n = 2 ^ n \<longleftrightarrow> bit w n"
proof
  have "bit (2 ^ n :: 32 word) n"
    using assms by (simp add: bit_exp_iff)
  then show "w AND 2 ^ n = 2 ^ n \<Longrightarrow> bit w n"
    by (metis bit_and_iff)
  show "bit w n \<Longrightarrow> w AND 2 ^ n = 2 ^ n"
    by (rule bit_word_eqI) (auto simp: bit_and_iff bit_exp_iff)
qed

lemma flag_bits: "(w :: 32 word) AND 1 = 1 \<longleftrightarrow> bit w 0" "(w :: 32 word) AND 2 = 2 \<longleftrightarrow> bit w 1"
  using word_and_bit [of 0 w] word_and_bit [of 1 w] by simp_all

lemma exponent_flags [simp]:
  "AllowExponent flags \<longleftrightarrow> exponent_allowed flags" "RequireExponent flags \<longleftrightarrow> exponent_required flags"
  by (auto simp: AllowExponent_def RequireExponent_def exponent_allowed_def exponent_required_def fixed_fmt_def
      scientific_fmt_def flag_bits Let_def)

section \<open>The value of digits\<close>

lemma base_radix_pos [simp]: "0 < base_radix base" "2 \<le> base_radix base" "1 < base_radix base"
  by (cases base; simp)+

lemma base_radix_neq_0 [simp]: "base_radix base \<noteq> 0"
  by (cases base) simp_all

lemma digits_value_foldl:
  "foldl (\<lambda>v c. v * base_radix base + digit_number base c) a ds = a * base_radix base ^ length ds + digits_value base ds"
  unfolding digits_value_def
proof (induction ds arbitrary: a rule: rev_induct)
  case (snoc d ds)
  show ?case
    using snoc [of a] by (simp add: distrib_right)
qed simp

lemma digits_value_Nil [simp]: "digits_value base [] = 0"
  by (simp add: digits_value_def)

lemma digits_value_snoc [simp]: "digits_value base (ds @ [d]) = digits_value base ds * base_radix base + digit_number base d"
  by (simp add: digits_value_def)

lemma digits_value_append:
  "digits_value base (xs @ ys) = digits_value base xs * base_radix base ^ length ys + digits_value base ys"
  using digits_value_foldl [of base "digits_value base xs" ys] by (simp add: digits_value_def)

lemma digits_value_Cons: "digits_value base (d # ds) = digit_number base d * base_radix base ^ length ds + digits_value base ds"
  using digits_value_append [of base "[d]" ds] by (simp add: digits_value_def)

lemma digit_number_range: "is_digit base c \<Longrightarrow> 0 \<le> digit_number base c \<and> digit_number base c < base_radix base"
  by (cases base) (auto simp: word_le_def)

lemma digit_number_zero [simp]: "digit_number base 48 = 0"
  by (cases base) simp_all

lemma is_digit_zero [simp]: "is_digit base 48"
  by (cases base) simp_all

lemma digit_number_eq_0: "is_digit base c \<Longrightarrow> digit_number base c = 0 \<longleftrightarrow> c = 48"
  by (cases base) (auto simp: word_le_def word_uint_eq_iff split: if_splits)

lemma digits_value_nonneg: "all_digits base ds \<Longrightarrow> 0 \<le> digits_value base ds"
  by (induction ds rule: rev_induct) (simp_all add: digit_number_range less_imp_le [OF base_radix_pos(1)])

lemma digits_value_less: "all_digits base ds \<Longrightarrow> digits_value base ds < base_radix base ^ length ds"
proof (induction ds rule: rev_induct)
  case (snoc d ds)
  then have "digits_value base ds + 1 \<le> base_radix base ^ length ds" "digit_number base d < base_radix base"
    using digit_number_range by auto
  then have "(digits_value base ds + 1) * base_radix base \<le> base_radix base ^ length ds * base_radix base"
    by (intro mult_right_mono) (simp_all add: less_imp_le)
  then have "digits_value base ds * base_radix base + base_radix base \<le> base_radix base ^ length ds * base_radix base"
    unfolding distrib_right mult_1 .
  then show ?case
    using \<open>digit_number base d < base_radix base\<close> by (simp add: mult.commute)
qed simp

lemma digits_value_zeros: "\<forall>c \<in> set ds. c = 48 \<Longrightarrow> digits_value base ds = 0"
  by (induction ds rule: rev_induct) simp_all

lemma digits_value_drop_zeros: "digits_value base (dropWhile (\<lambda>c. c = 48) ds) = digits_value base ds"
proof -
  have "digits_value base ds = digits_value base (takeWhile (\<lambda>c. c = 48) ds @ dropWhile (\<lambda>c. c = 48) ds)"
    by simp
  also have "\<dots> = digits_value base (dropWhile (\<lambda>c. c = 48) ds)"
  proof -
    have "digits_value base (takeWhile (\<lambda>c. c = 48) ds) = 0"
      by (rule digits_value_zeros) (auto dest: set_takeWhileD)
    then show ?thesis
      by (simp only: digits_value_append mult_zero_left add_0_left)
  qed
  finally show ?thesis
    by simp
qed

lemma digits_value_eq_0_iff: "all_digits base ds \<Longrightarrow> digits_value base ds = 0 \<longleftrightarrow> (\<forall>c \<in> set ds. c = 48)"
proof
  show "all_digits base ds \<Longrightarrow> digits_value base ds = 0 \<Longrightarrow> \<forall>c \<in> set ds. c = 48"
  proof (induction ds rule: rev_induct)
    case (snoc d ds)
    then have "0 \<le> digits_value base ds * base_radix base" "0 \<le> digit_number base d"
      using digits_value_nonneg digit_number_range by (auto simp: less_imp_le)
    moreover have "digits_value base ds * base_radix base + digit_number base d = 0"
      using snoc.prems(2) by simp
    ultimately have "digits_value base ds * base_radix base = 0" "digit_number base d = 0"
      by linarith+
    then show ?case
      using snoc digit_number_eq_0 by auto
  qed simp
qed (rule digits_value_zeros)

lemma digit_number_pos: "is_digit base c \<Longrightarrow> c \<noteq> 48 \<Longrightarrow> 1 \<le> digit_number base c"
  using digit_number_eq_0 [of base c] digit_number_range [of base c] by fastforce

lemma digits_value_at_least:
  assumes "all_digits base D" "D \<noteq> []" "hd D \<noteq> 48"
  shows "base_radix base ^ (length D - 1) \<le> digits_value base D"
proof -
  obtain c D' where D: "D = c # D'"
    using assms(2) by (cases D) auto
  have "1 * base_radix base ^ length D' \<le> digit_number base c * base_radix base ^ length D'"
    using digit_number_pos [of base c] assms(1,3) by (intro mult_right_mono) (simp_all add: D less_imp_le)
  moreover have "0 \<le> digits_value base D'"
    using assms(1) D by (intro digits_value_nonneg) simp
  ultimately have "base_radix base ^ length D' \<le> digit_number base c * base_radix base ^ length D' + digits_value base D'"
    by linarith
  then show ?thesis
    by (simp add: D digits_value_Cons)
qed

end
