(* ===== verification/Numbers_Results.thy ===== *)
theory Numbers_Results
  imports Numbers C_Escape_Results
begin

text \<open>
  What holds of printing and parsing integers: the printers, which write two digits at a time
  and jump between labels, write the decimal digits; the parsers return the value of the
  digits, stop at the limits of their type, and never overflow; what is printed is read back.
\<close>

section \<open>Decimal digits\<close>

definition digit_char :: "nat \<Rightarrow> byte" where
  "digit_char d = 48 + of_nat d"

fun decimal :: "nat \<Rightarrow> byte list" where
  "decimal n = (if n < 10 then [digit_char n] else decimal (n div 10) @ [digit_char (n mod 10)])"

declare decimal.simps [simp del]

definition decimal_int :: "int \<Rightarrow> byte list" where
  "decimal_int i = (if i < 0 then chr (CHR ''-'') # decimal (nat (- i)) else decimal (nat i))"

text \<open>A given number of digits, with leading zeros.\<close>

fun digits_of :: "nat \<Rightarrow> nat \<Rightarrow> byte list" where
  "digits_of 0 n = []"
| "digits_of (Suc k) n = digits_of k (n div 10) @ [digit_char (n mod 10)]"

lemma length_digits_of [simp]: "length (digits_of k n) = k"
  by (induction k arbitrary: n) simp_all

lemma digits_of_split:
  "digits_of (j + k) n = digits_of j (n div 10 ^ k) @ digits_of k (n mod 10 ^ k)"
proof (induction k arbitrary: n)
  case (Suc k)
  have "n mod 10 ^ Suc k div 10 = n div 10 mod 10 ^ k" "n mod 10 ^ Suc k mod 10 = n mod 10"
    by (simp_all add: mod_mult2_eq)
  moreover have "n div 10 ^ Suc k = n div 10 div 10 ^ k" by (simp add: div_mult2_eq)
  ultimately show ?case using Suc.IH [of "n div 10"] by simp
qed simp

lemma decimal_split:
  "10 ^ k \<le> n \<Longrightarrow> decimal n = decimal (n div 10 ^ k) @ digits_of k (n mod 10 ^ k)"
proof (induction k arbitrary: n)
  case (Suc k)
  have "10 ^ k \<le> n div 10" using Suc.prems by (simp add: less_eq_div_iff_mult_less_eq mult.commute)
  moreover have "\<not> n < 10"
  proof -
    have "(1 :: nat) \<le> 10 ^ k" by simp
    then show ?thesis using Suc.prems unfolding power_Suc by linarith
  qed
  moreover have "n mod 10 ^ Suc k div 10 = n div 10 mod 10 ^ k" "n mod 10 ^ Suc k mod 10 = n mod 10"
    by (simp_all add: mod_mult2_eq)
  moreover have "n div 10 ^ Suc k = n div 10 div 10 ^ k" by (simp add: div_mult2_eq)
  ultimately show ?case using Suc.IH [of "n div 10"] by (subst decimal.simps) simp
qed simp

lemma decimal_digits_of: "1 \<le> k \<Longrightarrow> 10 ^ (k - 1) \<le> n \<or> k = 1 \<Longrightarrow> n < 10 ^ k \<Longrightarrow> decimal n = digits_of k n"
proof (induction k arbitrary: n rule: nat_induct_at_least)
  case base
  then show ?case by (subst decimal.simps) simp
next
  case (Suc k)
  then have "10 ^ k \<le> n" by auto
  from decimal_split [OF this] digits_of_split [of 1 k n] show ?case
    using Suc.prems by (subst (asm) decimal.simps) (simp add: less_mult_imp_div_less)
qed

lemma length_decimal: "1 \<le> k \<Longrightarrow> n < 10 ^ k \<Longrightarrow> length (decimal n) \<le> k"
proof (induction k arbitrary: n rule: nat_induct_at_least)
  case base
  then show ?case by (subst decimal.simps) simp
next
  case (Suc k)
  have "n div 10 < 10 ^ k" using Suc.prems by (simp add: less_mult_imp_div_less mult.commute)
  then show ?case using Suc.IH [of "n div 10"] Suc.hyps by (subst decimal.simps) simp
qed

section \<open>Writing digits\<close>

text \<open>The bytes are written, a terminator behind them, and the pointer is at the terminator.\<close>

definition finished :: "byte list \<Rightarrow> out_ptr \<Rightarrow> out_ptr" where
  "finished bs = (\<lambda>(p, buf). (p + length bs, write_at p (bs @ [0]) buf))"

definition valid_ptr :: "out_ptr \<Rightarrow> bool" where
  "valid_ptr s \<longleftrightarrow> fst s \<le> length (snd s)"

lemma valid_ptr_append [simp]: "valid_ptr s \<Longrightarrow> valid_ptr (append_ptr_bytes bs s)"
  by (auto simp: valid_ptr_def append_ptr_bytes_def write_at_def split: prod.splits)

lemma write_at_write_at:
  "p \<le> length m \<Longrightarrow> write_at (p + length bs) cs (write_at p bs m) = write_at p (bs @ cs) m"
  by (simp add: write_at_def ac_simps)

lemma append_append: "valid_ptr s \<Longrightarrow> append_ptr_bytes cs (append_ptr_bytes bs s) = append_ptr_bytes (bs @ cs) s"
  by (cases s) (simp add: append_ptr_bytes_def valid_ptr_def write_at_write_at add.assoc)

lemma finished_after: "valid_ptr s \<Longrightarrow> finished cs (append_ptr_bytes bs s) = finished (bs @ cs) s"
  by (cases s) (simp add: append_ptr_bytes_def finished_def valid_ptr_def write_at_write_at add.assoc)

lemma append_finished:
  "valid_ptr s \<Longrightarrow> c # cs = ds \<Longrightarrow> append_ptr_bytes ds (finished bs s) = append_ptr_bytes (bs @ ds) s"
  by (cases s) (auto simp: append_ptr_bytes_def finished_def valid_ptr_def write_at_def ac_simps)

lemma two_ASCII_digits_eq: "two_ASCII_digits = map (digits_of 2) [0..<100]"
  by (simp add: two_ASCII_digits_def digit_char_def upt_conv_Cons numeral_2_eq_2)

lemma PutTwoDigits_eq: "i < 100 \<Longrightarrow> PutTwoDigits i s = append_ptr_bytes (digits_of 2 i) s"
  by (simp add: PutTwoDigits_def two_ASCII_digits_eq)

lemma one_ASCII_final_digits_eq: "one_ASCII_final_digits = map (\<lambda>n. digits_of 1 n @ [0]) [0..<10]"
  by (simp add: one_ASCII_final_digits_def digit_char_def upt_conv_Cons)

lemma final_digit: "i < 10 \<Longrightarrow> one_ASCII_final_digits ! i = digits_of 1 i @ [0]"
  unfolding one_ASCII_final_digits_eq by (subst nth_map) simp_all

declare digits_of.simps(2) [simp del]

section \<open>Printing 32 bits\<close>

lemma word_rest: "(i :: 'a :: len word) - i div d * d = i mod d"
  by (rule minus_div_mult_eq_mod)

lemma unat_rest:
  "unat (i - i div d * d) = unat i mod unat d" "unat (i div d) = unat i div unat (d :: 'a :: len word)"
  by (simp_all add: word_rest unat_mod unat_div)

lemma put_char_digit:
  "unat d < 10 \<Longrightarrow> put_char (ucast (48 + d :: 32 word)) s = append_ptr_bytes (digits_of 1 (unat d)) s"
proof -
  assume "unat d < 10"
  then have "(ucast (48 + d) :: byte) = 48 + of_nat (unat d)"
    by (simp add: word_eq_unat unat_ucast_to_byte unat_word_ariths unsigned_of_nat take_bit_eq_mod mod_mod_cancel)
  then show ?thesis using \<open>unat d < 10\<close> by (simp add: put_char_def digit_char_def digits_of.simps(2))
qed

lemma lt100_eq:
  assumes "unat i < 100" and "valid_ptr s"
  shows "lt100 i s = finished (digits_of 2 (unat i)) s"
  using assms
  by (cases s) (simp add: lt100_def PutTwoDigits_eq append_ptr_bytes_def finished_def valid_ptr_def
      write_at_write_at [where bs = "digits_of 2 (unat i)", simplified])

lemma two_then:
  assumes "unat i < 100 * 10 ^ k" and "unat d = 10 ^ k" and "valid_ptr s"
    and "\<And>j t. unat j < 10 ^ k \<Longrightarrow> valid_ptr t \<Longrightarrow> f j t = finished (digits_of k (unat j)) t"
  shows "f (i - i div d * d) (PutTwoDigits (unat (i div d)) s) = finished (digits_of (2 + k) (unat i)) s"
proof -
  have "unat i div 10 ^ k < 100" using assms(1) by (simp add: less_mult_imp_div_less)
  then have "PutTwoDigits (unat (i div d)) s = append_ptr_bytes (digits_of 2 (unat i div 10 ^ k)) s"
    by (simp add: unat_rest assms(2) PutTwoDigits_eq)
  moreover have "unat (i - i div d * d) < 10 ^ k" by (simp add: unat_rest assms(2))
  ultimately show ?thesis
    using assms(3) assms(4) [of "i - i div d * d"]
    by (simp only: finished_after valid_ptr_append unat_rest assms(2) digits_of_split)
qed

lemma lt10_000_eq:
  "unat i < 10000 \<Longrightarrow> valid_ptr s \<Longrightarrow> lt10_000 i s = finished (digits_of 4 (unat i)) s"
  using two_then [of i 2 100 s lt100, OF _ _ _ lt100_eq] by (simp add: lt10_000_def Let_def)

lemma lt1_000_000_eq:
  "unat i < 1000000 \<Longrightarrow> valid_ptr s \<Longrightarrow> lt1_000_000 i s = finished (digits_of 6 (unat i)) s"
  using two_then [of i 4 10000 s lt10_000, OF _ _ _ lt10_000_eq] by (simp add: lt1_000_000_def Let_def)

lemma lt100_000_000_eq:
  "unat i < 100000000 \<Longrightarrow> valid_ptr s \<Longrightarrow> lt100_000_000 i s = finished (digits_of 8 (unat i)) s"
  using two_then [of i 6 1000000 s lt1_000_000, OF _ _ _ lt1_000_000_eq] by (simp add: lt100_000_000_def Let_def)

text \<open>A first digit alone, when the number of digits is odd.\<close>

lemma one_then:
  assumes "unat i < 10 * 10 ^ k" and "unat d = 10 ^ k" and "valid_ptr s"
    and "\<And>j t. unat j < 10 ^ k \<Longrightarrow> valid_ptr t \<Longrightarrow> f j t = finished (digits_of k (unat j)) t"
  shows "f (i - i div d * d) (put_char (ucast (48 + i div d :: 32 word)) s) = finished (digits_of (1 + k) (unat i)) s"
proof -
  have "unat (i div d) < 10" using assms(1) by (simp add: less_mult_imp_div_less unat_rest assms(2))
  then have "put_char (ucast (48 + i div d :: 32 word)) s = append_ptr_bytes (digits_of 1 (unat i div 10 ^ k)) s"
    using put_char_digit [of "i div d" s] by (simp only: unat_rest assms(2))
  moreover have "unat (i - i div d * d) < 10 ^ k" by (simp add: unat_rest assms(2))
  ultimately show ?thesis
    using assms(3) assms(4) [of "i - i div d * d"]
    by (simp only: finished_after valid_ptr_append unat_rest assms(2) digits_of_split)
qed

lemma FastIntToBuffer_u32_eq:
  assumes "valid_ptr s"
  shows "FastIntToBuffer_u32 i s = finished (decimal (unat i)) s"
proof -
  let ?n = "unat i"
  have max: "?n < 4294967296" using unsigned_less [of i] by simp
  note le = word_le_nat_alt word_less_nat_alt
  consider "?n < 10" | "10 \<le> ?n" "?n < 100" | "100 \<le> ?n" "?n < 1000" | "1000 \<le> ?n" "?n < 10000"
    | "10000 \<le> ?n" "?n < 100000" | "100000 \<le> ?n" "?n < 1000000" | "1000000 \<le> ?n" "?n < 10000000"
    | "10000000 \<le> ?n" "?n < 100000000" | "100000000 \<le> ?n" "?n < 1000000000" | "1000000000 \<le> ?n"
    by linarith
  then show ?thesis
  proof cases
    case 1
    then show ?thesis
      using decimal_digits_of [of 1 ?n]
      by (cases s) (simp add: FastIntToBuffer_u32_def le final_digit finished_def)
  next
    case 2
    then show ?thesis
      using decimal_digits_of [of 2 ?n] lt100_eq [of i s] assms by (simp add: FastIntToBuffer_u32_def le)
  next
    case 3
    then show ?thesis
      using decimal_digits_of [of 3 ?n] one_then [of i 2 100 s lt100, OF _ _ _ lt100_eq] assms
      by (simp add: FastIntToBuffer_u32_def le Let_def numeral_3_eq_3)
  next
    case 4
    then show ?thesis
      using decimal_digits_of [of 4 ?n] lt10_000_eq [of i s] assms by (simp add: FastIntToBuffer_u32_def le)
  next
    case 5
    then show ?thesis
      using decimal_digits_of [of 5 ?n] one_then [of i 4 10000 s lt10_000, OF _ _ _ lt10_000_eq] assms
      by (simp add: FastIntToBuffer_u32_def le Let_def)
  next
    case 6
    then show ?thesis
      using decimal_digits_of [of 6 ?n] lt1_000_000_eq [of i s] assms by (simp add: FastIntToBuffer_u32_def le)
  next
    case 7
    then show ?thesis
      using decimal_digits_of [of 7 ?n] one_then [of i 6 1000000 s lt1_000_000, OF _ _ _ lt1_000_000_eq] assms
      by (simp add: FastIntToBuffer_u32_def le Let_def)
  next
    case 8
    then show ?thesis
      using decimal_digits_of [of 8 ?n] lt100_000_000_eq [of i s] assms by (simp add: FastIntToBuffer_u32_def le)
  next
    case 9
    then show ?thesis
      using decimal_digits_of [of 9 ?n] one_then [of i 8 100000000 s lt100_000_000, OF _ _ _ lt100_000_000_eq] assms
      by (simp add: FastIntToBuffer_u32_def le Let_def)
  next
    case 10
    then show ?thesis
      using decimal_digits_of [of 10 ?n] two_then [of i 8 100000000 s lt100_000_000, OF _ _ _ lt100_000_000_eq] assms max
      by (simp add: FastIntToBuffer_u32_def le Let_def)
  qed
qed

section \<open>Printing 64 bits and signed numbers\<close>

lemma last_digit:
  assumes "unat i < 10" and "valid_ptr (p, buf)"
  shows "(p + 1, write_at p (one_ASCII_final_digits ! unat i) buf) = finished (digits_of 1 (unat i)) (p, buf)"
  using assms by (simp add: final_digit finished_def)

lemma last_9_digits_eq:
  assumes "unat u < 1000000000" and "valid_ptr s"
  shows "last_9_digits u s = finished (digits_of 9 (unat u)) s"
proof -
  define last where "last = (\<lambda>(j :: 32 word) t :: out_ptr.
    (fst t + 1, write_at (fst t) (one_ASCII_final_digits ! unat j) (snd t)))"
  have f1: "unat j < 10 \<Longrightarrow> valid_ptr t \<Longrightarrow> last j t = finished (digits_of 1 (unat j)) t" for j t
    using last_digit [of j "fst t" "snd t"] by (simp add: last_def)
  define f3 where "f3 = (\<lambda>j t. last (j - j div 10 * 10) (PutTwoDigits (unat (j div 10)) t))"
  have f3: "unat j < 1000 \<Longrightarrow> valid_ptr t \<Longrightarrow> f3 j t = finished (digits_of 3 (unat j)) t" for j t
    using two_then [of j 1 10 t last, OF _ _ _ f1] by (simp add: f3_def numeral_3_eq_3)
  define f5 where "f5 = (\<lambda>j t. f3 (j - j div 1000 * 1000) (PutTwoDigits (unat (j div 1000)) t))"
  have f5: "unat j < 100000 \<Longrightarrow> valid_ptr t \<Longrightarrow> f5 j t = finished (digits_of 5 (unat j)) t" for j t
    using two_then [of j 3 1000 t f3, OF _ _ _ f3] by (simp add: f5_def)
  define f7 where "f7 = (\<lambda>j t. f5 (j - j div 100000 * 100000) (PutTwoDigits (unat (j div 100000)) t))"
  have f7: "unat j < 10000000 \<Longrightarrow> valid_ptr t \<Longrightarrow> f7 j t = finished (digits_of 7 (unat j)) t" for j t
    using two_then [of j 5 100000 t f5, OF _ _ _ f5] by (simp add: f7_def)
  have "f7 (u - u div 10000000 * 10000000) (PutTwoDigits (unat (u div 10000000)) s) =
      finished (digits_of 9 (unat u)) s"
    using two_then [of u 7 10000000 s f7, OF _ _ _ f7] assms by simp
  then show ?thesis
    unfolding f7_def f5_def f3_def last_def last_9_digits_def Let_def by (simp add: case_prod_unfold)
qed

lemma append_finished_digits:
  "valid_ptr s \<Longrightarrow> 0 < k \<Longrightarrow> append_ptr_bytes (digits_of k n) (finished bs s) = append_ptr_bytes (bs @ digits_of k n) s"
  by (cases "digits_of k n") (auto intro: append_finished dest: arg_cong [of _ _ length])

lemma finished_finished_digits:
  "valid_ptr s \<Longrightarrow> 0 < k \<Longrightarrow> finished (digits_of k n) (finished bs s) = finished (bs @ digits_of k n) s"
  by (cases s) (simp add: finished_def valid_ptr_def write_at_def ac_simps)

lemma valid_ptr_finished [simp]: "valid_ptr s \<Longrightarrow> valid_ptr (finished bs s)"
  by (cases s) (simp add: valid_ptr_def finished_def write_at_def)

lemma unat_ucast_32: "unat (ucast (w :: 64 word) :: 32 word) = unat w mod 4294967296"
  by (simp add: unsigned_ucast_eq take_bit_eq_mod)

lemma unat_ucast_64: "unat (ucast (w :: 32 word) :: 64 word) = unat w"
proof -
  have "unat w < 2 ^ 32" using unsigned_less [of w] by simp
  then have "unat w < 2 ^ 64" by (rule less_trans) simp
  then show ?thesis by (simp add: unsigned_ucast_eq take_bit_nat_eq_self)
qed

lemma ucast_fits: "(ucast (ucast (w :: 64 word) :: 32 word) = w) \<longleftrightarrow> unat w < 4294967296"
proof -
  have "unat w mod 4294967296 = unat w \<longleftrightarrow> unat w < 4294967296"
    by (metis mod_less mod_less_divisor zero_less_numeral)
  then show ?thesis by (simp add: word_unat_eq_iff unat_ucast_64 unat_ucast_32)
qed

lemma FastIntToBuffer_u64_eq:
  assumes "valid_ptr s"
  shows "FastIntToBuffer_u64 i s = finished (decimal (unat i)) s"
proof (cases "unat i < 4294967296")
  case True
  then show ?thesis
    using assms by (simp add: FastIntToBuffer_u64_def ucast_fits FastIntToBuffer_u32_eq unat_ucast_32)
next
  case False
  let ?n = "unat i" and ?top = "unat i div 1000000000"
  let ?t = "i div 1000000000"
  have top: "unat ?t = ?top" by (simp add: unat_div)
  have max: "?n < 18446744073709551616" using unsigned_less [of i] by simp
  have low: "unat (ucast (i - ?t * 1000000000) :: 32 word) = ?n mod 1000000000"
  proof -
    have "?n mod 1000000000 < 4294967296" by (rule less_trans [OF mod_less_divisor]) simp_all
    then show ?thesis by (simp add: unat_ucast_32 unat_rest)
  qed
  have last9: "valid_ptr t \<Longrightarrow> last_9_digits (ucast (i - ?t * 1000000000)) t =
      finished (digits_of 9 (?n mod 1000000000)) t" for t
    using last_9_digits_eq [of "ucast (i - ?t * 1000000000)" t] unfolding low by simp
  have big: "decimal ?n = decimal ?top @ digits_of 9 (?n mod 1000000000)"
    using decimal_split [of 9 ?n] False by simp
  show ?thesis
  proof (cases "?top < 4294967296")
    case True
    then have "FastIntToBuffer_u64 i s =
        last_9_digits (ucast (i - ?t * 1000000000)) (FastIntToBuffer_u32 (ucast ?t) s)"
      using False by (simp add: FastIntToBuffer_u64_def ucast_fits top Let_def)
    then show ?thesis
      using assms True by (simp add: last9 FastIntToBuffer_u32_eq unat_ucast_32 top
          finished_finished_digits big)
  next
    case top_large: False
    let ?h = "ucast (?t div 100) :: 32 word"
    have h: "unat ?h = ?top div 100"
    proof -
      have "?top div 100 < 4294967296" using max by (simp add: less_mult_imp_div_less)
      then show ?thesis by (simp add: unat_ucast_32 unat_div)
    qed
    have "(ucast ?h :: 64 word) = ?t div 100" by (simp add: word_unat_eq_iff unat_ucast_64 h unat_div)
    then have mid: "unat (ucast (?t - ucast ?h * 100) :: 32 word) = ?top mod 100"
      by (simp add: unat_ucast_32 unat_rest top)
    have "FastIntToBuffer_u64 i s = last_9_digits (ucast (i - ?t * 1000000000))
        (PutTwoDigits (?top mod 100) (FastIntToBuffer_u32 ?h s))"
      using False top_large mid by (simp add: FastIntToBuffer_u64_def ucast_fits top Let_def)
    moreover have "decimal ?top = decimal (?top div 100) @ digits_of 2 (?top mod 100)"
      using decimal_split [of 2 ?top] top_large by simp
    ultimately show ?thesis
      using assms by (simp add: last9 FastIntToBuffer_u32_eq h PutTwoDigits_eq
          append_finished_digits finished_after big)
  qed
qed

lemma uint_of_int: "0 \<le> x \<Longrightarrow> x < 2 ^ LENGTH('a) \<Longrightarrow> uint (word_of_int x :: 'a :: len word) = x"
  by (simp only: uint_word_of_int_eq take_bit_int_eq_self)

lemma sint_magnitude: "- sint (i :: 'a :: len word) < 2 ^ LENGTH('a)" "sint i < 2 ^ LENGTH('a)"
proof -
  have "(2 :: int) ^ (LENGTH('a) - 1) < 2 ^ LENGTH('a)" by (simp add: power_strict_increasing)
  then show "- sint i < 2 ^ LENGTH('a)" "sint i < 2 ^ LENGTH('a)"
    using sint_ge [of i] sint_lt [of i] by linarith+
qed

lemma unat_negated:
  assumes "sint (i :: 'a :: len word) < 0"
  shows "unat (0 - i) = nat (- sint i)"
proof -
  have "0 - i = word_of_int (- sint i)" by simp
  then have "uint (0 - i) = - sint i"
    using uint_of_int [of "- sint i", where 'a = 'a] sint_magnitude(1) [of i] assms by simp
  then show ?thesis by (simp only: unat_eq_nat_uint)
qed

lemma unat_nonneg:
  assumes "0 \<le> sint (i :: 'a :: len word)"
  shows "unat i = nat (sint i)"
proof -
  have "i = word_of_int (sint i)" by simp
  then have "uint i = sint i"
    using uint_of_int [of "sint i", where 'a = 'a] sint_magnitude(2) [of i] assms by (metis)
  then show ?thesis by (simp only: unat_eq_nat_uint)
qed

lemma put_char_finished:
  "valid_ptr s \<Longrightarrow> finished bs (put_char c s) = finished (c # bs) s"
  by (simp add: put_char_def finished_after)

lemma valid_ptr_put_char [simp]: "valid_ptr s \<Longrightarrow> valid_ptr (put_char c s)"
  by (simp add: put_char_def)

lemma FastIntToBuffer_i32_eq: "valid_ptr s \<Longrightarrow> FastIntToBuffer_i32 i s = finished (decimal_int (sint i)) s"
  using unat_negated [of i] unat_nonneg [of i]
  by (simp add: FastIntToBuffer_i32_def FastIntToBuffer_u32_eq decimal_int_def put_char_finished)

lemma FastIntToBuffer_i64_eq: "valid_ptr s \<Longrightarrow> FastIntToBuffer_i64 i s = finished (decimal_int (sint i)) s"
  using unat_negated [of i] unat_nonneg [of i]
  by (simp add: FastIntToBuffer_i64_def FastIntToBuffer_u64_eq decimal_int_def put_char_finished)

section \<open>Parsing\<close>

text \<open>
  A reference that uses none of the code's tables and functions. The value of a character as a digit: decimal digits, then the
  letters of either case; 36 for a character that is a digit in no base.
\<close>

definition digit_of :: "byte \<Rightarrow> int" where
  "digit_of c = int (let n = unat c in
     if 0x30 \<le> n \<and> n \<le> 0x39 then n - 0x30
     else if 0x41 \<le> n \<and> n \<le> 0x5A then n - 0x41 + 10
     else if 0x61 \<le> n \<and> n \<le> 0x7A then n - 0x61 + 10
     else 36)"

text \<open>
  The value of the digits up to the first character that is none. The parser returns the
  limit of the type when the value is beyond it, and succeeds when all characters are digits.
\<close>

definition value_of :: "int \<Rightarrow> int \<Rightarrow> byte list \<Rightarrow> int" where
  "value_of base v ds = foldl (\<lambda>v c. v * base + digit_of c) v ds"

definition leading_digits :: "int \<Rightarrow> byte list \<Rightarrow> byte list" where
  "leading_digits base str = takeWhile (\<lambda>c. digit_of c < base) str"

definition parse_magnitude :: "int \<Rightarrow> int \<Rightarrow> int \<Rightarrow> byte list \<Rightarrow> bool \<times> int" where
  "parse_magnitude limit base v str =
     (let ds = leading_digits base str; v = value_of base v ds
      in if v > limit then (False, limit) else (ds = str, v))"

text \<open>
  The parts of the text: blanks (space and the control characters 9 to 13) at both ends, a sign, the prefix of the base (\<open>0x\<close> when the
  base is 16 or to be found, \<open>0\<close> for 8 when it is to be found) and the digits.
\<close>

definition blank :: "byte \<Rightarrow> bool" where
  "blank c \<longleftrightarrow> c = 0x20 \<or> 9 \<le> c \<and> c \<le> 13"

definition trim :: "byte list \<Rightarrow> byte list" where
  "trim str = rev (dropWhile blank (rev (dropWhile blank str)))"

fun split_sign :: "byte list \<Rightarrow> bool \<times> byte list" where
  "split_sign [] = (False, [])"
| "split_sign (c # body) = (if c = 0x2D then (True, body) else if c = 0x2B then (False, body) else (False, c # body))"

definition hex_prefix :: "byte list \<Rightarrow> bool" where
  "hex_prefix body \<longleftrightarrow> take 2 body = [0x30, 0x78] \<or> take 2 body = [0x30, 0x58]"

definition split_base :: "int \<Rightarrow> byte list \<Rightarrow> int \<times> byte list" where
  "split_base base body =
     (if base \<in> {0, 16} \<and> hex_prefix body then (16, drop 2 body)
      else if base = 0 \<and> take 1 body = [0x30] then (8, drop 1 body)
      else if base = 0 then (10, body)
      else (base, body))"

text \<open>A text without characters after the sign, or after \<open>0x\<close>, is refused; a lone \<open>0\<close> is the prefix of no octal digits.\<close>

definition parse_reference :: "int_type \<Rightarrow> byte list \<Rightarrow> int \<Rightarrow> bool \<times> int" where
  "parse_reference ty str base =
     (let (negative, body) = split_sign (trim str);
          (radix, digits) = split_base base body
      in if base \<notin> {0} \<union> {2..36} \<or> body = [] \<or> digits = [] \<and> radix = 16 then (False, 0)
         else if \<not> negative then parse_magnitude (type_max ty) radix 0 digits
         else if type_min ty = 0 then (False, 0)
         else let (ok, v) = parse_magnitude (- type_min ty) radix 0 digits in (ok, - v))"

lemma kAsciiToInt_eq:
  "kAsciiToInt = map (\<lambda>n. int (if 48 \<le> n \<and> n \<le> 57 then n - 48 else if 65 \<le> n \<and> n \<le> 90 then n - 55
     else if 97 \<le> n \<and> n \<le> 122 then n - 87 else 36)) [0..<256]"
  by (simp add: kAsciiToInt_def upt_conv_Cons)

lemma kAsciiToInt_nth: "kAsciiToInt ! unat c = digit_of c"
proof -
  have "unat c < 256" using unsigned_less [of c] by simp
  then show ?thesis unfolding kAsciiToInt_eq digit_of_def Let_def by simp
qed

lemma digit_of_nonneg: "0 \<le> digit_of c"
  by (simp add: digit_of_def)

lemma value_of_ge: "0 \<le> v \<Longrightarrow> 1 \<le> base \<Longrightarrow> v \<le> value_of base v ds"
proof (induction ds arbitrary: v)
  case (Cons c ds)
  have "v * 1 \<le> v * base" using Cons.prems by (intro mult_left_mono) simp_all
  then have "v \<le> v * base + digit_of c" using digit_of_nonneg [of c] by simp
  then show ?case using Cons.IH [of "v * base + digit_of c"] Cons.prems by (simp add: value_of_def)
qed (simp add: value_of_def)

lemma value_of_Cons: "value_of base v (c # ds) = value_of base (v * base + digit_of c) ds"
  by (simp add: value_of_def)

lemma parse_magnitude_Cons:
  "parse_magnitude limit base v (c # str) =
     (if digit_of c < base then
        let (ok, w) = parse_magnitude limit base (v * base + digit_of c) str in (ok, w)
      else if v > limit then (False, limit) else (False, v))"
  by (auto simp: parse_magnitude_def leading_digits_def value_of_Cons Let_def) (simp_all add: value_of_def)

lemma parse_magnitude_over:
  "limit < v \<Longrightarrow> 0 \<le> v \<Longrightarrow> 1 \<le> base \<Longrightarrow> parse_magnitude limit base v str = (False, limit)"
  using value_of_ge [of v base "leading_digits base str"] by (simp add: parse_magnitude_def Let_def)

lemma type_bounds [simp]: "type_min ty \<le> 0" "0 < type_max ty" "0 \<le> type_max ty"
  by (cases ty; simp)+

lemma int_div_less_iff: "0 < (b :: int) \<Longrightarrow> a div b < v \<longleftrightarrow> a < v * b"
proof
  assume "0 < b" "a div b < v"
  then have "(a div b + 1) * b \<le> v * b" by (intro mult_right_mono) simp_all
  then have "a div b * b + b \<le> v * b" by (simp only: distrib_right mult_1)
  moreover have "a div b * b + a mod b = a" by (rule div_mult_mod_eq)
  moreover have "a mod b < b" using \<open>0 < b\<close> by simp
  ultimately show "a < v * b" by linarith
next
  assume "0 < b" "a < v * b"
  show "a div b < v"
  proof (rule ccontr)
    assume "\<not> a div b < v"
    then have "v * b \<le> a div b * b" using \<open>0 < b\<close> by (intro mult_right_mono) simp_all
    moreover have "a div b * b + a mod b = a" by (rule div_mult_mod_eq)
    moreover have "0 \<le> a mod b" using \<open>0 < b\<close> by simp
    ultimately show False using \<open>a < v * b\<close> by linarith
  qed
qed

lemma positive_loop_eq:
  assumes "2 \<le> base" and "0 \<le> v" and "v \<le> type_max ty"
  shows "positive_loop ty base (type_max ty div base) v str = Inr (parse_magnitude (type_max ty) base v str)"
  using assms(2,3)
proof (induction str arbitrary: v)
  case Nil
  then show ?case by (simp add: parse_magnitude_def leading_digits_def value_of_def)
next
  case (Cons c str)
  let ?d = "digit_of c"
  show ?case
  proof (cases "?d < base")
    case False
    then show ?thesis using Cons.prems by (simp add: parse_magnitude_Cons kAsciiToInt_nth)
  next
    case digit: True
    show ?thesis
    proof (cases "v > type_max ty div base")
      case True
      then have "type_max ty < v * base" using assms(1) int_div_less_iff [of base "type_max ty" v] by simp
      then have "type_max ty < v * base + ?d" using digit_of_nonneg [of c] by simp
      then show ?thesis
        using digit True parse_magnitude_over [of "type_max ty" "v * base + ?d" base str] assms(1)
          type_bounds(2) [of ty] by (simp add: parse_magnitude_Cons kAsciiToInt_nth)
    next
      case False
      then have "v * base \<le> type_max ty" using assms(1) int_div_less_iff [of base "type_max ty" v] by simp
      moreover have "0 \<le> v * base" using Cons.prems(1) assms(1) by (intro mult_nonneg_nonneg) simp_all
      ultimately have ok: "in_type ty (v * base) = Inr (v * base)"
        using order_trans [OF type_bounds(1)] by (simp add: in_type_def)
      show ?thesis
      proof (cases "v * base > type_max ty - ?d")
        case True
        then show ?thesis
          using digit False ok parse_magnitude_over [of "type_max ty" "v * base + ?d" base str] assms(1)
            type_bounds(2) [of ty] by (simp add: parse_magnitude_Cons kAsciiToInt_nth)
      next
        case fits: False
        have nonneg: "0 \<le> v * base + ?d"
          using Cons.prems(1) assms(1) digit_of_nonneg [of c] by (intro add_nonneg_nonneg mult_nonneg_nonneg) simp_all
        then have "in_type ty (v * base + ?d) = Inr (v * base + ?d)"
          using fits order_trans [OF type_bounds(1)] by (simp add: in_type_def)
        then show ?thesis
          using digit False ok fits Cons.IH [OF nonneg] by (simp add: parse_magnitude_Cons kAsciiToInt_nth)
      qed
    qed
  qed
qed

text \<open>The loop that counts downwards reaches the negated values.\<close>

lemma negative_loop_eq:
  assumes "2 \<le> base" and "0 \<le> v" and "v \<le> - type_min ty"
  shows "negative_loop ty base (- (- type_min ty div base)) (- v) str =
    Inr (let (ok, w) = parse_magnitude (- type_min ty) base v str in (ok, - w))"
  using assms(2,3)
proof (induction str arbitrary: v)
  case Nil
  then show ?case by (simp add: parse_magnitude_def leading_digits_def value_of_def)
next
  case (Cons c str)
  let ?d = "digit_of c" and ?m = "- type_min ty"
  have m: "0 \<le> ?m" by simp
  show ?case
  proof (cases "?d < base")
    case False
    then show ?thesis using Cons.prems by (simp add: parse_magnitude_Cons kAsciiToInt_nth)
  next
    case digit: True
    show ?thesis
    proof (cases "v > ?m div base")
      case True
      then have "?m < v * base" using assms(1) int_div_less_iff [of base ?m v] by simp
      then have "?m < v * base + ?d" using digit_of_nonneg [of c] by simp
      then show ?thesis
        using digit True parse_magnitude_over [of ?m "v * base + ?d" base str] assms(1) m
        by (simp add: parse_magnitude_Cons kAsciiToInt_nth)
    next
      case False
      then have "v * base \<le> ?m" using assms(1) int_div_less_iff [of base ?m v] by simp
      moreover have nonneg_vb: "0 \<le> v * base" using Cons.prems(1) assms(1) by (intro mult_nonneg_nonneg) simp_all
      then have "- (v * base) \<le> type_max ty" using type_bounds(2) [of ty] by linarith
      ultimately have ok: "in_type ty (- v * base) = Inr (- v * base)"
        by (simp add: in_type_def)
      show ?thesis
      proof (cases "v * base + ?d > ?m")
        case True
        then show ?thesis
          using digit False ok parse_magnitude_over [of ?m "v * base + ?d" base str] assms(1) m
          by (simp add: parse_magnitude_Cons kAsciiToInt_nth)
      next
        case fits: False
        have nonneg: "0 \<le> v * base + ?d"
          using nonneg_vb digit_of_nonneg [of c] by simp
        then have "- (v * base) - ?d \<le> type_max ty" using type_bounds(2) [of ty] by linarith
        then have "in_type ty (- v * base - ?d) = Inr (- (v * base + ?d))"
          using fits by (simp add: in_type_def)
        then show ?thesis
          using digit False ok fits Cons.IH [OF nonneg] by (simp add: parse_magnitude_Cons kAsciiToInt_nth)
      qed
    qed
  qed
qed

text \<open>The tables of limits, the one for 128 bits written out in the source.\<close>

lemma list_all_bases: "list_all P [2..36] \<Longrightarrow> 2 \<le> base \<Longrightarrow> base \<le> 36 \<Longrightarrow> P (base :: int)"
  by (simp only: list_all_iff set_upto atLeastAtMost_iff)

lemma kVmaxOverBase_table: "list_all (\<lambda>base. kVmaxOverBase ty ! nat base = type_max ty div base) [2..36]"
  by (cases ty) (simp_all add: kVmaxOverBase_def X_OVER_BASE_INITIALIZER_def kVmaxOverBase_uint128_def
      MakeUint128_def upto_rec_numeral sdiv_nonneg)

lemma kVmaxOverBase_nth: "2 \<le> base \<Longrightarrow> base \<le> 36 \<Longrightarrow> kVmaxOverBase ty ! nat base = type_max ty div base"
  using list_all_bases [OF kVmaxOverBase_table] by simp

lemma kVminOverBase_table:
  "type_min ty \<noteq> 0 \<Longrightarrow> list_all (\<lambda>base. kVminOverBase ty ! nat base = - (- type_min ty div base)) [2..36]"
  by (cases ty) (simp_all add: kVminOverBase_def X_OVER_BASE_INITIALIZER_def upto_rec_numeral sdiv_neg)

lemma kVminOverBase_nth:
  "type_min ty \<noteq> 0 \<Longrightarrow> 2 \<le> base \<Longrightarrow> base \<le> 36 \<Longrightarrow> kVminOverBase ty ! nat base = - (- type_min ty div base)"
  using list_all_bases [OF kVminOverBase_table] by simp

lemma smod_nonpos: "(a :: int) < 0 \<Longrightarrow> 0 < b \<Longrightarrow> a smod b \<le> 0"
  using div_mult_mod_eq [of "- a" b] pos_mod_sign [of b "- a"]
  by (simp add: signed_modulo_int_def sdiv_neg)

lemma table_lengths [simp]: "length (kVmaxOverBase ty) = 37" "length (kVminOverBase ty) = 37"
  by (simp_all add: kVmaxOverBase_def kVminOverBase_def X_OVER_BASE_INITIALIZER_def kVmaxOverBase_uint128_def)

text \<open>The assertions of the code hold for the bases that it is called with.\<close>

lemma safe_parse_positive_int_eq:
  "2 \<le> base \<Longrightarrow> base \<le> 36 \<Longrightarrow>
     safe_parse_positive_int ty str base = Inr (parse_magnitude (type_max ty) base 0 str)"
  using positive_loop_eq [of base 0 ty str]
  by (cases ty) (simp_all add: safe_parse_positive_int_def kVmaxOverBase_nth sdiv_nonneg)

lemma safe_parse_negative_int_eq:
  assumes "type_min ty \<noteq> 0" and "2 \<le> base" and "base \<le> 36"
  shows "safe_parse_negative_int ty str base =
    Inr (let (ok, w) = parse_magnitude (- type_min ty) base 0 str in (ok, - w))"
proof -
  have "type_min ty < 0" using assms(1) type_bounds(1) [of ty] by linarith
  then have "\<not> type_min ty smod base > 0" using smod_nonpos [of "type_min ty" base] assms by simp
  moreover have "type_min ty \<le> 0 - base" using assms by (cases ty) simp_all
  ultimately show ?thesis
    using negative_loop_eq [of base 0 ty str] assms \<open>type_min ty < 0\<close>
    by (simp add: safe_parse_negative_int_def kVminOverBase_nth sdiv_neg Let_def)
qed

text \<open>The code's splitting of the text is that of the reference.\<close>

lemma blank_eq: "blank = ascii_isspace"
  by (rule ext) (simp add: blank_def ascii_isspace_iff word_le_nat_alt word_eq_unat)

lemma split_sign_eq:
  "split_sign str = (if str \<noteq> [] \<and> hd str = 0x2D then (True, tl str)
     else if str \<noteq> [] \<and> hd str = 0x2B then (False, tl str) else (False, str))"
  by (cases str) auto

lemma hex_prefix_eq:
  "hex_prefix body \<longleftrightarrow> length body \<ge> 2 \<and> body ! 0 = 0x30 \<and> (body ! 1 = 0x78 \<or> body ! 1 = 0x58)"
  by (cases body; cases "tl body") (auto simp: hex_prefix_def)

lemma take_1_eq: "take 1 body = [c] \<longleftrightarrow> length body \<ge> 1 \<and> body ! 0 = c"
  by (cases body) auto

lemma consume_prefix_eq:
  assumes "body \<noteq> []"
  shows "consume_prefix body base negative =
   (let (radix, digits) = split_base base body
    in if base \<notin> {0} \<union> {2..36} \<or> digits = [] \<and> radix = 16 then None
       else Some (digits, radix, negative))"
proof -
  have hex: "(length body \<ge> 2 \<and> body ! 0 = chr (CHR ''0'') \<and>
      (body ! 1 = chr (CHR ''x'') \<or> body ! 1 = chr (CHR ''X''))) = hex_prefix body"
    unfolding hex_prefix_eq by simp
  have octal: "(length body \<ge> 1 \<and> body ! 0 = chr (CHR ''0'')) = (take 1 body = [0x30])"
    unfolding take_1_eq by simp
  show ?thesis
    unfolding consume_prefix_def hex octal split_base_def using assms by (simp add: Let_def)
qed

lemma sign_and_base_eq:
  "safe_parse_sign_and_base str base =
     (let (negative, body) = split_sign (trim str);
          (radix, digits) = split_base base body
      in if base \<notin> {0} \<union> {2..36} \<or> body = [] \<or> digits = [] \<and> radix = 16 then None
         else Some (digits, radix, negative))"
proof -
  have code: "safe_parse_sign_and_base str base =
    (let (negative, body) = split_sign (trim str) in if body = [] then None else consume_prefix body base negative)"
    unfolding safe_parse_sign_and_base_def split_sign_eq trim_def blank_eq by (simp add: Let_def)
  show ?thesis
    unfolding code by (cases "split_sign (trim str)") (simp add: consume_prefix_eq Let_def case_prod_beta)
qed

lemma split_base_range: "base \<in> {0} \<union> {2..36} \<Longrightarrow> split_base base body = (radix, digits) \<Longrightarrow> 2 \<le> radix \<and> radix \<le> 36"
  by (auto simp: split_base_def split: if_splits)

lemma safe_int_internal_eq:
  assumes "type_min ty \<noteq> 0"
  shows "safe_int_internal ty str base = Inr (parse_reference ty str base)"
proof -
  obtain negative body where body: "split_sign (trim str) = (negative, body)" by fastforce
  obtain radix digits where digits: "split_base base body = (radix, digits)" by fastforce
  show ?thesis
    using split_base_range [OF _ digits] safe_parse_positive_int_eq [of radix ty digits]
      safe_parse_negative_int_eq [OF assms, of radix digits] assms
    by (cases "base \<in> {0} \<union> {2..36}") (auto simp: safe_int_internal_def parse_reference_def sign_and_base_eq body digits)
qed

lemma safe_uint_internal_eq:
  assumes "type_min ty = 0"
  shows "safe_uint_internal ty str base = Inr (parse_reference ty str base)"
proof -
  obtain negative body where body: "split_sign (trim str) = (negative, body)" by fastforce
  obtain radix digits where digits: "split_base base body = (radix, digits)" by fastforce
  show ?thesis
    using split_base_range [OF _ digits] safe_parse_positive_int_eq [of radix ty digits] assms
    by (cases "base \<in> {0} \<union> {2..36}") (auto simp: safe_uint_internal_def parse_reference_def sign_and_base_eq body digits)
qed

lemma safe_strtoi_base_eq: "safe_strtoi_base ty str base = Inr (parse_reference ty str base)"
  by (cases ty) (simp_all add: safe_strto32_base_def safe_strto64_base_def safe_strtou32_base_def
      safe_strtou64_base_def safe_strtou128_base_def safe_int_internal_eq safe_uint_internal_eq)

section \<open>Reading back what is printed\<close>

lemma unat_digit_char: "d < 10 \<Longrightarrow> unat (digit_char d) = 48 + d"
  by (simp add: digit_char_def unat_word_ariths unat_of_nat_byte)

lemma digit_of_digit_char: "d < 10 \<Longrightarrow> digit_of (digit_char d) = int d"
  by (simp add: digit_of_def unat_digit_char)

lemma decimal_nonempty [simp]: "decimal n \<noteq> []"
  by (subst decimal.simps) simp

lemma decimal_chars: "c \<in> set (decimal n) \<Longrightarrow> \<exists>d<10. c = digit_char d"
proof (induction n rule: decimal.induct)
  case (1 n)
  then show ?case
    by (subst (asm) (2) decimal.simps) (auto split: if_splits intro: exI [of _ n] exI [of _ "n mod 10"])
qed

lemma decimal_char_range: "c \<in> set (decimal n) \<Longrightarrow> 48 \<le> unat c \<and> unat c \<le> 57"
  using decimal_chars [of c n] by (auto simp: unat_digit_char)

lemma value_of_append: "value_of base v (cs @ [c]) = value_of base v cs * base + digit_of c"
  by (simp add: value_of_def)

lemma value_of_decimal: "value_of 10 0 (decimal n) = int n"
proof (induction n rule: decimal.induct)
  case (1 n)
  show ?case
  proof (cases "n < 10")
    case True
    then show ?thesis by (subst decimal.simps) (simp add: value_of_def digit_of_digit_char)
  next
    case False
    then have "value_of 10 0 (decimal n) = int (n div 10) * 10 + int (n mod 10)"
      using 1 by (subst decimal.simps) (simp add: value_of_append digit_of_digit_char)
    also have "\<dots> = int (n div 10 * 10 + n mod 10)" by (simp only: of_nat_add of_nat_mult of_nat_numeral)
    finally show ?thesis by (simp only: div_mult_mod_eq)
  qed
qed

lemma leading_digits_decimal: "leading_digits 10 (decimal n) = decimal n"
  unfolding leading_digits_def by (rule takeWhile_eq_all_conv [THEN iffD2])
    (auto dest!: decimal_chars simp: digit_of_digit_char)

lemma parse_decimal:
  "int n \<le> limit \<Longrightarrow> parse_magnitude limit 10 0 (decimal n) = (True, int n)"
  by (simp add: parse_magnitude_def leading_digits_decimal value_of_decimal)

lemma decimal_not_space: "c \<in> set (decimal n) \<Longrightarrow> \<not> ascii_isspace c"
  using decimal_char_range [of c n] by (auto simp: ascii_isspace_iff)

lemma strip_decimal:
  assumes "xs \<noteq> []" and "\<forall>c\<in>set xs. \<not> ascii_isspace c"
  shows "rev (dropWhile ascii_isspace (rev (dropWhile ascii_isspace xs))) = xs"
proof -
  have none: "dropWhile ascii_isspace ys = ys" if "\<forall>c\<in>set ys. \<not> ascii_isspace c" for ys
    using that by (cases ys) auto
  show ?thesis using none [of xs] none [of "rev xs"] assms(2) by simp
qed

lemma trim_decimal_int: "trim (decimal_int i) = decimal_int i"
proof -
  have "\<forall>c\<in>set (decimal_int i). \<not> ascii_isspace c"
    using decimal_not_space by (auto simp: decimal_int_def ascii_isspace_iff)
  moreover have "decimal_int i \<noteq> []" by (simp add: decimal_int_def)
  ultimately show ?thesis unfolding trim_def blank_eq by (intro strip_decimal)
qed

lemma split_sign_decimal_int: "split_sign (decimal_int i) = (i < 0, decimal (nat \<bar>i\<bar>))"
proof -
  have "hd (decimal (nat i)) \<noteq> 0x2B \<and> hd (decimal (nat i)) \<noteq> 0x2D"
    using decimal_char_range [OF hd_in_set [OF decimal_nonempty], of "nat i"] by (auto simp: word_eq_unat)
  then show ?thesis by (simp add: split_sign_eq decimal_int_def)
qed

lemma SimpleAtoi_decimal_int:
  assumes "type_min ty \<le> i" and "i \<le> type_max ty"
  shows "SimpleAtoi ty (decimal_int i) = Inr (True, i)"
proof (cases "i < 0")
  case True
  then have "int (nat (- i)) \<le> - type_min ty" "type_min ty \<noteq> 0" using assms by auto
  then show ?thesis
    using True parse_decimal [of "nat (- i)" "- type_min ty"]
    by (simp add: SimpleAtoi_def safe_strtoi_base_eq parse_reference_def trim_decimal_int
        split_sign_decimal_int split_base_def)
next
  case False
  then show ?thesis
    using assms parse_decimal [of "nat i" "type_max ty"]
    by (simp add: SimpleAtoi_def safe_strtoi_base_eq parse_reference_def trim_decimal_int
        split_sign_decimal_int split_base_def)
qed

text \<open>What has been printed: the bytes up to the pointer that the printer returns.\<close>

definition printed :: "out_ptr \<Rightarrow> byte list" where
  "printed = (\<lambda>(p, buf). take p buf)"

lemma printed_finished: "printed (finished bs (0, buf)) = bs"
  by (simp add: printed_def finished_def write_at_def)

lemma decimal_int_nat: "decimal_int (int n) = decimal n"
  by (simp add: decimal_int_def)

lemma SimpleAtoi_decimal: "int n \<le> type_max ty \<Longrightarrow> SimpleAtoi ty (decimal n) = Inr (True, int n)"
  using SimpleAtoi_decimal_int [of ty "int n"] order_trans [OF type_bounds(1) [of ty], of "int n"]
  by (simp add: decimal_int_nat)

lemma word_sizes: "unat (a :: 32 word) < 4294967296" "unat (b :: 64 word) < 18446744073709551616"
  using unsigned_less [of a] unsigned_less [of b] by simp_all

lemma word_limits:
  "- (2 ^ 31) \<le> sint (a :: 32 word)" "sint a \<le> 2 ^ 31 - 1" "- (2 ^ 63) \<le> sint (b :: 64 word)" "sint b \<le> 2 ^ 63 - 1"
  "int (unat a) \<le> 2 ^ 32 - 1" "int (unat b) \<le> 2 ^ 64 - 1"
proof -
  show "- (2 ^ 31) \<le> sint a" "sint a \<le> 2 ^ 31 - 1" using sint_ge [of a] sint_lt [of a] by simp_all
  show "- (2 ^ 63) \<le> sint b" "sint b \<le> 2 ^ 63 - 1" using sint_ge [of b] sint_lt [of b] by simp_all
  have "int (unat a) < int 4294967296" "int (unat b) < int 18446744073709551616"
    using word_sizes(1) [of a] word_sizes(2) [of b] by (simp_all only: of_nat_less_iff)
  then show "int (unat a) \<le> 2 ^ 32 - 1" "int (unat b) \<le> 2 ^ 64 - 1" by simp_all
qed

text \<open>
  Claim C26. The four printers write the decimal digits of their argument, with a minus sign for
  negative numbers and no leading zeros, a terminator behind them, and return the position of
  the terminator; with the terminator these are at most 21 bytes, so the buffers of 32
  bytes of the callers are large enough, and nothing else in the buffer changes.
\<close>

theorem FastIntToBuffer_prints:
  assumes "p + 32 \<le> length buf"
  shows "FastIntToBuffer_u32 a (p, buf) =
      (p + length (decimal (unat a)), write_at p (decimal (unat a) @ [0]) buf) \<and>
    FastIntToBuffer_i32 a (p, buf) =
      (p + length (decimal_int (sint a)), write_at p (decimal_int (sint a) @ [0]) buf) \<and>
    FastIntToBuffer_u64 b (p, buf) =
      (p + length (decimal (unat b)), write_at p (decimal (unat b) @ [0]) buf) \<and>
    FastIntToBuffer_i64 b (p, buf) =
      (p + length (decimal_int (sint b)), write_at p (decimal_int (sint b) @ [0]) buf) \<and>
    length (decimal (unat a)) \<le> 10 \<and> length (decimal_int (sint a)) \<le> 11 \<and>
    length (decimal (unat b)) \<le> 20 \<and> length (decimal_int (sint b)) \<le> 20"
proof -
  have "valid_ptr (p, buf)" using assms by (simp add: valid_ptr_def)
  moreover have "unat a < 10 ^ 10" "unat b < 10 ^ 20" using word_sizes(1) [of a] word_sizes(2) [of b] by simp_all
  then have "length (decimal (unat a)) \<le> 10" "length (decimal (unat b)) \<le> 20"
    using length_decimal [of 10] length_decimal [of 20] by simp_all
  moreover have "nat (- sint a) < 10 ^ 10" "nat (sint a) < 10 ^ 10" "nat (- sint b) < 10 ^ 19" "nat (sint b) < 10 ^ 19"
    using word_limits(1,2) [of a] word_limits(3,4) [of b] by simp_all
  then have "length (decimal_int (sint a)) \<le> 11" "length (decimal_int (sint b)) \<le> 20"
    using length_decimal [of 10 "nat (- sint a)"] length_decimal [of 10 "nat (sint a)"]
      length_decimal [of 19 "nat (- sint b)"] length_decimal [of 19 "nat (sint b)"]
    by (auto simp: decimal_int_def)
  ultimately show ?thesis
    by (simp add: FastIntToBuffer_u32_eq FastIntToBuffer_i32_eq FastIntToBuffer_u64_eq
        FastIntToBuffer_i64_eq finished_def)
qed

theorem FastIntToBuffer_prints_witness:
  "FastIntToBuffer_u32 1234567 (0, replicate 32 7) =
    (length (decimal 1234567), write_at 0 (decimal 1234567 @ [0]) (replicate 32 7))"
  using FastIntToBuffer_prints [of 0 "replicate 32 7" 1234567 0] by simp

text \<open>
  Claim C25. The integer parsers, for every type, text and base, compute what the reference says: blanks at both ends, a sign
  and the prefix of the base are taken off; the rest has the value of its digits (\<open>0\<close> to \<open>9\<close>, then the letters of either case),
  returned when it is digits throughout and the value is in the range of the type. Otherwise they
  fail, with the limit of the type when the value is beyond it and the value of
  the digits before the first other character when it is not. A bad base, no characters after the sign or
  \<open>0x\<close>, and a minus sign for an unsigned type fail with 0. No step overflows and no assertion fails.
\<close>

theorem safe_strtoi_correct:
  "safe_strtoi_base ty str base = Inr (parse_reference ty str base)"
  by (rule safe_strtoi_base_eq)

text \<open>
  What the printers write, \<open>SimpleAtoi\<close> reads back as the same number, for all
  numbers of 32 and 64 bits, signed and unsigned.
\<close>

theorem SimpleAtoi_FastIntToBuffer:
  "SimpleAtoi Uint32 (printed (FastIntToBuffer_u32 a (0, buf))) = Inr (True, int (unat a)) \<and>
   SimpleAtoi Int32 (printed (FastIntToBuffer_i32 a (0, buf))) = Inr (True, sint a) \<and>
   SimpleAtoi Uint64 (printed (FastIntToBuffer_u64 b (0, buf))) = Inr (True, int (unat b)) \<and>
   SimpleAtoi Int64 (printed (FastIntToBuffer_i64 b (0, buf))) = Inr (True, sint b)"
proof -
  have "valid_ptr (0, buf)" by (simp add: valid_ptr_def)
  then show ?thesis
    using word_limits(1,2,5) [of a] word_limits(3,4,6) [of b] SimpleAtoi_decimal [of "unat a" Uint32]
      SimpleAtoi_decimal [of "unat b" Uint64]
    by (simp add: FastIntToBuffer_u32_eq FastIntToBuffer_i32_eq FastIntToBuffer_u64_eq
        FastIntToBuffer_i64_eq printed_finished SimpleAtoi_decimal_int)
qed

end
