(* ===== verification/Big_Unsigned_Text.thy ===== *)
theory Big_Unsigned_Text
  imports "HOL-Library.Sublist" Big_Unsigned_Results Float_Text Numbers_Results
begin

text \<open>
  Division of the large integers by a word, their comparison, and their text: \<open>ToString\<close> prints the decimal digits,
  \<open>ReadDigits\<close> reads them.
\<close>

section \<open>Division\<close>

lemma int_div_less: "(x :: int) < c * d \<Longrightarrow> 0 < d \<Longrightarrow> x div d < c"
proof (rule ccontr)
  assume "x < c * d" "0 < d" "\<not> x div d < c"
  then have "d * c \<le> d * (x div d)"
    by (intro mult_left_mono) simp_all
  moreover have "d * (x div d) \<le> x"
    using \<open>0 < d\<close> by (simp add: minus_mod_eq_mult_div [symmetric])
  ultimately show False
    using \<open>x < c * d\<close> by (simp add: mult.commute)
qed

lemma div_step:
  fixes a w d :: int
  assumes "0 \<le> a" "a < d" "0 \<le> w" "w < 2 ^ 32"
  shows "0 \<le> (a * 2 ^ 32 + w) div d" "(a * 2 ^ 32 + w) div d < 2 ^ 32"
proof -
  have "a * 2 ^ 32 + w < 2 ^ 32 * d" "0 < d"
    using assms by simp_all
  then show "(a * 2 ^ 32 + w) div d < 2 ^ 32"
    by (intro int_div_less)
  show "0 \<le> (a * 2 ^ 32 + w) div d"
    using assms by (simp add: pos_imp_zdiv_nonneg_iff)
qed

lemma word_pair_less: "(a :: int) < 2 ^ 32 \<Longrightarrow> w < 2 ^ 32 \<Longrightarrow> a * 2 ^ 32 + w < 2 ^ 64"
  by simp

lemma uint_push_add:
  assumes "uint (a :: 64 word) < 2 ^ 32"
  shows "uint (push_bit 32 a + ucast (w :: 32 word)) = uint a * 2 ^ 32 + uint w"
proof -
  have "uint (push_bit 32 a) = uint a * 2 ^ 32"
  proof -
    have "uint a * 2 ^ 32 < 2 ^ 64"
      using assms by simp
    then show ?thesis
      by (simp only: push_bit_eq_mult uint_word_ariths) simp
  qed
  moreover have "uint a * 2 ^ 32 + uint w < 2 ^ 64"
    using assms less_trans [OF word32_bounds(2)] by (intro word_pair_less) simp_all
  ultimately show ?thesis
    by (subst uint_plus_small) (simp_all add: uint_ucast_64)
qed

lemma div_loop_correct:
  assumes "i \<le> length words" "uint dv < 2 ^ 32" "uint acc < uint dv"
  shows "returns (div_loop dv i acc words) (\<lambda>(acc', words'). length words' = length words \<and>
    drop i words' = drop i words \<and> uint acc' < uint dv \<and>
    uint dv * wsum (take i words') + uint acc' = uint acc * 2 ^ (32 * i) + wsum (take i words))"
  using assms
proof (induction i arbitrary: acc words)
  case 0
  then show ?case by simp
next
  case (Suc i)
  define w where "w = words ! i"
  define a where "a = push_bit 32 acc + ucast w"
  define q :: "32 word" where "q = ucast (a div dv)"
  have a: "uint a = uint acc * 2 ^ 32 + uint w"
    using Suc.prems by (simp add: a_def uint_push_add)
  have q: "uint q = uint a div uint dv"
    using div_step [of "uint acc" "uint dv" "uint w"] Suc.prems(3) by (simp add: q_def uint_ucast_32 uint_div a)
  have "uint (a mod dv) < uint dv"
    using Suc.prems(3) by (simp add: uint_mod unsigned_greater_eq [THEN le_less_trans])
  then obtain acc' words' where run: "div_loop dv i (a mod dv) (words[i := q]) = Inr (acc', words')"
    and len: "length words' = length words" and same: "drop i words' = drop i (words[i := q])" and acc': "uint acc' < uint dv"
    and eq: "uint dv * wsum (take i words') + uint acc' = uint (a mod dv) * 2 ^ (32 * i) + wsum (take i words)"
    using Suc.IH [of "words[i := q]" "a mod dv"] Suc.prems by (auto simp: returns_iff)
  have "words' ! i # drop (Suc i) words' = q # drop (Suc i) words"
    using same Suc.prems(1) len by (simp add: Cons_nth_drop_Suc drop_list_update_same)
  then have nth: "words' ! i = q" and same': "drop (Suc i) words' = drop (Suc i) words"
    by simp_all
  have "uint dv * wsum (take (Suc i) words') + uint acc' =
      uint dv * wsum (take i words') + uint acc' + 2 ^ (32 * i) * (uint dv * uint q)"
    using Suc.prems(1) len by (simp add: wsum_take_nth nth distrib_left mult_ac)
  also have "\<dots> = wsum (take i words) + 2 ^ (32 * i) * (uint dv * uint q + uint (a mod dv))"
    by (simp add: eq distrib_left distrib_right mult.commute)
  also have "uint dv * uint q + uint (a mod dv) = uint acc * 2 ^ 32 + uint w"
    by (simp add: q uint_mod a)
  also have "wsum (take i words) + 2 ^ (32 * i) * (uint acc * 2 ^ 32 + uint w) =
      uint acc * 2 ^ (32 * Suc i) + wsum (take (Suc i) words)"
    using Suc.prems(1) by (simp add: wsum_take_nth w_def distrib_left power_add mult_ac)
  finally show ?case
    using run Suc.prems(1) len same' acc' by (simp add: w_def a_def q_def Let_def)
qed

lemma trim_size_correct:
  "n \<le> length words \<Longrightarrow> returns (trim_size n words) (\<lambda>s. s \<le> n \<and> (\<forall>k. s \<le> k \<longrightarrow> k < n \<longrightarrow> words ! k = 0) \<and>
     (0 < s \<longrightarrow> words ! (s - 1) \<noteq> 0))"
proof (induction n)
  case (Suc n)
  then show ?case
    by (auto elim!: returns_mono simp: less_Suc_eq)
qed simp

lemma DivMod_correct:
  assumes "bu_size b \<le> length (bu_words b)" "d \<noteq> 0"
  shows "returns (DivMod d b) (\<lambda>(r, b'). length (bu_words b') = length (bu_words b) \<and> bu_size b' \<le> bu_size b \<and>
    drop (bu_size b) (bu_words b') = drop (bu_size b) (bu_words b) \<and>
    (\<forall>k. bu_size b' \<le> k \<longrightarrow> k < bu_size b \<longrightarrow> bu_words b' ! k = 0) \<and>
    (0 < bu_size b' \<longrightarrow> bu_words b' ! (bu_size b' - 1) \<noteq> 0) \<and>
    wsum (take (bu_size b) (bu_words b')) = wsum (take (bu_size b) (bu_words b)) div uint d \<and>
    uint r = wsum (take (bu_size b) (bu_words b)) mod uint d)"
proof -
  have d: "0 < uint d" "uint (ucast d :: 64 word) = uint d"
    using assms(2) word32_bounds(1) [of d] by (auto simp: uint_ucast_64 uint_0_iff less_le)
  obtain acc words where run: "div_loop (ucast d) (bu_size b) 0 (bu_words b) = Inr (acc, words)"
    and words: "length words = length (bu_words b)" "drop (bu_size b) words = drop (bu_size b) (bu_words b)"
    and acc: "uint acc < uint d"
    and eq: "uint d * wsum (take (bu_size b) words) + uint acc = wsum (take (bu_size b) (bu_words b))"
    using div_loop_correct [of "bu_size b" "bu_words b" "ucast d" 0] assms d by (auto simp: returns_iff)
  obtain s where trim: "trim_size (bu_size b) words = Inr s" "s \<le> bu_size b"
    "\<forall>k. s \<le> k \<longrightarrow> k < bu_size b \<longrightarrow> words ! k = 0" "0 < s \<longrightarrow> words ! (s - 1) \<noteq> 0"
    using trim_size_correct [of "bu_size b" words] assms(1) words by (auto simp: returns_iff)
  have r: "uint (ucast acc :: 32 word) = uint acc"
    using less_trans [OF acc word32_bounds(2)] by (simp add: uint_ucast_32)
  have "wsum (take (bu_size b) words) = wsum (take (bu_size b) (bu_words b)) div uint d"
    and "uint acc = wsum (take (bu_size b) (bu_words b)) mod uint d"
    using acc d(1) by (simp_all flip: eq)
  then show ?thesis
    using run trim words r by (simp add: DivMod_def)
qed

theorem DivMod_computes:
  assumes b: "big_ok N b" and d: "d \<noteq> 0"
  shows "returns (DivMod d b) (\<lambda>(r, b'). computes N (big_value b div uint d) b' \<and> uint r = big_value b mod uint d \<and>
    bu_size b' \<le> bu_size b \<and> (0 < bu_size b' \<longrightarrow> bu_words b' ! (bu_size b' - 1) \<noteq> 0))"
proof -
  have size: "bu_size b \<le> length (bu_words b)"
    using b by (simp add: big_ok_def)
  show ?thesis
    using DivMod_correct [OF size d]
  proof (rule returns_mono, clarify)
    fix r and b' :: big
    assume res: "length (bu_words b') = length (bu_words b)" "bu_size b' \<le> bu_size b"
      "drop (bu_size b) (bu_words b') = drop (bu_size b) (bu_words b)"
      "\<forall>k. bu_size b' \<le> k \<longrightarrow> k < bu_size b \<longrightarrow> bu_words b' ! k = 0"
      "0 < bu_size b' \<longrightarrow> bu_words b' ! (bu_size b' - 1) \<noteq> 0"
      "wsum (take (bu_size b) (bu_words b')) = wsum (take (bu_size b) (bu_words b)) div uint d"
      "uint r = wsum (take (bu_size b) (bu_words b)) mod uint d"
    have "bu_words b' ! k = 0" if "bu_size b' \<le> k" "k < N" for k
    proof (cases "k < bu_size b")
      case False
      then have "bu_words b' ! k = drop (bu_size b) (bu_words b') ! (k - bu_size b)"
        using that b res(1) by (simp add: big_ok_def)
      also have "\<dots> = 0"
        using that b False by (simp add: res(3) big_ok_def)
      finally show ?thesis .
    qed (use res(4) that in blast)
    then have ok: "big_ok N b'"
      using b res(1,2) by (auto simp: big_ok_iff)
    then show "computes N (big_value b div uint d) b' \<and> uint r = big_value b mod uint d \<and>
        bu_size b' \<le> bu_size b \<and> (0 < bu_size b' \<longrightarrow> bu_words b' ! (bu_size b' - 1) \<noteq> 0)"
      using res big_value_take [OF b order_refl] big_value_take [OF ok, of "bu_size b"] by simp
  qed
qed

section \<open>Printing\<close>

lemma DivMod_decreases:
  assumes run: "DivMod 10 b = Inr (r, b')" and "0 < bu_size b"
  shows "nat (wsum (take (bu_size b') (bu_words b'))) + bu_size b' < nat (wsum (take (bu_size b) (bu_words b))) + bu_size b"
proof -
  have "rd (bu_words b) (bu_size b - 1) \<noteq> Inl Buffer_overrun"
    using assms by (cases "bu_size b") (auto simp: DivMod_def)
  then have size: "bu_size b \<le> length (bu_words b)"
    using assms(2) by (auto simp: rd_def split: if_splits)
  define V where "V = wsum (take (bu_size b) (bu_words b))"
  have b': "bu_size b' \<le> bu_size b" "length (bu_words b') = length (bu_words b)"
    "\<forall>k. bu_size b' \<le> k \<longrightarrow> k < bu_size b \<longrightarrow> bu_words b' ! k = 0"
    "0 < bu_size b' \<longrightarrow> bu_words b' ! (bu_size b' - 1) \<noteq> 0"
    "wsum (take (bu_size b) (bu_words b')) = V div 10"
    using DivMod_correct [OF size, of 10] run by (simp_all add: V_def)
  have "0 \<le> V"
    by (simp add: V_def)
  have split: "take (bu_size b) (bu_words b') = take (bu_size b') (bu_words b') @ drop (bu_size b') (take (bu_size b) (bu_words b'))"
    using b'(1) by (metis append_take_drop_id min.absorb1 take_take)
  have "drop (bu_size b') (take (bu_size b) (bu_words b')) = replicate (bu_size b - bu_size b') 0"
    using b' size by (intro nth_equalityI) auto
  moreover have "wsum (take (bu_size b) (bu_words b')) = wsum (take (bu_size b') (bu_words b')) +
      2 ^ (32 * length (take (bu_size b') (bu_words b'))) * wsum (drop (bu_size b') (take (bu_size b) (bu_words b')))"
    by (subst split) (rule wsum_append)
  ultimately have eq: "wsum (take (bu_size b') (bu_words b')) = V div 10"
    using b'(5) by simp
  show ?thesis
  proof (cases "bu_size b' = 0")
    case True
    then show ?thesis
      using assms(2) by simp
  next
    case False
    then have "wsum (take (bu_size b') (bu_words b')) \<noteq> 0"
      using b' size nth_mem [of "bu_size b' - 1" "take (bu_size b') (bu_words b')"] by (auto simp: wsum_eq_0_iff)
    then have "V div 10 < V"
      using eq \<open>0 \<le> V\<close> by (cases "V = 0") (simp_all add: int_div_less_self)
    then show ?thesis
      using eq b'(1) \<open>0 \<le> V\<close> V_def by simp
  qed
qed

function to_string_loop :: "big \<Rightarrow> byte list \<Rightarrow> fault + byte list" where
  "to_string_loop copy result =
     (if bu_size copy > 0 then
        bind_f (DivMod 10 copy) (\<lambda>(next_digit, copy). to_string_loop copy (result @ [48 + ucast next_digit]))
      else Inr result)"
  by auto
termination
  by (relation "measure (\<lambda>(b, result). nat (wsum (take (bu_size b) (bu_words b))) + bu_size b)")
    (auto intro: DivMod_decreases)

declare to_string_loop.simps [simp del]

definition ToString :: "big \<Rightarrow> fault + byte list" where
  "ToString b =
     (let copy = b
      in bind_f (to_string_loop copy []) (\<lambda>result.
         let result = (if result = [] then result @ [48] else result)
         in Inr (rev result)))"

lemma digit_char_of_word: "uint (r :: 32 word) = v mod 10 \<Longrightarrow> 0 \<le> v \<Longrightarrow> 48 + ucast r = digit_char (nat v mod 10)"
proof -
  assume "uint r = v mod 10" "0 \<le> v"
  then have "unat r = nat v mod 10"
    by (simp add: unat_eq_nat_uint nat_mod_distrib)
  then show ?thesis
    by (metis digit_char_def of_nat_unat)
qed

lemma to_string_loop_correct:
  assumes "big_ok N b"
  shows "to_string_loop b result = Inr (result @ rev (if bu_size b = 0 then [] else decimal (nat (big_value b))))"
  using assms
proof (induction b result rule: to_string_loop.induct)
  case (1 b result)
  show ?case
  proof (cases "bu_size b = 0")
    case True
    then show ?thesis
      by (simp add: to_string_loop.simps [of b])
  next
    case False
    obtain r b' where run: "DivMod 10 b = Inr (r, b')" and b': "big_ok N b'" "big_value b' = big_value b div 10"
      "uint r = big_value b mod 10" "0 < bu_size b' \<longrightarrow> bu_words b' ! (bu_size b' - 1) \<noteq> 0"
      using DivMod_computes [OF 1(2), of 10] by (auto simp: returns_iff)
    have small: "bu_size b' = 0 \<longleftrightarrow> nat (big_value b) < 10"
    proof
      assume "bu_size b' = 0"
      then have "big_value b div 10 = 0"
        using big_value_take [OF b'(1), of 0] b'(2) by simp
      then show "nat (big_value b) < 10"
        by (simp add: zdiv_eq_0_iff nat_less_iff) linarith
    next
      assume "nat (big_value b) < 10"
      then have "big_value b' = 0"
        using b'(2) by (simp add: nat_less_iff)
      then have "\<forall>w \<in> set (bu_words b'). w = 0"
        by (simp add: big_value_def wsum_eq_0_iff)
      then show "bu_size b' = 0"
        using b'(1,4) nth_mem [of "bu_size b' - 1" "bu_words b'"] by (cases "bu_size b' = 0") (auto simp: big_ok_def)
    qed
    have digit: "48 + ucast r = digit_char (nat (big_value b) mod 10)"
      using b'(3) by (intro digit_char_of_word) simp_all
    have "nat (big_value b') = nat (big_value b) div 10"
      by (simp add: b'(2) nat_div_distrib)
    moreover have "to_string_loop b (result) = to_string_loop b' (result @ [digit_char (nat (big_value b) mod 10)])"
      using False run digit by (simp add: to_string_loop.simps [of b])
    moreover have "to_string_loop b' (result @ [digit_char (nat (big_value b) mod 10)]) =
        Inr (result @ [digit_char (nat (big_value b) mod 10)] @ rev (if bu_size b' = 0 then [] else decimal (nat (big_value b'))))"
      using 1(1) [of "(r, b')" r b'] False run b' digit by simp
    ultimately show ?thesis
      using False small by (simp add: decimal.simps [of "nat (big_value b)"])
  qed
qed

theorem ToString_prints:
  assumes "big_ok N b"
  shows "ToString b = Inr (decimal (nat (big_value b)))"
proof (cases "bu_size b = 0")
  case True
  then have "big_value b = 0"
    using big_value_take [OF assms, of 0] by simp
  then show ?thesis
    using True by (simp add: ToString_def to_string_loop_correct [OF assms] decimal.simps [of 0] digit_char_def)
next
  case False
  then show ?thesis
    by (simp add: ToString_def to_string_loop_correct [OF assms])
qed


section \<open>Comparison\<close>

definition low_value :: "big \<Rightarrow> nat \<Rightarrow> int" where
  "low_value b n = (\<Sum>i<n. digit_at (bu_size b) (bu_words b) i * 2 ^ (32 * i))"

lemma digit_at_range: "0 \<le> digit_at n ws i" "digit_at n ws i < 2 ^ 32"
  by (simp_all add: digit_at_def)

lemma lex_less_power: "0 \<le> (a :: int) \<Longrightarrow> a < p \<Longrightarrow> 0 \<le> c \<Longrightarrow> c < p \<Longrightarrow> x < y \<Longrightarrow> a + x * p < c + y * p"
proof -
  assume *: "0 \<le> a" "a < p" "0 \<le> c" "c < p" "x < y"
  then have "(x + 1) * p \<le> y * p"
    by (intro mult_right_mono) simp_all
  then have "x * p + p \<le> y * p"
    unfolding distrib_right mult_1 .
  then show ?thesis
    using * by linarith
qed

lemma low_value_range: "0 \<le> low_value b n" "low_value b n < 2 ^ (32 * n)"
proof -
  show "0 \<le> low_value b n"
    by (simp add: low_value_def sum_nonneg digit_at_range)
  show "low_value b n < 2 ^ (32 * n)"
  proof (induction n)
    case (Suc n)
    have "0 \<le> low_value b n"
      by (simp add: low_value_def sum_nonneg digit_at_range)
    then show ?case
      using lex_less_power [OF _ Suc, of 0 "digit_at (bu_size b) (bu_words b) n" "2 ^ 32"] digit_at_range(2) [of "bu_size b" "bu_words b" n]
      by (simp add: low_value_def power_add)
  qed (simp add: low_value_def)
qed

lemma low_value_Suc: "low_value b (Suc n) = low_value b n + digit_at (bu_size b) (bu_words b) n * 2 ^ (32 * n)"
  by (simp add: low_value_def)

lemma big_value_low:
  assumes "big_ok N b" "bu_size b \<le> n"
  shows "big_value b = low_value b n"
proof -
  have "big_value b = (\<Sum>i<bu_size b. digit_at (bu_size b) (bu_words b) i * 2 ^ (32 * i))"
    using big_value_take [OF assms(1) order_refl] wsum_as_sum [of "bu_size b" "bu_words b"] assms(1) by (simp add: big_ok_def)
  also have "\<dots> = low_value b n"
    unfolding low_value_def using assms(2) by (intro sum.mono_neutral_left) (auto simp: digit_at_def)
  finally show ?thesis .
qed

lemma GetWord_eq:
  assumes "big_ok N b"
  obtains w where "GetWord b (int i) = Inr w" "uint w = digit_at (bu_size b) (bu_words b) i"
  using assms by (cases "i < bu_size b") (auto simp: GetWord_def digit_at_def big_ok_def)

lemma low_value_less: "digit_at (bu_size a) (bu_words a) n < digit_at (bu_size b) (bu_words b) n \<Longrightarrow> low_value a (Suc n) < low_value b (Suc n)"
  unfolding low_value_Suc by (intro lex_less_power low_value_range)

lemma compare_loop_correct:
  assumes "big_ok N lhs" "big_ok M rhs"
  shows "compare_loop lhs rhs n = Inr (if low_value lhs n < low_value rhs n then - 1
    else if low_value lhs n > low_value rhs n then 1 else 0)"
proof (induction n)
  case 0
  show ?case
    by (simp add: low_value_def)
next
  case (Suc n)
  obtain a b where words: "GetWord lhs (int n) = Inr a" "GetWord rhs (int n) = Inr b"
    and uint: "uint a = digit_at (bu_size lhs) (bu_words lhs) n" "uint b = digit_at (bu_size rhs) (bu_words rhs) n"
    using GetWord_eq [OF assms(1), of n] GetWord_eq [OF assms(2), of n] by metis
  consider "a < b" | "b < a" | "a = b"
    by fastforce
  then show ?case
  proof cases
    case 1
    then show ?thesis
      using low_value_less [of lhs n rhs] words uint by (simp add: word_less_def)
  next
    case 2
    then show ?thesis
      using low_value_less [of rhs n lhs] words uint by (simp add: word_less_def)
  next
    case 3
    then show ?thesis
      using Suc words uint by (simp add: low_value_Suc)
  qed
qed

theorem Compare_correct:
  assumes "big_ok N lhs" "big_ok M rhs"
  shows "Compare lhs rhs = Inr (if big_value lhs < big_value rhs then - 1
    else if big_value lhs > big_value rhs then 1 else 0)"
  using big_value_low [OF assms(1), of "max (bu_size lhs) (bu_size rhs)"] big_value_low [OF assms(2), of "max (bu_size lhs) (bu_size rhs)"]
    compare_loop_correct [OF assms]
  by (simp add: Compare_def)

lemma equal_loop_correct:
  assumes "big_ok N lhs" "big_ok M rhs"
  shows "equal_loop lhs rhs limit i = Inr (\<forall>k. i \<le> k \<longrightarrow> k < limit \<longrightarrow>
    digit_at (bu_size lhs) (bu_words lhs) k = digit_at (bu_size rhs) (bu_words rhs) k)"
  using assms
proof (induction lhs rhs limit i rule: equal_loop.induct)
  case (1 lhs rhs limit i)
  obtain a b where words: "GetWord lhs (int i) = Inr a" "GetWord rhs (int i) = Inr b"
    and uint: "uint a = digit_at (bu_size lhs) (bu_words lhs) i" "uint b = digit_at (bu_size rhs) (bu_words rhs) i"
    using GetWord_eq [OF 1(2), of i] GetWord_eq [OF 1(3), of i] by metis
  show ?case
  proof (cases "i < limit \<and> a = b")
    case True
    have "(\<forall>k\<ge>Suc i. k < limit \<longrightarrow> digit_at (bu_size lhs) (bu_words lhs) k = digit_at (bu_size rhs) (bu_words rhs) k) \<longleftrightarrow>
        (\<forall>k\<ge>i. k < limit \<longrightarrow> digit_at (bu_size lhs) (bu_words lhs) k = digit_at (bu_size rhs) (bu_words rhs) k)"
      using True uint by (metis Suc_leD not_less_eq_eq order_antisym)
    then show ?thesis
      using True words 1(1) [of a b] 1(2,3) by (simp add: equal_loop.simps [of lhs rhs limit i])
  next
    case False
    then show ?thesis
      using words uint by (auto simp: equal_loop.simps [of lhs rhs limit i] word_uint_eq_iff)
  qed
qed

lemma low_value_eq_iff:
  "low_value a n = low_value b n \<longleftrightarrow>
    (\<forall>k<n. digit_at (bu_size a) (bu_words a) k = digit_at (bu_size b) (bu_words b) k)"
proof (induction n)
  case (Suc n)
  show ?case
  proof (cases "digit_at (bu_size a) (bu_words a) n = digit_at (bu_size b) (bu_words b) n")
    case True
    then show ?thesis
      using Suc by (auto simp: low_value_Suc less_Suc_eq)
  next
    case False
    then show ?thesis
      using low_value_less [of a n b] low_value_less [of b n a] by (auto simp: less_Suc_eq neq_iff)
  qed
qed (simp add: low_value_def)

theorem big_eq_correct:
  assumes "big_ok N lhs" "big_ok M rhs"
  shows "big_eq lhs rhs = Inr (big_value lhs = big_value rhs)"
  using big_value_low [OF assms(1), of "max (bu_size lhs) (bu_size rhs)"] big_value_low [OF assms(2), of "max (bu_size lhs) (bu_size rhs)"]
    equal_loop_correct [OF assms]
  by (simp add: big_eq_def low_value_eq_iff)

lemma comparison_operators_correct:
  assumes "big_ok N lhs" "big_ok M rhs"
  shows "big_neq lhs rhs = Inr (big_value lhs \<noteq> big_value rhs)"
    "big_less lhs rhs = Inr (big_value lhs < big_value rhs)"
    "big_greater lhs rhs = Inr (big_value lhs > big_value rhs)"
    "big_le lhs rhs = Inr (big_value lhs \<le> big_value rhs)"
    "big_ge lhs rhs = Inr (big_value lhs \<ge> big_value rhs)"
  using Compare_correct [OF assms] Compare_correct [OF assms(2,1)] big_eq_correct [OF assms]
  by (auto simp: big_neq_def big_less_def big_greater_def big_le_def big_ge_def)

section \<open>Reading\<close>

lemma drop_zeros_back_eq:
  assumes "ys = [] \<or> last ys \<noteq> 48" "z < 2 ^ 31"
  shows "drop_zeros_back (ys @ replicate z 48) = Inr (ys, int z)"
proof -
  have "dropWhile (\<lambda>c. c = 48) (replicate z 48 @ rev ys) = rev ys"
    using assms(1) by (induction z) (cases ys rule: rev_cases, auto)
  moreover have "in_int (int z)"
    using assms(2) by (simp add: in_int_def)
  ultimately show ?thesis
    by (simp add: drop_zeros_back_def)
qed

lemma split_zeros_back: "\<exists>ys z. (s :: byte list) = ys @ replicate z 48 \<and> (ys = [] \<or> last ys \<noteq> 48)"
proof (induction s rule: rev_induct)
  case (snoc c s)
  then obtain ys z where s: "s = ys @ replicate z 48" "ys = [] \<or> last ys \<noteq> 48"
    by blast
  show ?case
  proof (cases "c = 48")
    case True
    then have "s @ [c] = ys @ replicate (Suc z) 48"
      using s(1) by (simp add: replicate_append_same)
    then show ?thesis
      using s(2) by blast
  next
    case False
    then show ?thesis
      by (intro exI [of _ "s @ [c]"] exI [of _ 0]) simp
  qed
qed (intro exI [of _ "[]"] exI [of _ 0], simp)

text \<open>The digits of a text with a decimal point, and how many of them come after the point.\<close>

definition digits_in :: "byte list \<Rightarrow> byte list" where
  "digits_in s = filter (\<lambda>c. c \<noteq> 46) s"

definition fraction_length :: "bool \<Rightarrow> byte list \<Rightarrow> nat" where
  "fraction_length after s = length (digits_in (if after then s else dropWhile (\<lambda>c. c \<noteq> 46) s))"

abbreviation dval :: "byte list \<Rightarrow> int" where
  "dval \<equiv> digits_value Decimal"

definition number_text :: "byte list \<Rightarrow> byte list \<Rightarrow> byte list \<Rightarrow> bool" where
  "number_text s I F \<longleftrightarrow> all_digits Decimal I \<and> all_digits Decimal F \<and> (s = I @ 46 # F \<or> s = I \<and> F = [])"

lemma digit_not_point: "is_digit Decimal c \<Longrightarrow> c \<noteq> 46"
  by auto

lemma digits_no_point: "all_digits Decimal ds \<Longrightarrow> 46 \<notin> set ds"
  using digit_not_point by (fastforce simp: list_all_iff)

lemma digits_in_digits [simp]: "all_digits Decimal ds \<Longrightarrow> digits_in ds = ds"
  unfolding digits_in_def using digits_no_point [of ds] by (intro filter_True) auto

lemma digits_in_simps [simp]:
  "digits_in [] = []" "digits_in (46 # s) = digits_in s" "digits_in (xs @ ys) = digits_in xs @ digits_in ys"
  by (simp_all add: digits_in_def)

lemma dropWhile_digits: "all_digits Decimal ds \<Longrightarrow> dropWhile (\<lambda>c. c \<noteq> 46) (ds @ s) = dropWhile (\<lambda>c. c \<noteq> 46) s"
  using digits_no_point [of ds] by (intro dropWhile_append2) auto

lemma drop_outer_zeros_correct:
  assumes "number_text s I F" "length s < 2 ^ 31"
  obtains kept z where "drop_outer_zeros s = Inr (kept, int z)"
    and "kept = [] \<or> last kept \<noteq> 46 \<and> last kept \<noteq> 48"
    and "list_all (\<lambda>c. is_digit Decimal c \<or> c = 46) kept"
    and "fraction_length False kept \<le> length F" "z + length (takeWhile (\<lambda>c. c \<noteq> 46) kept) \<le> length (dropWhile (\<lambda>c. c = 48) I)"
    and "dval (digits_in kept) * 10 ^ (length F + z - fraction_length False kept) = dval (I @ F)"
    and "prefix (digits_in kept) (dropWhile (\<lambda>c. c = 48) I @ F)"
proof -
  let ?I = "dropWhile (\<lambda>c. c = 48) I"
  have I: "all_digits Decimal I" and F: "all_digits Decimal F"
    using assms(1) by (simp_all add: number_text_def)
  have I1: "all_digits Decimal ?I" "length ?I \<le> length I" "dval ?I = dval I"
    using I by (auto simp: list_all_iff digits_value_drop_zeros length_dropWhile_le dest: set_dropWhileD)
  obtain I2 z2 where I2: "?I = I2 @ replicate z2 48" "I2 = [] \<or> last I2 \<noteq> 48"
    using split_zeros_back by blast
  have "length ?I \<le> length s"
    using I1(2) assms(1) by (auto simp: number_text_def)
  then have z2: "z2 < 2 ^ 31"
    using assms(2) by (simp add: I2(1))
  have I2_digits: "all_digits Decimal I2"
    using I1(1) I2(1) by simp
  have val_I2: "dval I2 * 10 ^ z2 = dval I"
    using I1(3) digits_value_zeros [of "replicate z2 48" Decimal] by (simp add: I2(1) digits_value_append)
  have no_point: "46 \<notin> set I2"
    using digits_no_point [OF I2_digits] .
  have last_I2: "I2 = [] \<or> last I2 \<noteq> 46 \<and> last I2 \<noteq> 48"
    using no_point last_in_set I2(2) by fastforce
  have frac_I2: "fraction_length False I2 = 0"
  proof -
    have "dropWhile (\<lambda>c. c \<noteq> 46) I2 = []"
      using no_point by (auto simp: dropWhile_eq_Nil_conv)
    then show ?thesis
      by (simp only: fraction_length_def if_False digits_in_simps list.size)
  qed
  have pre_I2: "prefix I2 (?I @ F)" "z2 + length (takeWhile (\<lambda>c. c \<noteq> 46) I2) \<le> length ?I"
    using length_takeWhile_le [of "\<lambda>c. c \<noteq> 46" I2] by (simp_all add: I2(1))
  have all_I2: "list_all (\<lambda>c. is_digit Decimal c \<or> c = 46) I2"
    using I2_digits by (simp add: list_all_iff)
  from assms(1) consider (plain) "s = I" "F = []" | (point) "s = I @ 46 # F"
    by (auto simp: number_text_def)
  then show ?thesis
  proof cases
    case plain
    have "drop_outer_zeros s = Inr (I2, int z2)"
      using plain I2 last_I2 no_point drop_zeros_back_eq [OF I2(2) z2] by (auto simp: drop_outer_zeros_def Let_def)
    then show ?thesis
      using last_I2 all_I2 frac_I2 val_I2 pre_I2 plain I2_digits by (intro that [of I2 z2]) simp_all
  next
    case point
    have s1: "dropWhile (\<lambda>c. c = 48) s = ?I @ 46 # F"
      using point by (simp add: dropWhile_append dropWhile_eq_Nil_conv [THEN iffD2])
    obtain F1 z1 where F1: "F = F1 @ replicate z1 48" "F1 = [] \<or> last F1 \<noteq> 48"
      using split_zeros_back by blast
    have z1: "z1 < 2 ^ 31"
      using assms(2) by (simp add: point F1(1))
    have F1_digits: "all_digits Decimal F1"
      using F F1(1) by simp
    show ?thesis
    proof (cases "F1 = []")
      case True
      have "drop_zeros_back (?I @ 46 # F) = Inr (?I @ [46], int z1)"
        using drop_zeros_back_eq [of "?I @ [46]" z1] True F1(1) z1 by simp
      moreover have "drop_zeros_back ?I = Inr (I2, int z2)"
        unfolding I2(1) by (rule drop_zeros_back_eq [OF I2(2) z2])
      ultimately have "drop_outer_zeros s = Inr (I2, int z2)"
        by (simp add: drop_outer_zeros_def Let_def s1)
      moreover have "dval (I @ F) = dval I * 10 ^ length F"
        using digits_value_zeros [of F Decimal] True F1(1) by (simp add: digits_value_append)
      ultimately show ?thesis
        using last_I2 all_I2 frac_I2 val_I2 pre_I2 I2_digits
        by (intro that [of I2 z2]) (simp_all add: power_add mult_ac)
    next
      case False
      define kept where "kept = ?I @ 46 # F1"
      have "last F1 \<noteq> 46"
        using digits_no_point [OF F1_digits] last_in_set [OF False] by metis
      have "drop_zeros_back (?I @ 46 # F) = Inr (kept, int z1)"
        using drop_zeros_back_eq [of kept z1] False F1 z1 by (simp add: kept_def)
      moreover have last: "kept \<noteq> []" "last kept \<noteq> 46 \<and> last kept \<noteq> 48"
        using False \<open>last F1 \<noteq> 46\<close> F1(2) by (simp_all add: kept_def)
      ultimately have "drop_outer_zeros s = Inr (kept, int 0)"
        by (simp add: drop_outer_zeros_def Let_def s1) (simp add: kept_def)
      moreover have "fraction_length False kept = length F1"
        using dropWhile_digits [OF I1(1), of "46 # F1"] F1_digits by (simp add: fraction_length_def kept_def)
      moreover have "digits_in kept = ?I @ F1"
        using I1(1) F1_digits by (simp add: kept_def)
      moreover have "dval (?I @ F1) * 10 ^ z1 = dval (I @ F)"
        using digits_value_zeros [of "replicate z1 48" Decimal]
        by (simp add: F1(1) digits_value_append I1(3) power_add distrib_right)
      moreover have "list_all (\<lambda>c. is_digit Decimal c \<or> c = 46) kept"
        using I1(1) F1_digits by (auto simp: kept_def list_all_iff)
      moreover have "takeWhile (\<lambda>c. c \<noteq> 46) ?I = ?I"
        using digits_no_point [OF I1(1)] by (auto simp: takeWhile_eq_all_conv)
      then have "length (takeWhile (\<lambda>c. c \<noteq> 46) kept) \<le> length ?I"
        by (simp add: kept_def takeWhile_tail)
      ultimately show ?thesis
        using last by (intro that [of kept 0]) (simp_all add: F1(1))
    qed
  qed
qed

text \<open>What has been read so far, with the digits in the queue.\<close>

definition read_total :: "digit_reader \<Rightarrow> int" where
  "read_total r = big_value (rd_big r) * 10 ^ rd_digits_queued r + uint (rd_queued r)"

lemma read_total_nonneg: "0 \<le> read_total r"
  by (simp add: read_total_def)

definition reader_ok :: "nat \<Rightarrow> digit_reader \<Rightarrow> bool" where
  "reader_ok N r \<longleftrightarrow> big_ok N (rd_big r) \<and> rd_digits_queued r \<le> 8 \<and> uint (rd_queued r) < 10 ^ rd_digits_queued r"

text \<open>The exponent adjustment can be decremented \<open>n\<close> times.\<close>

definition adjust_room :: "digit_reader \<Rightarrow> nat \<Rightarrow> bool" where
  "adjust_room r n \<longleftrightarrow> in_int (rd_adjust r) \<and> in_int (rd_adjust r - int n)"

lemma adjust_room_step:
  assumes "adjust_room r (Suc n)"
  shows "in_int (rd_adjust r - 1)" "rd_adjust r' = rd_adjust r - (if p then 1 else 0) \<Longrightarrow> adjust_room r' n"
  using assms by (auto simp: adjust_room_def in_int_def)

lemma flush_digits_computes:
  assumes "big_ok N (rd_big r)" "rd_digits_queued r \<le> 9" "read_total r < 2 ^ (32 * N)"
  shows "returns (flush_digits r) (computes N (read_total r))"
proof -
  have index: "rd_digits_queued r < length kTenToNth"
    using assms(2) by (simp add: kTenToNth_def)
  let ?v = "big_value (rd_big r) * 10 ^ rd_digits_queued r"
  obtain b1 where run: "MultiplyBy_u32 (kTenToNth ! rd_digits_queued r) (rd_big r) = Inr b1"
    and b1: "big_ok N b1" "big_value b1 = ?v mod 2 ^ (32 * N)"
    using MultiplyBy_u32_computes [OF assms(1), of "kTenToNth ! rd_digits_queued r"] kTenToNth_eq [OF assms(2)]
    by (auto simp: returns_iff)
  have "0 \<le> read_total r"
    by (simp add: read_total_def)
  then have "(big_value b1 + uint (rd_queued r)) mod 2 ^ (32 * N) = read_total r"
    using assms(3) by (simp add: b1(2) mod_add_left_eq read_total_def)
  then show ?thesis
    using AddWithCarry_u32_computes [OF b1(1), of "rd_queued r"] run index by (simp add: flush_digits_def)
qed

lemma uint_queue:
  assumes "uint (q :: 32 word) < 10 ^ 8" "0 \<le> d" "d < 10"
  shows "uint (10 * q + word_of_int d) = 10 * uint q + d"
proof -
  have "uint (10 * q + word_of_int d) = (10 * uint q + d) mod 2 ^ 32"
    by (simp add: uint_word_ariths uint_word_of_int take_bit_eq_mod mod_simps)
  then show ?thesis
    using assms word32_bounds(1) [of q] by simp
qed

lemma add_distance_eq: "in_int (a + int n) \<Longrightarrow> add_distance a n = a + int n"
  unfolding add_distance_def by (rule sint_of_in_int)

text \<open>Reading one digit, with the adjustment of the last one.\<close>

lemma read_digit:
  assumes "is_digit Decimal c" "0 < sig" "reader_ok N r" "d = digit_number Decimal c"
    and d': "d' = (if sig = 1 \<and> s \<noteq> [] \<and> (d = 0 \<or> d = 5) then d + 1 else d)"
    and fits: "read_total r * 10 + d' < 2 ^ (32 * N)" and room: "adjust_room r (Suc n)"
  obtains r' where "read_loop (c # s) sig r = read_loop s (sig - 1) r'" "reader_ok N r'" "adjust_room r' n"
    and "read_total r' = read_total r * 10 + d'" "rd_after_point r' = rd_after_point r"
    and "rd_adjust r' = rd_adjust r - (if rd_after_point r then 1 else 0)"
proof -
  have "0 \<le> d" "d < 10"
    using digit_number_range [OF assms(1)] by (simp_all add: assms(4))
  then have range: "0 \<le> d'" "d' < 10"
    by (auto simp: d')
  define r1 where "r1 = r\<lparr>rd_adjust := rd_adjust r - (if rd_after_point r then 1 else 0),
    rd_queued := 10 * rd_queued r + word_of_int d', rd_digits_queued := rd_digits_queued r + 1\<rparr>"
  have "uint (rd_queued r) < 10 ^ rd_digits_queued r" "(10 :: int) ^ rd_digits_queued r \<le> 10 ^ 8"
    using assms(3) power_increasing [of "rd_digits_queued r" 8 "10 :: int"] by (simp_all add: reader_ok_def)
  then have small: "uint (rd_queued r) < 10 ^ 8"
    by linarith
  then have queued: "uint (rd_queued r1) = 10 * uint (rd_queued r) + d'"
    using range by (simp add: r1_def uint_queue)
  have total: "read_total r1 = read_total r * 10 + d'"
    by (simp add: read_total_def queued) (simp add: r1_def distrib_right)
  have "(uint (rd_queued r) + 1) * 10 \<le> 10 ^ rd_digits_queued r * 10"
    using assms(3) by (intro mult_right_mono) (simp_all add: reader_ok_def)
  then have queued_less: "uint (rd_queued r1) < 10 ^ rd_digits_queued r1"
    using range by (simp add: queued) (simp add: r1_def)
  have "c \<noteq> 46"
    using assms(1) digit_not_point by blast
  moreover have "(if rd_after_point r then check_int (rd_adjust r - 1) else Inr (rd_adjust r)) = Inr (rd_adjust r1)"
    using adjust_room_step(1) [OF room] by (simp add: r1_def)
  ultimately have step: "read_loop (c # s) sig r =
      (if rd_digits_queued r1 = 9 then bind_f (flush_digits r1) (\<lambda>b.
         read_loop s (sig - 1) (r1\<lparr>rd_big := b, rd_queued := 0, rd_digits_queued := 0\<rparr>))
       else read_loop s (sig - 1) r1)"
    using assms(2,4) by (cases "sig = 1") (auto simp: r1_def d' Let_def kMaxSmallPowerOfTen_def)
  have room1: "adjust_room r1 n"
    by (rule adjust_room_step(2) [OF room, of _ "rd_after_point r"]) (simp add: r1_def)
  show ?thesis
  proof (cases "rd_digits_queued r1 = 9")
    case True
    have "big_ok N (rd_big r1)"
      using assms(3) by (simp add: reader_ok_def r1_def)
    then obtain b where run: "flush_digits r1 = Inr b" and b: "big_ok N b" "big_value b = read_total r1"
      using flush_digits_computes [of N r1] fits True total by (auto simp: returns_iff)
    show ?thesis
      using that [of "r1\<lparr>rd_big := b, rd_queued := 0, rd_digits_queued := 0\<rparr>"] b total room1
      by (simp add: adjust_room_def step True run reader_ok_def read_total_def [of "r1\<lparr>rd_big := b, rd_queued := 0, rd_digits_queued := 0\<rparr>"]
          del: read_loop.simps) (simp add: r1_def)
  next
    case False
    then have "reader_ok N r1"
      using assms(3) queued_less by (simp add: reader_ok_def) (simp add: r1_def)
    then show ?thesis
      using that [of r1] False total room1 by (simp add: step del: read_loop.simps) (simp add: r1_def)
  qed
qed

lemma fraction_length_append:
  "fraction_length after (s @ t) = fraction_length after s + fraction_length (after \<or> 46 \<in> set s) t"
proof (cases "46 \<in> set s")
  case True
  then have "dropWhile (\<lambda>c. c \<noteq> 46) (s @ t) = dropWhile (\<lambda>c. c \<noteq> 46) s @ t"
    by (intro dropWhile_append1 [of 46]) simp_all
  then show ?thesis
    using True by (simp add: fraction_length_def)
next
  case False
  then have "dropWhile (\<lambda>c. c \<noteq> 46) (s @ t) = dropWhile (\<lambda>c. c \<noteq> 46) t" "dropWhile (\<lambda>c. c \<noteq> 46) s = []"
    by (auto simp: dropWhile_eq_Nil_conv intro: dropWhile_append2)
  then show ?thesis
    using False by (simp only: fraction_length_def digits_in_simps split: if_split) simp
qed

lemma fraction_length_snoc:
  assumes "is_digit Decimal c"
  shows "fraction_length after (s @ [c]) = fraction_length after s + (if after \<or> 46 \<in> set s then 1 else 0)"
proof -
  have "digits_in [c] = [c]" "c \<noteq> 46"
    using assms digit_not_point by (auto simp: digits_in_def)
  then show ?thesis
    by (simp add: fraction_length_append) (simp add: fraction_length_def)
qed

lemma length_digits_in: "length (digits_in s) = length (takeWhile (\<lambda>c. c \<noteq> 46) s) + fraction_length False s"
proof -
  have "digits_in (takeWhile (\<lambda>c. c \<noteq> 46) s) = takeWhile (\<lambda>c. c \<noteq> 46) s"
    by (auto simp: digits_in_def filter_id_conv dest: set_takeWhileD)
  moreover have "digits_in s = digits_in (takeWhile (\<lambda>c. c \<noteq> 46) s) @ digits_in (dropWhile (\<lambda>c. c \<noteq> 46) s)"
    by (simp only: digits_in_simps(3) [symmetric] takeWhile_dropWhile_id)
  ultimately show ?thesis
    by (simp only: fraction_length_def if_False length_append)
qed

text \<open>Reading a part of the text that does not reach the last significant digit.\<close>

abbreviation digits_or_points :: "byte list \<Rightarrow> bool" where
  "digits_or_points s \<equiv> list_all (\<lambda>c. is_digit Decimal c \<or> c = 46) s"

lemma digits_in_all_digits: "digits_or_points s \<Longrightarrow> all_digits Decimal (digits_in s)"
  by (auto simp: digits_in_def list_all_iff)

lemma read_prefix:
  assumes "digits_or_points s" "int (length (digits_in s)) < sig" "reader_ok N r"
    and "read_total r * 10 ^ length (digits_in s) + dval (digits_in s) < 2 ^ (32 * N)"
    and "adjust_room r (length (digits_in s) + n)"
  obtains r' where "read_loop (s @ t) sig r = read_loop t (sig - int (length (digits_in s))) r'" "reader_ok N r'"
    and "adjust_room r' n"
    and "read_total r' = read_total r * 10 ^ length (digits_in s) + dval (digits_in s)"
    and "rd_after_point r' \<longleftrightarrow> rd_after_point r \<or> 46 \<in> set s"
    and "rd_adjust r' = rd_adjust r - int (fraction_length (rd_after_point r) s)"
  using assms
proof (induction s arbitrary: sig r thesis)
  case Nil
  then show ?case
    by (simp add: fraction_length_def)
next
  case (Cons c s)
  show ?case
  proof (cases "c = 46")
    case True
    obtain r' where "read_loop (s @ t) sig (r\<lparr>rd_after_point := True\<rparr>) = read_loop t (sig - int (length (digits_in s))) r'"
      "reader_ok N r'" "read_total r' = read_total r * 10 ^ length (digits_in s) + dval (digits_in s)" "rd_after_point r'"
      "rd_adjust r' = rd_adjust r - int (fraction_length True s)" "adjust_room r' n"
      using Cons.IH [of sig "r\<lparr>rd_after_point := True\<rparr>"] Cons.prems(2-6) True
      by (auto simp: reader_ok_def read_total_def adjust_room_def)
    then show ?thesis
      using Cons.prems(1) [of r'] Cons.prems(3) True by (simp add: fraction_length_def)
  next
    case False
    then have c: "is_digit Decimal c" and din: "digits_in (c # s) = c # digits_in s"
      using Cons.prems(2) by (auto simp: digits_in_def)
    define d where "d = digit_number Decimal c"
    have total: "read_total r * 10 ^ length (digits_in (c # s)) + dval (digits_in (c # s)) =
        (read_total r * 10 + d) * 10 ^ length (digits_in s) + dval (digits_in s)"
      by (simp add: din digits_value_Cons d_def distrib_right del: digit_number.simps)
    have nonneg: "0 \<le> dval (digits_in s)" "0 \<le> read_total r * 10 + d"
      using digits_value_nonneg [OF digits_in_all_digits] Cons.prems(2) read_total_nonneg [of r] digit_number_range [OF c]
      by (simp_all add: d_def)
    then have "read_total r * 10 + d \<le> (read_total r * 10 + d) * 10 ^ length (digits_in s)"
      by (simp add: mult_le_cancel_left1)
    then have fits: "read_total r * 10 + d < 2 ^ (32 * N)"
      using Cons.prems(5) nonneg unfolding total by linarith
    have sig: "0 < sig" "sig \<noteq> 1" "int (length (digits_in s)) < sig - 1"
      using Cons.prems(3) din by simp_all
    have inner: "d = (if sig = 1 \<and> s @ t \<noteq> [] \<and> (d = 0 \<or> d = 5) then d + 1 else d)"
      using sig(2) by simp
    have room: "adjust_room r (Suc (length (digits_in s) + n))"
      using Cons.prems(6) by (simp add: din)
    obtain r1 where r1: "read_loop (c # s @ t) sig r = read_loop (s @ t) (sig - 1) r1" "reader_ok N r1"
      "read_total r1 = read_total r * 10 + d" "rd_after_point r1 = rd_after_point r"
      "rd_adjust r1 = rd_adjust r - (if rd_after_point r then 1 else 0)" "adjust_room r1 (length (digits_in s) + n)"
      by (rule read_digit [OF c sig(1) Cons.prems(4) d_def inner fits room])
    have rest_digits: "digits_or_points s"
      using Cons.prems(2) by simp
    have rest_fits: "read_total r1 * 10 ^ length (digits_in s) + dval (digits_in s) < 2 ^ (32 * N)"
      using Cons.prems(5) unfolding total r1(3) .
    obtain r' where "read_loop (s @ t) (sig - 1) r1 = read_loop t (sig - 1 - int (length (digits_in s))) r'"
      "reader_ok N r'" "read_total r' = read_total r1 * 10 ^ length (digits_in s) + dval (digits_in s)"
      "rd_after_point r' \<longleftrightarrow> rd_after_point r1 \<or> 46 \<in> set s"
      "rd_adjust r' = rd_adjust r1 - int (fraction_length (rd_after_point r1) s)" "adjust_room r' n"
      by (rule Cons.IH [OF _ rest_digits sig(3) r1(2) rest_fits r1(6)])
    moreover have "int (fraction_length (rd_after_point r) (c # s)) =
        (if rd_after_point r then 1 else 0) + int (fraction_length (rd_after_point r) s)"
      using False din by (simp add: fraction_length_def)
    ultimately show ?thesis
      using r1 False din total by (intro Cons.prems(1) [of r']) (simp_all add: algebra_simps)
  qed
qed

lemma digit_at_end:
  assumes "digits_or_points s" "s \<noteq> []" "last s \<noteq> 46"
  obtains pre c where "s = pre @ [c]" "is_digit Decimal c" "digits_in s = digits_in pre @ [c]"
proof -
  have "is_digit Decimal (last s)"
    using assms last_in_set [OF assms(2)] by (auto simp: list_all_iff)
  moreover have s: "s = butlast s @ [last s]"
    using assms(2) by simp
  moreover have "digits_in (butlast s @ [last s]) = digits_in (butlast s) @ [last s]"
    using assms(3) by (simp add: digits_in_def)
  ultimately show ?thesis
    using that [of "butlast s" "last s"] by simp
qed

lemma read_loop_correct:
  assumes "digits_or_points s" "s = [] \<or> last s \<noteq> 46"
    and "int (length (digits_in s)) \<le> sig" "reader_ok N r"
    and "read_total r * 10 ^ length (digits_in s) + dval (digits_in s) < 2 ^ (32 * N)"
    and "adjust_room r (length (digits_in s))"
  shows "returns (read_loop s sig r) (\<lambda>(r', rest). rest = [] \<and> reader_ok N r' \<and>
    read_total r' = read_total r * 10 ^ length (digits_in s) + dval (digits_in s) \<and>
    rd_adjust r' = rd_adjust r - int (fraction_length (rd_after_point r) s))"
proof (cases "s = []")
  case True
  then show ?thesis
    using assms(4) by (simp add: fraction_length_def)
next
  case False
  then obtain pre c where s: "s = pre @ [c]" "digits_in s = digits_in pre @ [c]" and c: "is_digit Decimal c"
    using digit_at_end [OF assms(1) False] assms(2) by blast
  have pre: "digits_or_points pre" "int (length (digits_in pre)) < sig"
    using assms(1,3) s by simp_all
  have room: "adjust_room r (length (digits_in pre) + Suc 0)"
    using assms(6) by (simp add: s(2))
  define v where "v = read_total r * 10 ^ length (digits_in pre) + dval (digits_in pre)"
  have total: "read_total r * 10 ^ length (digits_in s) + dval (digits_in s) = v * 10 + digit_number Decimal c"
    unfolding s(2) v_def by (simp add: distrib_right)
  have v: "0 \<le> v" "0 \<le> digit_number Decimal c"
    using digits_value_nonneg [OF digits_in_all_digits [OF pre(1)]] read_total_nonneg [of r] digit_number_range [OF c] by (simp_all add: v_def)
  then have fits: "v < 2 ^ (32 * N)" "v * 10 + digit_number Decimal c < 2 ^ (32 * N)"
    using assms(5) unfolding total by linarith+
  obtain r1 where r1: "read_loop s sig r = read_loop [c] (sig - int (length (digits_in pre))) r1" "reader_ok N r1"
    "read_total r1 = v" "rd_after_point r1 \<longleftrightarrow> rd_after_point r \<or> 46 \<in> set pre"
    "rd_adjust r1 = rd_adjust r - int (fraction_length (rd_after_point r) pre)" "adjust_room r1 (Suc 0)"
    using read_prefix [OF pre assms(4) fits(1) [unfolded v_def], of "Suc 0" "[c]"] s(1) room
    by (auto simp: v_def)
  obtain r2 where "read_loop [c] (sig - int (length (digits_in pre))) r1 = Inr (r2, [])" "reader_ok N r2"
    "read_total r2 = v * 10 + digit_number Decimal c" "rd_adjust r2 = rd_adjust r1 - (if rd_after_point r1 then 1 else 0)"
    using read_digit [OF c _ r1(2) refl, of "sig - int (length (digits_in pre))" "digit_number Decimal c" "[]" 0]
      pre(2) fits(2) r1(3,6)
    by auto
  moreover have "int (fraction_length (rd_after_point r) s) =
      int (fraction_length (rd_after_point r) pre) + (if rd_after_point r1 then 1 else 0)"
    using c by (auto simp: s r1(4) fraction_length_snoc)
  ultimately show ?thesis
    using r1 total by simp
qed

theorem ReadDigits_correct:
  assumes b: "big_ok N b" and s: "number_text s I F" and short: "length s < 2 ^ 31"
    and digits: "int (length I + length F) \<le> sig" "sig \<le> int (Digits10 N) + 1"
    and fits: "dval (I @ F) < 2 ^ (32 * N)"
  shows "returns (ReadDigits s sig b) (\<lambda>(b', e). big_ok N b' \<and> 0 \<le> e + int (length F) \<and>
    big_value b' * 10 ^ nat (e + int (length F)) = dval (I @ F))"
proof -
  obtain kept z where kept: "drop_outer_zeros s = Inr (kept, int z)" "kept = [] \<or> last kept \<noteq> 46 \<and> last kept \<noteq> 48"
    "digits_or_points kept" "fraction_length False kept \<le> length F"
    "z + length (takeWhile (\<lambda>c. c \<noteq> 46) kept) \<le> length (dropWhile (\<lambda>c. c = 48) I)"
    and val: "dval (digits_in kept) * 10 ^ (length F + z - fraction_length False kept) = dval (I @ F)"
    and prefix: "prefix (digits_in kept) (dropWhile (\<lambda>c. c = 48) I @ F)"
    by (rule drop_outer_zeros_correct [OF s short])
  have len: "length (digits_in kept) \<le> length I + length F"
    using prefix_length_le [OF prefix] length_dropWhile_le [of "\<lambda>c. c = 48" I] by simp
  obtain b0 where b0: "SetToZero b = Inr b0" "big_ok N b0" "big_value b0 = 0"
    using SetToZero_computes [OF b] by (auto simp: returns_iff)
  define r where "r = \<lparr>rd_after_point = False, rd_adjust = int z, rd_queued = 0, rd_digits_queued = 0, rd_big = b0\<rparr>"
  have r: "reader_ok N r" "read_total r = 0"
    using b0 by (simp_all add: r_def reader_ok_def read_total_def)
  have "length I + length F \<le> length s"
    using s by (auto simp: number_text_def)
  then have room: "adjust_room r (length (digits_in kept))"
    using len short kept(5) length_dropWhile_le [of "\<lambda>c. c = 48" I] by (simp add: adjust_room_def in_int_def r_def)
  have "0 \<le> dval (digits_in kept)"
    using kept(3) by (intro digits_value_nonneg) (auto simp: digits_in_def list_all_iff)
  then have "dval (digits_in kept) \<le> dval (I @ F)"
    unfolding val [symmetric] by (simp add: mult_le_cancel_left1)
  then have less: "dval (digits_in kept) < 2 ^ (32 * N)"
    using fits by simp
  obtain r' where run: "read_loop kept sig r = Inr (r', [])" and r': "reader_ok N r'" "read_total r' = dval (digits_in kept)"
    "rd_adjust r' = int z - int (fraction_length False kept)"
    using read_loop_correct [OF kept(3) _ _ r(1), of sig] room kept(2) len digits(1) less r(2) by (auto simp: returns_iff r_def)
  obtain b' where flush: "(if rd_digits_queued r' > 0 then flush_digits r' else Inr (rd_big r')) = Inr b'"
    and b': "big_ok N b'" "big_value b' = dval (digits_in kept)"
  proof (cases "rd_digits_queued r' > 0")
    case True
    then show ?thesis
      using flush_digits_computes [of N r'] r' less that by (auto simp: returns_iff reader_ok_def)
  next
    case False
    then show ?thesis
      using r' that word32_bounds(1) [of "rd_queued r'"] by (simp add: reader_ok_def read_total_def)
  qed
  have "nat (rd_adjust r' + int (length F)) = length F + z - fraction_length False kept"
    using kept(4) by (simp add: r'(3))
  then show ?thesis
    using digits(2) b0(1) kept(1,4) run flush b' val r'(3) big_okD(3) [OF b]
    by (simp add: ReadDigits_def Let_def r_def)
qed

end
