(* ===== verification/Parse_Float_Results.thy ===== *)
theory Parse_Float_Results
  imports Float_Text
begin

text \<open>
  \<open>ParseFloat\<close> against a reference that splits the text into digits before and after the point and an exponent. From it
  follow that the scanner never faults and that mantissa and exponent are the value of the literal.
\<close>

section \<open>The loops on the rest of the text\<close>

lemma drop_step: "i < length src \<Longrightarrow> drop i src = src ! i # drop (Suc i) src"
  by (simp add: Cons_nth_drop_Suc)

lemma skip_while_eq: "i \<le> length src \<Longrightarrow> skip_while P src i = i + length (takeWhile P (drop i src))"
proof (induction P src i rule: skip_while.induct)
  case (1 P src i)
  then show ?case
    by (cases "i < length src") (auto simp: skip_while.simps [of P src i] skip_while.simps [of P src "length src"] drop_step)
qed

lemma drop_takeWhile: "drop (length (takeWhile P xs)) xs = dropWhile P xs"
  by (simp add: dropWhile_eq_drop)

lemma drop_past: "drop (b + length (takeWhile P (drop b src))) src = dropWhile P (drop b src)"
  by (metis add.commute drop_drop drop_takeWhile)

lemma dropped_loop_eq:
  "i \<le> length src \<Longrightarrow> dropped_loop base src i d =
    (d \<or> (\<exists>c \<in> set (takeWhile (is_digit base) (drop i src)). c \<noteq> 48),
     i + length (takeWhile (is_digit base) (drop i src)))"
proof (induction base src i d rule: dropped_loop.induct)
  case (1 base src i d)
  then show ?case
    by (cases "i < length src") (auto simp: dropped_loop.simps [of base src i] dropped_loop.simps [of base src "length src"] drop_step)
qed

primrec type_limit :: "digit_type \<Rightarrow> int" where
  "type_limit U64 = 2 ^ 64"
| "type_limit I32 = 2 ^ 31"

lemma arith_in [simp]: "0 \<le> x \<Longrightarrow> x < type_limit ty \<Longrightarrow> arith ty x = Inr x"
  by (cases ty) (simp_all add: in_int_def)

lemma takeWhile_digits: "all_digits base (takeWhile (is_digit base) s)"
  by (auto simp: list_all_iff dest: set_takeWhileD)

lemma accumulate_loop_eq:
  assumes "i \<le> stop" "stop \<le> length src" "0 \<le> acc"
    and "t = takeWhile (is_digit base) (take (stop - i) (drop i src))"
    and "acc * base_radix base ^ length t + digits_value base t < type_limit ty"
  shows "accumulate_loop base ty src stop i acc =
    Inr (acc * base_radix base ^ length t + digits_value base t, i + length t)"
  using assms
proof (induction base ty src stop i acc arbitrary: t rule: accumulate_loop.induct)
  case (1 base ty src stop i acc)
  show ?case
  proof (cases "i < stop \<and> is_digit base (src ! i)")
    case False
    then have "t = []"
      using 1(2,3,5) by (cases "i < stop") (auto simp: drop_step take_Cons' nth_Cons')
    moreover have "accumulate_loop base ty src stop i acc = Inr (acc, i)"
      using False 1(3) by (subst accumulate_loop.simps) (cases "i < stop"; simp)
    ultimately show ?thesis
      by simp
  next
    case True
    define t' where "t' = takeWhile (is_digit base) (take (stop - (i + 1)) (drop (i + 1) src))"
    have t: "t = src ! i # t'"
      using True 1(2,3,5) by (simp add: t'_def drop_step Suc_diff_Suc [symmetric])
    define d where "d = digit_number base (src ! i)"
    have d: "0 \<le> d" "d < base_radix base"
      using digit_number_range True by (auto simp: d_def)
    have val: "acc * base_radix base ^ length t + digits_value base t =
        (acc * base_radix base + d) * base_radix base ^ length t' + digits_value base t'"
      by (simp add: t digits_value_Cons d_def distrib_right mult.assoc)
    have "0 \<le> digits_value base t'"
      unfolding t'_def by (intro digits_value_nonneg takeWhile_digits)
    moreover have "1 * (acc * base_radix base + d) \<le> base_radix base ^ length t' * (acc * base_radix base + d)"
      using 1(4) d by (intro mult_right_mono) (simp_all add: less_imp_le)
    ultimately have bound: "acc * base_radix base + d < type_limit ty"
      using 1(6) val by (simp add: mult.commute)
    have pos: "0 \<le> acc * base_radix base" "acc \<le> acc * base_radix base"
      using 1(4) mult_left_mono [of 1 "base_radix base" acc] by (simp_all add: less_imp_le)
    have "accumulate_loop base ty src stop i acc = accumulate_loop base ty src stop (i + 1) (acc * base_radix base + d)"
      using True 1(3) pos d bound by (simp add: accumulate_loop.simps [of base ty src stop i] d_def [symmetric])
    also have "\<dots> = Inr ((acc * base_radix base + d) * base_radix base ^ length t' + digits_value base t', i + 1 + length t')"
      using True 1(2-4,6) pos d bound val
      by (intro 1(1) [of "src ! i" "acc * base_radix base" "()" "acc * base_radix base + d" "()"]) (simp_all add: t'_def d_def)
    finally show ?thesis
      by (simp add: val) (simp add: t)
  qed
qed

section \<open>Consuming digits\<close>

lemma takeWhile_take_takeWhile: "takeWhile P (take n xs) = take n (takeWhile P xs)"
proof (induction xs arbitrary: n)
  case (Cons x xs)
  then show ?case
    by (cases n) auto
qed simp

lemma takeWhile_drop: "n \<le> length (takeWhile P xs) \<Longrightarrow> takeWhile P (drop n xs) = drop n (takeWhile P xs)"
proof (induction xs arbitrary: n)
  case (Cons x xs)
  then show ?case
    by (cases n) (auto split: if_splits)
qed simp

lemma dropWhile_takeWhile_digits:
  "takeWhile (is_digit base) (dropWhile (\<lambda>c. c = 48) s) = dropWhile (\<lambda>c. c = 48) (takeWhile (is_digit base) s)"
  by (induction s) auto

lemma length_zeros_digits:
  "length (takeWhile (\<lambda>c. c = 48) s) + length (dropWhile (\<lambda>c. c = 48) (takeWhile (is_digit base) s)) =
    length (takeWhile (is_digit base) s)"
  by (induction s) auto

definition significant :: "int \<Rightarrow> byte list \<Rightarrow> byte list" where
  "significant out ds = (if out = 0 then dropWhile (\<lambda>c. c = 48) ds else ds)"

definition nonzero_in :: "byte list \<Rightarrow> bool" where
  "nonzero_in ds \<longleftrightarrow> (\<exists>c \<in> set ds. c \<noteq> 48)"

lemma ConsumeDigits_eq:
  assumes "begin \<le> length src" "0 \<le> out"
    and small: "case base of Decimal \<Rightarrow> n \<le> type_digits10 ty | Hexadecimal \<Rightarrow> n * 4 \<le> type_digits2 ty"
    and fits: "(out + 1) * base_radix base ^ n \<le> type_limit ty"
    and ds: "ds = takeWhile (is_digit base) (drop begin src)"
  shows "ConsumeDigits base ty src begin n out flag =
    Inr (length ds, out * base_radix base ^ length (take n (significant out ds)) + digits_value base (take n (significant out ds)),
      flag \<or> nonzero_in (drop n (significant out ds)))"
proof -
  define p where "p = (if out = 0 then skip_while (\<lambda>c. c = 48) src begin else begin)"
  define stop where "stop = (if length src - p > n then p + n else length src)"
  have p: "p \<le> length src" "begin \<le> p"
    using assms(1) length_takeWhile_le [of "\<lambda>c. c = 48" "drop begin src"] by (auto simp: p_def skip_while_eq)
  have rest: "takeWhile (is_digit base) (drop p src) = significant out ds"
    using assms(1)
    by (simp add: p_def ds significant_def skip_while_eq add.commute [of "begin"] drop_takeWhile dropWhile_takeWhile_digits flip: drop_drop)
  have len: "p - begin + length (significant out ds) = length ds"
    using assms(1) length_zeros_digits [of "drop begin src" base]
    by (simp add: p_def ds significant_def skip_while_eq)
  define t where "t = take n (significant out ds)"
  have stop: "p \<le> stop" "stop \<le> length src" "takeWhile (is_digit base) (take (stop - p) (drop p src)) = t"
    using p length_takeWhile_le [of "is_digit base" "drop p src"]
    by (auto simp: stop_def t_def takeWhile_take_takeWhile rest [symmetric])
  have t_digits: "all_digits base t" "length t \<le> n"
    using takeWhile_digits [of base "drop p src"] by (auto simp: t_def rest list_all_iff dest: in_set_takeD)
  have "out * base_radix base ^ length t + digits_value base t < (out + 1) * base_radix base ^ length t"
    using digits_value_less [OF t_digits(1)] by (simp add: distrib_right)
  also have "\<dots> \<le> (out + 1) * base_radix base ^ n"
    using assms(2) t_digits(2) by (intro mult_left_mono power_increasing) (simp_all add: less_imp_le)
  finally have acc: "accumulate_loop base ty src stop p out =
      Inr (out * base_radix base ^ length t + digits_value base t, p + length t)"
    using stop assms(2) fits by (intro accumulate_loop_eq) auto
  have t_le: "length t \<le> length (takeWhile (is_digit base) (drop p src))"
    by (simp add: rest t_def)
  have "takeWhile (is_digit base) (drop (p + length t) src) = drop (length t) (significant out ds)"
    using takeWhile_drop [OF t_le] by (simp add: rest add.commute)
  then have "takeWhile (is_digit base) (drop (p + length t) src) = drop n (significant out ds)"
    by (cases "n \<le> length (significant out ds)") (simp_all add: t_def)
  moreover have "p + length t \<le> length src"
    using t_le length_takeWhile_le [of "is_digit base" "drop p src"] p(1) by simp
  ultimately have "dropped_loop base src (p + length t) False =
      (nonzero_in (drop n (significant out ds)), p + length t + length (drop n (significant out ds)))"
    by (simp add: dropped_loop_eq nonzero_in_def)
  moreover have "p + length t + length (drop n (significant out ds)) - begin = length ds"
    using len p by (simp add: t_def min_def)
  ultimately show ?thesis
    using small acc
    by (cases base) (simp_all add: ConsumeDigits_def Let_def p_def [symmetric] stop_def [symmetric] t_def [symmetric])
qed


section \<open>The reference\<close>

text \<open>
  A literal is the digits before the point, whether there is a point, the digits after it, and the exponent. The
  exponent's parts are how many characters it has, its value and whether it is there at all.
\<close>

definition integer_digits :: "base \<Rightarrow> byte list \<Rightarrow> byte list" where
  "integer_digits base s = takeWhile (is_digit base) s"

definition has_point :: "base \<Rightarrow> byte list \<Rightarrow> bool" where
  "has_point base s \<longleftrightarrow> (case dropWhile (is_digit base) s of [] \<Rightarrow> False | c # _ \<Rightarrow> c = 46)"

definition fraction_digits :: "base \<Rightarrow> byte list \<Rightarrow> byte list" where
  "fraction_digits base s =
     (if has_point base s then takeWhile (is_digit base) (tl (dropWhile (is_digit base) s)) else [])"

definition mantissa_length :: "base \<Rightarrow> byte list \<Rightarrow> nat" where
  "mantissa_length base s = length (integer_digits base s) +
     (if has_point base s then 1 + length (fraction_digits base s) else 0)"

definition significant_digits :: "base \<Rightarrow> byte list \<Rightarrow> byte list" where
  "significant_digits base s = dropWhile (\<lambda>c. c = 48) (integer_digits base s @ fraction_digits base s)"

definition exponent_parts :: "base \<Rightarrow> chars_format \<Rightarrow> byte list \<Rightarrow> nat \<times> int \<times> bool" where
  "exponent_parts base flags s = (case s of
     [] \<Rightarrow> (0, 0, False)
   | c # s \<Rightarrow>
     if exponent_allowed flags \<and> is_exponent_char base c then
       let signed = (s \<noteq> [] \<and> (hd s = 45 \<or> hd s = 43));
           negative = (s \<noteq> [] \<and> hd s = 45);
           digits = takeWhile (is_digit Decimal) (if signed then tl s else s);
           v = digits_value Decimal (take 9 (dropWhile (\<lambda>c. c = 48) digits))
       in if digits = [] then (0, 0, False)
          else (1 + (if signed then 1 else 0) + length digits, if negative then - v else v, True)
     else (0, 0, False))"

text \<open>The exponent that the text denotes, which can have more than the nine digits that are scanned.\<close>

definition exponent_value :: "base \<Rightarrow> chars_format \<Rightarrow> byte list \<Rightarrow> int" where
  "exponent_value base flags s = (case s of
     [] \<Rightarrow> 0
   | c # s \<Rightarrow>
     if exponent_allowed flags \<and> is_exponent_char base c then
       let signed = (s \<noteq> [] \<and> (hd s = 45 \<or> hd s = 43));
           v = digits_value Decimal (takeWhile (is_digit Decimal) (if signed then tl s else s))
       in if s \<noteq> [] \<and> hd s = 45 then - v else v
     else 0)"

lemma nine_digits:
  assumes "all_digits Decimal ds" "v = digits_value Decimal (take 9 (dropWhile (\<lambda>c. c = 48) ds))" "V = digits_value Decimal ds"
  shows "0 \<le> v" "v \<le> V" "if V < 10 ^ 9 then v = V else 10 ^ 8 \<le> v"
proof -
  define D where "D = dropWhile (\<lambda>c. c = 48) ds"
  have V: "V = digits_value Decimal D"
    by (simp add: assms(3) D_def digits_value_drop_zeros)
  have D: "all_digits Decimal D" "all_digits Decimal (take 9 D)" "all_digits Decimal (drop 9 D)"
    using assms(1) by (auto simp: D_def list_all_iff dest!: in_set_takeD in_set_dropD set_dropWhileD)
  have split: "V = v * 10 ^ length (drop 9 D) + digits_value Decimal (drop 9 D)"
    using digits_value_append [of Decimal "take 9 D" "drop 9 D"] by (simp add: V assms(2) D_def)
  show v: "0 \<le> v"
    using digits_value_nonneg [OF D(2)] by (simp add: assms(2) D_def)
  then have "v * 1 \<le> v * 10 ^ length (drop 9 D)"
    by (intro mult_left_mono) simp_all
  then show "v \<le> V"
    using split digits_value_nonneg [OF D(3)] by linarith
  show "if V < 10 ^ 9 then v = V else 10 ^ 8 \<le> v"
  proof (cases "length D \<le> 9")
    case True
    have "(10 :: int) ^ length D \<le> 10 ^ 9"
      using True by (intro power_increasing) simp_all
    then have "V < 10 ^ 9"
      using digits_value_less [OF D(1)] V by simp
    then show ?thesis
      using True by (simp add: assms(2) V D_def)
  next
    case False
    then have nonempty: "D \<noteq> []" "take 9 D \<noteq> []" "hd (take 9 D) = hd D"
      by (auto simp: hd_take)
    have first: "hd D \<noteq> 48"
      unfolding D_def using hd_dropWhile nonempty(1) D_def by blast
    have "10 ^ (9 - 1) \<le> digits_value Decimal (take 9 D)"
      using digits_value_at_least [OF D(2) nonempty(2)] first nonempty(3) False by simp
    moreover have "(10 :: int) ^ 9 \<le> 10 ^ (length D - 1)"
      using False by (intro power_increasing) simp_all
    then have "10 ^ 9 \<le> V"
      using digits_value_at_least [OF D(1) nonempty(1) first] unfolding V by simp
    ultimately show ?thesis
      by (simp add: assms(2) D_def)
  qed
qed

text \<open>The scanned exponent is the denoted one when that is below \<open>10 ^ 9\<close>; otherwise it has its sign, and is \<open>10 ^ 8\<close> at least.\<close>

lemma exponent_parts_value:
  assumes "exponent_parts base flags s = (k, v, found)" "V = exponent_value base flags s"
  shows "if \<bar>V\<bar> < 10 ^ 9 then v = V else 10 ^ 8 \<le> \<bar>v\<bar> \<and> \<bar>v\<bar> \<le> \<bar>V\<bar> \<and> (0 < v \<longleftrightarrow> 0 < V)"
proof (cases s)
  case Nil
  then show ?thesis
    using assms by (simp add: exponent_parts_def exponent_value_def)
next
  case (Cons c t)
  define signed negative where "signed \<longleftrightarrow> t \<noteq> [] \<and> (hd t = 45 \<or> hd t = 43)" and "negative \<longleftrightarrow> t \<noteq> [] \<and> hd t = 45"
  define ds where "ds = takeWhile (is_digit Decimal) (if signed then tl t else t)"
  define v0 where "v0 = digits_value Decimal (take 9 (dropWhile (\<lambda>c. c = 48) ds))"
  define V0 where "V0 = digits_value Decimal ds"
  have "all_digits Decimal ds"
    by (simp add: ds_def takeWhile_digits)
  note nine = nine_digits [OF this v0_def V0_def]
  show ?thesis
  proof (cases "exponent_allowed flags \<and> is_exponent_char base c")
    case False
    then show ?thesis
      using assms by (auto simp: Cons exponent_parts_def exponent_value_def)
  next
    case True
    then have V: "V = (if negative then - V0 else V0)"
      by (simp add: assms(2) Cons exponent_value_def Let_def signed_def [symmetric] negative_def [symmetric]
          ds_def [symmetric] V0_def)
    have "v = (if negative then - v0 else v0)"
    proof (cases "ds = []")
      case True
      then show ?thesis
        using assms(1) \<open>exponent_allowed flags \<and> _\<close> by (auto simp: Cons exponent_parts_def Let_def signed_def [symmetric]
            negative_def [symmetric] ds_def [symmetric] v0_def)
    next
      case False
      then show ?thesis
        using assms(1) True by (auto simp: Cons exponent_parts_def Let_def signed_def [symmetric]
            negative_def [symmetric] ds_def [symmetric] v0_def)
    qed
    then show ?thesis
      using nine V by (cases negative) (auto split: if_splits)
  qed
qed

definition exponent_adjust :: "base \<Rightarrow> byte list \<Rightarrow> int" where
  "exponent_adjust base s =
     max 0 (int (length (significant_digits base s)) - int (mantissa_digits base)) - int (length (fraction_digits base s))"

definition dropped_nonzero :: "base \<Rightarrow> byte list \<Rightarrow> bool" where
  "dropped_nonzero base s \<longleftrightarrow> nonzero_in (drop (mantissa_digits base) (significant_digits base s))"

definition mantissa_value :: "base \<Rightarrow> byte list \<Rightarrow> int" where
  "mantissa_value base s = digits_value base (take (mantissa_digits base) (significant_digits base s))"

lemma has_point_at:
  assumes "begin \<le> length src" "s = drop begin src" "p = begin + length (integer_digits base s)"
  shows "p \<le> length src" "drop p src = dropWhile (is_digit base) s" "p < length src \<and> src ! p = 46 \<longleftrightarrow> has_point base s"
proof -
  have "length (integer_digits base s) \<le> length s"
    by (simp add: integer_digits_def length_takeWhile_le)
  then show p: "p \<le> length src"
    using assms by simp
  show rest: "drop p src = dropWhile (is_digit base) s"
    by (simp only: assms(2,3) integer_digits_def drop_past)
  show "p < length src \<and> src ! p = 46 \<longleftrightarrow> has_point base s"
  proof (cases "p < length src")
    case True
    then show ?thesis
      using drop_step [OF True] rest by (simp add: has_point_def)
  next
    case False
    then show ?thesis
      using p rest by (simp add: has_point_def)
  qed
qed

lemma mantissa_digits_fits: "base_radix base ^ mantissa_digits base \<le> 2 ^ 64"
  by (cases base) simp_all

lemma mantissa_digits_small:
  "k \<le> mantissa_digits base \<Longrightarrow> (case base of Decimal \<Rightarrow> k \<le> type_digits10 U64 | Hexadecimal \<Rightarrow> k * 4 \<le> type_digits2 U64)"
  by (cases base) simp_all

lemma takeWhile_idem_zeros:
  "takeWhile (is_digit base) (dropWhile (\<lambda>c. c = 48) s) = dropWhile (\<lambda>c. c = 48) (takeWhile (is_digit base) s)"
  by (rule dropWhile_takeWhile_digits)

lemma dropWhile_dropWhile [simp]: "dropWhile P (dropWhile P xs) = dropWhile P xs"
  by (metis dropWhile_eq_self_iff hd_dropWhile)

lemma scan_integer_part_eq:
  assumes "begin \<le> length src" "s = drop begin src"
    and I: "I = dropWhile (\<lambda>c. c = 48) (integer_digits base s)" and n: "n = mantissa_digits base"
  shows "scan_integer_part base src begin = Inr (
    if length I \<ge> digit_limit base then None
    else Some (begin + length (integer_digits base s), digits_value base (take n I), nonzero_in (drop n I),
      int (length I - n), int (n - length I)))"
proof -
  define p where "p = skip_while (\<lambda>c. c = 48) src begin"
  have zeros: "p = begin + length (takeWhile (\<lambda>c. c = 48) s)"
    using assms(1) by (simp add: p_def assms(2) skip_while_eq)
  have "length (takeWhile (\<lambda>c. c = 48) s) \<le> length s"
    by (rule length_takeWhile_le)
  then have p: "p \<le> length src"
    using assms(1,2) zeros by simp
  have rest: "drop p src = dropWhile (\<lambda>c. c = 48) s"
    by (simp only: zeros assms(2) drop_past)
  have ds: "takeWhile (is_digit base) (drop p src) = I"
    by (simp add: rest I integer_digits_def dropWhile_takeWhile_digits)
  have sig: "significant 0 I = I"
    by (simp add: significant_def I)
  have len: "p + length I = begin + length (integer_digits base s)"
    using length_zeros_digits [of s base] by (simp add: zeros I integer_digits_def)
  show ?thesis
    using ConsumeDigits_eq [OF p _ _ _ ds [symmetric], of 0 "mantissa_digits base" U64 False] mantissa_digits_small [of _ base]
      mantissa_digits_fits [of base]
    by (auto simp: scan_integer_part_def Let_def p_def [symmetric] sig len n of_nat_diff)
qed


lemma digit_limit_le: "digit_limit base \<le> 50000000"
  by (cases base) simp_all

lemma digit_limit_pos: "0 < digit_limit base"
  by (cases base) simp_all

lemma mantissa_digits_pos: "0 < mantissa_digits base" "mantissa_digits base \<le> 19"
  by (cases base; simp)+

lemma nonzero_in_append [simp]: "nonzero_in (xs @ ys) \<longleftrightarrow> nonzero_in xs \<or> nonzero_in ys" "\<not> nonzero_in []"
  by (auto simp: nonzero_in_def)

lemma integer_value_0_iff:
  assumes "I = dropWhile (\<lambda>c. c = 48) (integer_digits base s)" "0 < n"
  shows "digits_value base (take n I) = 0 \<longleftrightarrow> I = []"
proof
  assume zero: "digits_value base (take n I) = 0"
  have "all_digits base (take n I)"
    using takeWhile_digits [of base s] assms(1)
    by (auto simp: integer_digits_def list_all_iff dest!: in_set_takeD set_dropWhileD)
  then have "\<forall>c \<in> set (take n I). c = 48"
    using zero digits_value_eq_0_iff by blast
  moreover have "I = [] \<or> hd I \<noteq> 48"
    using assms(1) hd_dropWhile by blast
  ultimately show "I = []"
    using assms(2) by (cases I; cases n) auto
qed simp

text \<open>
  The limits on the digits: before the point, after it, and on the zeros after the point when there is no nonzero
  digit before it.
\<close>

definition within_limits :: "base \<Rightarrow> byte list \<Rightarrow> bool" where
  "within_limits base s \<longleftrightarrow>
     (let I = dropWhile (\<lambda>c. c = 48) (integer_digits base s);
          F = fraction_digits base s;
          F' = (if I = [] then dropWhile (\<lambda>c. c = 48) F else F)
      in length I < digit_limit base \<and> length F' < digit_limit base \<and> length F - length F' < digit_limit base)"

lemma scan_fraction_part_eq:
  assumes begin_le: "begin \<le> length src" and s: "s = drop begin src"
    and I: "I = dropWhile (\<lambda>c. c = 48) (integer_digits base s)" and n: "n = mantissa_digits base"
    and limit: "length I < digit_limit base"
  shows "scan_fraction_part base src (begin + length (integer_digits base s)) (digits_value base (take n I)) (nonzero_in (drop n I))
      (int (length I - n)) (int (n - length I)) =
    Inr (if within_limits base s
      then Some (begin + mantissa_length base s, mantissa_value base s, dropped_nonzero base s, exponent_adjust base s)
      else None)"
proof -
  define p where "p = begin + length (integer_digits base s)"
  define m where "m = digits_value base (take n I)"
  define F where "F = fraction_digits base s"
  note at = has_point_at [OF begin_le s p_def]
  have m0: "m = 0 \<longleftrightarrow> I = []"
    unfolding m_def using integer_value_0_iff [OF I] n mantissa_digits_pos by simp
  have I_digits: "all_digits base I"
    using takeWhile_digits [of base s] I by (auto simp: integer_digits_def list_all_iff dest: set_dropWhileD)
  have bounds: "length I < 50000000" "n \<le> 19" "0 < n"
    using limit digit_limit_le [of base] mantissa_digits_pos [of base] by (simp_all add: n)
  show ?thesis
  proof (cases "has_point base s")
    case False
    then have F: "F = []"
      by (simp add: F_def fraction_digits_def)
    then have sig: "significant_digits base s = I"
      by (simp add: significant_digits_def F_def I)
    have "within_limits base s"
      using limit F digit_limit_pos by (simp add: within_limits_def Let_def I [symmetric] F_def [symmetric])
    then show ?thesis
      using False at(3) sig F
      by (auto simp: scan_fraction_part_def p_def [symmetric] mantissa_length_def mantissa_value_def dropped_nonzero_def
          exponent_adjust_def F_def [symmetric] n [symmetric] of_nat_diff max_def)
  next
    case True
    then have point: "p < length src" "src ! p = 46"
      using at(3) by auto
    have rest: "drop (p + 1) src = tl (dropWhile (is_digit base) s)"
      using at(2) by (metis Suc_eq_plus1 drop_Suc tl_drop)
    have F: "takeWhile (is_digit base) (drop (p + 1) src) = F"
      using True by (simp add: F_def fraction_digits_def flip: rest)
    define q where "q = (if m = 0 then skip_while (\<lambda>c. c = 48) src (p + 1) else p + 1)"
    define F' where "F' = (if m = 0 then dropWhile (\<lambda>c. c = 48) F else F)"
    have q_eq: "q = p + 1 + (if m = 0 then length (takeWhile (\<lambda>c. c = 48) (drop (p + 1) src)) else 0)"
      using point by (simp add: q_def skip_while_eq)
    have q: "q \<le> length src" "p + 1 \<le> q"
      using point length_takeWhile_le [of "\<lambda>c. c = 48" "drop (p + 1) src"] by (auto simp: q_eq)
    have F': "takeWhile (is_digit base) (drop q src) = F'"
      using F drop_past [of "p + 1" "\<lambda>c. c = 48" src] by (auto simp: q_eq F'_def dropWhile_takeWhile_digits)
    have len: "q - (p + 1) + length F' = length F"
      using length_zeros_digits [of "drop (p + 1) src" base] F by (auto simp: q_eq F'_def)
    have sig: "significant m F' = F'"
      by (simp add: significant_def F'_def)
    have all: "significant_digits base s = I @ F'"
      using I_digits m0 by (auto simp: significant_digits_def F_def [symmetric] I F'_def dropWhile_append)
    have "m < base_radix base ^ length (take n I)"
      unfolding m_def using I_digits by (intro digits_value_less) (auto simp: list_all_iff dest: in_set_takeD)
    then have "(m + 1) * base_radix base ^ (n - length I) \<le> base_radix base ^ length (take n I) * base_radix base ^ (n - length I)"
      by (intro mult_right_mono) (simp_all add: less_imp_le)
    also have "\<dots> = base_radix base ^ n"
      by (simp flip: power_add)
    also have "\<dots> \<le> 2 ^ 64"
      using mantissa_digits_fits by (simp add: n)
    finally have fits: "(m + 1) * base_radix base ^ (n - length I) \<le> type_limit U64"
      by simp
    have "0 \<le> m"
      unfolding m_def using I_digits by (intro digits_value_nonneg) (auto simp: list_all_iff dest: in_set_takeD)
    then have consume: "ConsumeDigits base U64 src q (n - length I) m (nonzero_in (drop n I)) =
        Inr (length F', mantissa_value base s, dropped_nonzero base s)"
      using ConsumeDigits_eq [OF q(1) _ _ fits F' [symmetric], of "nonzero_in (drop n I)"] mantissa_digits_small [of "n - length I" base]
      by (simp add: sig [unfolded m_def] mantissa_value_def dropped_nonzero_def all n [symmetric] digits_value_append m_def)
    have pos: "q + length F' = begin + mantissa_length base s"
      using len q True by (simp add: mantissa_length_def p_def F_def)
    have F'_le: "length F' \<le> length F" "q - Suc p \<le> length F"
      using len by simp_all
    have zeros: "q - Suc p = (if m = 0 then length F - length F' else 0)"
      using len by (auto simp: F'_def q_eq)
    have adj: "int (length I - n) - int (q - Suc p) - (if int (length F') > int (n - length I) then int (n - length I) else int (length F')) =
        exponent_adjust base s"
      using len m0 by (auto simp: exponent_adjust_def all F_def [symmetric] n [symmetric] zeros of_nat_diff max_def F'_def)
    have within: "within_limits base s \<longleftrightarrow> \<not> (m = 0 \<and> q - Suc p \<ge> digit_limit base) \<and> \<not> length F' \<ge> digit_limit base"
      using limit m0 digit_limit_pos [of base]
      by (auto simp: within_limits_def Let_def I [symmetric] F_def [symmetric] zeros F'_def not_le)
    have code: "p < length src \<and> src ! p = 46"
      using point by simp
    show ?thesis
    proof (cases "m = 0 \<and> q - Suc p \<ge> digit_limit base")
      case True
      then show ?thesis
        unfolding p_def [symmetric] m_def [symmetric] scan_fraction_part_def Let_def q_def [symmetric]
        using within code by simp
    next
      case False
      have "q - Suc p < 50000000"
        using False zeros digit_limit_le [of base] by (auto split: if_splits)
      then have check: "in_int (int (length I - n) - int (q - Suc p))"
        using bounds by (auto simp: in_int_def)
      show ?thesis
      proof (cases "length F' \<ge> digit_limit base")
        case True
        then show ?thesis
          unfolding p_def [symmetric] m_def [symmetric] scan_fraction_part_def Let_def q_def [symmetric]
          using within code False check consume by (simp add: Suc_eq_plus1 [symmetric] del: Suc_eq_plus1)
      next
        case short: False
        have "length F' < 50000000"
          using short digit_limit_le [of base] by simp
        then have "in_int (exponent_adjust base s)"
          "in_int (int (length I - n) - int (q - Suc p) - int (n - length I))" "in_int (int (length I - n) - int (q - Suc p) - int (length F'))"
          using bounds \<open>q - Suc p < 50000000\<close> adj by (auto simp: in_int_def split: if_splits)
        then show ?thesis
          unfolding p_def [symmetric] m_def [symmetric] scan_fraction_part_def Let_def q_def [symmetric]
          using within code False short check consume pos adj
          by (simp add: Suc_eq_plus1 [symmetric] del: Suc_eq_plus1 split: if_splits)
      qed
    qed
  qed
qed

lemma scan_exponent_eq:
  assumes "p \<le> length src" "exponent_parts base flags (drop p src) = (k, v, found)"
  shows "scan_exponent base src p flags = Inr (p + k, v, found)"
proof (cases "exponent_allowed flags \<and> p < length src \<and> is_exponent_char base (src ! p)")
  case False
  then have "exponent_parts base flags (drop p src) = (0, 0, False)"
    using assms(1) by (cases "p < length src") (auto simp: exponent_parts_def drop_step)
  moreover have "scan_exponent base src p flags = Inr (p, 0, False)"
    by (simp only: scan_exponent_def Let_def exponent_flags IsExponentCharacter_eq False if_False)
  ultimately show ?thesis
    using assms(2) by simp
next
  case True
  define s where "s = drop (Suc p) src"
  have e: "drop p src = src ! p # s"
    using True by (simp add: s_def drop_step)
  define signed negative where "signed \<longleftrightarrow> s \<noteq> [] \<and> (hd s = 45 \<or> hd s = 43)" and "negative \<longleftrightarrow> s \<noteq> [] \<and> hd s = 45"
  define q where "q = (if signed then p + 2 else p + 1)"
  define ds where "ds = takeWhile (is_digit Decimal) (drop q src)"
  have s_nth: "s \<noteq> [] \<longleftrightarrow> p + 1 < length src" "s \<noteq> [] \<Longrightarrow> hd s = src ! (p + 1)"
    using True by (auto simp: s_def hd_drop_conv_nth)
  have q: "q \<le> length src" "drop q src = (if signed then tl s else s)"
    using True s_nth by (auto simp: q_def signed_def s_def drop_Suc tl_drop)
  define t where "t = take 9 (dropWhile (\<lambda>c. c = 48) ds)"
  have consume: "ConsumeDigits Decimal I32 src q kDecimalExponentDigitsMax 0 False =
      Inr (length ds, digits_value Decimal t, nonzero_in (drop 9 (dropWhile (\<lambda>c. c = 48) ds)))"
    using ConsumeDigits_eq [OF q(1) _ _ _ ds_def, of 0 9 I32 False]
    by (simp add: kDecimalExponentDigitsMax_def significant_def t_def)
  have t_digits: "all_digits Decimal t" "length t \<le> 9"
    using takeWhile_digits [of Decimal "drop q src"]
    by (auto simp: t_def ds_def list_all_iff dest!: in_set_takeD set_dropWhileD)
  have "digits_value Decimal t < 10 ^ length t" "(10 :: int) ^ length t \<le> 10 ^ 9"
    using digits_value_less [OF t_digits(1)] power_increasing [OF t_digits(2), of "10 :: int"] by simp_all
  then have small: "in_int (- digits_value Decimal t)"
    using digits_value_nonneg [OF t_digits(1)] by (simp add: in_int_def)
  have parts: "exponent_parts base flags (drop p src) = (if ds = [] then (0, 0, False)
      else (q - p + length ds, if negative then - digits_value Decimal t else digits_value Decimal t, True))"
    using True q(2) by (auto simp: e exponent_parts_def Let_def signed_def [symmetric] negative_def [symmetric] q_def ds_def t_def)
  have code_negative: "p + 1 < length src \<and> src ! (p + 1) = 45 \<longleftrightarrow> negative"
    and code_signed: "(if p + 1 < length src \<and> src ! (p + 1) = 45 then p + 1 + 1
      else if p + 1 < length src \<and> src ! (p + 1) = 43 then p + 1 + 1 else p + 1) = q"
    using s_nth by (auto simp: negative_def signed_def q_def)
  have code: "scan_exponent base src p flags =
     (if ds = [] then Inr (p, digits_value Decimal t, False)
      else if negative then bind_f (check_int (- digits_value Decimal t)) (\<lambda>v. Inr (q + length ds, v, True))
      else Inr (q + length ds, digits_value Decimal t, True))"
    using True by (simp only: scan_exponent_def Let_def exponent_flags IsExponentCharacter_eq code_negative [symmetric] if_True) (simp only: code_signed consume, simp add: code_negative)
  show ?thesis
    using code parts small assms(2) t_def by (auto simp: q_def split: if_splits)
qed

text \<open>The result for a text that is no number.\<close>

definition nothing_parsed :: ParsedFloat where
  "nothing_parsed = \<lparr>pf_mantissa = 0, pf_exponent = 0, pf_literal_exponent = 0, pf_type = kNumber,
     pf_subrange_begin = None, pf_subrange_end = None, pf_end = None\<rparr>"

lemma ParsedFloat_init_eq [simp]: "ParsedFloat_init = nothing_parsed"
  by (simp add: ParsedFloat_init_def nothing_parsed_def)

text \<open>The reference result, for a number.\<close>

definition number_reference :: "base \<Rightarrow> byte list \<Rightarrow> nat \<Rightarrow> chars_format \<Rightarrow> ParsedFloat" where
  "number_reference base src begin flags =
     (let s = drop begin src; k = mantissa_length base s;
          (ek, v, found) = exponent_parts base flags (drop k s);
          m = (if base = Hexadecimal \<and> dropped_nonzero base s then mantissa_value base s OR 1 else mantissa_value base s);
          wide = (base = Decimal \<and> dropped_nonzero base s);
          complete = (found \<or> \<not> exponent_required flags)
      in if integer_digits base s = [] \<and> fraction_digits base s = [] then nothing_parsed
         else \<lparr>pf_mantissa = word_of_int m,
           pf_exponent = (if complete \<and> m \<noteq> 0 then v + digit_weight base * exponent_adjust base s else 0),
           pf_literal_exponent = v, pf_type = kNumber,
           pf_subrange_begin = (if wide then Some begin else None),
           pf_subrange_end = (if wide then Some (begin + k) else None),
           pf_end = (if complete then Some (begin + k + ek) else None)\<rparr>)"


lemma fraction_all_digits: "all_digits base (fraction_digits base s)" "all_digits base (integer_digits base s)"
  by (simp_all add: fraction_digits_def integer_digits_def takeWhile_digits)

lemma point_not_digit [simp]: "\<not> is_digit base 46"
  by (cases base) (simp_all add: kAsciiToInt_float_def)

lemma literal_prefix:
  obtains t where "s = integer_digits base s @ (if has_point base s then 46 # fraction_digits base s else []) @ t"
proof (cases "has_point base s")
  case False
  then show ?thesis
    using that [of "dropWhile (is_digit base) s"] by (simp add: integer_digits_def)
next
  case True
  then obtain r where r: "dropWhile (is_digit base) s = 46 # r"
    by (auto simp: has_point_def split: list.splits)
  have "s = integer_digits base s @ 46 # r"
    by (metis r integer_digits_def takeWhile_dropWhile_id)
  moreover have "r = fraction_digits base s @ dropWhile (is_digit base) r"
    using True by (simp add: fraction_digits_def r)
  ultimately show ?thesis
    using True that [of "dropWhile (is_digit base) r"] by simp
qed

lemma mantissa_length_le: "mantissa_length base s \<le> length s"
proof -
  obtain t where "s = integer_digits base s @ (if has_point base s then 46 # fraction_digits base s else []) @ t"
    by (rule literal_prefix)
  then have "length s = length (integer_digits base s) + length (if has_point base s then 46 # fraction_digits base s else []) + length t"
    by (metis add.assoc length_append)
  then show ?thesis
    by (simp add: mantissa_length_def)
qed

lemma no_digits:
  "mantissa_length base s = 0 \<or> mantissa_length base s = 1 \<and> hd s = 46 \<longleftrightarrow>
    integer_digits base s = [] \<and> fraction_digits base s = []"
proof -
  obtain t where s: "s = integer_digits base s @ (if has_point base s then 46 # fraction_digits base s else []) @ t"
    by (rule literal_prefix)
  have "hd s \<noteq> 46" if "integer_digits base s \<noteq> []"
  proof -
    have "hd s = hd (integer_digits base s)"
      using that s by (metis hd_append2)
    then have "is_digit base (hd s)"
      using that fraction_all_digits(2) [of base s] by (metis list.pred_set list.set_sel(1))
    then show ?thesis
      using point_not_digit by metis
  qed
  moreover have "hd s = 46" if "integer_digits base s = []" "has_point base s"
    using s that by (metis append_Nil append_Cons list.sel(1))
  moreover have "fraction_digits base s = []" if "\<not> has_point base s"
    using that by (simp add: fraction_digits_def)
  ultimately show ?thesis
    by (auto simp: mantissa_length_def)
qed

lemma significant_length:
  "length (significant_digits base s) \<le>
    length (dropWhile (\<lambda>c. c = 48) (integer_digits base s)) + length (fraction_digits base s)"
proof (cases "\<forall>c \<in> set (integer_digits base s). c = 48")
  case True
  then show ?thesis
    by (simp add: significant_digits_def dropWhile_append2 length_dropWhile_le dropWhile_eq_Nil_conv [THEN iffD2])
next
  case False
  then show ?thesis
    by (auto simp: significant_digits_def dropWhile_append)
qed

lemma significant_all_digits: "all_digits base (significant_digits base s)"
  using fraction_all_digits [of base s]
  by (auto simp: significant_digits_def list_all_iff dest!: set_dropWhileD)

lemma mantissa_value_range: "0 \<le> mantissa_value base s" "mantissa_value base s < 2 ^ 64"
proof -
  let ?t = "take (mantissa_digits base) (significant_digits base s)"
  have t: "all_digits base ?t"
    using significant_all_digits [of base s] by (auto simp: list_all_iff dest: in_set_takeD)
  show "0 \<le> mantissa_value base s"
    using digits_value_nonneg [OF t] by (simp add: mantissa_value_def)
  have "mantissa_value base s < base_radix base ^ length ?t"
    using digits_value_less [OF t] by (simp add: mantissa_value_def)
  also have "\<dots> \<le> base_radix base ^ mantissa_digits base"
    by (intro power_increasing) (simp_all add: less_imp_le)
  finally show "mantissa_value base s < 2 ^ 64"
    using mantissa_digits_fits [of base] by simp
qed

lemma mantissa_or_1_range:
  assumes "0 \<le> m" "m < 2 ^ 64"
  shows "0 \<le> m OR (1 :: int)" "m OR 1 < 2 ^ 64"
proof -
  show "0 \<le> m OR 1"
    using assms(1) by simp
  have "take_bit 64 (m OR 1) = m OR 1"
    using assms by (simp add: take_bit_or take_bit_int_eq_self)
  then show "m OR 1 < 2 ^ 64"
    by (metis take_bit_int_less_exp)
qed

lemma exponent_parts_bound:
  assumes "exponent_parts base flags s = (k, v, found)"
  shows "\<bar>v\<bar> < 10 ^ 9"
proof -
  have "\<bar>digits_value Decimal (take 9 ds)\<bar> < 10 ^ 9" if "all_digits Decimal ds" for ds
  proof -
    have t: "all_digits Decimal (take 9 ds)"
      using that by (auto simp: list_all_iff dest: in_set_takeD)
    show ?thesis
      using digits_value_nonneg [OF t] digits_value_less [OF t] power_increasing [of "length (take 9 ds)" 9 "10 :: int"]
      by simp
  qed
  moreover have "all_digits Decimal (dropWhile (\<lambda>c. c = 48) (takeWhile (is_digit Decimal) s))" for s
    using takeWhile_digits [of Decimal s] by (auto simp: list_all_iff dest!: set_dropWhileD)
  ultimately have "\<bar>digits_value Decimal (take 9 (dropWhile (\<lambda>c. c = 48) (takeWhile (is_digit Decimal) s)))\<bar> < 10 ^ 9" for s
    by blast
  then show ?thesis
    using assms by (auto simp: exponent_parts_def Let_def split: list.splits if_splits)
qed

lemma significant_count:
  assumes "within_limits base s"
  shows "- int (digit_limit base + mantissa_digits base) < exponent_adjust base s" "exponent_adjust base s \<le> int (digit_limit base)"
proof -
  define I F where "I = dropWhile (\<lambda>c. c = 48) (integer_digits base s)" and "F = fraction_digits base s"
  define F' where "F' = (if I = [] then dropWhile (\<lambda>c. c = 48) F else F)"
  have I: "length I < digit_limit base" and F: "length F - length F' < digit_limit base" and F': "length F' \<le> length F"
    using assms length_dropWhile_le [of "\<lambda>c. c = 48" F]
    by (auto simp: within_limits_def Let_def I_def [symmetric] F_def [symmetric] F'_def)
  have all: "significant_digits base s = I @ F'"
  proof (cases "I = []")
    case True
    then have "\<forall>c \<in> set (integer_digits base s). c = 48"
      by (simp add: I_def dropWhile_eq_Nil_conv)
    then show ?thesis
      using True by (simp add: significant_digits_def F_def [symmetric] F'_def dropWhile_append2)
  next
    case False
    then have "\<not> (\<forall>c \<in> set (integer_digits base s). c = 48)"
      by (simp add: I_def dropWhile_eq_Nil_conv)
    then show ?thesis
      using False by (auto simp: significant_digits_def F_def [symmetric] F'_def I_def dropWhile_append)
  qed
  then show "- int (digit_limit base + mantissa_digits base) < exponent_adjust base s" "exponent_adjust base s \<le> int (digit_limit base)"
    using I F F' by (auto simp: exponent_adjust_def F_def [symmetric])
qed

lemma scaled_adjust_bounds:
  assumes "within_limits base s"
  shows "- 50000100 < digit_weight base * exponent_adjust base s" "digit_weight base * exponent_adjust base s \<le> 50000000"
  using significant_count [OF assms] by (cases base; simp)+

section \<open>Infinities and NaNs\<close>

text \<open>
  The reference for them: the text starts with one of the words, in letters of either case; after \<open>nan\<close> a sequence of letters,
  digits and underscores in parentheses can follow.
\<close>

definition lower_case :: "byte \<Rightarrow> byte" where
  "lower_case c = (if 0x41 \<le> c \<and> c \<le> 0x5A then c + 0x20 else c)"

definition starts_with :: "string \<Rightarrow> byte list \<Rightarrow> bool" where
  "starts_with w s \<longleftrightarrow> map lower_case (take (length w) s) = map of_char w"

definition name_char :: "byte \<Rightarrow> bool" where
  "name_char c \<longleftrightarrow> c = 0x5F \<or> 0x30 \<le> c \<and> c \<le> 0x39 \<or> 0x41 \<le> c \<and> c \<le> 0x5A \<or> 0x61 \<le> c \<and> c \<le> 0x7A"

definition special_reference :: "byte list \<Rightarrow> nat \<Rightarrow> ParsedFloat option" where
  "special_reference src begin =
     (let s = drop begin src; n = length (takeWhile name_char (drop 4 s)) in
      if starts_with ''infinity'' s then Some (nothing_parsed\<lparr>pf_type := kInfinity, pf_end := Some (begin + 8)\<rparr>)
      else if starts_with ''inf'' s then Some (nothing_parsed\<lparr>pf_type := kInfinity, pf_end := Some (begin + 3)\<rparr>)
      else if starts_with ''nan('' s \<and> starts_with '')'' (drop (4 + n) s) then
        Some (nothing_parsed\<lparr>pf_type := kNan, pf_subrange_begin := Some (begin + 4),
          pf_subrange_end := Some (begin + 4 + n), pf_end := Some (begin + 5 + n)\<rparr>)
      else if starts_with ''nan'' s then Some (nothing_parsed\<lparr>pf_type := kNan, pf_end := Some (begin + 3)\<rparr>)
      else None)"

lemma ascii_tolower_lower_case: "ascii_tolower c = lower_case c"
  by (simp add: ascii_tolower_eq lower_case_def ascii_code_ranges word_le_nat_alt)

lemma starts_with_Nil [simp]: "starts_with [] s"
  by (simp add: starts_with_def)

lemma starts_with_Cons [simp]: "starts_with (w # ws) (c # s) \<longleftrightarrow> lower_case c = of_char w \<and> starts_with ws s"
  "\<not> starts_with (w # ws) []"
  by (simp_all add: starts_with_def)

lemma differs_at_eq:
  "p + length w \<le> length src \<Longrightarrow> \<forall>c \<in> set w. lower_case (of_char c) = of_char c \<Longrightarrow>
    differs_at src p w = Inr (\<not> starts_with w (drop p src))"
proof (induction src p w rule: differs_at.induct)
  case (2 src p w ws)
  then have "drop p src = src ! p # drop (Suc p) src"
    by (intro drop_step) simp
  then show ?case
    using 2 by (simp add: ascii_tolower_lower_case)
qed simp

lemma IsNanChar_eq: "IsNanChar = name_char"
  by (auto simp: fun_eq_iff IsNanChar_def name_char_def)

lemma starts_with_length: "starts_with w s \<Longrightarrow> length w \<le> length s"
  unfolding starts_with_def by (drule arg_cong [of _ _ length]) simp

lemma starts_with_append: "starts_with (v @ w) s \<longleftrightarrow> starts_with v s \<and> starts_with w (drop (length v) s)"
proof (induction v arbitrary: s)
  case (Cons a v)
  then show ?case by (cases s) simp_all
qed simp

text \<open>What the first character says.\<close>

lemma lower_case_iff:
  "lower_case c = 105 \<longleftrightarrow> c = 105 \<or> c = 73" "lower_case c = 110 \<longleftrightarrow> c = 110 \<or> c = 78"
  "lower_case c = 40 \<longleftrightarrow> c = 40" "lower_case c = 41 \<longleftrightarrow> c = 41"
  by (auto simp: lower_case_def word_le_nat_alt word_unat_eq_iff unat_word_ariths)

lemma starts_with_at:
  assumes "p \<le> length src"
  shows "starts_with [w] (drop p src) \<longleftrightarrow> p < length src \<and> lower_case (src ! p) = of_char w"
  using assms drop_step [of p src] by (cases "p < length src") simp_all

lemma ParseInfinityOrNan_eq:
  assumes "begin \<le> length src"
  shows "ParseInfinityOrNan src begin nothing_parsed = Inr (case special_reference src begin of
    None \<Rightarrow> (False, nothing_parsed) | Some r \<Rightarrow> (True, r))"
proof (cases "length src - begin < 3")
  case True
  then have "length (drop begin src) < 3"
    by simp
  then have "\<not> starts_with w (drop begin src)" if "3 \<le> length w" for w
    using that starts_with_length [of w "drop begin src"] by linarith
  then show ?thesis
    using True by (simp add: ParseInfinityOrNan_def special_reference_def Let_def)
next
  case long: False
  define s where "s = drop begin src"
  define c where "c = src ! begin"
  have "begin < length src" and rd: "rd src begin = Inr c"
    using long by (simp_all add: c_def)
  then have s: "s = c # drop (begin + 1) src"
    by (simp add: s_def c_def drop_step)
  have rest: "drop 3 s = drop (begin + 3) src" "drop (4 + n) s = drop (begin + 4 + n) src" for n
    by (simp_all add: s_def add_ac)
  define nf inity an where "nf = starts_with ''nf'' (drop (begin + 1) src)"
    and "inity = starts_with ''inity'' (drop (begin + 3) src)" and "an = starts_with ''an'' (drop (begin + 1) src)"
  have inf: "starts_with ''inf'' s \<longleftrightarrow> lower_case c = 105 \<and> nf"
    by (simp add: s nf_def)
  moreover have "starts_with ''infinity'' s \<longleftrightarrow> starts_with ''inf'' s \<and> inity"
    using starts_with_append [of "''inf''" "''inity''" s] rest(1) by (simp add: inity_def numeral_3_eq_3)
  moreover have nan: "starts_with ''nan'' s \<longleftrightarrow> lower_case c = 110 \<and> an"
    by (simp add: s an_def)
  moreover have "starts_with ''nan('' s \<longleftrightarrow> starts_with ''nan'' s \<and> begin + 3 < length src \<and> src ! (begin + 3) = 40"
    using starts_with_append [of "''nan''" "''(''" s] starts_with_at [of "begin + 3" src "CHR ''(''"] long
    using rest(1) by (simp add: lower_case_iff numeral_3_eq_3)
  ultimately have words:
    "starts_with ''inf'' s \<longleftrightarrow> (c = 105 \<or> c = 73) \<and> nf" "starts_with ''infinity'' s \<longleftrightarrow> (c = 105 \<or> c = 73) \<and> nf \<and> inity"
    "starts_with ''nan'' s \<longleftrightarrow> (c = 110 \<or> c = 78) \<and> an"
    "starts_with ''nan('' s \<longleftrightarrow> ((c = 110 \<or> c = 78) \<and> an) \<and> begin + 3 < length src \<and> src ! (begin + 3) = 40"
    unfolding lower_case_iff by blast+
  have differs: "differs_at src (begin + 1) ''nf'' = Inr (\<not> nf)" "differs_at src (begin + 1) ''an'' = Inr (\<not> an)"
    using long by (subst differs_at_eq; simp add: nf_def an_def lower_case_def)+
  have inity: "(if length src - begin \<ge> 8 then bind_f (differs_at src (begin + 3) ''inity'') (\<lambda>differs. Inr (\<not> differs))
      else Inr False) = Inr inity"
  proof (cases "length src - begin \<ge> 8")
    case True
    then show ?thesis
      by (subst differs_at_eq) (simp_all add: inity_def lower_case_def)
  next
    case False
    then have "\<not> inity"
      using starts_with_length [of "''inity''" "drop (begin + 3) src"] by (auto simp: inity_def)
    then show ?thesis
      using False by simp
  qed
  define n where "n = length (takeWhile name_char (drop 4 s))"
  have n: "begin + 3 < length src \<Longrightarrow> skip_while IsNanChar src (begin + 3 + 1) = begin + 4 + n"
    using skip_while_eq [of "begin + 4" src name_char] rest(2) [of 0] by (simp add: IsNanChar_eq n_def add.commute)
  have closed: "begin + 3 < length src \<Longrightarrow>
      starts_with '')'' (drop (4 + n) s) \<longleftrightarrow> begin + 4 + n < length src \<and> src ! (begin + 4 + n) = 41"
  proof -
    assume "begin + 3 < length src"
    moreover have "n \<le> length (drop 4 s)"
      unfolding n_def by (rule length_takeWhile_le)
    ultimately have "begin + 4 + n \<le> length src"
      by (simp add: s_def)
    then show ?thesis
      unfolding rest(2) by (simp add: starts_with_at lower_case_iff)
  qed
  have code: "ParseInfinityOrNan src begin nothing_parsed = Inr (
     if c = 105 \<or> c = 73 then
       (if \<not> nf then (False, nothing_parsed)
        else (True, nothing_parsed\<lparr>pf_type := kInfinity, pf_end := Some (if inity then begin + 8 else begin + 3)\<rparr>))
     else if c = 110 \<or> c = 78 then
       (if \<not> an then (False, nothing_parsed)
        else if begin + 3 < length src \<and> src ! (begin + 3) = 40 \<and> starts_with '')'' (drop (4 + n) s)
        then (True, nothing_parsed\<lparr>pf_type := kNan, pf_subrange_begin := Some (begin + 4),
          pf_subrange_end := Some (begin + 4 + n), pf_end := Some (begin + 5 + n)\<rparr>)
        else (True, nothing_parsed\<lparr>pf_type := kNan, pf_end := Some (begin + 3)\<rparr>))
     else (False, nothing_parsed))"
    unfolding ParseInfinityOrNan_def Let_def rd differs inity bind_f_simps
    using long n closed by (auto simp: nothing_parsed_def)
  have distinct: "(c = 105 \<or> c = 73) \<Longrightarrow> \<not> (c = 110 \<or> c = 78)"
    by auto
  show ?thesis
    unfolding code special_reference_def Let_def s_def [symmetric] n_def [symmetric] words
    using distinct by (auto simp: nothing_parsed_def)
qed

definition ParseFloat_reference :: "base \<Rightarrow> byte list \<Rightarrow> nat \<Rightarrow> chars_format \<Rightarrow> ParsedFloat" where
  "ParseFloat_reference base src begin flags =
     (case special_reference src begin of
        Some r \<Rightarrow> r
      | None \<Rightarrow> if within_limits base (drop begin src) then number_reference base src begin flags
         else nothing_parsed)"

lemma ParseFloat_number:
  assumes "begin \<le> length src" "s = drop begin src"
    and "special_reference src begin = None"
  shows "ParseFloat base src begin flags =
    Inr (if within_limits base s then number_reference base src begin flags else nothing_parsed)"
proof (cases "begin = length src")
  case True
  then show ?thesis
    by (simp add: ParseFloat_def number_reference_def integer_digits_def fraction_digits_def has_point_def split: prod.split)
next
  case False
  note nonempty = False
  define k where "k = mantissa_length base s"
  obtain ek v found where parts: "exponent_parts base flags (drop k s) = (ek, v, found)"
    by (cases "exponent_parts base flags (drop k s)") auto
  have special: "ParseInfinityOrNan src begin nothing_parsed = Inr (False, nothing_parsed)"
    using ParseInfinityOrNan_eq [OF assms(1)] assms(3) by simp
  have "hd s = src ! begin"
    using False assms(1,2) by (simp add: hd_drop_conv_nth)
  then have absent: "k = 0 \<or> k = 1 \<and> src ! begin = 46 \<longleftrightarrow> integer_digits base s = [] \<and> fraction_digits base s = []"
    using no_digits [of base s] by (simp add: k_def)
  have k_le: "begin + k \<le> length src"
    using mantissa_length_le [of base s] assms(1,2) by (simp add: k_def)
  define m where "m = (if base = Hexadecimal \<and> dropped_nonzero base s then mantissa_value base s OR 1 else mantissa_value base s)"
  have m: "0 \<le> m" "m < 2 ^ 64"
    using mantissa_value_range [of base s] mantissa_or_1_range [of "mantissa_value base s"] by (auto simp: m_def)
  have m_pos: "(0 :: 64 word) < word_of_int m \<longleftrightarrow> m \<noteq> 0"
  proof -
    have "uint (word_of_int m :: 64 word) = m"
      using m by (simp add: uint_word_of_int take_bit_int_eq_self)
    then show ?thesis
      by (metis word_gt_0 uint_0_iff)
  qed
  have adj: "- 100000000 \<le> digit_weight base * exponent_adjust base s" "digit_weight base * exponent_adjust base s \<le> 100000000"
    if within: "within_limits base s"
  proof -
    show "- 100000000 \<le> digit_weight base * exponent_adjust base s" "digit_weight base * exponent_adjust base s \<le> 100000000"
      using scaled_adjust_bounds [OF within] by simp_all
  qed
  have checks: "in_int (digit_weight base * exponent_adjust base s)" "in_int (v + digit_weight base * exponent_adjust base s)"
    if "within_limits base s"
    using adj [OF that] exponent_parts_bound [OF parts] by (auto simp: in_int_def)
  have scan_e: "scan_exponent base src (begin + k) flags = Inr (begin + k + ek, v, found)"
    using scan_exponent_eq [OF k_le] parts assms(2) by (simp add: add.commute)
  let ?I = "dropWhile (\<lambda>c. c = 48) (integer_digits base s)"
  have int_part: "scan_integer_part base src begin = Inr (if length ?I \<ge> digit_limit base then None
      else Some (begin + length (integer_digits base s),
      digits_value base (take (mantissa_digits base) ?I), nonzero_in (drop (mantissa_digits base) ?I),
      int (length ?I - mantissa_digits base), int (mantissa_digits base - length ?I)))"
    by (rule scan_integer_part_eq [OF assms(1,2) refl refl])
  show ?thesis
  proof (cases "within_limits base s")
    case beyond: False
    then show ?thesis
      using nonempty special int_part scan_fraction_part_eq [OF assms(1,2) refl refl, of base]
      by (cases "digit_limit base \<le> length ?I") (simp_all add: ParseFloat_def Let_def)
  next
    case within: True
    then have limit: "length ?I < digit_limit base"
      by (simp add: within_limits_def Let_def)
    have frac_part: "scan_fraction_part base src (begin + length (integer_digits base s))
        (digits_value base (take (mantissa_digits base) ?I)) (nonzero_in (drop (mantissa_digits base) ?I))
        (int (length ?I - mantissa_digits base)) (int (mantissa_digits base - length ?I)) =
      Inr (Some (begin + k, mantissa_value base s, dropped_nonzero base s, exponent_adjust base s))"
      using scan_fraction_part_eq [OF assms(1,2) refl refl limit] within by (simp add: k_def)
    have "ParseFloat base src begin flags =
       (if begin = begin + k then Inr nothing_parsed
        else if begin + k - begin = 1 \<and> src ! begin = 46 then Inr nothing_parsed
        else let wide = (base = Decimal \<and> dropped_nonzero base s);
            result = nothing_parsed\<lparr>pf_mantissa := word_of_int m, pf_subrange_begin := (if wide then Some begin else None),
              pf_subrange_end := (if wide then Some (begin + k) else None), pf_literal_exponent := v\<rparr>
          in if \<not> found \<and> exponent_required flags then Inr result
             else if m \<noteq> 0 then Inr (result\<lparr>pf_exponent := v + digit_weight base * exponent_adjust base s, pf_end := Some (begin + k + ek)\<rparr>)
             else Inr (result\<lparr>pf_exponent := 0, pf_end := Some (begin + k + ek)\<rparr>))"
      using nonempty special int_part limit frac_part scan_e checks [OF within] m_pos
      by (cases base; cases "dropped_nonzero base s") (simp_all add: ParseFloat_def Let_def m_def nothing_parsed_def)
    moreover define nope where "nope \<longleftrightarrow> integer_digits base s = [] \<and> fraction_digits base s = []"
    moreover have "number_reference base src begin flags =
       (let wide = (base = Decimal \<and> dropped_nonzero base s); complete = (found \<or> \<not> exponent_required flags)
        in if nope then nothing_parsed
           else \<lparr>pf_mantissa = word_of_int m,
             pf_exponent = (if complete \<and> m \<noteq> 0 then v + digit_weight base * exponent_adjust base s else 0),
             pf_literal_exponent = v, pf_type = kNumber,
             pf_subrange_begin = (if wide then Some begin else None),
             pf_subrange_end = (if wide then Some (begin + k) else None),
             pf_end = (if complete then Some (begin + k + ek) else None)\<rparr>)"
      unfolding number_reference_def Let_def assms(2) [symmetric] k_def [symmetric] parts m_def [symmetric] nope_def [symmetric]
      by simp
    moreover have "k = 0 \<or> k = 1 \<and> src ! begin = 46 \<longleftrightarrow> nope"
      unfolding nope_def by (rule absent)
    ultimately show ?thesis
      using within by (cases nope) (auto simp: Let_def nothing_parsed_def)
  qed
qed

text \<open>The scanner is the reference, on every text; so it always returns.\<close>

theorem ParseFloat_eq:
  assumes "begin \<le> length src"
  shows "ParseFloat base src begin flags = Inr (ParseFloat_reference base src begin flags)"
proof (cases "special_reference src begin")
  case None
  then show ?thesis
    using ParseFloat_number [OF assms refl] by (simp add: ParseFloat_reference_def)
next
  case (Some r)
  then have "begin \<noteq> length src"
    by (auto simp: special_reference_def Let_def)
  then show ?thesis
    using Some ParseInfinityOrNan_eq [OF assms] by (simp add: ParseFloat_def ParseFloat_reference_def)
qed

end
