(* ===== verification/Big_Unsigned_Facts.thy ===== *)
theory Big_Unsigned_Facts
  imports Big_Unsigned_Text Parse_Float_Results
begin

text \<open>
  The properties of the large integers and of the scanner of floating-point numbers.
\<close>

text \<open>
  Claim C33. The operations of \<open>BigUnsigned\<close> with words, shifts and small powers compute what they are named after modulo
  \<open>2 ^ (32 * max_words)\<close>, stay inside the array and keep the representation invariant; division by a word gives quotient and
  remainder.
\<close>

theorem BigUnsigned_arithmetic:
  assumes "big_ok N b" "0 \<le> n" "d \<noteq> 0"
  shows "returns (MultiplyBy_u32 v b) (computes N (big_value b * uint v mod 2 ^ (32 * N))) \<and>
    returns (MultiplyBy_u64 w b) (computes N (big_value b * uint w mod 2 ^ (32 * N))) \<and>
    returns (AddWithCarry_u32 0 v b) (computes N ((big_value b + uint v) mod 2 ^ (32 * N))) \<and>
    returns (ShiftLeft n b) (computes N (big_value b * 2 ^ nat n mod 2 ^ (32 * N))) \<and>
    returns (MultiplyByFiveToTheNth n b) (computes N (big_value b * 5 ^ nat n mod 2 ^ (32 * N))) \<and>
    returns (MultiplyByTenToTheNth n b) (computes N (big_value b * 10 ^ nat n mod 2 ^ (32 * N))) \<and>
    returns (DivMod d b) (\<lambda>(r, b'). computes N (big_value b div uint d) b' \<and> uint r = big_value b mod uint d)"
proof (intro conjI)
  show "returns (DivMod d b) (\<lambda>(r, b'). computes N (big_value b div uint d) b' \<and> uint r = big_value b mod uint d)"
    using DivMod_computes [OF assms(1,3)] by (rule returns_mono) auto
qed (intro MultiplyBy_u32_computes MultiplyBy_u64_computes AddWithCarry_u32_computes ShiftLeft_computes
    MultiplyByFiveToTheNth_computes MultiplyByTenToTheNth_computes assms)+

theorem BigUnsigned_arithmetic_witness:
  "returns (MultiplyByTenToTheNth 10 (BigUnsigned_of_u64 4 7)) (computes 4 70000000000)"
  using BigUnsigned_arithmetic [of 4 "BigUnsigned_of_u64 4 7" 10 1] BigUnsigned_of_u64_computes [of 4 7] by simp

text \<open>
  Claim C34. The product of two large integers, computed in place from the highest word down, is the product modulo
  \<open>2 ^ (32 * max_words)\<close>, except when the other operand has size 0: then the loop starts one step too low, and the highest
  word of \<open>*this\<close> keeps its value instead of becoming 0.
\<close>

theorem BigUnsigned_product:
  assumes "big_ok N b" "big_ok M other" "M \<le> 84"
  shows "returns (MultiplyBy_big other b) (computes N
    (if bu_size other = 0 \<and> bu_size b \<noteq> 0 then 2 ^ (32 * (bu_size b - 1)) * uint (bu_words b ! (bu_size b - 1))
     else big_value b * big_value other mod 2 ^ (32 * N)))"
proof (cases "bu_size other = 0 \<and> bu_size b \<noteq> 0")
  case True
  then show ?thesis
    using MultiplyBy_big_zero [OF assms(1), of other "bu_size b - 1"] by simp
next
  case False
  then show ?thesis
    using MultiplyBy_big_computes [OF assms(1,2)] assms(3) by auto
qed

theorem BigUnsigned_product_witness:
  "returns (MultiplyBy_big (BigUnsigned_of_u64 4 6000000000) (BigUnsigned_of_u64 84 7000000000)) (computes 84 42000000000000000000) \<and>
    returns (MultiplyBy_big (BigUnsigned_zero 4) (BigUnsigned_of_u64 4 7)) (computes 4 7)"
  using BigUnsigned_product [of 84 "BigUnsigned_of_u64 84 7000000000" 4 "BigUnsigned_of_u64 4 6000000000"]
    BigUnsigned_product [of 4 "BigUnsigned_of_u64 4 7" 4 "BigUnsigned_zero 4"]
    BigUnsigned_of_u64_computes [of 4 6000000000] BigUnsigned_of_u64_computes [of 84 7000000000] BigUnsigned_of_u64_computes [of 4 7]
    BigUnsigned_zero_computes [of 4]
  by (auto simp: BigUnsigned_of_u64_def BigUnsigned_zero_def)

lemma FiveToTheNth_overruns:
  assumes "81 \<le> n"
  shows "FiveToTheNth 4 n = Inl Buffer_overrun"
proof -
  define p where "p = min (n div 27) 20"
  have "3 \<le> p"
    using assms by (simp add: p_def)
  then have "\<not> nat (2 * p) \<le> 4"
    by simp
  then show ?thesis
    using assms
    by (simp add: FiveToTheNth_def five_loop.simps [of n] kLargePowerOfFiveStep_def kLargestPowerOfFiveIndex_def Let_def
        p_def [symmetric] copy_words_def LargePowerOfFiveSize_def BigUnsigned_of_u64_def)
qed

text \<open>
  Claim C35. \<open>FiveToTheNth\<close> is the power, modulo \<open>2 ^ (32 * max_words)\<close>, for both sizes of the class as long as the table entry
  that it copies fits; for the small size and exponents from 81 on the copy runs past the array.
\<close>

theorem FiveToTheNth_power:
  assumes "0 \<le> n"
  shows "returns (FiveToTheNth 84 n) (computes 84 (5 ^ nat n mod 2 ^ 2688)) \<and>
    (if n < 81 then returns (FiveToTheNth 4 n) (computes 4 (5 ^ nat n mod 2 ^ 128))
     else FiveToTheNth 4 n = Inl Buffer_overrun)"
  using FiveToTheNth_computes [of 84 n] FiveToTheNth_computes [of 4 n] FiveToTheNth_overruns [of n] assms by simp

theorem FiveToTheNth_power_witness:
  "returns (FiveToTheNth 4 3) (computes 4 (5 ^ 3 mod 2 ^ 128)) \<and> FiveToTheNth 4 81 = Inl Buffer_overrun"
  using FiveToTheNth_power [of 3] FiveToTheNth_power [of 81] by simp

text \<open>
  Claim C36. Comparison and equality are those of the values, also between different sizes.
\<close>

theorem BigUnsigned_comparison:
  assumes "big_ok N lhs" "big_ok M rhs"
  shows "Compare lhs rhs = Inr (if big_value lhs < big_value rhs then - 1 else if big_value lhs > big_value rhs then 1 else 0) \<and>
    big_eq lhs rhs = Inr (big_value lhs = big_value rhs) \<and> big_less lhs rhs = Inr (big_value lhs < big_value rhs) \<and>
    big_le lhs rhs = Inr (big_value lhs \<le> big_value rhs)"
  by (intro conjI Compare_correct [OF assms] big_eq_correct [OF assms] comparison_operators_correct [OF assms])

theorem BigUnsigned_comparison_witness:
  "big_less (BigUnsigned_of_u64 4 6) (BigUnsigned_of_u64 84 7) = Inr True"
  using BigUnsigned_comparison [of 4 "BigUnsigned_of_u64 4 6" 84 "BigUnsigned_of_u64 84 7"]
    BigUnsigned_of_u64_computes [of 4 6] BigUnsigned_of_u64_computes [of 84 7] by simp

lemma decimal_all_digits: "all_digits Decimal (decimal n)"
  using decimal_char_range by (force simp: list_all_iff word_le_nat_alt)

lemma digits_value_single: "digits_value base [c] = digit_number base c"
  using digits_value_snoc [of base "[]" c] by simp

lemma dval_decimal: "dval (decimal n) = int n"
proof (induction n rule: decimal.induct)
  case (1 n)
  have "digit_number Decimal (digit_char d) = int d" if "d < 10" for d
    using that by (simp add: unat_digit_char)
  moreover have "int (n div 10) * 10 + int (n mod 10) = int n"
    by presburger
  ultimately show ?case
    using 1 by (auto simp: decimal.simps [of n] digits_value_single simp del: digit_number.simps)
qed

lemma digits10_fits: "N = 4 \<or> N = 84 \<Longrightarrow> 10 ^ Digits10 N < (2 :: int) ^ (32 * N)"
  by (auto simp: Digits10_def)

text \<open>
  Claim C37. \<open>ToString\<close> prints the decimal digits, and a large integer constructed from them has the value again, for
  values of at most \<open>Digits10\<close> digits.
\<close>

theorem BigUnsigned_text_roundtrip:
  assumes "big_ok N b" "N = 4 \<or> N = 84" "big_value b < 10 ^ Digits10 N"
  shows "ToString b = Inr (decimal (nat (big_value b))) \<and>
    returns (BigUnsigned_of_string N (decimal (nat (big_value b)))) (computes N (big_value b))"
proof
  show "ToString b = Inr (decimal (nat (big_value b)))"
    by (rule ToString_prints [OF assms(1)])
  define t where "t = decimal (nat (big_value b))"
  have val: "dval t = big_value b"
    by (simp add: t_def dval_decimal)
  have fits: "big_value b < 2 ^ (32 * N)"
    using assms(3) digits10_fits [OF assms(2)] by simp
  have "length t \<le> Digits10 N"
    unfolding t_def using assms(2,3) by (intro length_decimal) (auto simp: Digits10_def nat_less_iff)
  moreover from this have short: "length t < 2 ^ 31"
    using assms(2) by (auto simp: Digits10_def)
  ultimately obtain b' e where read: "ReadDigits t (int (Digits10 N) + 1) (BigUnsigned_zero N) = Inr (b', e)" and "big_ok N b'" "0 \<le> e"
    and eq: "big_value b' * 10 ^ nat e = big_value b"
    using ReadDigits_correct [of N "BigUnsigned_zero N" t t "[]" "int (Digits10 N) + 1"] decimal_all_digits fits val short
    by (auto simp: returns_iff number_text_def t_def)
  have "list_all ascii_isdigit t" "t \<noteq> []"
    unfolding t_def using decimal_char_range by (auto simp: list_all_iff ascii_code_ranges word_le_nat_alt)
  then show "returns (BigUnsigned_of_string N (decimal (nat (big_value b)))) (computes N (big_value b))"
    using read \<open>0 \<le> e\<close> \<open>big_ok N b'\<close> eq fits MultiplyByTenToTheNth_computes [OF \<open>big_ok N b'\<close> \<open>0 \<le> e\<close>]
    by (cases "e = 0") (auto simp: BigUnsigned_of_string_def t_def [symmetric])
qed

theorem BigUnsigned_text_roundtrip_witness:
  "returns (BigUnsigned_of_string 4 (decimal 12300)) (computes 4 12300)"
  using BigUnsigned_text_roundtrip [of 4 "BigUnsigned_of_u64 4 12300"] BigUnsigned_of_u64_computes [of 4 12300]
  by (simp add: Digits10_def)

end
