(* ===== verification/Charconv.thy ===== *)
theory Charconv
  imports Big_Unsigned Int128
begin

text \<open>
  Conversion of decimal and hexadecimal literals to binary floating-point numbers, \<open>absl/strings/charconv.h\<close> and
  \<open>charconv.cc\<close>.

  The template argument \<open>FloatType\<close> is a value of \<open>float_format\<close>, and a floating-point number is its bits, those of a
  \<open>float\<close> in the lower half of 64. The code is that for x86-64, with \<open>ABSL_BIT_PACK_FLOATS\<close>. The C library's \<open>nan\<close> and
  \<open>nanf\<close>, whose result is implementation-defined, are a parameter. A pointer is a position in the text \<open>src\<close>.
\<close>

section \<open>Floating-point formats\<close>

datatype float_format = Double | Float

primrec kTargetMantissaBits :: "float_format \<Rightarrow> int" where
  "kTargetMantissaBits Double = 53"
| "kTargetMantissaBits Float = 24"

primrec kMaxExponent :: "float_format \<Rightarrow> int" where
  "kMaxExponent Double = 971"
| "kMaxExponent Float = 104"

primrec kMinNormalExponent :: "float_format \<Rightarrow> int" where
  "kMinNormalExponent Double = - 1074"
| "kMinNormalExponent Float = - 149"

primrec Make :: "float_format \<Rightarrow> 64 word \<Rightarrow> int \<Rightarrow> bool \<Rightarrow> fault + 64 word" where
  "Make Double mantissa exponent sign =
     (let kMantissaMask = push_bit 52 1 - 1;
          dbl = push_bit 63 (of_bool sign)
      in if mantissa > kMantissaMask then
           Inr (dbl + push_bit 52 (ucast (word_of_int exponent + 1023 + 53 - 1 :: 32 word)) + (mantissa AND kMantissaMask))
         else bind_f (assert_f (exponent = - 1074)) (\<lambda>_. Inr (dbl + mantissa)))"
| "Make Float mantissa exponent sign =
     (let mantissa = ucast mantissa :: 32 word;
          kMantissaMask = push_bit 23 1 - 1;
          flt = push_bit 31 (of_bool sign)
      in if mantissa > kMantissaMask then
           Inr (ucast (flt + push_bit 23 (word_of_int exponent + 127 + 24 - 1) + (mantissa AND kMantissaMask)))
         else bind_f (assert_f (exponent = - 149)) (\<lambda>_. Inr (ucast (flt + mantissa))))"

text \<open>The constants of \<open>std::numeric_limits\<close>, and the unary minus.\<close>

primrec infinity_bits :: "float_format \<Rightarrow> 64 word" where
  "infinity_bits Double = 0x7FF0000000000000"
| "infinity_bits Float = 0x7F800000"

primrec max_bits :: "float_format \<Rightarrow> 64 word" where
  "max_bits Double = 0x7FEFFFFFFFFFFFFF"
| "max_bits Float = 0x7F7FFFFF"

primrec minus_bits :: "float_format \<Rightarrow> 64 word \<Rightarrow> 64 word" where
  "minus_bits Double x = x XOR 0x8000000000000000"
| "minus_bits Float x = x XOR 0x80000000"

definition signed_bits :: "float_format \<Rightarrow> bool \<Rightarrow> 64 word \<Rightarrow> 64 word" where
  "signed_bits ft negative x = (if negative then minus_bits ft x else x)"

section \<open>Powers of ten\<close>

definition kPower10TableMin :: int where "kPower10TableMin = - 342"
definition kPower10TableMax :: int where "kPower10TableMax = 308"

text \<open>The tables are in seven blocks, cut at \<open>10 ^ (-228)\<close>, \<open>10 ^ (-114)\<close>, \<open>10 ^ (0)\<close>, \<open>10 ^ (28)\<close>, \<open>10 ^ (122)\<close>, \<open>10 ^ (216)\<close>.\<close>

definition mantissas_1 :: "int list" where
  "mantissas_1 = [
     0xeef453d6923bd65a, 0x9558b4661b6565f8, 0xbaaee17fa23ebf76, 0xe95a99df8ace6f53,
     0x91d8a02bb6c10594, 0xb64ec836a47146f9, 0xe3e27a444d8d98b7, 0x8e6d8c6ab0787f72,
     0xb208ef855c969f4f, 0xde8b2b66b3bc4723, 0x8b16fb203055ac76, 0xaddcb9e83c6b1793,
     0xd953e8624b85dd78, 0x87d4713d6f33aa6b, 0xa9c98d8ccb009506, 0xd43bf0effdc0ba48,
     0x84a57695fe98746d, 0xa5ced43b7e3e9188, 0xcf42894a5dce35ea, 0x818995ce7aa0e1b2,
     0xa1ebfb4219491a1f, 0xca66fa129f9b60a6, 0xfd00b897478238d0, 0x9e20735e8cb16382,
     0xc5a890362fddbc62, 0xf712b443bbd52b7b, 0x9a6bb0aa55653b2d, 0xc1069cd4eabe89f8,
     0xf148440a256e2c76, 0x96cd2a865764dbca, 0xbc807527ed3e12bc, 0xeba09271e88d976b,
     0x93445b8731587ea3, 0xb8157268fdae9e4c, 0xe61acf033d1a45df, 0x8fd0c16206306bab,
     0xb3c4f1ba87bc8696, 0xe0b62e2929aba83c, 0x8c71dcd9ba0b4925, 0xaf8e5410288e1b6f,
     0xdb71e91432b1a24a, 0x892731ac9faf056e, 0xab70fe17c79ac6ca, 0xd64d3d9db981787d,
     0x85f0468293f0eb4e, 0xa76c582338ed2621, 0xd1476e2c07286faa, 0x82cca4db847945ca,
     0xa37fce126597973c, 0xcc5fc196fefd7d0c, 0xff77b1fcbebcdc4f, 0x9faacf3df73609b1,
     0xc795830d75038c1d, 0xf97ae3d0d2446f25, 0x9becce62836ac577, 0xc2e801fb244576d5,
     0xf3a20279ed56d48a, 0x9845418c345644d6, 0xbe5691ef416bd60c, 0xedec366b11c6cb8f,
     0x94b3a202eb1c3f39, 0xb9e08a83a5e34f07, 0xe858ad248f5c22c9, 0x91376c36d99995be,
     0xb58547448ffffb2d, 0xe2e69915b3fff9f9, 0x8dd01fad907ffc3b, 0xb1442798f49ffb4a,
     0xdd95317f31c7fa1d, 0x8a7d3eef7f1cfc52, 0xad1c8eab5ee43b66, 0xd863b256369d4a40,
     0x873e4f75e2224e68, 0xa90de3535aaae202, 0xd3515c2831559a83, 0x8412d9991ed58091,
     0xa5178fff668ae0b6, 0xce5d73ff402d98e3, 0x80fa687f881c7f8e, 0xa139029f6a239f72,
     0xc987434744ac874e, 0xfbe9141915d7a922, 0x9d71ac8fada6c9b5, 0xc4ce17b399107c22,
     0xf6019da07f549b2b, 0x99c102844f94e0fb, 0xc0314325637a1939, 0xf03d93eebc589f88,
     0x96267c7535b763b5, 0xbbb01b9283253ca2, 0xea9c227723ee8bcb, 0x92a1958a7675175f,
     0xb749faed14125d36, 0xe51c79a85916f484, 0x8f31cc0937ae58d2, 0xb2fe3f0b8599ef07,
     0xdfbdcece67006ac9, 0x8bd6a141006042bd, 0xaecc49914078536d, 0xda7f5bf590966848,
     0x888f99797a5e012d, 0xaab37fd7d8f58178, 0xd5605fcdcf32e1d6, 0x855c3be0a17fcd26,
     0xa6b34ad8c9dfc06f, 0xd0601d8efc57b08b, 0x823c12795db6ce57, 0xa2cb1717b52481ed,
     0xcb7ddcdda26da268, 0xfe5d54150b090b02, 0x9efa548d26e5a6e1, 0xc6b8e9b0709f109a,
     0xf867241c8cc6d4c0, 0x9b407691d7fc44f8]"

definition mantissas_2 :: "int list" where
  "mantissas_2 = [
     0xc21094364dfb5636, 0xf294b943e17a2bc4, 0x979cf3ca6cec5b5a, 0xbd8430bd08277231,
     0xece53cec4a314ebd, 0x940f4613ae5ed136, 0xb913179899f68584, 0xe757dd7ec07426e5,
     0x9096ea6f3848984f, 0xb4bca50b065abe63, 0xe1ebce4dc7f16dfb, 0x8d3360f09cf6e4bd,
     0xb080392cc4349dec, 0xdca04777f541c567, 0x89e42caaf9491b60, 0xac5d37d5b79b6239,
     0xd77485cb25823ac7, 0x86a8d39ef77164bc, 0xa8530886b54dbdeb, 0xd267caa862a12d66,
     0x8380dea93da4bc60, 0xa46116538d0deb78, 0xcd795be870516656, 0x806bd9714632dff6,
     0xa086cfcd97bf97f3, 0xc8a883c0fdaf7df0, 0xfad2a4b13d1b5d6c, 0x9cc3a6eec6311a63,
     0xc3f490aa77bd60fc, 0xf4f1b4d515acb93b, 0x991711052d8bf3c5, 0xbf5cd54678eef0b6,
     0xef340a98172aace4, 0x9580869f0e7aac0e, 0xbae0a846d2195712, 0xe998d258869facd7,
     0x91ff83775423cc06, 0xb67f6455292cbf08, 0xe41f3d6a7377eeca, 0x8e938662882af53e,
     0xb23867fb2a35b28d, 0xdec681f9f4c31f31, 0x8b3c113c38f9f37e, 0xae0b158b4738705e,
     0xd98ddaee19068c76, 0x87f8a8d4cfa417c9, 0xa9f6d30a038d1dbc, 0xd47487cc8470652b,
     0x84c8d4dfd2c63f3b, 0xa5fb0a17c777cf09, 0xcf79cc9db955c2cc, 0x81ac1fe293d599bf,
     0xa21727db38cb002f, 0xca9cf1d206fdc03b, 0xfd442e4688bd304a, 0x9e4a9cec15763e2e,
     0xc5dd44271ad3cdba, 0xf7549530e188c128, 0x9a94dd3e8cf578b9, 0xc13a148e3032d6e7,
     0xf18899b1bc3f8ca1, 0x96f5600f15a7b7e5, 0xbcb2b812db11a5de, 0xebdf661791d60f56,
     0x936b9fcebb25c995, 0xb84687c269ef3bfb, 0xe65829b3046b0afa, 0x8ff71a0fe2c2e6dc,
     0xb3f4e093db73a093, 0xe0f218b8d25088b8, 0x8c974f7383725573, 0xafbd2350644eeacf,
     0xdbac6c247d62a583, 0x894bc396ce5da772, 0xab9eb47c81f5114f, 0xd686619ba27255a2,
     0x8613fd0145877585, 0xa798fc4196e952e7, 0xd17f3b51fca3a7a0, 0x82ef85133de648c4,
     0xa3ab66580d5fdaf5, 0xcc963fee10b7d1b3, 0xffbbcfe994e5c61f, 0x9fd561f1fd0f9bd3,
     0xc7caba6e7c5382c8, 0xf9bd690a1b68637b, 0x9c1661a651213e2d, 0xc31bfa0fe5698db8,
     0xf3e2f893dec3f126, 0x986ddb5c6b3a76b7, 0xbe89523386091465, 0xee2ba6c0678b597f,
     0x94db483840b717ef, 0xba121a4650e4ddeb, 0xe896a0d7e51e1566, 0x915e2486ef32cd60,
     0xb5b5ada8aaff80b8, 0xe3231912d5bf60e6, 0x8df5efabc5979c8f, 0xb1736b96b6fd83b3,
     0xddd0467c64bce4a0, 0x8aa22c0dbef60ee4, 0xad4ab7112eb3929d, 0xd89d64d57a607744,
     0x87625f056c7c4a8b, 0xa93af6c6c79b5d2d, 0xd389b47879823479, 0x843610cb4bf160cb,
     0xa54394fe1eedb8fe, 0xce947a3da6a9273e, 0x811ccc668829b887, 0xa163ff802a3426a8,
     0xc9bcff6034c13052, 0xfc2c3f3841f17c67]"

definition mantissas_3 :: "int list" where
  "mantissas_3 = [
     0x9d9ba7832936edc0, 0xc5029163f384a931, 0xf64335bcf065d37d, 0x99ea0196163fa42e,
     0xc06481fb9bcf8d39, 0xf07da27a82c37088, 0x964e858c91ba2655, 0xbbe226efb628afea,
     0xeadab0aba3b2dbe5, 0x92c8ae6b464fc96f, 0xb77ada0617e3bbcb, 0xe55990879ddcaabd,
     0x8f57fa54c2a9eab6, 0xb32df8e9f3546564, 0xdff9772470297ebd, 0x8bfbea76c619ef36,
     0xaefae51477a06b03, 0xdab99e59958885c4, 0x88b402f7fd75539b, 0xaae103b5fcd2a881,
     0xd59944a37c0752a2, 0x857fcae62d8493a5, 0xa6dfbd9fb8e5b88e, 0xd097ad07a71f26b2,
     0x825ecc24c873782f, 0xa2f67f2dfa90563b, 0xcbb41ef979346bca, 0xfea126b7d78186bc,
     0x9f24b832e6b0f436, 0xc6ede63fa05d3143, 0xf8a95fcf88747d94, 0x9b69dbe1b548ce7c,
     0xc24452da229b021b, 0xf2d56790ab41c2a2, 0x97c560ba6b0919a5, 0xbdb6b8e905cb600f,
     0xed246723473e3813, 0x9436c0760c86e30b, 0xb94470938fa89bce, 0xe7958cb87392c2c2,
     0x90bd77f3483bb9b9, 0xb4ecd5f01a4aa828, 0xe2280b6c20dd5232, 0x8d590723948a535f,
     0xb0af48ec79ace837, 0xdcdb1b2798182244, 0x8a08f0f8bf0f156b, 0xac8b2d36eed2dac5,
     0xd7adf884aa879177, 0x86ccbb52ea94baea, 0xa87fea27a539e9a5, 0xd29fe4b18e88640e,
     0x83a3eeeef9153e89, 0xa48ceaaab75a8e2b, 0xcdb02555653131b6, 0x808e17555f3ebf11,
     0xa0b19d2ab70e6ed6, 0xc8de047564d20a8b, 0xfb158592be068d2e, 0x9ced737bb6c4183d,
     0xc428d05aa4751e4c, 0xf53304714d9265df, 0x993fe2c6d07b7fab, 0xbf8fdb78849a5f96,
     0xef73d256a5c0f77c, 0x95a8637627989aad, 0xbb127c53b17ec159, 0xe9d71b689dde71af,
     0x9226712162ab070d, 0xb6b00d69bb55c8d1, 0xe45c10c42a2b3b05, 0x8eb98a7a9a5b04e3,
     0xb267ed1940f1c61c, 0xdf01e85f912e37a3, 0x8b61313bbabce2c6, 0xae397d8aa96c1b77,
     0xd9c7dced53c72255, 0x881cea14545c7575, 0xaa242499697392d2, 0xd4ad2dbfc3d07787,
     0x84ec3c97da624ab4, 0xa6274bbdd0fadd61, 0xcfb11ead453994ba, 0x81ceb32c4b43fcf4,
     0xa2425ff75e14fc31, 0xcad2f7f5359a3b3e, 0xfd87b5f28300ca0d, 0x9e74d1b791e07e48,
     0xc612062576589dda, 0xf79687aed3eec551, 0x9abe14cd44753b52, 0xc16d9a0095928a27,
     0xf1c90080baf72cb1, 0x971da05074da7bee, 0xbce5086492111aea, 0xec1e4a7db69561a5,
     0x9392ee8e921d5d07, 0xb877aa3236a4b449, 0xe69594bec44de15b, 0x901d7cf73ab0acd9,
     0xb424dc35095cd80f, 0xe12e13424bb40e13, 0x8cbccc096f5088cb, 0xafebff0bcb24aafe,
     0xdbe6fecebdedd5be, 0x89705f4136b4a597, 0xabcc77118461cefc, 0xd6bf94d5e57a42bc,
     0x8637bd05af6c69b5, 0xa7c5ac471b478423, 0xd1b71758e219652b, 0x83126e978d4fdf3b,
     0xa3d70a3d70a3d70a, 0xcccccccccccccccc]"

definition mantissas_4 :: "int list" where
  "mantissas_4 = [
     0x8000000000000000, 0xa000000000000000, 0xc800000000000000, 0xfa00000000000000,
     0x9c40000000000000, 0xc350000000000000, 0xf424000000000000, 0x9896800000000000,
     0xbebc200000000000, 0xee6b280000000000, 0x9502f90000000000, 0xba43b74000000000,
     0xe8d4a51000000000, 0x9184e72a00000000, 0xb5e620f480000000, 0xe35fa931a0000000,
     0x8e1bc9bf04000000, 0xb1a2bc2ec5000000, 0xde0b6b3a76400000, 0x8ac7230489e80000,
     0xad78ebc5ac620000, 0xd8d726b7177a8000, 0x878678326eac9000, 0xa968163f0a57b400,
     0xd3c21bcecceda100, 0x84595161401484a0, 0xa56fa5b99019a5c8, 0xcecb8f27f4200f3a]"

definition mantissas_5 :: "int list" where
  "mantissas_5 = [
     0x813f3978f8940984, 0xa18f07d736b90be5, 0xc9f2c9cd04674ede, 0xfc6f7c4045812296,
     0x9dc5ada82b70b59d, 0xc5371912364ce305, 0xf684df56c3e01bc6, 0x9a130b963a6c115c,
     0xc097ce7bc90715b3, 0xf0bdc21abb48db20, 0x96769950b50d88f4, 0xbc143fa4e250eb31,
     0xeb194f8e1ae525fd, 0x92efd1b8d0cf37be, 0xb7abc627050305ad, 0xe596b7b0c643c719,
     0x8f7e32ce7bea5c6f, 0xb35dbf821ae4f38b, 0xe0352f62a19e306e, 0x8c213d9da502de45,
     0xaf298d050e4395d6, 0xdaf3f04651d47b4c, 0x88d8762bf324cd0f, 0xab0e93b6efee0053,
     0xd5d238a4abe98068, 0x85a36366eb71f041, 0xa70c3c40a64e6c51, 0xd0cf4b50cfe20765,
     0x82818f1281ed449f, 0xa321f2d7226895c7, 0xcbea6f8ceb02bb39, 0xfee50b7025c36a08,
     0x9f4f2726179a2245, 0xc722f0ef9d80aad6, 0xf8ebad2b84e0d58b, 0x9b934c3b330c8577,
     0xc2781f49ffcfa6d5, 0xf316271c7fc3908a, 0x97edd871cfda3a56, 0xbde94e8e43d0c8ec,
     0xed63a231d4c4fb27, 0x945e455f24fb1cf8, 0xb975d6b6ee39e436, 0xe7d34c64a9c85d44,
     0x90e40fbeea1d3a4a, 0xb51d13aea4a488dd, 0xe264589a4dcdab14, 0x8d7eb76070a08aec,
     0xb0de65388cc8ada8, 0xdd15fe86affad912, 0x8a2dbf142dfcc7ab, 0xacb92ed9397bf996,
     0xd7e77a8f87daf7fb, 0x86f0ac99b4e8dafd, 0xa8acd7c0222311bc, 0xd2d80db02aabd62b,
     0x83c7088e1aab65db, 0xa4b8cab1a1563f52, 0xcde6fd5e09abcf26, 0x80b05e5ac60b6178,
     0xa0dc75f1778e39d6, 0xc913936dd571c84c, 0xfb5878494ace3a5f, 0x9d174b2dcec0e47b,
     0xc45d1df942711d9a, 0xf5746577930d6500, 0x9968bf6abbe85f20, 0xbfc2ef456ae276e8,
     0xefb3ab16c59b14a2, 0x95d04aee3b80ece5, 0xbb445da9ca61281f, 0xea1575143cf97226,
     0x924d692ca61be758, 0xb6e0c377cfa2e12e, 0xe498f455c38b997a, 0x8edf98b59a373fec,
     0xb2977ee300c50fe7, 0xdf3d5e9bc0f653e1, 0x8b865b215899f46c, 0xae67f1e9aec07187,
     0xda01ee641a708de9, 0x884134fe908658b2, 0xaa51823e34a7eede, 0xd4e5e2cdc1d1ea96,
     0x850fadc09923329e, 0xa6539930bf6bff45, 0xcfe87f7cef46ff16, 0x81f14fae158c5f6e,
     0xa26da3999aef7749, 0xcb090c8001ab551c, 0xfdcb4fa002162a63, 0x9e9f11c4014dda7e,
     0xc646d63501a1511d, 0xf7d88bc24209a565]"

definition mantissas_6 :: "int list" where
  "mantissas_6 = [
     0x9ae757596946075f, 0xc1a12d2fc3978937, 0xf209787bb47d6b84, 0x9745eb4d50ce6332,
     0xbd176620a501fbff, 0xec5d3fa8ce427aff, 0x93ba47c980e98cdf, 0xb8a8d9bbe123f017,
     0xe6d3102ad96cec1d, 0x9043ea1ac7e41392, 0xb454e4a179dd1877, 0xe16a1dc9d8545e94,
     0x8ce2529e2734bb1d, 0xb01ae745b101e9e4, 0xdc21a1171d42645d, 0x899504ae72497eba,
     0xabfa45da0edbde69, 0xd6f8d7509292d603, 0x865b86925b9bc5c2, 0xa7f26836f282b732,
     0xd1ef0244af2364ff, 0x8335616aed761f1f, 0xa402b9c5a8d3a6e7, 0xcd036837130890a1,
     0x802221226be55a64, 0xa02aa96b06deb0fd, 0xc83553c5c8965d3d, 0xfa42a8b73abbf48c,
     0x9c69a97284b578d7, 0xc38413cf25e2d70d, 0xf46518c2ef5b8cd1, 0x98bf2f79d5993802,
     0xbeeefb584aff8603, 0xeeaaba2e5dbf6784, 0x952ab45cfa97a0b2, 0xba756174393d88df,
     0xe912b9d1478ceb17, 0x91abb422ccb812ee, 0xb616a12b7fe617aa, 0xe39c49765fdf9d94,
     0x8e41ade9fbebc27d, 0xb1d219647ae6b31c, 0xde469fbd99a05fe3, 0x8aec23d680043bee,
     0xada72ccc20054ae9, 0xd910f7ff28069da4, 0x87aa9aff79042286, 0xa99541bf57452b28,
     0xd3fa922f2d1675f2, 0x847c9b5d7c2e09b7, 0xa59bc234db398c25, 0xcf02b2c21207ef2e,
     0x8161afb94b44f57d, 0xa1ba1ba79e1632dc, 0xca28a291859bbf93, 0xfcb2cb35e702af78,
     0x9defbf01b061adab, 0xc56baec21c7a1916, 0xf6c69a72a3989f5b, 0x9a3c2087a63f6399,
     0xc0cb28a98fcf3c7f, 0xf0fdf2d3f3c30b9f, 0x969eb7c47859e743, 0xbc4665b596706114,
     0xeb57ff22fc0c7959, 0x9316ff75dd87cbd8, 0xb7dcbf5354e9bece, 0xe5d3ef282a242e81,
     0x8fa475791a569d10, 0xb38d92d760ec4455, 0xe070f78d3927556a, 0x8c469ab843b89562,
     0xaf58416654a6babb, 0xdb2e51bfe9d0696a, 0x88fcf317f22241e2, 0xab3c2fddeeaad25a,
     0xd60b3bd56a5586f1, 0x85c7056562757456, 0xa738c6bebb12d16c, 0xd106f86e69d785c7,
     0x82a45b450226b39c, 0xa34d721642b06084, 0xcc20ce9bd35c78a5, 0xff290242c83396ce,
     0x9f79a169bd203e41, 0xc75809c42c684dd1, 0xf92e0c3537826145, 0x9bbcc7a142b17ccb,
     0xc2abf989935ddbfe, 0xf356f7ebf83552fe, 0x98165af37b2153de, 0xbe1bf1b059e9a8d6,
     0xeda2ee1c7064130c, 0x9485d4d1c63e8be7]"

definition mantissas_7 :: "int list" where
  "mantissas_7 = [
     0xb9a74a0637ce2ee1, 0xe8111c87c5c1ba99, 0x910ab1d4db9914a0, 0xb54d5e4a127f59c8,
     0xe2a0b5dc971f303a, 0x8da471a9de737e24, 0xb10d8e1456105dad, 0xdd50f1996b947518,
     0x8a5296ffe33cc92f, 0xace73cbfdc0bfb7b, 0xd8210befd30efa5a, 0x8714a775e3e95c78,
     0xa8d9d1535ce3b396, 0xd31045a8341ca07c, 0x83ea2b892091e44d, 0xa4e4b66b68b65d60,
     0xce1de40642e3f4b9, 0x80d2ae83e9ce78f3, 0xa1075a24e4421730, 0xc94930ae1d529cfc,
     0xfb9b7cd9a4a7443c, 0x9d412e0806e88aa5, 0xc491798a08a2ad4e, 0xf5b5d7ec8acb58a2,
     0x9991a6f3d6bf1765, 0xbff610b0cc6edd3f, 0xeff394dcff8a948e, 0x95f83d0a1fb69cd9,
     0xbb764c4ca7a4440f, 0xea53df5fd18d5513, 0x92746b9be2f8552c, 0xb7118682dbb66a77,
     0xe4d5e82392a40515, 0x8f05b1163ba6832d, 0xb2c71d5bca9023f8, 0xdf78e4b2bd342cf6,
     0x8bab8eefb6409c1a, 0xae9672aba3d0c320, 0xda3c0f568cc4f3e8, 0x8865899617fb1871,
     0xaa7eebfb9df9de8d, 0xd51ea6fa85785631, 0x8533285c936b35de, 0xa67ff273b8460356,
     0xd01fef10a657842c, 0x8213f56a67f6b29b, 0xa298f2c501f45f42, 0xcb3f2f7642717713,
     0xfe0efb53d30dd4d7, 0x9ec95d1463e8a506, 0xc67bb4597ce2ce48, 0xf81aa16fdc1b81da,
     0x9b10a4e5e9913128, 0xc1d4ce1f63f57d72, 0xf24a01a73cf2dccf, 0x976e41088617ca01,
     0xbd49d14aa79dbc82, 0xec9c459d51852ba2, 0x93e1ab8252f33b45, 0xb8da1662e7b00a17,
     0xe7109bfba19c0c9d, 0x906a617d450187e2, 0xb484f9dc9641e9da, 0xe1a63853bbd26451,
     0x8d07e33455637eb2, 0xb049dc016abc5e5f, 0xdc5c5301c56b75f7, 0x89b9b3e11b6329ba,
     0xac2820d9623bf429, 0xd732290fbacaf133, 0x867f59a9d4bed6c0, 0xa81f301449ee8c70,
     0xd226fc195c6a2f8c, 0x83585d8fd9c25db7, 0xa42e74f3d032f525, 0xcd3a1230c43fb26f,
     0x80444b5e7aa7cf85, 0xa0555e361951c366, 0xc86ab5c39fa63440, 0xfa856334878fc150,
     0x9c935e00d4b9d8d2, 0xc3b8358109e84f07, 0xf4a642e14c6262c8, 0x98e7e9cccfbd7dbd,
     0xbf21e44003acdd2c, 0xeeea5d5004981478, 0x95527a5202df0ccb, 0xbaa718e68396cffd,
     0xe950df20247c83fd, 0x91d28b7416cdd27e, 0xb6472e511c81471d, 0xe3d8f9e563a198e5,
     0x8e679c2f5e44ff8f]"

definition kPower10MantissaTable :: "64 word list" where
  "kPower10MantissaTable = map word_of_int
     (mantissas_1 @ mantissas_2 @ mantissas_3 @ mantissas_4 @ mantissas_5 @ mantissas_6 @ mantissas_7)"

definition exponents_1 :: "int list" where
  "exponents_1 = [
     - 1200, - 1196, - 1193, - 1190, - 1186, - 1183, - 1180, - 1176, - 1173, - 1170, - 1166, - 1163, - 1160, - 1156,
     - 1153, - 1150, - 1146, - 1143, - 1140, - 1136, - 1133, - 1130, - 1127, - 1123, - 1120, - 1117, - 1113, - 1110,
     - 1107, - 1103, - 1100, - 1097, - 1093, - 1090, - 1087, - 1083, - 1080, - 1077, - 1073, - 1070, - 1067, - 1063,
     - 1060, - 1057, - 1053, - 1050, - 1047, - 1043, - 1040, - 1037, - 1034, - 1030, - 1027, - 1024, - 1020, - 1017,
     - 1014, - 1010, - 1007, - 1004, - 1000, - 997, - 994, - 990, - 987, - 984, - 980, - 977, - 974, - 970,
     - 967, - 964, - 960, - 957, - 954, - 950, - 947, - 944, - 940, - 937, - 934, - 931, - 927, - 924,
     - 921, - 917, - 914, - 911, - 907, - 904, - 901, - 897, - 894, - 891, - 887, - 884, - 881, - 877,
     - 874, - 871, - 867, - 864, - 861, - 857, - 854, - 851, - 847, - 844, - 841, - 838, - 834, - 831,
     - 828, - 824]"

definition exponents_2 :: "int list" where
  "exponents_2 = [
     - 821, - 818, - 814, - 811, - 808, - 804, - 801, - 798, - 794, - 791, - 788, - 784, - 781, - 778,
     - 774, - 771, - 768, - 764, - 761, - 758, - 754, - 751, - 748, - 744, - 741, - 738, - 735, - 731,
     - 728, - 725, - 721, - 718, - 715, - 711, - 708, - 705, - 701, - 698, - 695, - 691, - 688, - 685,
     - 681, - 678, - 675, - 671, - 668, - 665, - 661, - 658, - 655, - 651, - 648, - 645, - 642, - 638,
     - 635, - 632, - 628, - 625, - 622, - 618, - 615, - 612, - 608, - 605, - 602, - 598, - 595, - 592,
     - 588, - 585, - 582, - 578, - 575, - 572, - 568, - 565, - 562, - 558, - 555, - 552, - 549, - 545,
     - 542, - 539, - 535, - 532, - 529, - 525, - 522, - 519, - 515, - 512, - 509, - 505, - 502, - 499,
     - 495, - 492, - 489, - 485, - 482, - 479, - 475, - 472, - 469, - 465, - 462, - 459, - 455, - 452,
     - 449, - 446]"

definition exponents_3 :: "int list" where
  "exponents_3 = [
     - 442, - 439, - 436, - 432, - 429, - 426, - 422, - 419, - 416, - 412, - 409, - 406, - 402, - 399,
     - 396, - 392, - 389, - 386, - 382, - 379, - 376, - 372, - 369, - 366, - 362, - 359, - 356, - 353,
     - 349, - 346, - 343, - 339, - 336, - 333, - 329, - 326, - 323, - 319, - 316, - 313, - 309, - 306,
     - 303, - 299, - 296, - 293, - 289, - 286, - 283, - 279, - 276, - 273, - 269, - 266, - 263, - 259,
     - 256, - 253, - 250, - 246, - 243, - 240, - 236, - 233, - 230, - 226, - 223, - 220, - 216, - 213,
     - 210, - 206, - 203, - 200, - 196, - 193, - 190, - 186, - 183, - 180, - 176, - 173, - 170, - 166,
     - 163, - 160, - 157, - 153, - 150, - 147, - 143, - 140, - 137, - 133, - 130, - 127, - 123, - 120,
     - 117, - 113, - 110, - 107, - 103, - 100, - 97, - 93, - 90, - 87, - 83, - 80, - 77, - 73,
     - 70, - 67]"

definition exponents_4 :: "int list" where
  "exponents_4 = [
     - 63, - 60, - 57, - 54, - 50, - 47, - 44, - 40, - 37, - 34, - 30, - 27, - 24, - 20,
     - 17, - 14, - 10, - 7, - 4, 0, 3, 6, 10, 13, 16, 20, 23, 26]"

definition exponents_5 :: "int list" where
  "exponents_5 = [
     30, 33, 36, 39, 43, 46, 49, 53, 56, 59, 63, 66, 69, 73,
     76, 79, 83, 86, 89, 93, 96, 99, 103, 106, 109, 113, 116, 119,
     123, 126, 129, 132, 136, 139, 142, 146, 149, 152, 156, 159, 162, 166,
     169, 172, 176, 179, 182, 186, 189, 192, 196, 199, 202, 206, 209, 212,
     216, 219, 222, 226, 229, 232, 235, 239, 242, 245, 249, 252, 255, 259,
     262, 265, 269, 272, 275, 279, 282, 285, 289, 292, 295, 299, 302, 305,
     309, 312, 315, 319, 322, 325, 328, 332, 335, 338]"

definition exponents_6 :: "int list" where
  "exponents_6 = [
     342, 345, 348, 352, 355, 358, 362, 365, 368, 372, 375, 378, 382, 385,
     388, 392, 395, 398, 402, 405, 408, 412, 415, 418, 422, 425, 428, 431,
     435, 438, 441, 445, 448, 451, 455, 458, 461, 465, 468, 471, 475, 478,
     481, 485, 488, 491, 495, 498, 501, 505, 508, 511, 515, 518, 521, 524,
     528, 531, 534, 538, 541, 544, 548, 551, 554, 558, 561, 564, 568, 571,
     574, 578, 581, 584, 588, 591, 594, 598, 601, 604, 608, 611, 614, 617,
     621, 624, 627, 631, 634, 637, 641, 644, 647, 651]"

definition exponents_7 :: "int list" where
  "exponents_7 = [
     654, 657, 661, 664, 667, 671, 674, 677, 681, 684, 687, 691, 694, 697,
     701, 704, 707, 711, 714, 717, 720, 724, 727, 730, 734, 737, 740, 744,
     747, 750, 754, 757, 760, 764, 767, 770, 774, 777, 780, 784, 787, 790,
     794, 797, 800, 804, 807, 810, 813, 817, 820, 823, 827, 830, 833, 837,
     840, 843, 847, 850, 853, 857, 860, 863, 867, 870, 873, 877, 880, 883,
     887, 890, 893, 897, 900, 903, 907, 910, 913, 916, 920, 923, 926, 930,
     933, 936, 940, 943, 946, 950, 953, 956, 960]"

definition kPower10ExponentTable :: "int list" where
  "kPower10ExponentTable =
     exponents_1 @ exponents_2 @ exponents_3 @ exponents_4 @ exponents_5 @ exponents_6 @ exponents_7"

definition Power10Mantissa :: "int \<Rightarrow> fault + 64 word" where
  "Power10Mantissa n = rd kPower10MantissaTable (nat (n - kPower10TableMin))"

definition Power10Exponent :: "int \<Rightarrow> fault + int" where
  "Power10Exponent n = rd kPower10ExponentTable (nat (n - kPower10TableMin))"

definition Power10Overflow :: "int \<Rightarrow> bool" where
  "Power10Overflow n \<longleftrightarrow> n > kPower10TableMax"

definition Power10Underflow :: "int \<Rightarrow> bool" where
  "Power10Underflow n \<longleftrightarrow> n < kPower10TableMin"

definition Power10Exact :: "int \<Rightarrow> bool" where
  "Power10Exact n \<longleftrightarrow> n \<ge> 0 \<and> n \<le> 27"

section \<open>Shifting and rounding\<close>

definition kOverflow :: int where "kOverflow = 99999"
definition kUnderflow :: int where "kUnderflow = - 99999"

record CalculatedFloat =
  cf_mantissa :: "64 word"
  cf_exponent :: int

definition CalculatedFloat_init :: CalculatedFloat where
  "CalculatedFloat_init = \<lparr>cf_mantissa = 0, cf_exponent = 0\<rparr>"

definition BitWidth :: "uint128 \<Rightarrow> int" where
  "BitWidth v =
     (if Uint128High64 v = 0 then 64 - CountLeadingZeros64 (Uint128Low64 v)
      else 128 - CountLeadingZeros64 (Uint128High64 v))"

definition NormalizedShiftSize :: "float_format \<Rightarrow> int \<Rightarrow> int \<Rightarrow> fault + int" where
  "NormalizedShiftSize ft mantissa_width binary_exponent =
     (let normal_shift = mantissa_width - kTargetMantissaBits ft
      in bind_f (check_int (kMinNormalExponent ft - binary_exponent)) (\<lambda>minimum_shift.
         Inr (max normal_shift minimum_shift)))"

text \<open>The result is \<open>shift\<close> and the shifted \<open>*value\<close>; shifting by a negative amount is undefined.\<close>

definition TruncateToBitWidth :: "int \<Rightarrow> uint128 \<Rightarrow> fault + int \<times> uint128" where
  "TruncateToBitWidth bit_width v =
     (let current_bit_width = BitWidth v;
          shift = current_bit_width - bit_width
      in if shift < 0 then Inl Bad_shift else Inr (shift, uint128_shr v (nat shift)))"

text \<open>The result is the rounded value and \<open>*output_exact\<close>.\<close>

definition ShiftRightAndRound :: "uint128 \<Rightarrow> int \<Rightarrow> bool \<Rightarrow> 64 word \<times> bool" where
  "ShiftRightAndRound v shift input_exact =
     (if shift \<le> 0 then (Uint128Low64 (uint128_shl v (nat (- shift))), input_exact)
      else if shift \<ge> 128 then (0, True)
      else
        let shift_mask = uint128_sub (uint128_shl (uint128_of_signed 1) (nat shift)) (uint128_of_signed 1);
            halfway_point = uint128_shl (uint128_of_signed 1) (nat (shift - 1));
            shifted_bits = uint128_and v shift_mask;
            v = uint128_shr v (nat shift)
        in if uint128_less halfway_point shifted_bits then
             (Uint128Low64 (uint128_add v (uint128_of_signed 1)), True)
           else if uint128_eq shifted_bits halfway_point then
             (if uint128_eq (uint128_and v (uint128_of_signed 1)) (uint128_of_signed 1) \<or> \<not> input_exact
              then (Uint128Low64 (snd (uint128_pre_inc v)), True)
              else (Uint128Low64 v, True))
           else if \<not> input_exact \<and> uint128_eq shifted_bits (uint128_sub halfway_point (uint128_of_signed 1))
             then (Uint128Low64 v, False)
           else (Uint128Low64 v, True))"

section \<open>Rounding with full precision\<close>

text \<open>The comparison of the decimal number with the number halfway between the two candidates.\<close>

definition compare_exact :: "big \<Rightarrow> int \<Rightarrow> 64 word \<Rightarrow> int \<Rightarrow> fault + int" where
  "compare_exact exact_mantissa exact_exponent guess_mantissa guess_exponent =
     (let lhs = exact_mantissa
      in bind_f (if exact_exponent \<ge> 0 then
           bind_f (MultiplyByFiveToTheNth exact_exponent lhs) (\<lambda>lhs.
           Inr (lhs, BigUnsigned_of_u64 84 guess_mantissa))
         else
           bind_f (check_int (- exact_exponent)) (\<lambda>n.
           bind_f (FiveToTheNth 84 n) (\<lambda>rhs.
           bind_f (MultiplyBy_u64 guess_mantissa rhs) (\<lambda>rhs.
           Inr (lhs, rhs))))) (\<lambda>(lhs, rhs).
      if exact_exponent > guess_exponent then
        bind_f (check_int (exact_exponent - guess_exponent)) (\<lambda>n.
        bind_f (ShiftLeft n lhs) (\<lambda>lhs.
        Compare lhs rhs))
      else
        bind_f (check_int (guess_exponent - exact_exponent)) (\<lambda>n.
        bind_f (ShiftLeft n rhs) (\<lambda>rhs.
        Compare lhs rhs))))"

definition MustRoundUp :: "byte list \<Rightarrow> 64 word \<Rightarrow> int \<Rightarrow> ParsedFloat \<Rightarrow> fault + bool" where
  "MustRoundUp src guess_mantissa guess_exponent parsed_decimal =
     bind_f (ReadFloatMantissa src parsed_decimal 768 (BigUnsigned_zero 84)) (\<lambda>(exact_mantissa, exact_exponent).
     let guess_mantissa = guess_mantissa * 2 + 1;
         guess_exponent = guess_exponent - 1
     in bind_f (compare_exact exact_mantissa exact_exponent guess_mantissa guess_exponent) (\<lambda>comparison.
        if comparison < 0 then Inr False
        else if comparison > 0 then Inr True
        else Inr (guess_mantissa AND 2 = 2)))"

section \<open>From the scanned number to the floating-point number\<close>

definition CalculatedFloatFromRawValues :: "float_format \<Rightarrow> 64 word \<Rightarrow> int \<Rightarrow> CalculatedFloat" where
  "CalculatedFloatFromRawValues ft mantissa exponent =
     (let result = CalculatedFloat_init;
          (mantissa, exponent) =
            (if mantissa = push_bit (nat (kTargetMantissaBits ft)) 1 then (drop_bit 1 mantissa, exponent + 1)
             else (mantissa, exponent))
      in if exponent > kMaxExponent ft then result\<lparr>cf_exponent := kOverflow\<rparr>
         else if mantissa = 0 then result\<lparr>cf_exponent := kUnderflow\<rparr>
         else result\<lparr>cf_exponent := exponent, cf_mantissa := mantissa\<rparr>)"

definition CalculateFromParsedHexadecimal :: "float_format \<Rightarrow> ParsedFloat \<Rightarrow> fault + CalculatedFloat" where
  "CalculateFromParsedHexadecimal ft parsed_hex =
     (let mantissa = pf_mantissa parsed_hex;
          exponent = pf_exponent parsed_hex;
          mantissa_width = 64 - CountLeadingZeros64 mantissa
      in bind_f (NormalizedShiftSize ft mantissa_width exponent) (\<lambda>shift.
         bind_f (check_int (exponent + shift)) (\<lambda>exponent.
         let (mantissa, result_exact) = ShiftRightAndRound (uint128_of_unsigned mantissa) shift True
         in Inr (CalculatedFloatFromRawValues ft mantissa exponent))))"

text \<open>The width of the mantissa, the mantissa and the exponent after inaccurate bits are dropped, and whether it is exact.\<close>

definition drop_inaccurate_bits :: "ParsedFloat \<Rightarrow> uint128 \<Rightarrow> int \<Rightarrow> fault + int \<times> uint128 \<times> int \<times> bool" where
  "drop_inaccurate_bits parsed_decimal wide_binary_mantissa binary_exponent =
     (if pf_subrange_begin parsed_decimal \<noteq> None then
        bind_f (TruncateToBitWidth 58 wide_binary_mantissa) (\<lambda>(shift, wide_binary_mantissa).
        Inr (58, wide_binary_mantissa, binary_exponent + shift, False))
      else if \<not> Power10Exact (pf_exponent parsed_decimal) then
        bind_f (TruncateToBitWidth 63 wide_binary_mantissa) (\<lambda>(shift, wide_binary_mantissa).
        Inr (63, wide_binary_mantissa, binary_exponent + shift, False))
      else Inr (BitWidth wide_binary_mantissa, wide_binary_mantissa, binary_exponent, True))"

definition CalculateFromParsedDecimal :: "byte list \<Rightarrow> float_format \<Rightarrow> ParsedFloat \<Rightarrow> fault + CalculatedFloat" where
  "CalculateFromParsedDecimal src ft parsed_decimal =
     (let result = CalculatedFloat_init
      in if Power10Underflow (pf_exponent parsed_decimal) then Inr (result\<lparr>cf_exponent := kUnderflow\<rparr>)
         else if Power10Overflow (pf_exponent parsed_decimal) then Inr (result\<lparr>cf_exponent := kOverflow\<rparr>)
         else
           bind_f (Power10Mantissa (pf_exponent parsed_decimal)) (\<lambda>power.
           let wide_binary_mantissa = uint128_mult (uint128_of_unsigned (pf_mantissa parsed_decimal)) (uint128_of_unsigned power)
           in bind_f (Power10Exponent (pf_exponent parsed_decimal)) (\<lambda>binary_exponent.
              bind_f (drop_inaccurate_bits parsed_decimal wide_binary_mantissa binary_exponent)
                (\<lambda>(mantissa_width, wide_binary_mantissa, binary_exponent, mantissa_exact).
              bind_f (NormalizedShiftSize ft mantissa_width binary_exponent) (\<lambda>shift.
              let binary_exponent = binary_exponent + shift;
                  (binary_mantissa, result_exact) = ShiftRightAndRound wide_binary_mantissa shift mantissa_exact
              in bind_f (if \<not> result_exact then
                   bind_f (MustRoundUp src binary_mantissa binary_exponent parsed_decimal) (\<lambda>up.
                   Inr (if up then binary_mantissa + 1 else binary_mantissa))
                 else Inr binary_mantissa) (\<lambda>binary_mantissa.
              Inr (CalculatedFloatFromRawValues ft binary_mantissa binary_exponent)))))))"

section \<open>The entry point\<close>

datatype errc = no_error | invalid_argument | result_out_of_range

record from_chars_result =
  fcr_ptr :: nat
  fcr_ec :: errc

text \<open>\<open>*value\<close>, when the scanned number is an edge case.\<close>

definition HandleEdgeCase :: "(float_format \<Rightarrow> byte list \<Rightarrow> 64 word) \<Rightarrow> byte list \<Rightarrow> float_format \<Rightarrow> ParsedFloat \<Rightarrow> bool \<Rightarrow> 64 word option" where
  "HandleEdgeCase MakeNan src ft input negative =
     (if pf_type input = kNan then
        let n_char_sequence = (case pf_subrange_begin input of
              None \<Rightarrow> []
            | Some start \<Rightarrow> take (min (the (pf_subrange_end input) - start) 127) (drop start src))
        in Some (signed_bits ft negative (MakeNan ft n_char_sequence))
      else if pf_type input = kInfinity then Some (signed_bits ft negative (infinity_bits ft))
      else if pf_mantissa input = 0 then Some (signed_bits ft negative 0)
      else None)"

text \<open>The new \<open>*result\<close> and \<open>*value\<close>.\<close>

definition EncodeResult :: "float_format \<Rightarrow> CalculatedFloat \<Rightarrow> bool \<Rightarrow> from_chars_result \<Rightarrow> fault + from_chars_result \<times> 64 word" where
  "EncodeResult ft calculated negative result =
     (if cf_exponent calculated = kOverflow then
        Inr (result\<lparr>fcr_ec := result_out_of_range\<rparr>, signed_bits ft negative (max_bits ft))
      else if cf_mantissa calculated = 0 \<or> cf_exponent calculated = kUnderflow then
        Inr (result\<lparr>fcr_ec := result_out_of_range\<rparr>, signed_bits ft negative 0)
      else bind_f (Make ft (cf_mantissa calculated) (cf_exponent calculated) negative) (\<lambda>v. Inr (result, v)))"

text \<open>
  The text is \<open>src\<close> from \<open>first\<close>; \<open>v\<close> is the old \<open>value\<close>. The three branches of the code, the prefix \<open>0x\<close>, the
  \<open>hex\<close> flag and base 10, end alike.
\<close>

definition finish_conversion :: "(float_format \<Rightarrow> byte list \<Rightarrow> 64 word) \<Rightarrow> base \<Rightarrow> float_format \<Rightarrow> byte list \<Rightarrow> bool \<Rightarrow> ParsedFloat \<Rightarrow>
    nat \<Rightarrow> fault + from_chars_result \<times> 64 word" where
  "finish_conversion MakeNan base ft src negative parse ptr =
     (let result = \<lparr>fcr_ptr = ptr, fcr_ec = no_error\<rparr>
      in case HandleEdgeCase MakeNan src ft parse negative of
           Some v \<Rightarrow> Inr (result, v)
         | None \<Rightarrow>
           bind_f (case base of
               Hexadecimal \<Rightarrow> CalculateFromParsedHexadecimal ft parse
             | Decimal \<Rightarrow> CalculateFromParsedDecimal src ft parse) (\<lambda>calculated.
           EncodeResult ft calculated negative result))"

definition FromCharsImpl :: "(float_format \<Rightarrow> byte list \<Rightarrow> 64 word) \<Rightarrow> float_format \<Rightarrow> byte list \<Rightarrow> nat \<Rightarrow> 64 word \<Rightarrow> chars_format \<Rightarrow>
    fault + from_chars_result \<times> 64 word" where
  "FromCharsImpl MakeNan ft src first v fmt_flags =
     (let result = \<lparr>fcr_ptr = first, fcr_ec = no_error\<rparr>;
          negative = (first < length src \<and> src ! first = 45);
          first = (if negative then first + 1 else first)
      in if fmt_flags AND hex_fmt = 0 \<and> length src - first \<ge> 2 \<and> src ! first = 48 \<and>
             (src ! (first + 1) = 120 \<or> src ! (first + 1) = 88) then
           let hex_first = first + 2
           in bind_f (ParseFloat Hexadecimal src hex_first fmt_flags) (\<lambda>hex_parse.
              if pf_end hex_parse = None \<or> pf_type hex_parse \<noteq> kNumber then
                if fmt_flags = scientific_fmt then Inr (result\<lparr>fcr_ec := invalid_argument\<rparr>, v)
                else Inr (result\<lparr>fcr_ptr := first + 1\<rparr>, signed_bits ft negative 0)
              else finish_conversion MakeNan Hexadecimal ft src negative hex_parse (the (pf_end hex_parse)))
         else if fmt_flags AND hex_fmt = hex_fmt then
           bind_f (ParseFloat Hexadecimal src first fmt_flags) (\<lambda>hex_parse.
           case pf_end hex_parse of
             None \<Rightarrow> Inr (result\<lparr>fcr_ec := invalid_argument\<rparr>, v)
           | Some ptr \<Rightarrow> finish_conversion MakeNan Hexadecimal ft src negative hex_parse ptr)
         else
           bind_f (ParseFloat Decimal src first fmt_flags) (\<lambda>decimal_parse.
           case pf_end decimal_parse of
             None \<Rightarrow> Inr (result\<lparr>fcr_ec := invalid_argument\<rparr>, v)
           | Some ptr \<Rightarrow> finish_conversion MakeNan Decimal ft src negative decimal_parse ptr))"

definition from_chars :: "(float_format \<Rightarrow> byte list \<Rightarrow> 64 word) \<Rightarrow> float_format \<Rightarrow> byte list \<Rightarrow> nat \<Rightarrow> 64 word \<Rightarrow> chars_format \<Rightarrow>
    fault + from_chars_result \<times> 64 word" where
  "from_chars MakeNan ft src first v fmt = FromCharsImpl MakeNan ft src first v fmt"

end
