(* ===== verification/Charconv_Tables.thy ===== *)
theory Charconv_Tables
  imports Complex_Main Charconv
begin

text \<open>
  The tables of powers of ten are right: every entry is the power, rounded down to 64 bits. Each entry is checked from its
  neighbour, with an interval for the part of the power below the last bit, in units of \<open>2 ^ - 32\<close> of that bit.
\<close>

section \<open>The check\<close>

definition entry_step :: "bool \<Rightarrow> int \<Rightarrow> int \<Rightarrow> (int \<times> int) option" where
  "entry_step up e e' =
     (let d = (if up then e' - e else e - e')
      in if d = 3 then Some (if up then (10, 8) else (8, 10))
         else if d = 4 then Some (if up then (10, 16) else (16, 10))
         else None)"

text \<open>The state is the last entry and the interval of its part below the last bit.\<close>

definition entry_check :: "bool \<Rightarrow> int \<times> int \<Rightarrow> (int \<times> int \<times> int \<times> int) option \<Rightarrow> (int \<times> int \<times> int \<times> int) option" where
  "entry_check up x s = (case s of
     None \<Rightarrow> None
   | Some (m, e, l, u) \<Rightarrow>
     let (m', e') = x
     in (case entry_step up e e' of
        None \<Rightarrow> None
      | Some (a, b) \<Rightarrow>
        (let c = (a * m - b * m') * 4294967296; l' = (c + a * l) div b; u' = (c + a * u) div b + 1
         in if 0 < l' \<and> u' < 4294967296 \<and> 9223372036854775808 \<le> m' \<and> m' < 18446744073709551616
            then Some (m', e', l', u') else None)))"

primrec check_back :: "bool \<Rightarrow> (int \<times> int \<times> int \<times> int) option \<Rightarrow> (int \<times> int) list \<Rightarrow> (int \<times> int \<times> int \<times> int) option" where
  "check_back up s [] = s"
| "check_back up s (x # rest) = entry_check up x (check_back up s rest)"

lemma check_back_eq: "check_back up s entries = fold (entry_check up) (rev entries) s"
  by (induction entries) simp_all

fun check_exact :: "int \<Rightarrow> (int \<times> int) list \<Rightarrow> bool" where
  "check_exact v [] \<longleftrightarrow> True"
| "check_exact v ((m, e) # rest) \<longleftrightarrow>
     v = m * 2 ^ nat (63 + e) \<and> - 63 \<le> e \<and> 9223372036854775808 \<le> m \<and> m < 18446744073709551616 \<and>
     check_exact (10 * v) rest"

lemma checked_3: "check_back False (Some (9223372036854775808, - 63, 0, 0)) (zip mantissas_3 exponents_3) =
    Some (11356855067118857664, - 442, 3578500133, 3578500229)"
  by code_simp

lemma checked_2: "check_back False (Some (11356855067118857664, - 442, 3578500133, 3578500229)) (zip mantissas_2 exponents_2) =
    Some (13983839803942852150, - 821, 2555975065, 2555975309)"
  by code_simp

lemma checked_1: "check_back False (Some (13983839803942852150, - 821, 2555975065, 2555975309)) (zip mantissas_1 exponents_1) =
    Some (17218479456385750618, - 1200, 289384824, 289385269)"
  by code_simp

lemma checked_5: "fold (entry_check True) (zip mantissas_5 exponents_5) (Some (14901161193847656250, 26, 0, 0)) =
    Some (17859177988785546597, 338, 522345039, 522345161)"
  by code_simp

lemma checked_6: "fold (entry_check True) (zip mantissas_6 exponents_6) (Some (17859177988785546597, 338, 522345039, 522345161)) =
    Some (10702194086955092967, 651, 2329791259, 2329791411)"
  by code_simp

lemma checked_7: "fold (entry_check True) (zip mantissas_7 exponents_7) (Some (10702194086955092967, 651, 2329791259, 2329791411)) =
    Some (10261342003245940623, 960, 1460603283, 1460603504)"
  by code_simp

lemma checked_4: "check_exact 9223372036854775808 (zip mantissas_4 exponents_4)"
  by code_simp

lemma block_lengths:
  "length mantissas_1 = 114" "length exponents_1 = 114"
  "length mantissas_2 = 114" "length exponents_2 = 114"
  "length mantissas_3 = 114" "length exponents_3 = 114"
  "length mantissas_4 = 28" "length exponents_4 = 28"
  "length mantissas_5 = 94" "length exponents_5 = 94"
  "length mantissas_6 = 94" "length exponents_6 = 94"
  "length mantissas_7 = 93" "length exponents_7 = 93"
  by code_simp+

section \<open>What the check shows\<close>

text \<open>A number within the interval of an entry.\<close>

definition near_entry :: "real \<Rightarrow> int \<Rightarrow> int \<Rightarrow> int \<Rightarrow> int \<Rightarrow> bool" where
  "near_entry v m e l u \<longleftrightarrow> (of_int m + of_int l / 4294967296) * 2 powi e \<le> v \<and> v \<le> (of_int m + of_int u / 4294967296) * 2 powi e"

definition truncates :: "real \<Rightarrow> int \<times> int \<Rightarrow> bool" where
  "truncates v = (\<lambda>(m, e). 2 ^ 63 \<le> m \<and> m < 2 ^ 64 \<and> of_int m * 2 powi e < v \<and> v < (of_int m + 1) * 2 powi e)"

definition entry_factor :: "bool \<Rightarrow> real" where
  "entry_factor up = (if up then 10 else 1 / 10)"

lemma entry_step_factor:
  assumes "entry_step up e e' = Some (a, b)"
  shows "0 < a" "0 < b" "2 powi e * entry_factor up = of_int a / of_int b * 2 powi e'"
proof -
  define d where "d = (if up then e' - e else e - e')"
  have d: "d = 3 \<or> d = 4" and ab: "(a, b) = (if up then (10, 2 ^ nat d) else (2 ^ nat d, 10))"
    using assms unfolding entry_step_def Let_def d_def [symmetric] by (auto split: if_splits)
  show "0 < a" "0 < b"
    using ab d by (auto split: if_splits)
  show "2 powi e * entry_factor up = of_int a / of_int b * 2 powi e'"
  proof (cases up)
    case True
    then have "(2 :: real) powi e' = 2 powi e * 2 powi d"
      using power_int_add [of "2 :: real" e d] by (simp add: d_def)
    then show ?thesis
      using True ab d by (auto simp: entry_factor_def)
  next
    case False
    then have "(2 :: real) powi e = 2 powi e' * 2 powi d"
      using power_int_add [of "2 :: real" e' d] by (simp add: d_def)
    then show ?thesis
      using False ab d by (auto simp: entry_factor_def)
  qed
qed

lemma div_bounds:
  fixes x b :: int
  assumes "0 < b"
  shows "real_of_int (x div b) \<le> of_int x / of_int b" "of_int x / of_int b \<le> real_of_int (x div b + 1)"
proof -
  have "x = b * (x div b) + x mod b" "0 \<le> x mod b" "x mod b < b"
    using assms by simp_all
  then have "b * (x div b) \<le> x" "x \<le> b * (x div b + 1)"
    unfolding distrib_left by linarith+
  then have "real_of_int (b * (x div b)) \<le> of_int x" "real_of_int x \<le> of_int (b * (x div b + 1))"
    by (simp_all only: of_int_le_iff)
  then show "real_of_int (x div b) \<le> of_int x / of_int b" "of_int x / of_int b \<le> real_of_int (x div b + 1)"
    using assms by (simp_all add: field_simps)
qed

lemma entry_scaled:
  assumes "entry_step up e e' = Some (a, b)"
  shows "(of_int m + of_int l / 4294967296) * 2 powi e * entry_factor up =
    (of_int m' + of_int ((a * m - b * m') * 4294967296 + a * l) / of_int b / 4294967296) * 2 powi e'"
proof -
  note f = entry_step_factor [OF assms]
  have "(of_int m + of_int l / 4294967296) * 2 powi e * entry_factor up =
      ((of_int m + of_int l / 4294967296) * (of_int a / of_int b)) * 2 powi e'"
    by (simp only: mult.assoc f(3))
  also have "(of_int m + of_int l / 4294967296) * (of_int a / of_int b) =
      (of_int m' + of_int ((a * m - b * m') * 4294967296 + a * l) / of_int b / 4294967296 :: real)"
    using f(2) by (simp add: field_simps)
  finally show ?thesis .
qed

lemma entry_checkE:
  assumes "entry_check up (m', e') (Some (m, e, l, u)) = Some s"
  obtains a b l' u' where "entry_step up e e' = Some (a, b)" "s = (m', e', l', u')"
    and "l' = ((a * m - b * m') * 4294967296 + a * l) div b" "u' = ((a * m - b * m') * 4294967296 + a * u) div b + 1"
    and "0 < l'" "u' < 4294967296" "2 ^ 63 \<le> m'" "m' < 2 ^ 64"
  using assms by (auto simp: entry_check_def Let_def split: option.splits if_splits)

lemma entry_check_truncates:
  assumes "entry_check up (m', e') (Some (m, e, l, u)) = Some (m', e', l', u')" "near_entry v m e l u"
  shows "near_entry (v * entry_factor up) m' e' l' u'" "truncates (v * entry_factor up) (m', e')"
proof -
  obtain a b where step: "entry_step up e e' = Some (a, b)"
    and l': "l' = ((a * m - b * m') * 4294967296 + a * l) div b" and u': "u' = ((a * m - b * m') * 4294967296 + a * u) div b + 1"
    and check: "0 < l'" "u' < 4294967296" "2 ^ 63 \<le> m'" "m' < 2 ^ 64"
    using assms(1) by (auto elim!: entry_checkE)
  define c where "c = (a * m - b * m') * 4294967296"
  note f = entry_step_factor [OF step]
  have pos: "0 < (2 :: real) powi e'" "0 \<le> entry_factor up"
    by (simp_all add: entry_factor_def)
  define v' where "v' = v * entry_factor up"
  have "(of_int m' + of_int l' / 4294967296) * 2 powi e' \<le>
      (of_int m' + of_int (c + a * l) / of_int b / 4294967296 :: real) * 2 powi e'"
    using div_bounds(1) [OF f(2), of "c + a * l"] pos(1) by (simp add: l' c_def divide_right_mono del: of_int_add of_int_mult)
  also have "\<dots> = (of_int m + of_int l / 4294967296) * 2 powi e * entry_factor up"
    by (simp only: entry_scaled [OF step, of m l m'] c_def)
  also have "\<dots> \<le> v'"
    using assms(2) pos(2) unfolding v'_def near_entry_def by (intro mult_right_mono) simp_all
  finally have low: "(of_int m' + of_int l' / 4294967296) * 2 powi e' \<le> v'" .
  have "v' \<le> (of_int m + of_int u / 4294967296) * 2 powi e * entry_factor up"
    using assms(2) pos(2) unfolding v'_def near_entry_def by (intro mult_right_mono) simp_all
  also have "\<dots> = (of_int m' + of_int (c + a * u) / of_int b / 4294967296 :: real) * 2 powi e'"
    by (simp only: entry_scaled [OF step, of m u m'] c_def)
  also have "\<dots> \<le> (of_int m' + of_int u' / 4294967296) * 2 powi e'"
    using div_bounds(2) [OF f(2), of "c + a * u"] pos(1) by (simp add: u' c_def divide_right_mono del: of_int_add of_int_mult)
  finally have high: "v' \<le> (of_int m' + of_int u' / 4294967296) * 2 powi e'" .
  show "near_entry (v * entry_factor up) m' e' l' u'"
    using low high by (simp add: near_entry_def flip: v'_def)
  have "of_int m' * 2 powi e' < (of_int m' + of_int l' / 4294967296 :: real) * 2 powi e'"
    using check(1) pos(1) by (intro mult_strict_right_mono) simp_all
  moreover have "(of_int m' + of_int u' / 4294967296 :: real) * 2 powi e' < (of_int m' + 1) * 2 powi e'"
    using check(2) pos(1) by (intro mult_strict_right_mono) simp_all
  ultimately have "of_int m' * 2 powi e' < v'" "v' < (of_int m' + 1) * 2 powi e'"
    using low high by linarith+
  then show "truncates (v * entry_factor up) (m', e')"
    using check(3,4) by (simp add: truncates_def flip: v'_def)
qed

lemma entry_check_None: "fold (entry_check up) entries None = None"
  by (induction entries) (auto simp: entry_check_def)

lemma entries_truncate:
  assumes "fold (entry_check up) entries (Some (m, e, l, u)) \<noteq> None" "near_entry v m e l u" "i < length entries"
  shows "truncates (v * entry_factor up ^ Suc i) (entries ! i)"
  using assms
proof (induction entries arbitrary: m e l u v i)
  case (Cons x rest)
  obtain m' e' where x: "x = (m', e')"
    by (cases x)
  have "entry_check up x (Some (m, e, l, u)) \<noteq> None"
    using Cons.prems(1) entry_check_None by (metis fold_simps(2))
  then obtain t where "entry_check up (m', e') (Some (m, e, l, u)) = Some t"
    by (auto simp: x)
  then obtain l' u' where check: "entry_check up (m', e') (Some (m, e, l, u)) = Some (m', e', l', u')"
    by (metis entry_checkE)
  note now = entry_check_truncates [OF check Cons.prems(2)]
  show ?case
  proof (cases i)
    case (Suc j)
    then have "truncates (v * entry_factor up * entry_factor up ^ Suc j) (rest ! j)"
      using Cons.prems(1,3) check by (intro Cons.IH [OF _ now(1)]) (simp_all add: x)
    then show ?thesis
      by (simp add: Suc mult.assoc)
  next
    case 0
    then show ?thesis
      using now(2) by (simp add: x)
  qed
qed simp

section \<open>The tables\<close>

lemma exact_entries:
  assumes "check_exact v entries" "i < length entries" "entries ! i = (m, e)"
  shows "v * 10 ^ i = m * 2 ^ nat (63 + e) \<and> - 63 \<le> e \<and> 2 ^ 63 \<le> m \<and> m < 2 ^ 64"
  using assms
proof (induction entries arbitrary: v i)
  case (Cons x rest)
  show ?case
  proof (cases i)
    case (Suc j)
    obtain m' e' where x: "x = (m', e')"
      by (cases x)
    have "check_exact (10 * v) rest"
      using Cons.prems(1) unfolding x check_exact.simps by blast
    from Cons.IH [OF this, of j] show ?thesis
      using Cons.prems(2,3) by (simp add: Suc mult_ac)
  next
    case 0
    then show ?thesis
      using Cons.prems by simp
  qed
qed simp

text \<open>The blocks, put together.\<close>

definition power10_entries :: "(int \<times> int) list" where
  "power10_entries = zip mantissas_1 exponents_1 @ zip mantissas_2 exponents_2 @ zip mantissas_3 exponents_3 @
     zip mantissas_4 exponents_4 @ zip mantissas_5 exponents_5 @ zip mantissas_6 exponents_6 @ zip mantissas_7 exponents_7"

lemma length_power10_entries: "length power10_entries = 651"
  by (simp add: power10_entries_def block_lengths)

lemma power10_entries_blocks:
  "take 342 power10_entries = zip mantissas_1 exponents_1 @ zip mantissas_2 exponents_2 @ zip mantissas_3 exponents_3"
  "take 28 (drop 342 power10_entries) = zip mantissas_4 exponents_4"
  "drop 370 power10_entries = zip mantissas_5 exponents_5 @ zip mantissas_6 exponents_6 @ zip mantissas_7 exponents_7"
  by (simp_all add: power10_entries_def block_lengths)

lemma check_back_append: "check_back up s (xs @ ys) = check_back up (check_back up s ys) xs"
  by (induction xs) simp_all

lemma checked_down: "fold (entry_check False) (rev (take 342 power10_entries)) (Some (9223372036854775808, - 63, 0, 0)) \<noteq> None"
  by (simp add: power10_entries_blocks check_back_append checked_1 checked_2 checked_3 flip: check_back_eq)

lemma checked_exact: "check_exact 9223372036854775808 (take 28 (drop 342 power10_entries))"
  by (simp add: power10_entries_blocks checked_4)

lemma checked_up: "fold (entry_check True) (drop 370 power10_entries) (Some (14901161193847656250, 26, 0, 0)) \<noteq> None"
  by (simp add: power10_entries_blocks checked_5 checked_6 checked_7)

lemma power10_entries_unzip:
  "map fst power10_entries = mantissas_1 @ mantissas_2 @ mantissas_3 @ mantissas_4 @ mantissas_5 @ mantissas_6 @ mantissas_7"
  "map snd power10_entries = kPower10ExponentTable"
  by (simp_all add: power10_entries_def kPower10ExponentTable_def block_lengths)

lemma kPower10MantissaTable_eq: "kPower10MantissaTable = map (\<lambda>x. word_of_int (fst x)) power10_entries"
  by (simp add: kPower10MantissaTable_def flip: power10_entries_unzip(1) map_map [unfolded comp_def])

lemma power10_entry:
  assumes "- 342 \<le> n" "n \<le> 308" and entry: "power10_entries ! nat (n + 342) = (m, e)"
  shows "2 ^ 63 \<le> m" "m < 2 ^ 64"
    and "if Power10Exact n then of_int m * 2 powi e = (10 :: real) powi n
      else of_int m * 2 powi e < (10 :: real) powi n \<and> 10 powi n < (of_int m + 1) * (2 :: real) powi e"
proof -
  have "2 ^ 63 \<le> m \<and> m < 2 ^ 64 \<and> (if Power10Exact n then of_int m * 2 powi e = (10 :: real) powi n
      else of_int m * 2 powi e < (10 :: real) powi n \<and> 10 powi n < (of_int m + 1) * (2 :: real) powi e)"
  proof -
    consider "n < 0" | "0 \<le> n" "n \<le> 27" | "27 < n"
      by linarith
    then show ?thesis
    proof cases
      case 1
      have "near_entry 1 9223372036854775808 (- 63) 0 0"
        by (simp add: near_entry_def power_int_minus)
      then have "truncates (1 * entry_factor False ^ Suc (nat (- n - 1))) (rev (take 342 power10_entries) ! nat (- n - 1))"
        using 1 assms(1) checked_down length_power10_entries by (intro entries_truncate) simp_all
      moreover have "341 - nat (- n - 1) = nat (n + 342)"
        using 1 assms(1) by linarith
      then have "rev (take 342 power10_entries) ! nat (- n - 1) = (m, e)"
        using 1 assms(1) entry by (simp add: rev_nth length_power10_entries)
      moreover have "entry_factor False ^ Suc (nat (- n - 1)) = 10 powi n"
        using 1 by (simp add: entry_factor_def power_int_def power_one_over inverse_eq_divide Suc_nat_eq_nat_zadd1 flip: power_Suc)
      ultimately show ?thesis
        using 1 by (simp add: truncates_def Power10Exact_def)
    next
      case 2
      have "take 28 (drop 342 power10_entries) ! nat n = (m, e)"
        using 2 entry length_power10_entries by (simp add: nat_add_distrib add.commute)
      then have exact: "9223372036854775808 * 10 ^ nat n = m * 2 ^ nat (63 + e)" "- 63 \<le> e" "2 ^ 63 \<le> m" "m < 2 ^ 64"
        using exact_entries [OF checked_exact, of "nat n"] 2 length_power10_entries by (auto simp: nat_less_iff)
      have "(2 :: real) ^ nat (63 + e) = 2 ^ 63 * 2 powi e"
        using exact(2) power_int_add [of "2 :: real" 63 e] by (simp add: power_int_def [of _ "63 + e"])
      moreover have "(9223372036854775808 :: real) * 10 ^ nat n = of_int m * 2 ^ nat (63 + e)"
        using arg_cong [OF exact(1), of real_of_int] by simp
      ultimately have "of_int m * 2 powi e = (10 :: real) powi n"
        using 2 by (simp add: power_int_def [of _ n])
      then show ?thesis
        using 2 exact by (simp add: Power10Exact_def)
    next
      case 3
      have "near_entry (10 ^ 27) 14901161193847656250 26 0 0"
        by (simp add: near_entry_def)
      then have "truncates (10 ^ 27 * entry_factor True ^ Suc (nat (n - 28))) (drop 370 power10_entries ! nat (n - 28))"
        using 3 assms(2) checked_up length_power10_entries by (intro entries_truncate) simp_all
      moreover have "370 + nat (n - 28) = nat (n + 342)"
        using 3 by linarith
      then have "drop 370 power10_entries ! nat (n - 28) = (m, e)"
        using 3 assms(2) entry length_power10_entries by simp
      moreover have "27 + Suc (nat (n - 28)) = nat n"
        using 3 by linarith
      then have "(10 :: real) ^ 27 * 10 ^ Suc (nat (n - 28)) = 10 ^ nat n"
        by (simp only: power_add [symmetric])
      then have "10 ^ 27 * entry_factor True ^ Suc (nat (n - 28)) = 10 powi n"
        using 3 unfolding entry_factor_def power_int_def by simp
      ultimately show ?thesis
        using 3 by (simp add: truncates_def Power10Exact_def)
    qed
  qed
  then show "2 ^ 63 \<le> m" "m < 2 ^ 64" "if Power10Exact n then of_int m * 2 powi e = (10 :: real) powi n
      else of_int m * 2 powi e < (10 :: real) powi n \<and> 10 powi n < (of_int m + 1) * (2 :: real) powi e"
    by blast+
qed

text \<open>What the two access functions return.\<close>

theorem Power10_correct:
  assumes "\<not> Power10Underflow n" "\<not> Power10Overflow n"
  obtains m e where "Power10Mantissa n = Inr m" "Power10Exponent n = Inr e" "2 ^ 63 \<le> uint m"
    and "if Power10Exact n then of_int (uint m) * 2 powi e = (10 :: real) powi n
      else of_int (uint m) * 2 powi e < (10 :: real) powi n \<and> 10 powi n < (of_int (uint m) + 1) * (2 :: real) powi e"
proof -
  have n: "- 342 \<le> n" "n \<le> 308" "nat (n + 342) < 651"
    using assms by (simp_all add: Power10Underflow_def Power10Overflow_def kPower10TableMin_def kPower10TableMax_def)
  obtain m e where entry: "power10_entries ! nat (n + 342) = (m, e)"
    by (cases "power10_entries ! nat (n + 342)")
  note facts = power10_entry [OF n(1,2) entry]
  have len: "length kPower10MantissaTable = 651" "length kPower10ExponentTable = 651"
    using length_power10_entries by (simp_all add: kPower10MantissaTable_eq flip: power10_entries_unzip(2))
  have "kPower10ExponentTable ! nat (n + 342) = e"
    using entry n(3) length_power10_entries by (simp flip: power10_entries_unzip(2))
  moreover have "kPower10MantissaTable ! nat (n + 342) = word_of_int m"
    using entry n(3) length_power10_entries by (simp add: kPower10MantissaTable_eq)
  moreover have "uint (word_of_int m :: 64 word) = m"
    using facts(1,2) by (simp add: uint_word_of_int take_bit_int_eq_self)
  ultimately show thesis
    using that [of "word_of_int m" e] facts n(3) len
    by (simp add: Power10Mantissa_def Power10Exponent_def kPower10TableMin_def)
qed

lemma exponent_table_range: "\<forall>e \<in> set kPower10ExponentTable. - 1200 \<le> e \<and> e \<le> 960"
  unfolding kPower10ExponentTable_def set_append ball_Un
  unfolding exponents_1_def exponents_2_def exponents_3_def exponents_4_def exponents_5_def exponents_6_def exponents_7_def by simp

end
