(* ===== verification/Float_Rounding.thy ===== *)
theory Float_Rounding
  imports Charconv_Tables Int128_Results
begin

text \<open>
  What correct rounding is, for the two formats, and that shifting and rounding an integer of 128 bits does it.
\<close>

section \<open>Correct rounding\<close>

definition nearest_even :: "real \<Rightarrow> int \<Rightarrow> bool" where
  "nearest_even x q \<longleftrightarrow> \<bar>x - of_int q\<bar> \<le> 1 / 2 \<and> (\<bar>x - of_int q\<bar> = 1 / 2 \<longrightarrow> even q)"

text \<open>The finite numbers of a format that are not negative, by significand and exponent.\<close>

definition finite_float :: "float_format \<Rightarrow> int \<Rightarrow> int \<Rightarrow> bool" where
  "finite_float ft m e \<longleftrightarrow> 0 \<le> m \<and> m < 2 ^ nat (kTargetMantissaBits ft) \<and> kMinNormalExponent ft \<le> e \<and> e \<le> kMaxExponent ft"

definition float_value :: "int \<Rightarrow> int \<Rightarrow> real" where
  "float_value m e = of_int m * 2 powi e"

text \<open>No finite number is closer to \<open>x\<close>, and of two that are equally close this one has the even significand.\<close>

definition correctly_rounded :: "float_format \<Rightarrow> real \<Rightarrow> int \<Rightarrow> int \<Rightarrow> bool" where
  "correctly_rounded ft x m e \<longleftrightarrow> finite_float ft m e \<and>
     (\<forall>m' e'. finite_float ft m' e' \<longrightarrow> \<bar>x - float_value m e\<bar> \<le> \<bar>x - float_value m' e'\<bar> \<and>
       (\<bar>x - float_value m e\<bar> = \<bar>x - float_value m' e'\<bar> \<longrightarrow> float_value m' e' = float_value m e \<or> even m))"

text \<open>Above the largest number by half a unit of its last place or more; at most half the smallest.\<close>

definition overflows :: "float_format \<Rightarrow> real \<Rightarrow> bool" where
  "overflows ft x \<longleftrightarrow> (2 ^ nat (kTargetMantissaBits ft) - 1 / 2) * 2 powi kMaxExponent ft \<le> x"

definition underflows :: "float_format \<Rightarrow> real \<Rightarrow> bool" where
  "underflows ft x \<longleftrightarrow> x \<le> 2 powi (kMinNormalExponent ft - 1)"

text \<open>
  Rounding at the exponent of the number: \<open>q\<close> may be the power above the significands when \<open>x\<close> is just below it.
\<close>

definition rounds_at :: "float_format \<Rightarrow> real \<Rightarrow> int \<Rightarrow> int \<Rightarrow> bool" where
  "rounds_at ft x q e \<longleftrightarrow> kMinNormalExponent ft \<le> e \<and> 0 \<le> q \<and> q \<le> 2 ^ nat (kTargetMantissaBits ft) \<and>
     (e = kMinNormalExponent ft \<or> 2 ^ nat (kTargetMantissaBits ft - 1) * 2 powi e \<le> x) \<and> nearest_even (x / 2 powi e) q"

lemma nearest_even_least:
  assumes "nearest_even x q"
  shows "\<bar>x - of_int q\<bar> \<le> \<bar>x - of_int k\<bar>" "\<bar>x - of_int q\<bar> = \<bar>x - of_int k\<bar> \<Longrightarrow> k = q \<or> even q"
proof -
  have le: "\<bar>x - of_int q\<bar> \<le> 1 / 2"
    using assms by (simp add: nearest_even_def)
  have far: "1 \<le> \<bar>real_of_int k - of_int q\<bar>" if "k \<noteq> q"
  proof -
    have "1 \<le> \<bar>k - q\<bar>"
      using that by linarith
    then show ?thesis
      by linarith
  qed
  show "\<bar>x - of_int q\<bar> \<le> \<bar>x - of_int k\<bar>"
    using le far by (cases "k = q") (simp, linarith)
  show "\<bar>x - of_int q\<bar> = \<bar>x - of_int k\<bar> \<Longrightarrow> k = q \<or> even q"
  proof (cases "k = q")
    case False
    assume eq: "\<bar>x - of_int q\<bar> = \<bar>x - of_int k\<bar>"
    then have "\<bar>x - of_int q\<bar> = 1 / 2"
      using le far [OF False] by linarith
    then show ?thesis
      using assms by (simp add: nearest_even_def)
  qed simp
qed

lemma two_powi_split:
  assumes "e \<le> f"
  shows "(2 :: real) powi f = 2 ^ nat (f - e) * 2 powi e"
  using assms power_int_add [of "2 :: real" "f - e" e] by (simp add: power_int_def [of _ "f - e"])

text \<open>Rounding at the exponent of the number is rounding among all numbers of the format.\<close>

lemma rounds_at_least:
  assumes "rounds_at ft x q e" "finite_float ft m' e'"
  shows "\<bar>x - float_value q e\<bar> \<le> \<bar>x - float_value m' e'\<bar>"
    and "\<bar>x - float_value q e\<bar> = \<bar>x - float_value m' e'\<bar> \<Longrightarrow> float_value m' e' = float_value q e \<or> even q"
proof -
  let ?u = "2 powi e :: real"
  have u: "0 < ?u"
    by simp
  have near: "nearest_even (x / ?u) q"
    using assms(1) by (simp add: rounds_at_def)
  have dist: "\<bar>x - of_int k * ?u\<bar> = \<bar>x / ?u - of_int k\<bar> * ?u" for k
  proof -
    have "x - of_int k * ?u = (x / ?u - of_int k) * ?u"
      using u by (simp add: left_diff_distrib)
    then show ?thesis
      using u by (simp add: abs_mult)
  qed
  have least: "\<bar>x - of_int q * ?u\<bar> \<le> \<bar>x - of_int k * ?u\<bar>" for k
    unfolding dist using nearest_even_least(1) [OF near, of k] u by simp
  have tie: "k = q \<or> even q" if "\<bar>x - of_int q * ?u\<bar> = \<bar>x - of_int k * ?u\<bar>" for k
    using nearest_even_least(2) [OF near, of k] that u unfolding dist by simp
  show "\<bar>x - float_value q e\<bar> \<le> \<bar>x - float_value m' e'\<bar>"
    and "\<bar>x - float_value q e\<bar> = \<bar>x - float_value m' e'\<bar> \<Longrightarrow> float_value m' e' = float_value q e \<or> even q"
  proof -
    have "\<bar>x - float_value q e\<bar> \<le> \<bar>x - float_value m' e'\<bar> \<and>
      (\<bar>x - float_value q e\<bar> = \<bar>x - float_value m' e'\<bar> \<longrightarrow> float_value m' e' = float_value q e \<or> even q)"
    proof (cases "e \<le> e'")
      case True
      then have "float_value m' e' = of_int (m' * 2 ^ nat (e' - e)) * ?u"
        by (simp add: float_value_def two_powi_split)
      then show ?thesis
        using least [of "m' * 2 ^ nat (e' - e)"] tie [of "m' * 2 ^ nat (e' - e)"] unfolding float_value_def by metis
    next
      case False
      let ?p = "kTargetMantissaBits ft"
      have low: "2 ^ nat (?p - 1) * ?u \<le> x" "m' < 2 ^ nat ?p" "0 < ?p"
        using assms False by (auto simp: rounds_at_def finite_float_def) (cases ft; simp)
      have half: "2 powi e' \<le> ?u / 2"
        using power_int_increasing [of "e'" "e - 1" "2 :: real"] False by (simp add: power_int_diff)
      have "real_of_int m' < 2 ^ nat ?p"
        using low(2) by (metis of_int_less_iff of_int_numeral of_int_power)
      then have "float_value m' e' < 2 ^ nat ?p * (?u / 2)"
        using half mult_less_le_imp_less [of "real_of_int m'" "2 ^ nat ?p" "2 powi e'" "?u / 2"] assms(2)
        by (simp add: float_value_def finite_float_def)
      also have "\<dots> = 2 ^ nat (?p - 1) * ?u"
        using power_Suc [of "2 :: real" "nat (?p - 1)"] low(3) by (simp add: Suc_nat_eq_nat_zadd1)
      finally have below: "float_value m' e' < 2 ^ nat (?p - 1) * ?u" .
      have "\<bar>x - float_value q e\<bar> \<le> \<bar>x - 2 ^ nat (?p - 1) * ?u\<bar>"
        using least [of "2 ^ nat (?p - 1)"] by (simp add: float_value_def)
      then show ?thesis
        using below low(1) by linarith
    qed
    then show "\<bar>x - float_value q e\<bar> \<le> \<bar>x - float_value m' e'\<bar>"
      and "\<bar>x - float_value q e\<bar> = \<bar>x - float_value m' e'\<bar> \<Longrightarrow> float_value m' e' = float_value q e \<or> even q"
      by blast+
  qed
qed

section \<open>The width of an integer\<close>

lemma BitWidth_eq: "BitWidth u = int (bit_length (n128 u))"
  using Fls128_eq [of u] by (auto simp: BitWidth_def Fls128_def uint128_defs split: if_splits)

lemma TruncateToBitWidth_eq:
  assumes "int (bit_length (n128 u)) = int s + w"
  shows "TruncateToBitWidth w u = Inr (int s, uint128_shr u s)"
  using assms by (simp add: TruncateToBitWidth_def Let_def BitWidth_eq)

section \<open>Shifting and rounding\<close>

definition round_shift :: "int \<Rightarrow> nat \<Rightarrow> bool \<Rightarrow> int" where
  "round_shift v s exact =
     (let q = v div 2 ^ s; r = v mod 2 ^ s; h = 2 ^ (s - 1)
      in if r > h \<or> r = h \<and> (odd q \<or> \<not> exact) then q + 1 else q)"

lemma Uint128Low64_eq: "Uint128Low64 u = ucast (w128 u)"
  by (rule bit_word_eqI) (simp add: Uint128Low64_def bit_w128 bit_ucast_iff)

lemma uint_power_128: "s < 128 \<Longrightarrow> uint (2 ^ s :: 128 word) = 2 ^ s"
  by transfer (simp add: take_bit_int_eq_self)

lemma uint_low_bits_128: "s < 128 \<Longrightarrow> uint ((w :: 128 word) AND 2 ^ s - 1) = uint w mod 2 ^ s"
proof -
  have eq: "w AND 2 ^ s - 1 = take_bit s w"
    by (simp only: take_bit_eq_mask mask_eq_exp_minus_1)
  show ?thesis
    unfolding eq unsigned_take_bit_eq by (rule take_bit_eq_mod)
qed

lemma uint_drop_128: "uint (drop_bit s (w :: 128 word)) = uint w div 2 ^ s"
  by (simp only: uint_nat unat_drop_bit_eq) (simp only: drop_bit_eq_div zdiv_int of_nat_power of_nat_numeral)

lemma uint_power_minus_1: "s < 128 \<Longrightarrow> uint (2 ^ s - 1 :: 128 word) = 2 ^ s - 1"
  by (simp add: uint_power_128 uint_sub_lem [THEN iffD1])

lemma even_uint_128: "even (uint (w :: 128 word)) \<longleftrightarrow> even w"
  by transfer simp

lemma odd_128: "(w :: 128 word) AND 1 = 1 \<longleftrightarrow> odd (uint w)"
proof -
  have "w AND 1 = of_bool (odd w)"
    by (simp add: and_one_eq mod2_eq_if)
  then show ?thesis
    by (simp add: even_uint_128)
qed

lemma low64:
  "ucast (drop_bit s w :: 128 word) = (word_of_int (uint w div 2 ^ s) :: 64 word)"
  "ucast (drop_bit s w + 1 :: 128 word) = (word_of_int (uint w div 2 ^ s + 1) :: 64 word)"
proof -
  have inc: "ucast (u + 1) = (ucast u + 1 :: 64 word)" for u :: "128 word"
  proof -
    have "uint (u + 1) mod 2 ^ 64 = (uint u + 1) mod 2 ^ 64"
      by (simp add: uint_word_ariths mod_mod_cancel)
    then have "word_of_int (uint (u + 1)) = (word_of_int (uint u + 1) :: 64 word)"
      by (simp only: word_of_int_eq_iff take_bit_eq_mod len_bit0 len_num1)  simp
    then show ?thesis
      by (simp only: ucast_eq of_int_add of_int_1)
  qed
  show "ucast (drop_bit s w :: 128 word) = (word_of_int (uint w div 2 ^ s) :: 64 word)"
    by (simp only: ucast_eq uint_drop_128)
  then show "ucast (drop_bit s w + 1 :: 128 word) = (word_of_int (uint w div 2 ^ s + 1) :: 64 word)"
    by (simp only: inc of_int_add of_int_1)
qed

lemma ShiftRightAndRound_eq:
  assumes "0 < s" "s < 128"
  shows "ShiftRightAndRound v (int s) exact =
    (word_of_int (round_shift (uint (w128 v)) s exact), exact \<or> uint (w128 v) mod 2 ^ s \<noteq> 2 ^ (s - 1) - 1)"
proof -
  have s: "s - 1 < 128" "\<not> int s \<ge> 128" "nat (int s - 1) = s - 1"
    using assms by simp_all
  show ?thesis
    using assms s
    by (simp add: ShiftRightAndRound_def Let_def uint128_less_iff uint128_eq_iff Uint128Low64_eq uint128_pre_inc_def
        word_less_def word_uint_eq_iff [of "_ AND 2 ^ s - 1"] uint_power_128 uint_power_minus_1 uint_low_bits_128 odd_128
        uint_drop_128 low64 round_shift_def)
qed

end
