(* ===== verification/Float_Bits.thy ===== *)
theory Float_Bits
  imports Float_Rounding
begin

text \<open>
  The encoding of floating-point numbers in bits, and that the last steps of a conversion, from a rounded significand and an
  exponent to the bits, keep the number.
\<close>

section \<open>Decoding\<close>

text \<open>The fields of the interchange formats, and the number that they stand for.\<close>

definition sign_shift :: "float_format \<Rightarrow> nat" where
  "sign_shift ft = (case ft of Double \<Rightarrow> 63 | Float \<Rightarrow> 31)"

definition fraction_bits :: "float_format \<Rightarrow> nat" where
  "fraction_bits ft = (case ft of Double \<Rightarrow> 52 | Float \<Rightarrow> 23)"

definition is_negative :: "float_format \<Rightarrow> 64 word \<Rightarrow> bool" where
  "is_negative ft b \<longleftrightarrow> uint b div 2 ^ sign_shift ft = 1"

definition exponent_field :: "float_format \<Rightarrow> 64 word \<Rightarrow> int" where
  "exponent_field ft b = uint b div 2 ^ fraction_bits ft mod 2 ^ (sign_shift ft - fraction_bits ft)"

definition fraction_field :: "float_format \<Rightarrow> 64 word \<Rightarrow> int" where
  "fraction_field ft b = uint b mod 2 ^ fraction_bits ft"

definition significand :: "float_format \<Rightarrow> 64 word \<Rightarrow> int" where
  "significand ft b = (if exponent_field ft b = 0 then fraction_field ft b else 2 ^ fraction_bits ft + fraction_field ft b)"

definition exponent :: "float_format \<Rightarrow> 64 word \<Rightarrow> int" where
  "exponent ft b = kMinNormalExponent ft + max (exponent_field ft b) 1 - 1"

lemmas decode_defs = is_negative_def exponent_field_def fraction_field_def significand_def exponent_def sign_shift_def
  fraction_bits_def

lemma decode_fields:
  assumes "uint b = of_bool neg * 2 ^ sign_shift ft + E * 2 ^ fraction_bits ft + F"
    and "0 \<le> E" "E < 2 ^ (sign_shift ft - fraction_bits ft)" "0 \<le> F" "F < 2 ^ fraction_bits ft"
  shows "is_negative ft b = neg" "exponent_field ft b = E" "fraction_field ft b = F"
proof -
  define f k where "f = fraction_bits ft" and "k = sign_shift ft - fraction_bits ft"
  have shift: "sign_shift ft = k + f"
    by (cases ft) (simp_all add: f_def k_def sign_shift_def fraction_bits_def)
  then have diff: "sign_shift ft - f = k"
    by simp
  have b: "uint b = (of_bool neg * 2 ^ k + E) * 2 ^ f + F"
    using assms(1) by (simp add: shift f_def [symmetric] power_add distrib_right)
  have F: "0 \<le> F" "F < 2 ^ f" and E: "0 \<le> E" "E < 2 ^ k"
    using assms by (simp_all add: f_def k_def)
  have upper: "uint b div 2 ^ f = of_bool neg * 2 ^ k + E"
    using F by (simp add: b div_add1_eq)
  show "fraction_field ft b = F"
    using F by (simp add: fraction_field_def f_def [symmetric] b)
  show "exponent_field ft b = E"
    using E unfolding exponent_field_def k_def [symmetric] f_def [symmetric] upper diff by simp
  have "uint b div 2 ^ sign_shift ft = uint b div 2 ^ f div 2 ^ k"
    by (simp add: shift power_add zdiv_zmult2_eq mult.commute)
  also have "\<dots> = of_bool neg"
    using E by (simp add: upper div_add1_eq)
  finally show "is_negative ft b = neg"
    by (simp add: is_negative_def)
qed

section \<open>Packing the bits\<close>

text \<open>A significand and exponent as the code keeps them: all bits of the significand are used unless the exponent is the least.\<close>

definition canonical :: "float_format \<Rightarrow> int \<Rightarrow> int \<Rightarrow> bool" where
  "canonical ft m e \<longleftrightarrow> finite_float ft m e \<and> (2 ^ fraction_bits ft \<le> m \<or> e = kMinNormalExponent ft)"

lemma uint_word_of_int_64: "0 \<le> i \<Longrightarrow> i < 2 ^ 64 \<Longrightarrow> uint (word_of_int i :: 64 word) = i"
  by (simp add: uint_word_of_int take_bit_int_eq_self)

lemma uint_word_of_int_32: "0 \<le> i \<Longrightarrow> i < 2 ^ 32 \<Longrightarrow> uint (word_of_int i :: 32 word) = i"
  by (simp add: uint_word_of_int take_bit_int_eq_self)

lemma low_part: "(w :: 'a::len word) AND (push_bit n 1 - 1) = word_of_int (uint w mod 2 ^ n)"
proof -
  have "w AND (push_bit n 1 - 1) = take_bit n w"
    by (simp add: take_bit_eq_mask mask_eq_exp_minus_1)
  then show ?thesis
    by (metis take_bit_eq_mod unsigned_take_bit_eq word_of_int_uint)
qed

lemma above_mask: "n < LENGTH('a::len) \<Longrightarrow> (push_bit n 1 - 1 < (w :: 'a word)) \<longleftrightarrow> \<not> uint w < 2 ^ n"
proof -
  assume n: "n < LENGTH('a)"
  have "uint (2 ^ n :: 'a word) = 2 ^ n"
    using n by transfer (simp add: take_bit_int_eq_self)
  then have "uint (push_bit n 1 - 1 :: 'a word) = 2 ^ n - 1"
    by (simp add: uint_sub_lem [THEN iffD1])
  then show ?thesis
    by (auto simp: word_less_def)
qed

lemma Make_Double_bits:
  assumes "canonical Double (uint m) e"
  shows "returns (Make Double m e neg) (\<lambda>b. uint b = of_bool neg * 2 ^ 63 +
    (if uint m < 2 ^ 52 then 0 else e + 1075) * 2 ^ 52 + uint m mod 2 ^ 52)"
proof -
  have e: "- 1074 \<le> e" "e \<le> 971" "uint m < 2 ^ 52 \<Longrightarrow> e = - 1074"
    using assms by (auto simp: canonical_def finite_float_def fraction_bits_def)
  define F where "F = uint m mod 2 ^ 52"
  have F: "0 \<le> F" "F < 2 ^ 52"
    by (simp_all add: F_def)
  have sign: "push_bit 63 (of_bool neg) = (word_of_int (of_bool neg * 2 ^ 63) :: 64 word)"
    by simp
  show ?thesis
  proof (cases "uint m < 2 ^ 52")
    case True
    then have "m = word_of_int F"
      by (simp add: F_def)
    then have "push_bit 63 (of_bool neg) + m = (word_of_int (of_bool neg * 2 ^ 63 + F) :: 64 word)"
      by (simp only: sign of_int_add)
    moreover have "uint (word_of_int (of_bool neg * 2 ^ 63 + F) :: 64 word) = of_bool neg * 2 ^ 63 + F"
      using F by (intro uint_word_of_int_64) auto
    moreover have "Make Double m e neg = Inr (push_bit 63 (of_bool neg) + m)"
      using above_mask [of 52 m] True e(3) unfolding Make.simps Let_def by simp
    ultimately show ?thesis
      using True by (simp add: F_def)
  next
    case False
    have "word_of_int e + 1023 + 53 - 1 = (word_of_int (e + 1075) :: 32 word)"
      by simp
    then have exp: "ucast (word_of_int e + 1023 + 53 - 1 :: 32 word) = (word_of_int (e + 1075) :: 64 word)"
      using uint_word_of_int_32 [of "e + 1075"] e(1,2) by (simp only: ucast_eq) simp
    have "push_bit 63 (of_bool neg) + push_bit 52 (ucast (word_of_int e + 1023 + 53 - 1 :: 32 word)) + (m AND (push_bit 52 1 - 1)) =
        (word_of_int (of_bool neg * 2 ^ 63 + (e + 1075) * 2 ^ 52 + F) :: 64 word)"
      unfolding sign exp low_part F_def [symmetric] by (simp add: push_bit_eq_mult)
    moreover have "uint (word_of_int (of_bool neg * 2 ^ 63 + (e + 1075) * 2 ^ 52 + F) :: 64 word) =
        of_bool neg * 2 ^ 63 + (e + 1075) * 2 ^ 52 + F"
      using F e by (intro uint_word_of_int_64) auto
    moreover have "Make Double m e neg = Inr (push_bit 63 (of_bool neg) +
        push_bit 52 (ucast (word_of_int e + 1023 + 53 - 1 :: 32 word)) + (m AND (push_bit 52 1 - 1)))"
      using above_mask [of 52 m] False unfolding Make.simps Let_def by simp
    ultimately show ?thesis
      using False by (simp only: returns_simps F_def [symmetric] if_False)
  qed
qed

lemma Make_Float_bits:
  assumes "canonical Float (uint m) e"
  shows "returns (Make Float m e neg) (\<lambda>b. uint b = of_bool neg * 2 ^ 31 +
    (if uint m < 2 ^ 23 then 0 else e + 150) * 2 ^ 23 + uint m mod 2 ^ 23)"
proof -
  have e: "- 149 \<le> e" "e \<le> 104" "uint m < 2 ^ 23 \<Longrightarrow> e = - 149" "uint m < 2 ^ 24"
    using assms by (auto simp: canonical_def finite_float_def fraction_bits_def)
  define m32 where "m32 = (ucast m :: 32 word)"
  have m32: "uint m32 = uint m"
    using e(4) by (simp add: m32_def unsigned_ucast_eq take_bit_int_eq_self)
  define F where "F = uint m mod 2 ^ 23"
  have F: "0 \<le> F" "F < 2 ^ 23"
    by (simp_all add: F_def)
  have sign: "push_bit 31 (of_bool neg) = (word_of_int (of_bool neg * 2 ^ 31) :: 32 word)"
    by simp
  have up: "uint (ucast (w :: 32 word) :: 64 word) = uint w" for w
    by (rule uint_up_ucast) (simp add: is_up)
  show ?thesis
  proof (cases "uint m < 2 ^ 23")
    case True
    then have "m32 = word_of_int F"
      unfolding F_def by (metis m32 mod_pos_pos_trivial uint_ge_0 word_of_int_uint)
    then have "push_bit 31 (of_bool neg) + m32 = word_of_int (of_bool neg * 2 ^ 31 + F)"
      by (simp only: sign of_int_add)
    moreover have "uint (word_of_int (of_bool neg * 2 ^ 31 + F) :: 32 word) = of_bool neg * 2 ^ 31 + F"
      using F by (intro uint_word_of_int_32) auto
    moreover have "Make Float m e neg = Inr (ucast (push_bit 31 (of_bool neg) + m32))"
      using above_mask [of 23 m32] True e(3) m32 unfolding Make.simps Let_def m32_def [symmetric] by simp
    ultimately show ?thesis
      using True by (simp add: F_def up)
  next
    case False
    have exp: "word_of_int e + 127 + 24 - 1 = (word_of_int (e + 150) :: 32 word)"
      by simp
    have "push_bit 31 (of_bool neg) + push_bit 23 (word_of_int e + 127 + 24 - 1) + (m32 AND (push_bit 23 1 - 1)) =
        (word_of_int (of_bool neg * 2 ^ 31 + (e + 150) * 2 ^ 23 + F) :: 32 word)"
      unfolding sign exp low_part m32 F_def [symmetric] by (simp add: push_bit_eq_mult)
    moreover have "uint (word_of_int (of_bool neg * 2 ^ 31 + (e + 150) * 2 ^ 23 + F) :: 32 word) =
        of_bool neg * 2 ^ 31 + (e + 150) * 2 ^ 23 + F"
      using F e by (intro uint_word_of_int_32) auto
    moreover have "Make Float m e neg = Inr (ucast (push_bit 31 (of_bool neg) +
        push_bit 23 (word_of_int e + 127 + 24 - 1) + (m32 AND (push_bit 23 1 - 1))))"
      using above_mask [of 23 m32] False m32 unfolding Make.simps Let_def m32_def [symmetric] by simp
    ultimately show ?thesis
      using False by (simp only: returns_simps F_def [symmetric] if_False up)
  qed
qed

lemma Make_correct:
  assumes "canonical ft (uint m) e"
  shows "returns (Make ft m e neg) (\<lambda>b. is_negative ft b = neg \<and> significand ft b = uint m \<and> exponent ft b = e)"
proof -
  define E where "E = (if uint m < 2 ^ fraction_bits ft then 0 else e - kMinNormalExponent ft + 1)"
  have c: "0 \<le> uint m" "uint m < 2 * 2 ^ fraction_bits ft" "kMinNormalExponent ft \<le> e" "e \<le> kMaxExponent ft"
    "uint m < 2 ^ fraction_bits ft \<Longrightarrow> e = kMinNormalExponent ft"
    using assms by (cases ft; simp add: canonical_def finite_float_def fraction_bits_def; linarith)+
  have E: "0 \<le> E" "E < 2 ^ (sign_shift ft - fraction_bits ft)"
    using c(3,4) by (cases ft; simp add: E_def sign_shift_def fraction_bits_def)+
  have F: "0 \<le> uint m mod 2 ^ fraction_bits ft" "uint m mod 2 ^ fraction_bits ft < 2 ^ fraction_bits ft"
    by simp_all
  have bits: "returns (Make ft m e neg) (\<lambda>b. uint b = of_bool neg * 2 ^ sign_shift ft + E * 2 ^ fraction_bits ft + uint m mod 2 ^ fraction_bits ft)"
  proof (cases ft)
    case Double
    then have "canonical Double (uint m) e"
      using assms by simp
    from Make_Double_bits [OF this, of neg] show ?thesis
      unfolding Double by (rule returns_mono) (simp add: E_def Double sign_shift_def fraction_bits_def)
  next
    case Float
    then have "canonical Float (uint m) e"
      using assms by simp
    from Make_Float_bits [OF this, of neg] show ?thesis
      unfolding Float by (rule returns_mono) (simp add: E_def Float sign_shift_def fraction_bits_def)
  qed
  have "uint m - 2 ^ fraction_bits ft = uint m mod 2 ^ fraction_bits ft" if "\<not> uint m < 2 ^ fraction_bits ft"
  proof -
    have "uint m mod 2 ^ fraction_bits ft = (uint m - 2 ^ fraction_bits ft) mod 2 ^ fraction_bits ft"
      by simp
    then show ?thesis
      using that c(2) by (simp only: mod_pos_pos_trivial)
  qed
  then have m: "(if E = 0 then uint m mod 2 ^ fraction_bits ft else 2 ^ fraction_bits ft + uint m mod 2 ^ fraction_bits ft) = uint m"
    using c(3) by (auto simp: E_def)
  have e: "kMinNormalExponent ft + max E 1 - 1 = e"
    using c(3,5) by (auto simp: E_def)
  show ?thesis
    using bits
  proof (rule returns_mono)
    fix b :: "64 word"
    assume "uint b = of_bool neg * 2 ^ sign_shift ft + E * 2 ^ fraction_bits ft + uint m mod 2 ^ fraction_bits ft"
    note decode_fields [OF this E F]
    then show "is_negative ft b = neg \<and> significand ft b = uint m \<and> exponent ft b = e"
      using m e by (simp only: significand_def exponent_def)
  qed
qed

section \<open>The calculated number\<close>

text \<open>What the steps after rounding may be given for the number \<open>x\<close>.\<close>

definition rounded :: "float_format \<Rightarrow> real \<Rightarrow> CalculatedFloat \<Rightarrow> bool" where
  "rounded ft x c \<longleftrightarrow>
     (if overflows ft x then cf_exponent c = kOverflow
      else if underflows ft x then cf_exponent c = kUnderflow
      else correctly_rounded ft x (uint (cf_mantissa c)) (cf_exponent c) \<and> canonical ft (uint (cf_mantissa c)) (cf_exponent c) \<and>
        cf_mantissa c \<noteq> 0)"

definition converted :: "float_format \<Rightarrow> bool \<Rightarrow> real \<Rightarrow> from_chars_result \<Rightarrow> from_chars_result \<times> 64 word \<Rightarrow> bool" where
  "converted ft neg x r = (\<lambda>(r', v). is_negative ft v = neg \<and>
     (if overflows ft x then r' = r\<lparr>fcr_ec := result_out_of_range\<rparr> \<and> v = signed_bits ft neg (max_bits ft)
      else if underflows ft x then r' = r\<lparr>fcr_ec := result_out_of_range\<rparr> \<and> v = signed_bits ft neg 0
      else r' = r \<and> correctly_rounded ft x (significand ft v) (exponent ft v)))"

lemma underflow_not_overflow: "underflows ft x \<Longrightarrow> \<not> overflows ft x"
  by (cases ft) (auto simp: underflows_def overflows_def power_int_def power_one_over)

lemma EncodeResult_converted:
  assumes "rounded ft x c"
  shows "returns (EncodeResult ft c neg r) (converted ft neg x r)"
proof -
  consider (over) "overflows ft x" | (under) "\<not> overflows ft x" "underflows ft x" | (finite) "\<not> overflows ft x" "\<not> underflows ft x"
    by blast
  then show ?thesis
  proof cases
    case over
    have "is_negative ft (signed_bits ft neg (max_bits ft)) = neg"
      by (cases ft; cases neg) (simp_all add: signed_bits_def is_negative_def sign_shift_def)
    then show ?thesis
      using assms over by (simp add: rounded_def converted_def EncodeResult_def)
  next
    case under
    have "is_negative ft (signed_bits ft neg 0) = neg"
      by (cases ft; cases neg) (simp_all add: signed_bits_def is_negative_def sign_shift_def)
    then show ?thesis
      using assms under by (simp add: rounded_def converted_def EncodeResult_def kOverflow_def kUnderflow_def)
  next
    case finite
    then have c: "correctly_rounded ft x (uint (cf_mantissa c)) (cf_exponent c)" "canonical ft (uint (cf_mantissa c)) (cf_exponent c)"
      "cf_mantissa c \<noteq> 0"
      using assms by (simp_all add: rounded_def)
    then have "cf_exponent c \<noteq> kOverflow" "cf_exponent c \<noteq> kUnderflow"
      by (cases ft; auto simp: canonical_def finite_float_def kOverflow_def kUnderflow_def)+
    then have "EncodeResult ft c neg r = bind_f (Make ft (cf_mantissa c) (cf_exponent c) neg) (\<lambda>v. Inr (r, v))"
      using c(3) by (simp add: EncodeResult_def)
    then show ?thesis
      using Make_correct [OF c(2), of neg] finite c(1) by (auto simp: returns_iff converted_def)
  qed
qed

end
