(* ===== verification/Charconv_Steps.thy ===== *)
theory Charconv_Steps
  imports Float_Bits Big_Unsigned_Text
begin

text \<open>
  The common end of the conversions from decimal and hexadecimal literals: a mantissa of up to 128 bits is shifted, rounded,
  and brought into the range of the format.
\<close>

section \<open>Bringing the rounded mantissa into range\<close>

lemma mantissa_bits_pos: "0 < kTargetMantissaBits ft" "1 < kTargetMantissaBits ft" "kTargetMantissaBits ft < 64"
  by (cases ft; simp)+

lemma power_mantissa_bits: "2 ^ nat (kTargetMantissaBits ft) = 2 * (2 :: 'a::comm_semiring_1) ^ nat (kTargetMantissaBits ft - 1)"
  by (cases ft) simp_all

lemma fraction_bits_eq: "fraction_bits ft = nat (kTargetMantissaBits ft - 1)"
  by (cases ft) (simp_all add: fraction_bits_def)

lemma exponent_bounds: "kMinNormalExponent ft < kMaxExponent ft" "kMaxExponent ft < kOverflow"
  by (cases ft; simp add: kOverflow_def)+

lemma CalculatedFloatFromRawValues_eq:
  assumes "(q', e') = (if uint m = 2 ^ nat (kTargetMantissaBits ft) then (2 ^ nat (kTargetMantissaBits ft - 1), e + 1) else (uint m, e))"
  shows "cf_exponent (CalculatedFloatFromRawValues ft m e) =
      (if e' > kMaxExponent ft then kOverflow else if q' = 0 then kUnderflow else e')"
    and "e' \<le> kMaxExponent ft \<Longrightarrow> uint (cf_mantissa (CalculatedFloatFromRawValues ft m e)) = q'"
proof -
  have push: "m = push_bit (nat (kTargetMantissaBits ft)) 1 \<longleftrightarrow> uint m = 2 ^ nat (kTargetMantissaBits ft)"
  proof -
    have "uint (push_bit (nat (kTargetMantissaBits ft)) 1 :: 64 word) = 2 ^ nat (kTargetMantissaBits ft)"
      by (cases ft) simp_all
    then show ?thesis
      by (simp add: word_uint_eq_iff)
  qed
  have half: "uint (drop_bit 1 m) = 2 ^ nat (kTargetMantissaBits ft - 1)" if "uint m = 2 ^ nat (kTargetMantissaBits ft)"
    unfolding uint_drop_bit_div that by (cases ft) simp_all
  define m' where "m' = (if uint m = 2 ^ nat (kTargetMantissaBits ft) then drop_bit 1 m else m)"
  have m': "uint m' = q'"
    using assms half by (auto simp: m'_def)
  have code: "CalculatedFloatFromRawValues ft m e =
      (if e' > kMaxExponent ft then CalculatedFloat_init\<lparr>cf_exponent := kOverflow\<rparr>
       else if m' = 0 then CalculatedFloat_init\<lparr>cf_exponent := kUnderflow\<rparr>
       else CalculatedFloat_init\<lparr>cf_exponent := e', cf_mantissa := m'\<rparr>)"
    using assms unfolding CalculatedFloatFromRawValues_def push by (auto simp: m'_def)
  have zero: "m' = 0 \<longleftrightarrow> q' = 0"
    using m' by (auto simp: word_uint_eq_iff)
  show "cf_exponent (CalculatedFloatFromRawValues ft m e) =
      (if e' > kMaxExponent ft then kOverflow else if q' = 0 then kUnderflow else e')"
    by (simp add: code zero)
  show "uint (cf_mantissa (CalculatedFloatFromRawValues ft m e)) = q'" if "e' \<le> kMaxExponent ft"
    using that m' zero by (simp add: code CalculatedFloat_init_def)
qed

lemma nearest_even_abs: "nearest_even x q \<Longrightarrow> \<bar>x - of_int q\<bar> \<le> 1 / 2"
  by (simp add: nearest_even_def)

lemma nearest_even_strict: "nearest_even x q \<Longrightarrow> odd q \<Longrightarrow> \<bar>x - of_int q\<bar> < 1 / 2"
  by (auto simp: nearest_even_def less_le)

lemma CalculatedFloatFromRawValues_rounded:
  assumes "rounds_at ft x (uint m) e"
  shows "rounded ft x (CalculatedFloatFromRawValues ft m e)"
proof -
  define p where "p = nat (kTargetMantissaBits ft)"
  define k where "k = nat (kTargetMantissaBits ft - 1)"
  define q where "q = uint m"
  define u where "u = (2 :: real) powi e"
  have u: "0 < u"
    by (simp add: u_def)
  have pk: "2 ^ p = 2 * (2 :: int) ^ k" "2 ^ p = 2 * (2 :: real) ^ k" "even ((2 :: int) ^ k)" "0 < (2 :: int) ^ k"
    using power_mantissa_bits [of ft] mantissa_bits_pos(2) [of ft] by (simp_all add: p_def k_def)
  have at: "kMinNormalExponent ft \<le> e" "0 \<le> q" "q \<le> 2 ^ p" "e = kMinNormalExponent ft \<or> 2 ^ k \<le> x / u" "nearest_even (x / u) q"
    using assms u unfolding rounds_at_def p_def [symmetric] k_def [symmetric] q_def [symmetric] u_def [symmetric]
    by (auto simp: pos_le_divide_eq)
  note near = nearest_even_abs [OF at(5)]
  have "2 \<le> (2 :: real) ^ p"
    using pk(2) by simp
  then have wide: "2 ^ p + 1 / 2 < (2 ^ p - 1 / 2) * (2 :: real)" "0 \<le> 2 ^ p - (1 / 2 :: real)"
    by argo+
  obtain q' e' where norm: "(q', e') = (if q = 2 ^ p then (2 ^ k, e + 1) else (q, e))"
    by (metis surj_pair)
  have calc: "cf_exponent (CalculatedFloatFromRawValues ft m e) = (if e' > kMaxExponent ft then kOverflow else if q' = 0 then kUnderflow else e')"
    "e' \<le> kMaxExponent ft \<Longrightarrow> uint (cf_mantissa (CalculatedFloatFromRawValues ft m e)) = q'"
    using CalculatedFloatFromRawValues_eq [of q' e' m ft e] norm by (simp_all add: q_def p_def k_def)
  have same: "float_value q' e' = float_value q e"
    using norm pk(2) by (auto simp: float_value_def power_int_add split: if_splits)
  consider (over) "e' > kMaxExponent ft" | (zero) "e' \<le> kMaxExponent ft" "q' = 0" | (ok) "e' \<le> kMaxExponent ft" "q' \<noteq> 0"
    by linarith
  then show ?thesis
  proof cases
    case over
    have "overflows ft x"
      unfolding overflows_def p_def [symmetric]
    proof (cases "e > kMaxExponent ft")
      case True
      then have "2 * 2 powi kMaxExponent ft \<le> u"
        using power_int_increasing [of "kMaxExponent ft + 1" e "2 :: real"] by (simp add: u_def power_int_add)
      moreover have "2 ^ k * u \<le> x"
        using at(4) True exponent_bounds(1) [of ft] u by (auto simp: pos_le_divide_eq)
      ultimately have "2 ^ k * (2 * 2 powi kMaxExponent ft) \<le> x"
        by (meson mult_left_mono order_trans zero_le_numeral zero_le_power)
      moreover have "(2 ^ p - 1 / 2) * 2 powi kMaxExponent ft \<le> 2 ^ k * (2 * 2 powi kMaxExponent ft :: real)"
        using pk(2) by (simp add: left_diff_distrib)
      ultimately show "(2 ^ p - 1 / 2) * 2 powi kMaxExponent ft \<le> x"
        by linarith
    next
      case False
      then have eq: "q = 2 ^ p" "e = kMaxExponent ft"
        using over norm by (auto split: if_splits)
      then have "2 ^ p - 1 / 2 \<le> x / u"
        using near unfolding eq(1) of_int_power of_int_numeral by linarith
      then show "(2 ^ p - 1 / 2) * 2 powi kMaxExponent ft \<le> x"
        using u eq(2) by (simp add: pos_le_divide_eq u_def)
    qed
    then show ?thesis
      using over calc(1) by (simp add: rounded_def)
  next
    case zero
    then have q: "q = 0"
      using norm pk by (auto split: if_splits)
    then have "x / u \<le> 1 / 2"
      using near by linarith
    then have "e = kMinNormalExponent ft" "x \<le> u / 2"
      using at(4) u one_le_power [of "2 :: real" k] by (linarith, simp add: pos_divide_le_eq)

    then have "underflows ft x"
      by (simp add: underflows_def u_def power_int_diff)
    then show ?thesis
      using zero calc(1) underflow_not_overflow by (simp add: rounded_def)
  next
    case ok
    then have q: "1 \<le> q"
      using norm at(2) by (auto split: if_splits)
    have no_over: "\<not> overflows ft x"
    proof (cases "q = 2 ^ p")
      case True
      then have "u * 2 \<le> 2 powi kMaxExponent ft"
        using ok(1) norm power_int_increasing [of "e + 1" "kMaxExponent ft" "2 :: real"] by (simp add: u_def power_int_add)
      moreover have "x / u \<le> 2 ^ p + 1 / 2"
        using near unfolding True of_int_power of_int_numeral by linarith
      then have "x \<le> (2 ^ p + 1 / 2) * u"
        using u by (simp add: pos_divide_le_eq)
      moreover have "(2 ^ p + 1 / 2) * u < (2 ^ p - 1 / 2) * (u * 2)"
        using mult_strict_right_mono [OF wide(1) u] by (simp only: mult.assoc mult.commute [of 2 u])
      moreover have "(2 ^ p - 1 / 2) * (u * 2) \<le> (2 ^ p - 1 / 2) * 2 powi kMaxExponent ft"
        using calculation(1) wide(2) by (intro mult_left_mono)
      ultimately have "x < (2 ^ p - 1 / 2) * 2 powi kMaxExponent ft"
        by linarith
      then show ?thesis
        by (simp add: overflows_def p_def)
    next
      case False
      have "x / u < 2 ^ p - 1 / 2"
      proof (cases "q = 2 ^ p - 1")
        case True
        then have "odd q"
          using pk(1) by simp
        then show ?thesis
          using nearest_even_strict [OF at(5)] unfolding True of_int_diff of_int_power of_int_numeral of_int_1 by linarith
      next
        case False
        then have "q \<le> 2 ^ p - 2"
          using at(3) \<open>q \<noteq> 2 ^ p\<close> by linarith
        then have "real_of_int q \<le> of_int (2 ^ p - 2)"
          by (simp only: of_int_le_iff)
        then show ?thesis
          using near unfolding of_int_diff of_int_power of_int_numeral by linarith
      qed
      then have "x < (2 ^ p - 1 / 2) * u"
        using u by (simp add: pos_divide_less_eq)
      also have "\<dots> \<le> (2 ^ p - 1 / 2) * 2 powi kMaxExponent ft"
        using ok(1) norm False wide(2) power_int_increasing [of e "kMaxExponent ft" "2 :: real"]
        by (intro mult_left_mono) (simp_all add: u_def)
      finally show ?thesis
        by (simp add: overflows_def p_def)
    qed
    have "1 / 2 < x / u"
    proof (cases "q = 1")
      case True
      then have "odd q"
        by simp
      from nearest_even_strict [OF at(5) this] show ?thesis
        unfolding True of_int_1 by linarith
    next
      case False
      then have "2 \<le> real_of_int q"
        using q by linarith
      then show ?thesis
        using near by linarith
    qed
    then have "u / 2 < x"
      using u by (simp add: pos_less_divide_eq)
    moreover have "2 powi (kMinNormalExponent ft - 1) \<le> u / 2"
      using at(1) power_int_increasing [of "kMinNormalExponent ft - 1" "e - 1" "2 :: real"] by (simp add: u_def power_int_diff)
    ultimately have no_under: "\<not> underflows ft x"
      by (simp add: underflows_def)
    have finite: "finite_float ft q' e'"
    proof (cases "q = 2 ^ p")
      case True
      then have "q' = 2 ^ k" "e' = e + 1"
        using norm by simp_all
      then show ?thesis
        using ok(1) at(1) pk(1,4) unfolding finite_float_def p_def [symmetric] by simp
    next
      case False
      then have "q' = q" "e' = e"
        using norm by simp_all
      then show ?thesis
        using ok(1) at(1-3) False unfolding finite_float_def p_def [symmetric] by simp
    qed
    have least: "correctly_rounded ft x q' e'"
      unfolding correctly_rounded_def same
    proof (intro conjI allI impI)
      fix m' e''
      assume f: "finite_float ft m' e''"
      show "\<bar>x - float_value q e\<bar> \<le> \<bar>x - float_value m' e''\<bar>"
        using rounds_at_least(1) [OF assms f] by (simp add: q_def)
      assume "\<bar>x - float_value q e\<bar> = \<bar>x - float_value m' e''\<bar>"
      then have "float_value m' e'' = float_value q e \<or> even q"
        using rounds_at_least(2) [OF assms f] by (simp add: q_def)
      then show "float_value m' e'' = float_value q e \<or> even q'"
        using norm pk(3) by (auto split: if_splits)
    qed (rule finite)
    have "2 ^ k \<le> q \<or> e = kMinNormalExponent ft"
    proof (cases "e = kMinNormalExponent ft")
      case False
      then have "2 ^ k - 1 / 2 \<le> real_of_int q"
        using at(4) near by linarith
      then have "real_of_int (2 ^ k - 1) < real_of_int q"
        by simp
      then have "2 ^ k - 1 < q"
        by (simp only: of_int_less_iff)
      then show ?thesis
        by linarith
    qed simp
    then have "canonical ft q' e'"
      using finite norm by (auto simp: canonical_def fraction_bits_eq k_def split: if_splits)
    moreover have "cf_mantissa (CalculatedFloatFromRawValues ft m e) \<noteq> 0"
      using calc(2) ok by auto
    ultimately show ?thesis
      using no_over no_under least calc ok by (simp add: rounded_def)
  qed
qed

section \<open>Rounding the shifted mantissa\<close>

lemma nearest_even_scaled:
  assumes "0 < h"
  shows "nearest_even (X / (2 * h)) q \<longleftrightarrow> \<bar>X - of_int q * (2 * h)\<bar> \<le> h \<and> (\<bar>X - of_int q * (2 * h)\<bar> = h \<longrightarrow> even q)"
proof -
  have "\<bar>X / (2 * h) - of_int q\<bar> = \<bar>X - of_int q * (2 * h)\<bar> / (2 * h)"
  proof -
    have "X / (2 * h) - of_int q = (X - of_int q * (2 * h)) / (2 * h)"
      using assms by (simp add: field_simps)
    then show ?thesis
      using assms by (simp add: abs_divide)
  qed
  then show ?thesis
    using assms unfolding nearest_even_def by (simp add: divide_le_eq divide_eq_eq)
qed

text \<open>Splitting \<open>V\<close> at \<open>s\<close> bits, with half a unit of the upper part.\<close>

lemma split_at_bits:
  assumes "0 < s"
  obtains h q r :: int where "h = 2 ^ (s - 1)" "2 ^ s = 2 * h" "q = V div 2 ^ s" "r = V mod 2 ^ s" "V = q * (2 * h) + r" "0 \<le> r" "r < 2 * h"
    "1 \<le> h"
proof -
  have two: "(2 :: int) ^ s = 2 * 2 ^ (s - 1)"
    using assms by (cases s) simp_all
  have "V = V div 2 ^ s * (2 * 2 ^ (s - 1)) + V mod 2 ^ s" "0 \<le> V mod 2 ^ s" "V mod 2 ^ s < 2 * 2 ^ (s - 1)"
    unfolding two [symmetric] by (simp_all add: mult.commute)
  then show thesis
    using that [OF refl two refl refl] by simp
qed

lemma real_power_half: "0 < s \<Longrightarrow> (2 :: real) ^ s = 2 * of_int (2 ^ (s - 1))"
  by (cases s) simp_all

lemma round_shift_nearest:
  assumes "0 < s" "if exact then X = of_int V else of_int V < X \<and> X < of_int V + 2 \<and> V mod 2 ^ s \<noteq> 2 ^ (s - 1) - 1"
  shows "nearest_even (X / 2 ^ s) (round_shift V s exact)"
proof -
  obtain h q r where split: "h = 2 ^ (s - 1)" "2 ^ s = 2 * h" "q = V div 2 ^ s" "r = V mod 2 ^ s" "V = q * (2 * h) + r" "0 \<le> r"
    "r < 2 * h" "1 \<le> h"
    by (rule split_at_bits [OF assms(1)])
  have code: "round_shift V s exact = (if r > h \<or> r = h \<and> (odd q \<or> \<not> exact) then q + 1 else q)"
    unfolding round_shift_def Let_def split(1,3,4) by simp
  have V: "of_int V = of_int q * (2 * of_int h) + real_of_int r"
    using split(5) by simp
  have X: "of_int q * (2 * of_int h) + of_int r \<le> X" "exact \<Longrightarrow> X = of_int q * (2 * of_int h) + of_int r"
    "\<not> exact \<Longrightarrow> of_int q * (2 * of_int h) + of_int r < X \<and> X < of_int q * (2 * of_int h) + of_int r + 2 \<and> r \<noteq> h - 1"
    using assms(2) split(1,4) V by (auto split: if_splits)
  define A where "A = of_int q * (2 * real_of_int h)"
  have at: "of_int (round_shift V s exact) * (2 * real_of_int h) =
      (if r > h \<or> r = h \<and> (odd q \<or> \<not> exact) then A + 2 * real_of_int h else A)"
    unfolding code A_def by (auto simp: distrib_right)
  have real: "real_of_int r < 2 * of_int h" "0 \<le> real_of_int r" "1 \<le> real_of_int h"
    using split(6-8) by linarith+
  have "\<bar>X - of_int (round_shift V s exact) * (2 * of_int h)\<bar> \<le> of_int h \<and>
    (\<bar>X - of_int (round_shift V s exact) * (2 * of_int h)\<bar> = of_int h \<longrightarrow> even (round_shift V s exact))"
  proof (cases exact)
    case True
    note X2 = X(2) [OF True, folded A_def]
    consider "real_of_int h < of_int r" | "r = h" "odd q" | "r = h" "even q" | "real_of_int r < of_int h"
      by fastforce
    then show ?thesis
    proof cases
      case 1
      then show ?thesis
        using X2 real unfolding at by simp
    next
      case 2
      then show ?thesis
        using X2 real unfolding at by (simp add: code)
    next
      case 3
      then have "round_shift V s exact = q"
        using code True by simp
      then show ?thesis
        using X2 real True 3 unfolding at by simp
    next
      case 4
      then show ?thesis
        using X2 real unfolding at by simp
    qed
  next
    case False
    note X3 = X(3) [OF False, folded A_def]
    show ?thesis
    proof (cases "r \<ge> h")
      case True
      then have "real_of_int h \<le> of_int r" "real_of_int r + 1 \<le> 2 * of_int h" "r > h \<or> r = h"
        using split(7) by linarith+
      moreover from this have "\<bar>X - (A + 2 * of_int h)\<bar> < of_int h"
        using X3 real by linarith
      ultimately show ?thesis
        using False unfolding at by simp
    next
      case f: False
      then have "real_of_int r + 2 \<le> of_int h" "\<not> (r > h \<or> r = h)"
        using X3 by linarith+
      moreover from this have "\<bar>X - A\<bar> < of_int h"
        using X3 real by linarith
      ultimately show ?thesis
        unfolding at by simp
    qed
  qed
  then show ?thesis
    unfolding real_power_half [OF assms(1)] using nearest_even_scaled [of "of_int h" X "round_shift V s exact"] split(8)
    by (simp add: split(1))
qed

lemma rounds_at_shifted:
  assumes "shift = max (w - kTargetMantissaBits ft) (kMinNormalExponent ft - e0)" "2 powi (w - 1) \<le> X"
    and "nearest_even (X / 2 powi shift) q" "0 \<le> q" "q \<le> 2 ^ nat (kTargetMantissaBits ft)"
  shows "rounds_at ft (X * 2 powi e0) q (e0 + shift)"
proof -
  have "2 powi (e0 + shift) = 2 powi e0 * (2 :: real) powi shift"
    by (simp add: power_int_add)
  then have scaled: "X * 2 powi e0 / 2 powi (e0 + shift) = X / 2 powi shift"
    by simp
  have "e0 + shift = kMinNormalExponent ft \<or> 2 ^ nat (kTargetMantissaBits ft - 1) * 2 powi (e0 + shift) \<le> X * 2 powi e0"
  proof (cases "shift = w - kTargetMantissaBits ft")
    case True
    have "2 ^ nat (kTargetMantissaBits ft - 1) = (2 :: real) powi (kTargetMantissaBits ft - 1)"
      using mantissa_bits_pos(1) [of ft] by (simp add: power_int_def)
    then have "2 ^ nat (kTargetMantissaBits ft - 1) * 2 powi (e0 + shift) = 2 powi (w - 1) * (2 :: real) powi e0"
      using True by (simp flip: power_int_add) (simp add: algebra_simps)
    then show ?thesis
      using assms(2) by simp
  next
    case False
    then show ?thesis
      using assms(1) by (simp add: max_def split: if_splits)
  qed
  then show ?thesis
    using assms scaled unfolding rounds_at_def by simp
qed

lemma uint_low64_shl:
  assumes "uint W * 2 ^ k < 2 ^ 64"
  shows "uint (ucast (push_bit k W :: 128 word) :: 64 word) = uint W * 2 ^ k"
proof -
  have range: "0 \<le> uint W * 2 ^ k" "uint W * 2 ^ k < 2 ^ 128"
    using assms by simp_all
  have "uint (push_bit k W) = uint W * 2 ^ k mod 2 ^ 128"
    unfolding unsigned_push_bit_eq by (simp add: take_bit_eq_mod push_bit_eq_mult)
  also have "\<dots> = uint W * 2 ^ k"
    by (rule mod_pos_pos_trivial [OF range])
  finally have "uint (push_bit k W) = uint W * 2 ^ k" .
  then have "uint (ucast (push_bit k W :: 128 word) :: 64 word) = uint W * 2 ^ k mod 2 ^ 64"
    by (simp add: unsigned_ucast_eq take_bit_eq_mod)
  then show ?thesis
    using range(1) assms by (simp only: mod_pos_pos_trivial)
qed

lemma round_shift_range:
  assumes "0 \<le> V" "V < 2 ^ (s + p)"
  shows "0 \<le> round_shift V s exact" "round_shift V s exact \<le> 2 ^ p"
proof -
  have "0 \<le> V div 2 ^ s" "V div 2 ^ s < 2 ^ p"
    using assms by (simp_all add: pos_imp_zdiv_nonneg_iff int_div_less power_add mult.commute)
  then show "0 \<le> round_shift V s exact" "round_shift V s exact \<le> 2 ^ p"
    by (auto simp: round_shift_def Let_def)
qed

lemma ShiftRightAndRound_rounds:
  assumes "V = uint (w128 v)" "V < 2 ^ nat w" "1 \<le> w"
    and "shift = max (w - kTargetMantissaBits ft) (kMinNormalExponent ft - e0)" "2 powi (w - 1) \<le> X"
    and "shift \<le> 0 \<Longrightarrow> X = of_int V"
    and "\<And>s. shift = int s \<Longrightarrow> 0 < s \<Longrightarrow> s < 128 \<Longrightarrow> nearest_even (X / 2 ^ s) (round_shift V s exact)"
    and "128 \<le> shift \<Longrightarrow> X < 2 ^ 127"
  shows "rounds_at ft (X * 2 powi e0) (uint (fst (ShiftRightAndRound v shift exact))) (e0 + shift)"
proof -
  note at = rounds_at_shifted [OF assms(4,5)]
  have V: "0 \<le> V"
    by (simp add: assms(1))
  consider (left) "shift \<le> 0" | (far) "128 \<le> shift" | (right) s where "shift = int s" "0 < s" "s < 128"
    by (metis linorder_not_le nonneg_int_cases of_nat_0_less_iff of_nat_less_iff of_nat_numeral order_less_imp_le)
  then show ?thesis
  proof cases
    case left
    define k where "k = nat (- shift)"
    have small: "V * 2 ^ k < 2 ^ nat (kTargetMantissaBits ft)"
    proof -
      have "V * 2 ^ k < 2 ^ nat w * 2 ^ k"
        using assms(2) by simp
      also have "2 ^ nat w * (2 :: int) ^ k \<le> 2 ^ nat (kTargetMantissaBits ft)"
        using left assms(3,4) unfolding power_add [symmetric] k_def by (intro power_increasing) auto
      finally show ?thesis .
    qed
    also have "(2 :: int) ^ nat (kTargetMantissaBits ft) \<le> 2 ^ 64"
      using mantissa_bits_pos(3) [of ft] by (intro power_increasing) simp_all
    finally have "uint (fst (ShiftRightAndRound v shift exact)) = V * 2 ^ k"
      using left uint_low64_shl [of "w128 v" k] by (simp add: ShiftRightAndRound_def Uint128Low64_eq assms(1) k_def)
    moreover have "shift = - int k"
      using left by (simp add: k_def)
    then have "X / 2 powi shift = of_int (V * 2 ^ k)"
      unfolding assms(6) [OF left] by (simp add: power_int_minus divide_inverse)
    then have "nearest_even (X / 2 powi shift) (V * 2 ^ k)"
      unfolding nearest_even_def by simp
    ultimately show ?thesis
      using at [of "V * 2 ^ k"] small V by simp
  next
    case far
    have "0 < X"
      using assms(5) zero_less_power_int [of "2 :: real" "w - 1"] by linarith
    have "(2 :: real) ^ 128 \<le> 2 powi shift"
      using power_int_increasing [of 128 shift "2 :: real"] far by simp
    then have "X < 2 powi shift / 2"
      using assms(8) [OF far] by simp
    then have "nearest_even (X / 2 powi shift) 0"
      using \<open>0 < X\<close> by (simp add: nearest_even_def divide_le_eq)
    then show ?thesis
      using at [of 0] far by (simp add: ShiftRightAndRound_def)
  next
    case right
    define p where "p = nat (kTargetMantissaBits ft)"
    have "nat w \<le> s + p"
      using assms(4) right(1) by (simp add: p_def)
    then have "(2 :: int) ^ nat w \<le> 2 ^ (s + p)"
      by (rule power_increasing) simp
    then have "V < 2 ^ (s + p)"
      using assms(2) by linarith
    note range = round_shift_range [OF V this, of exact]
    have "(2 :: int) ^ p < 2 ^ 64"
      using mantissa_bits_pos(3) [of ft] by (intro power_strict_increasing) (simp_all add: p_def)
    then have "uint (fst (ShiftRightAndRound v shift exact)) = round_shift V s exact"
      using ShiftRightAndRound_eq [OF right(2,3), of v exact] range right(1)
      by (simp add: assms(1) uint_word_of_int take_bit_int_eq_self)
    moreover have "nearest_even (X / 2 powi shift) (round_shift V s exact)"
      using assms(7) [OF right] right(1) by (simp add: power_int_def)
    ultimately show ?thesis
      using at range by (simp add: p_def)
  qed
qed

end
