(* ===== verification/Parse_Float_Value.thy ===== *)
theory Parse_Float_Value
  imports Complex_Main Parse_Float_Results
begin

text \<open>
  What mantissa and exponent of the scanner say of the number that the text denotes.
\<close>

definition exponent_base :: "base \<Rightarrow> int" where
  "exponent_base base = (case base of Decimal \<Rightarrow> 10 | Hexadecimal \<Rightarrow> 2)"

text \<open>The value of the literal, with all digits of mantissa and exponent.\<close>

definition literal_value :: "base \<Rightarrow> chars_format \<Rightarrow> byte list \<Rightarrow> real" where
  "literal_value base flags s =
     of_int (digits_value base (integer_digits base s @ fraction_digits base s)) *
     of_int (base_radix base) powi (- int (length (fraction_digits base s))) *
     of_int (exponent_base base) powi exponent_value base flags (drop (mantissa_length base s) s)"

text \<open>The value with the exponent that is scanned, of which at most nine digits are kept.\<close>

definition scanned_value :: "base \<Rightarrow> chars_format \<Rightarrow> byte list \<Rightarrow> real" where
  "scanned_value base flags s =
     of_int (digits_value base (integer_digits base s @ fraction_digits base s)) *
     of_int (base_radix base) powi (- int (length (fraction_digits base s))) *
     of_int (exponent_base base) powi fst (snd (exponent_parts base flags (drop (mantissa_length base s) s)))"

lemma exponent_base_power: "(of_int (base_radix base) :: real) powi k = of_int (exponent_base base) powi (digit_weight base * k)"
  by (cases base) (simp_all add: exponent_base_def power_int_mult)

lemma exponent_base_pos: "0 < (of_int (exponent_base base) :: real)"
  by (cases base) (simp_all add: exponent_base_def)

text \<open>The digits that are kept and those that are dropped.\<close>

lemma significant_split:
  assumes "k = length (significant_digits base s) - mantissa_digits base"
  shows "digits_value base (integer_digits base s @ fraction_digits base s) =
      mantissa_value base s * base_radix base ^ k + digits_value base (drop (mantissa_digits base) (significant_digits base s))"
proof -
  have "digits_value base (integer_digits base s @ fraction_digits base s) = digits_value base (significant_digits base s)"
    by (simp add: significant_digits_def digits_value_drop_zeros)
  also have "\<dots> = digits_value base (take (mantissa_digits base) (significant_digits base s) @
      drop (mantissa_digits base) (significant_digits base s))"
    by simp
  finally show ?thesis
    unfolding digits_value_append by (simp add: mantissa_value_def assms)
qed

lemma dropped_range:
  assumes "k = length (significant_digits base s) - mantissa_digits base"
    and "d = digits_value base (drop (mantissa_digits base) (significant_digits base s))"
  shows "0 \<le> d" "d < base_radix base ^ k" "0 < d \<longleftrightarrow> dropped_nonzero base s"
proof -
  have digits: "all_digits base (drop (mantissa_digits base) (significant_digits base s))"
    using significant_all_digits by (auto simp: list_all_iff dest: in_set_dropD)
  show "0 \<le> d" "d < base_radix base ^ k"
    using digits_value_nonneg [OF digits] digits_value_less [OF digits] by (simp_all add: assms)
  then show "0 < d \<longleftrightarrow> dropped_nonzero base s"
    using digits_value_eq_0_iff [OF digits] assms(2) by (auto simp: dropped_nonzero_def nonzero_in_def)
qed

text \<open>With the scale that the exponent gives, the literal is the mantissa and the fraction that the dropped digits leave.\<close>

lemma scanned_value_scaled:
  assumes "k = length (significant_digits base s) - mantissa_digits base"
    and "d = digits_value base (drop (mantissa_digits base) (significant_digits base s))"
    and "v = fst (snd (exponent_parts base flags (drop (mantissa_length base s) s)))"
    and "scale = (of_int (exponent_base base) :: real) powi (v + digit_weight base * exponent_adjust base s)"
  shows "scanned_value base flags s = (of_int (mantissa_value base s) + of_int d / of_int (base_radix base) ^ k) * scale"
proof -
  let ?B = "of_int (base_radix base) :: real"
  have B: "?B \<noteq> 0" "0 < ?B"
    by (cases base; simp)+
  have "exponent_adjust base s = int k - int (length (fraction_digits base s))"
    by (auto simp: exponent_adjust_def assms(1))
  then have "scale = of_int (exponent_base base) powi v * ?B powi (int k - int (length (fraction_digits base s)))"
    using exponent_base_pos [of base] by (simp add: assms(4) power_int_add exponent_base_power)
  also have "\<dots> = of_int (exponent_base base) powi v * (?B ^ k * ?B powi (- int (length (fraction_digits base s))))"
    using B power_int_add [of ?B "int k" "- int (length (fraction_digits base s))"] by simp
  finally have scale: "scale = of_int (exponent_base base) powi v * (?B ^ k * ?B powi (- int (length (fraction_digits base s))))" .
  have "(of_int (mantissa_value base s) + of_int d / ?B ^ k) * ?B ^ k = of_int (mantissa_value base s) * ?B ^ k + of_int d"
    using B by (simp add: distrib_right)
  also have "\<dots> = of_int (digits_value base (integer_digits base s @ fraction_digits base s))"
    by (simp add: significant_split [OF assms(1)] assms(2))
  finally have "(of_int (mantissa_value base s) + of_int d / ?B ^ k) * ?B ^ k =
    of_int (digits_value base (integer_digits base s @ fraction_digits base s))" .
  then show ?thesis
    by (simp add: scanned_value_def assms(3) scale mult.assoc [symmetric])
qed

lemma dropped_fraction:
  assumes "k = length (significant_digits base s) - mantissa_digits base"
    and "f = (of_int (digits_value base (drop (mantissa_digits base) (significant_digits base s))) :: real) / of_int (base_radix base) ^ k"
  shows "0 \<le> f" "f < 1" "0 < f \<longleftrightarrow> dropped_nonzero base s"
proof -
  let ?d = "digits_value base (drop (mantissa_digits base) (significant_digits base s))"
  have B: "0 < (of_int (base_radix base) :: real) ^ k"
    by (cases base) simp_all
  note d = dropped_range [OF assms(1) refl]
  have "real_of_int ?d < of_int (base_radix base ^ k)"
    using d(2) by (simp only: of_int_less_iff)
  then show "f < 1"
    using B by (simp add: assms(2))
  show "0 \<le> f"
    unfolding assms(2) using d(1) B by (intro divide_nonneg_pos) simp_all
  show "0 < f \<longleftrightarrow> dropped_nonzero base s"
    using d(1,3) B by (simp add: assms(2) zero_less_divide_iff)
qed

text \<open>Setting the last bit moves a number by at most one, to an odd number.\<close>

lemma mantissa_nonzero:
  assumes "dropped_nonzero base s"
  shows "mantissa_value base s \<noteq> 0"
proof
  assume "mantissa_value base s = 0"
  moreover have "all_digits base (take (mantissa_digits base) (significant_digits base s))"
    using significant_all_digits [of base s] by (auto simp: list_all_iff dest: in_set_takeD)
  ultimately have "\<forall>c \<in> set (take (mantissa_digits base) (significant_digits base s)). c = 48"
    using digits_value_eq_0_iff by (simp add: mantissa_value_def)
  moreover have "significant_digits base s = [] \<or> hd (significant_digits base s) \<noteq> 48"
    unfolding significant_digits_def using hd_dropWhile by blast
  ultimately have "significant_digits base s = []"
    using mantissa_digits_pos(1) [of base] by (cases "significant_digits base s"; cases "mantissa_digits base") auto
  then show False
    using assms by (simp add: dropped_nonzero_def nonzero_in_def)
qed

lemma or_1_cases: "(m :: int) OR 1 = m \<and> odd m \<or> m OR 1 = m + 1 \<and> even m"
  by (auto simp: or_one_eq elim: oddE)

lemma special_reference_type: "special_reference src begin = Some r \<Longrightarrow> pf_type r \<noteq> kNumber"
  by (auto simp: special_reference_def Let_def split: if_splits)

text \<open>The two values differ by a power of the exponent's base, and not at all when the exponent has at most nine digits.\<close>

lemma literal_value_scanned:
  assumes "v = fst (snd (exponent_parts base flags (drop (mantissa_length base s) s)))"
    and "V = exponent_value base flags (drop (mantissa_length base s) s)"
  shows "literal_value base flags s = scanned_value base flags s * of_int (exponent_base base) powi (V - v)"
proof -
  have "(of_int (exponent_base base) :: real) powi V = of_int (exponent_base base) powi v * of_int (exponent_base base) powi (V - v)"
    using exponent_base_pos [of base] by (subst power_int_add [symmetric]) simp_all
  then show ?thesis
    by (simp add: literal_value_def scanned_value_def assms)
qed

lemma ParseFloat_number_found:
  assumes "begin \<le> length src" "ParseFloat base src begin flags = Inr r" "pf_end r \<noteq> None" "pf_type r = kNumber"
    and "s = drop begin src" "v = fst (snd (exponent_parts base flags (drop (mantissa_length base s) s)))"
    and "m = (if base = Hexadecimal \<and> dropped_nonzero base s then mantissa_value base s OR 1 else mantissa_value base s)"
  shows "uint (pf_mantissa r) = m"
    and "pf_exponent r = (if m = 0 then 0 else v + digit_weight base * exponent_adjust base s)"
    and "pf_literal_exponent r = v"
    and "pf_subrange_begin r = (if base = Decimal \<and> dropped_nonzero base s then Some begin else None)"
    and "pf_subrange_end r = (if base = Decimal \<and> dropped_nonzero base s then Some (begin + mantissa_length base s) else None)"
proof -
  have r: "r = ParseFloat_reference base src begin flags"
    using ParseFloat_eq [OF assms(1)] assms(2) by simp
  have "0 \<le> m" "m < 2 ^ 64"
    using mantissa_value_range [of base s] mantissa_or_1_range [of "mantissa_value base s"] by (auto simp: assms(7))
  then have m: "uint (word_of_int m :: 64 word) = m"
    by (simp add: uint_word_of_int take_bit_int_eq_self)
  have "r = number_reference base src begin flags \<and> within_limits base s"
    using r assms(3,4) special_reference_type [of src "begin"]
    by (auto simp: ParseFloat_reference_def assms(5) nothing_parsed_def split: option.splits if_splits)
  moreover obtain ek found where "exponent_parts base flags (drop (mantissa_length base s) s) = (ek, v, found)"
    using assms(6) by (cases "exponent_parts base flags (drop (mantissa_length base s) s)") auto
  ultimately have "r = number_reference base src begin flags"
    "number_reference base src begin flags =
     (let wide = (base = Decimal \<and> dropped_nonzero base s); complete = (found \<or> \<not> exponent_required flags)
      in if integer_digits base s = [] \<and> fraction_digits base s = [] then nothing_parsed
         else \<lparr>pf_mantissa = word_of_int m,
           pf_exponent = (if complete \<and> m \<noteq> 0 then v + digit_weight base * exponent_adjust base s else 0),
           pf_literal_exponent = v, pf_type = kNumber,
           pf_subrange_begin = (if wide then Some begin else None),
           pf_subrange_end = (if wide then Some (begin + mantissa_length base s) else None),
           pf_end = (if complete then Some (begin + mantissa_length base s + ek) else None)\<rparr>)"
    unfolding number_reference_def Let_def assms(5) [symmetric] assms(7) [symmetric] by simp_all
  then show "uint (pf_mantissa r) = m"
    "pf_exponent r = (if m = 0 then 0 else v + digit_weight base * exponent_adjust base s)"
    "pf_literal_exponent r = v"
    "pf_subrange_begin r = (if base = Decimal \<and> dropped_nonzero base s then Some begin else None)"
    "pf_subrange_end r = (if base = Decimal \<and> dropped_nonzero base s then Some (begin + mantissa_length base s) else None)"
    using assms(3) m by (auto simp: Let_def nothing_parsed_def split: if_splits)
qed

text \<open>The value, in terms of what the scanner returns.\<close>

lemma ParseFloat_number_value:
  assumes "begin \<le> length src" "ParseFloat base src begin flags = Inr r" "pf_end r \<noteq> None" "pf_type r = kNumber"
    and "s = drop begin src" "m = of_int (uint (pf_mantissa r))" "scale = of_int (exponent_base base) powi pf_exponent r"
  shows "if dropped_nonzero base s
     then (case base of
         Decimal \<Rightarrow> pf_subrange_begin r = Some begin \<and> m * scale < scanned_value base flags s \<and>
           scanned_value base flags s < (m + 1) * scale
       | Hexadecimal \<Rightarrow> odd (uint (pf_mantissa r)) \<and> \<bar>scanned_value base flags s - m * scale\<bar> < scale)
     else scanned_value base flags s = m * scale \<and> pf_subrange_begin r = None"
proof -
  note found = ParseFloat_number_found [OF assms(1-5) refl refl]
  define n where "n = mantissa_value base s"
  define k where "k = length (significant_digits base s) - mantissa_digits base"
  define f where "f = (of_int (digits_value base (drop (mantissa_digits base) (significant_digits base s))) :: real) /
    of_int (base_radix base) ^ k"
  define e where "e = fst (snd (exponent_parts base flags (drop (mantissa_length base s) s))) + digit_weight base * exponent_adjust base s"
  note f = dropped_fraction [OF k_def f_def]
  have value_eq: "scanned_value base flags s = (of_int n + f) * of_int (exponent_base base) powi e"
    using scanned_value_scaled [OF k_def refl refl refl, of flags] by (simp add: n_def f_def e_def)
  have pos: "0 < (of_int (exponent_base base) :: real) powi e"
    by (intro zero_less_power_int exponent_base_pos)
  have scale: "scale = of_int (exponent_base base) powi e" if "uint (pf_mantissa r) \<noteq> 0"
    using found(1,2) that by (simp add: assms(7) e_def)
  have nonzero: "n \<noteq> 0" if "dropped_nonzero base s"
    using mantissa_nonzero [OF that] by (simp add: n_def)
  show ?thesis
  proof (cases "dropped_nonzero base s")
    case False
    then have "uint (pf_mantissa r) = n" "f = 0"
      using found(1) f by (auto simp: n_def)
    then show ?thesis
      using False found(4) value_eq scale by (cases "n = 0") (simp_all add: assms(6))
  next
    case True
    show ?thesis
    proof (cases base)
      case Decimal
      then show ?thesis
        using True found(1,4) f nonzero scale value_eq pos by (simp add: assms(6) n_def)
    next
      case Hexadecimal
      then have m: "uint (pf_mantissa r) = n OR 1"
        using True found(1) by (simp add: n_def)
      have odd: "odd (uint (pf_mantissa r))"
        unfolding m using or_1_cases [of n] by auto
      then have "scale = of_int (exponent_base base) powi e"
        using scale by fastforce
      moreover have "\<bar>of_int n + f - m\<bar> < 1"
        using or_1_cases [of n] f True by (auto simp: assms(6) m)
      then have "\<bar>(of_int n + f - m) * of_int (exponent_base base) powi e\<bar> < 1 * of_int (exponent_base base) powi e"
        using pos by (simp add: abs_mult)
      ultimately show ?thesis
        using True Hexadecimal odd value_eq by (simp add: left_diff_distrib)
    qed
  qed
qed

section \<open>The properties\<close>

text \<open>
  Claim C32. The scanner of floating-point numbers computes, on every text, base and format, what a reference says that splits the text
  into digits, point and exponent, or a word and a sequence in parentheses, and uses none of the scanner's functions, tables and constants. So the
  scanner always returns: it never reads outside the text, none of its assertions fails, and no \<open>int\<close> overflows.
\<close>

theorem ParseFloat_is_reference:
  assumes "begin \<le> length src"
  shows "ParseFloat base src begin flags = Inr (ParseFloat_reference base src begin flags)"
  by (rule ParseFloat_eq [OF assms])

theorem ParseFloat_is_reference_witness:
  "ParseFloat Decimal [50, 46] 2 3 = Inr (ParseFloat_reference Decimal [50, 46] 2 3)"
  by (rule ParseFloat_is_reference) simp

text \<open>
  Claim C31. When the scanner finds a number whose exponent is less than \<open>10 ^ 9\<close> in absolute value, mantissa times base to the
  exponent is the value that the text denotes, exactly if no nonzero digit was dropped; otherwise the value lies strictly between this mantissa and the next one in base
  10, where the range of digits is reported, and less than one away from the mantissa, which is odd, in base 16. Of a larger exponent only
  the first nine digits are scanned, so that the exponent is at least \<open>10 ^ 8\<close> and has the right sign.
\<close>

theorem ParseFloat_literal_value:
  assumes "begin \<le> length src" "ParseFloat base src begin flags = Inr r" "pf_end r \<noteq> None" "pf_type r = kNumber"
  shows "let s = drop begin src; m = of_int (uint (pf_mantissa r)); scale = of_int (exponent_base base) powi pf_exponent r;
      V = exponent_value base flags (drop (mantissa_length base s) s)
    in if \<bar>V\<bar> < 10 ^ 9 then
       (if dropped_nonzero base s
        then (case base of
            Decimal \<Rightarrow> pf_subrange_begin r = Some begin \<and> m * scale < literal_value base flags s \<and>
              literal_value base flags s < (m + 1) * scale
          | Hexadecimal \<Rightarrow> odd (uint (pf_mantissa r)) \<and> \<bar>literal_value base flags s - m * scale\<bar> < scale)
        else literal_value base flags s = m * scale \<and> pf_subrange_begin r = None)
      else 10 ^ 8 \<le> \<bar>pf_literal_exponent r\<bar> \<and> (0 < pf_literal_exponent r \<longleftrightarrow> 0 < V)"
proof -
  define s where "s = drop begin src"
  obtain ek v found where parts: "exponent_parts base flags (drop (mantissa_length base s) s) = (ek, v, found)"
    by (cases "exponent_parts base flags (drop (mantissa_length base s) s)") auto
  note v = exponent_parts_value [OF parts refl]
  have "pf_literal_exponent r = v"
    using ParseFloat_number_found(3) [OF assms s_def refl refl] by (simp add: parts)
  moreover define V where "V = exponent_value base flags (drop (mantissa_length base s) s)"
  ultimately show ?thesis
    unfolding Let_def s_def [symmetric] V_def [symmetric]
  proof (cases "\<bar>V\<bar> < 10 ^ 9")
    case True
    then have "literal_value base flags s = scanned_value base flags s"
      using literal_value_scanned [OF refl refl, of base flags s] v by (simp add: parts V_def)
    then show "if \<bar>V\<bar> < 10 ^ 9 then
       (if dropped_nonzero base s
        then (case base of
            Decimal \<Rightarrow> pf_subrange_begin r = Some begin \<and>
              of_int (uint (pf_mantissa r)) * of_int (exponent_base base) powi pf_exponent r < literal_value base flags s \<and>
              literal_value base flags s < (of_int (uint (pf_mantissa r)) + 1) * of_int (exponent_base base) powi pf_exponent r
          | Hexadecimal \<Rightarrow> odd (uint (pf_mantissa r)) \<and>
              \<bar>literal_value base flags s - of_int (uint (pf_mantissa r)) * of_int (exponent_base base) powi pf_exponent r\<bar>
                < of_int (exponent_base base) powi pf_exponent r)
        else literal_value base flags s = of_int (uint (pf_mantissa r)) * of_int (exponent_base base) powi pf_exponent r \<and>
          pf_subrange_begin r = None)
      else 10 ^ 8 \<le> \<bar>pf_literal_exponent r\<bar> \<and> (0 < pf_literal_exponent r \<longleftrightarrow> 0 < V)"
      using ParseFloat_number_value [OF assms s_def refl refl] by (simp only: True if_True)
  qed (use v in \<open>simp add: V_def [symmetric]\<close>)
qed

lemma ParseFloat_example:
  "ParseFloat Decimal [49, 46, 53, 101, 50] 0 general_fmt = Inr (nothing_parsed\<lparr>pf_mantissa := 15, pf_exponent := 1,
    pf_literal_exponent := 2, pf_end := Some 5\<rparr>)"
  by (simp add: ParseFloat_eq ParseFloat_reference_def special_reference_def starts_with_def lower_case_def within_limits_def number_reference_def
     integer_digits_def fraction_digits_def has_point_def significant_digits_def mantissa_length_def exponent_parts_def
    nothing_parsed_def Let_def exponent_adjust_def mantissa_value_def dropped_nonzero_def nonzero_in_def digits_value_def
    exponent_allowed_def general_fmt_def fixed_fmt_def scientific_fmt_def)

lemma exponent_value_example: "exponent_value Decimal general_fmt [101, 50] = 2"
  by (simp add: exponent_value_def exponent_allowed_def general_fmt_def fixed_fmt_def scientific_fmt_def digits_value_def)

theorem ParseFloat_literal_value_witness:
  "literal_value Decimal general_fmt [49, 46, 53, 101, 50] = 150 \<and> \<not> dropped_nonzero Decimal [49, 46, 53, 101, 50]"
proof -
  let ?s = "[49, 46, 53, 101, 50] :: byte list"
  have no_drop: "\<not> dropped_nonzero Decimal ?s"
    by (simp add: dropped_nonzero_def nonzero_in_def significant_digits_def integer_digits_def fraction_digits_def has_point_def)
  have "drop (mantissa_length Decimal ?s) ?s = [101, 50]"
    by (simp add: mantissa_length_def integer_digits_def fraction_digits_def has_point_def)
  then show ?thesis
    using ParseFloat_literal_value [OF _ ParseFloat_example] no_drop exponent_value_example
    by (simp add: nothing_parsed_def exponent_base_def Let_def)
qed

end
