(* ===== verification/Charconv_Hexadecimal.thy ===== *)
theory Charconv_Hexadecimal
  imports Charconv_Steps Parse_Float_Value
begin

text \<open>
  The conversion of hexadecimal literals is correctly rounded. The scanner keeps 60 bits and sets the last of them when it
  drops a nonzero digit, which is enough to round.
\<close>

section \<open>What the scanner returns\<close>

lemma ParseFloat_number_bounds:
  assumes "begin \<le> length src" "ParseFloat base src begin flags = Inr r" "pf_end r \<noteq> None" "pf_type r = kNumber" "s = drop begin src"
    and "v = fst (snd (exponent_parts base flags (drop (mantissa_length base s) s)))"
  shows "\<bar>pf_exponent r\<bar> \<le> 1100000000"
    and "pf_mantissa r \<noteq> 0 \<Longrightarrow> \<bar>pf_exponent r - v\<bar> \<le> 50000100"
proof -
  have r: "r = ParseFloat_reference base src begin flags"
    using ParseFloat_eq [OF assms(1)] assms(2) by simp
  have "within_limits base s"
    using r assms(3,4) special_reference_type [of src "begin"]
    by (auto simp: ParseFloat_reference_def assms(5) nothing_parsed_def split: option.splits if_splits)
  note adjust = scaled_adjust_bounds [OF this]
  obtain ek found where parts: "exponent_parts base flags (drop (mantissa_length base s) s) = (ek, v, found)"
    using assms(6) by (cases "exponent_parts base flags (drop (mantissa_length base s) s)") auto
  define m where "m = (if base = Hexadecimal \<and> dropped_nonzero base s then mantissa_value base s OR 1 else mantissa_value base s)"
  note number = ParseFloat_number_found [OF assms(1-6) m_def]
  have "\<bar>v\<bar> < 10 ^ 9"
    by (rule exponent_parts_bound [OF parts])
  then show "\<bar>pf_exponent r\<bar> \<le> 1100000000"
    using adjust number(2) by (simp split: if_splits)
  show "\<bar>pf_exponent r - v\<bar> \<le> 50000100" if "pf_mantissa r \<noteq> 0"
  proof -
    have "m \<noteq> 0"
      using that number(1) uint_0_iff [of "pf_mantissa r"] by auto
    then show ?thesis
      using adjust number(2) by simp
  qed
qed

lemma mantissa_value_large:
  assumes "dropped_nonzero base s"
  shows "base_radix base ^ (mantissa_digits base - 1) \<le> mantissa_value base s"
proof -
  define n where "n = mantissa_digits base"
  have n: "0 < n"
    by (cases base) (simp_all add: n_def)
  define ds where "ds = take n (significant_digits base s)"
  have "drop n (significant_digits base s) \<noteq> []"
    using assms by (auto simp: dropped_nonzero_def nonzero_in_def n_def)
  then have "n < length (significant_digits base s)"
    by simp
  then have len: "length ds = n"
    by (simp add: ds_def)
  have digits: "all_digits base ds"
    using significant_all_digits [of base s] by (auto simp: ds_def list_all_iff dest: in_set_takeD)
  have "hd ds = hd (significant_digits base s)"
    using n by (simp add: ds_def hd_take)
  moreover have "significant_digits base s \<noteq> []"
    using \<open>n < length (significant_digits base s)\<close> by auto
  then have "hd (significant_digits base s) \<noteq> 48"
    unfolding significant_digits_def by (rule hd_dropWhile)
  ultimately have "hd ds \<noteq> 48"
    by simp
  then show ?thesis
    using digits_value_at_least [OF digits] n len by (force simp: mantissa_value_def ds_def n_def)
qed

section \<open>Rounding with a sticky bit\<close>

lemma round_shift_sticky:
  assumes "2 \<le> s" "odd V" "\<bar>X - of_int V\<bar> < 1"
  shows "nearest_even (X / 2 ^ s) (round_shift V s True)"
proof -
  have "0 < s"
    using assms(1) by simp
  then obtain h q r where split: "h = 2 ^ (s - 1)" "2 ^ s = 2 * h" "q = V div 2 ^ s" "r = V mod 2 ^ s" "V = q * (2 * h) + r" "0 \<le> r"
    "r < 2 * h" "1 \<le> h"
    by (rule split_at_bits)
  have h: "even h"
    using assms(1) split(1) by simp
  then have r: "odd r" "r \<noteq> h"
    using assms(2) split(5) by auto
  have code: "round_shift V s True = (if r > h then q + 1 else q)"
    unfolding round_shift_def Let_def split(1,3,4) using r(2) by (simp add: split(1,4))
  define A where "A = of_int q * (2 * real_of_int h)"
  have at: "of_int (round_shift V s True) * (2 * real_of_int h) = (if r > h then A + 2 * real_of_int h else A)"
    unfolding code A_def by (auto simp: distrib_right)
  have V: "of_int V = A + real_of_int r"
    unfolding A_def using split(5) by simp
  have X: "A + real_of_int r - 1 < X" "X < A + real_of_int r + 1"
    using assms(3) V by linarith+
  have "\<bar>X - of_int (round_shift V s True) * (2 * of_int h)\<bar> < of_int h"
  proof (cases "r > h")
    case True
    then have "real_of_int h + 1 \<le> of_int r" "real_of_int r + 1 \<le> 2 * of_int h" "1 \<le> real_of_int h"
      using split(7,8) by linarith+
    then have "\<bar>X - (A + 2 * of_int h)\<bar> < of_int h"
      using X by linarith
    then show ?thesis
      using True at by simp
  next
    case False
    then have "real_of_int r + 1 \<le> of_int h" "1 \<le> real_of_int r"
      using r split(6) by (simp_all flip: of_int_add) (presburger+)?
    then have "\<bar>X - A\<bar> < of_int h"
      using X by linarith
    then show ?thesis
      using False at by simp
  qed
  then show ?thesis
    unfolding real_power_half [OF \<open>0 < s\<close>] using nearest_even_scaled [of "of_int h" X "round_shift V s True"] split(8)
    by (simp add: split(1))
qed

section \<open>The conversion\<close>

lemma of_int_ge_power: "2 ^ n \<le> m \<Longrightarrow> (2 :: real) ^ n \<le> of_int m"
  using of_int_le_iff [of "2 ^ n" m, where ?'a = real] by simp

lemma of_int_le_power: "m \<le> 2 ^ n \<Longrightarrow> of_int m \<le> (2 :: real) ^ n"
  using of_int_le_iff [of m "2 ^ n", where ?'a = real] by simp

lemma CalculateFromParsedHexadecimal_rounded:
  assumes "M = uint (pf_mantissa r)" "M \<noteq> 0" "\<bar>pf_exponent r\<bar> \<le> 1100000000"
    and "X = of_int M \<or> odd M \<and> 2 ^ 56 \<le> M \<and> \<bar>X - of_int M\<bar> < 1"
  shows "returns (CalculateFromParsedHexadecimal ft r) (rounded ft (X * 2 powi pf_exponent r))"
proof -
  define w where "w = bit_length (unat (pf_mantissa r))"
  define shift where "shift = max (int w - kTargetMantissaBits ft) (kMinNormalExponent ft - pf_exponent r)"
  have "unat (pf_mantissa r) \<noteq> 0"
    using assms(1,2) by (auto simp: unat_eq_zero)
  then have low: "int (2 ^ (w - 1)) \<le> int (unat (pf_mantissa r))" and w0: "0 < w"
    using two_bit_length_le [of "unat (pf_mantissa r)"] bit_length_le_iff [of "unat (pf_mantissa r)" 0]
    unfolding w_def of_nat_le_iff by (blast, linarith)
  have low: "2 ^ (w - 1) \<le> M"
    using low by (simp add: assms(1))
  have "int (unat (pf_mantissa r)) < int (2 ^ w)"
    unfolding of_nat_less_iff w_def by (rule less_two_bit_length)
  then have high: "M < 2 ^ w"
    by (simp add: assms(1))
  have w64: "w \<le> 64"
    using bit_length_word [of "pf_mantissa r"] by (simp add: w_def)
  have V: "M = uint (w128 (uint128_of_unsigned (pf_mantissa r)))"
    unfolding assms(1) w128_of_unsigned by (rule uint_up_ucast [symmetric]) (simp add: is_up)
  have low_X: "2 powi (int w - 1) \<le> X"
  proof -
    have "2 ^ (w - 1) \<le> X"
    proof (cases "X = of_int M")
      case True
      then show ?thesis
        using of_int_ge_power [OF low] by simp
    next
      case False
      then have odd: "odd M" "2 ^ 56 \<le> M" "of_int (M - 1) < X"
        using assms(4) by auto
      then have "even ((2 :: int) ^ (w - 1))"
        using high w0 by (cases "w = 1") auto
      then have "2 ^ (w - 1) \<le> M - 1"
        using odd(1) low by (metis even_diff_nat less_le zle_diff1_eq)
      then have "2 ^ (w - 1) \<le> real_of_int (M - 1)"
        by (rule of_int_ge_power)
      then show ?thesis
        using odd(3) by linarith
    qed
    then show ?thesis
      using w0 by (simp add: power_int_def nat_diff_distrib)
  qed
  have at: "rounds_at ft (X * 2 powi pf_exponent r)
      (uint (fst (ShiftRightAndRound (uint128_of_unsigned (pf_mantissa r)) shift True))) (pf_exponent r + shift)"
  proof (rule ShiftRightAndRound_rounds [OF V _ _ shift_def low_X])
    show "M < 2 ^ nat (int w)" "1 \<le> int w"
      using high w0 by simp_all
    have wide: "4 \<le> shift" if "X \<noteq> of_int M"
    proof -
      have "(2 :: int) ^ 56 < 2 ^ w"
        using that assms(4) high by linarith
      then have "56 < w"
        by (rule power_less_imp_less_exp [rotated]) simp
      then show ?thesis
        by (cases ft) (simp_all add: shift_def)
    qed
    then show "X = of_int M" if "shift \<le> 0"
      using that by fastforce
    show "nearest_even (X / 2 ^ s) (round_shift M s True)" if "shift = int s" "0 < s" "s < 128" for s
    proof (cases "X = of_int M")
      case True
      then show ?thesis
        using round_shift_nearest [OF that(2), of True X M] by simp
    next
      case False
      then show ?thesis
        using round_shift_sticky [of s M X] wide [OF False] that(1) assms(4) by simp
    qed
    show "X < 2 ^ 127" if "128 \<le> shift"
    proof -
      have "M \<le> 2 ^ 64"
        using assms(1) word64_less [of "pf_mantissa r"] by simp
      then have "real_of_int M \<le> 2 ^ 64"
        by (rule of_int_le_power)
      then show ?thesis
        using assms(4) by auto
    qed
  qed
  have bounds: "- 1100000000 \<le> pf_exponent r" "pf_exponent r \<le> 1100000000" "- 1074 \<le> kMinNormalExponent ft"
    "kMinNormalExponent ft \<le> 0" "0 < kTargetMantissaBits ft"
    using assms(3) by (linarith, linarith) (cases ft; simp)+
  have "in_int (kMinNormalExponent ft - pf_exponent r)"
    using bounds by (simp add: in_int_def)
  moreover have "pf_exponent r + shift = max (pf_exponent r + int w - kTargetMantissaBits ft) (kMinNormalExponent ft)"
    unfolding shift_def by linarith
  then have "in_int (pf_exponent r + shift)"
    using bounds w64 unfolding in_int_def by linarith
  moreover have "64 - CountLeadingZeros64 (pf_mantissa r) = int w"
    by (simp add: CountLeadingZeros64_eq w_def)
  ultimately show ?thesis
    using CalculatedFloatFromRawValues_rounded [OF at]
    unfolding CalculateFromParsedHexadecimal_def NormalizedShiftSize_def Let_def
    by (simp add: returns_bind_iff shift_def [symmetric] split_beta)
qed

section \<open>The conversion of a scanned number\<close>

text \<open>What a conversion returns for the number \<open>x\<close> whose text ends at \<open>ptr\<close>.\<close>

definition conversion :: "float_format \<Rightarrow> bool \<Rightarrow> real \<Rightarrow> nat \<Rightarrow> from_chars_result \<times> 64 word \<Rightarrow> bool" where
  "conversion ft neg x ptr r \<longleftrightarrow>
     (if x = 0 then r = (\<lparr>fcr_ptr = ptr, fcr_ec = no_error\<rparr>, signed_bits ft neg 0)
      else converted ft neg x \<lparr>fcr_ptr = ptr, fcr_ec = no_error\<rparr> r)"

text \<open>It is enough that the calculated number is the rounded one.\<close>

lemma finish_conversion_correct:
  assumes "pf_type r = kNumber" "pf_mantissa r = 0 \<longleftrightarrow> x = 0"
    and "pf_mantissa r \<noteq> 0 \<Longrightarrow> returns (case base of
        Hexadecimal \<Rightarrow> CalculateFromParsedHexadecimal ft r
      | Decimal \<Rightarrow> CalculateFromParsedDecimal src ft r) (rounded ft x)"
  shows "returns (finish_conversion MakeNan base ft src neg r ptr) (conversion ft neg x ptr)"
proof (cases "pf_mantissa r = 0")
  case True
  then show ?thesis
    using assms(1,2) by (simp add: finish_conversion_def HandleEdgeCase_def conversion_def Let_def)
next
  case False
  then have "HandleEdgeCase MakeNan src ft r neg = None" "x \<noteq> 0"
    using assms(1,2) by (simp_all add: HandleEdgeCase_def)
  then show ?thesis
    using returns_bind [OF assms(3) [OF False] EncodeResult_converted]
    unfolding finish_conversion_def Let_def conversion_def by simp
qed

text \<open>A number that is converted like another one, since both are too large or both too small for the format.\<close>

lemma overflows_far: "2 powi 1100 \<le> x \<Longrightarrow> overflows ft x"
  by (cases ft) (simp_all add: overflows_def power_int_def)

lemma underflows_far: "x \<le> 2 powi (- 1100) \<Longrightarrow> underflows ft x"
  by (cases ft) (simp_all add: underflows_def power_int_def power_one_over)

lemma rounded_far:
  assumes "rounded ft x c" "overflows ft x \<and> overflows ft y \<or> underflows ft x \<and> underflows ft y"
  shows "rounded ft y c"
  using assms underflow_not_overflow by (auto simp: rounded_def)

text \<open>An exponent of more than nine digits is far outside the range of both formats, like the part of it that is scanned.\<close>

lemma literal_value_far:
  assumes "begin \<le> length src" "ParseFloat Hexadecimal src begin flags = Inr r" "pf_end r \<noteq> None" "pf_type r = kNumber"
    and "s = drop begin src" "x = scanned_value Hexadecimal flags s" "y = literal_value Hexadecimal flags s"
    and "pf_mantissa r \<noteq> 0" "u = 2 powi pf_exponent r" "u \<le> x" "x \<le> 2 ^ 64 * u"
  shows "y = x \<or> overflows ft x \<and> overflows ft y \<or> underflows ft x \<and> underflows ft y"
proof -
  define e where "e = drop (mantissa_length Hexadecimal s) s"
  define v where "v = fst (snd (exponent_parts Hexadecimal flags e))"
  define V where "V = exponent_value Hexadecimal flags e"
  obtain k found where "exponent_parts Hexadecimal flags e = (k, v, found)"
    unfolding v_def by (cases "exponent_parts Hexadecimal flags e") auto
  note v = exponent_parts_value [OF this V_def]
  have near: "\<bar>pf_exponent r - v\<bar> \<le> 50000100"
    by (rule ParseFloat_number_bounds(2) [OF assms(1-5)]) (simp_all add: assms(8) v_def e_def)
  have y: "y = x * 2 powi (V - v)"
    unfolding assms(6,7) by (subst literal_value_scanned [OF v_def [unfolded e_def] V_def [unfolded e_def]]) (simp add: exponent_base_def)
  have u: "0 < u" "0 \<le> x"
    using assms(10) by (simp_all add: assms(9) order_trans [OF _ assms(10)])
  consider "\<bar>V\<bar> < 10 ^ 9" | (large) "0 < v" "10 ^ 8 \<le> v" "v \<le> V" | (small) "v \<le> - (10 ^ 8)" "V \<le> v"
    using v by (cases "\<bar>V\<bar> < 10 ^ 9"; cases "0 < v"; simp; linarith)
  then show ?thesis
  proof cases
    case 1
    then show ?thesis
      using v y by simp
  next
    case large
    then have "(2 :: real) powi 1100 \<le> 2 powi pf_exponent r"
      using near by (intro power_int_increasing) simp_all
    then have x: "2 powi 1100 \<le> x"
      using assms(10) unfolding assms(9) by (rule order_trans)
    have "(1 :: real) = 2 powi 0"
      by simp
    also have "\<dots> \<le> 2 powi (V - v)"
      using large by (intro power_int_increasing) simp_all
    finally have "x * 1 \<le> y"
      unfolding y using u(2) by (intro mult_left_mono)
    then show ?thesis
      using overflows_far [of x ft] overflows_far [of y ft] x order_trans [OF x, of y] by simp
  next
    case small
    have "2 ^ 64 * u = 2 powi (64 + pf_exponent r)"
      by (simp add: assms(9) power_int_add)
    also have "\<dots> \<le> 2 powi (- 1100)"
      using small near by (intro power_int_increasing) simp_all
    finally have x: "x \<le> 2 powi (- 1100)"
      by (rule order_trans [OF assms(11)])
    have "(2 :: real) powi (V - v) \<le> 2 powi 0"
      using small by (intro power_int_increasing) simp_all
    then have "y \<le> x * 1"
      unfolding y using u(2) by (intro mult_left_mono) simp_all
    then show ?thesis
      using underflows_far [of x ft] underflows_far [of y ft] x order_trans [OF _ x, of y] by simp
  qed
qed

lemma hexadecimal_conversion:
  assumes "begin \<le> length src" "ParseFloat Hexadecimal src begin flags = Inr r" "pf_end r \<noteq> None" "pf_type r = kNumber"
  shows "returns (finish_conversion MakeNan Hexadecimal ft src neg r ptr)
    (conversion ft neg (literal_value Hexadecimal flags (drop begin src)) ptr)"
proof -
  define s where "s = drop begin src"
  define x where "x = scanned_value Hexadecimal flags s"
  define y where "y = literal_value Hexadecimal flags s"
  define M where "M = uint (pf_mantissa r)"
  have M_0: "pf_mantissa r = 0 \<longleftrightarrow> M = 0"
    unfolding M_def by (simp only: uint_0_iff)
  define u where "u = (2 :: real) powi pf_exponent r"
  have u: "0 < u"
    by (simp add: u_def)
  have value_eq: "if dropped_nonzero Hexadecimal s then odd M \<and> \<bar>x - of_int M * u\<bar> < u else x = of_int M * u"
    using ParseFloat_number_value [OF assms s_def refl refl] by (simp add: x_def M_def u_def exponent_base_def split: if_splits)
  have large: "2 ^ 56 \<le> M" if "dropped_nonzero Hexadecimal s"
    using mantissa_value_large [OF that] ParseFloat_number_found(1) [OF assms s_def refl refl] that or_1_cases [of "mantissa_value Hexadecimal s"]
    by (auto simp: M_def)
  have scaled: "\<bar>x / u - of_int M\<bar> < 1" if "\<bar>x - of_int M * u\<bar> < u"
  proof -
    have "x / u - of_int M = (x - of_int M * u) / u"
      using u by (simp add: diff_divide_distrib)
    then show ?thesis
      using that u by (simp add: abs_divide)
  qed
  have X: "x / u = of_int M \<or> odd M \<and> 2 ^ 56 \<le> M \<and> \<bar>x / u - of_int M\<bar> < 1"
    using value_eq large scaled u by (simp split: if_splits)
  have zero: "pf_mantissa r = 0 \<longleftrightarrow> x = 0"
  proof (cases "dropped_nonzero Hexadecimal s")
    case True
    then have "2 ^ 56 * u \<le> of_int M * u"
      using of_int_ge_power [OF large] u by (intro mult_right_mono) simp_all
    then have "x \<noteq> 0"
      using value_eq True u by auto
    moreover have "M \<noteq> 0"
      using large [OF True] by auto
    ultimately show ?thesis
      using M_0 by simp
  next
    case False
    then show ?thesis
      using value_eq u M_0 by simp
  qed
  have "y = 0 \<longleftrightarrow> x = 0"
    unfolding x_def y_def by (subst literal_value_scanned [OF refl refl]) (simp add: exponent_base_def)
  then have zero_y: "pf_mantissa r = 0 \<longleftrightarrow> y = 0"
    using zero by simp
  show ?thesis
    unfolding s_def [symmetric] y_def [symmetric]
  proof (rule finish_conversion_correct [OF assms(4) zero_y])
    assume "pf_mantissa r \<noteq> 0"
    then have "M \<noteq> 0"
      by (simp add: M_0)
    have "1 \<le> M" "M + 1 \<le> 2 ^ 64"
      using \<open>M \<noteq> 0\<close> word64_less [of "pf_mantissa r"] uint_ge_0 [of "pf_mantissa r"] unfolding M_def by linarith+
    then have "1 \<le> real_of_int M" "real_of_int M + 1 \<le> 2 ^ 64"
      using of_int_le_power [of "M + 1" 64] by simp_all
    then have "1 \<le> x / u \<and> x / u \<le> 2 ^ 64"
      using X of_int_ge_power [of 56 M] by auto
    then have "u \<le> x" "x \<le> 2 ^ 64 * u"
      using u by (simp_all add: field_simps)
    from literal_value_far [OF assms s_def x_def y_def \<open>pf_mantissa r \<noteq> 0\<close> u_def this]
    have far: "y = x \<or> overflows ft x \<and> overflows ft y \<or> underflows ft x \<and> underflows ft y" .
    from CalculateFromParsedHexadecimal_rounded [OF M_def \<open>M \<noteq> 0\<close> ParseFloat_number_bounds(1) [OF assms s_def refl] X]
    have "returns (CalculateFromParsedHexadecimal ft r) (rounded ft x)"
      using u by (simp add: u_def)
    then show "returns (case Hexadecimal of
        Hexadecimal \<Rightarrow> CalculateFromParsedHexadecimal ft r
      | Decimal \<Rightarrow> CalculateFromParsedDecimal src ft r) (rounded ft y)"
      using far rounded_far by (auto elim!: returns_mono)
  qed
qed

end
