(* ===== verification/Long_Decimal.thy ===== *)
theory Long_Decimal
  imports Big_Unsigned_Text Parse_Float_Value
begin

text \<open>
  What \<open>ReadDigits\<close> makes of a decimal number with more digits than it reads: the digits that it reads are the number rounded
  down, and the last of them is moved off the multiples of five.
\<close>

section \<open>Reading part of the digits\<close>

lemma split_digits:
  "digits_or_points s \<Longrightarrow> n < length (digits_in s) \<Longrightarrow>
    \<exists>pre c post. s = pre @ c # post \<and> is_digit Decimal c \<and> length (digits_in pre) = n"
proof (induction s arbitrary: n)
  case (Cons c s)
  show ?case
  proof (cases "c = 46")
    case True
    then obtain pre c' post where "s = pre @ c' # post \<and> is_digit Decimal c' \<and> length (digits_in pre) = n"
      using Cons by fastforce
    then show ?thesis
      using True by (intro exI [of _ "c # pre"] exI [of _ c'] exI [of _ post]) simp
  next
    case False
    then have din: "digits_in (c # t) = c # digits_in t" for t
      by (simp add: digits_in_def)
    show ?thesis
    proof (cases n)
      case 0
      then show ?thesis
        using Cons.prems(1) False by (intro exI [of _ "[]"] exI [of _ c] exI [of _ s]) simp
    next
      case (Suc m)
      then obtain pre c' post where "s = pre @ c' # post \<and> is_digit Decimal c' \<and> length (digits_in pre) = m"
        using Cons.IH [of m] Cons.prems din by auto
      then show ?thesis
        using Suc din by (intro exI [of _ "c # pre"] exI [of _ c'] exI [of _ post]) simp
    qed
  qed
qed simp

lemma five_dvd_last_digit:
  assumes "0 \<le> d" "d < 10"
  shows "5 dvd v * 10 + (d :: int) \<longleftrightarrow> d = 0 \<or> d = 5"
  using assms by presburger

lemma read_loop_truncates:
  assumes "digits_or_points s" "s = pre @ c # post" "is_digit Decimal c" "post \<noteq> []"
    and "length (digits_in pre) = n" "reader_ok N r" "read_total r = 0" "10 ^ Suc n \<le> (2 :: int) ^ (32 * N)"
    and X: "X = dval (digits_in pre @ [c])" and room: "adjust_room r (Suc n)"
  obtains r' where "read_loop s (int (Suc n)) r = Inr (r', post)" "reader_ok N r'"
    and "read_total r' = (if 5 dvd X then X + 1 else X)" "rd_after_point r' \<longleftrightarrow> rd_after_point r \<or> 46 \<in> set pre"
    and "rd_adjust r' = rd_adjust r - int (fraction_length (rd_after_point r) (pre @ [c]))"
proof -
  define d where "d = digit_number Decimal c"
  define v where "v = dval (digits_in pre)"
  have d: "0 \<le> d" "d < 10"
    using digit_number_range [OF assms(3)] by (simp_all add: d_def)
  have pre: "digits_or_points pre" "int (length (digits_in pre)) < int (Suc n)"
    using assms(1,2,5) by simp_all
  have v: "0 \<le> v" "v < 10 ^ n"
    using digits_value_nonneg [OF digits_in_all_digits [OF pre(1)]] digits_value_less [OF digits_in_all_digits [OF pre(1)]]
    by (simp_all add: v_def assms(5))
  have X_eq: "X = v * 10 + d"
    by (simp add: X v_def d_def)
  define d' where "d' = (if d = 0 \<or> d = 5 then d + 1 else d)"
  have d': "v * 10 + d' = (if 5 dvd X then X + 1 else X)" "d' < 10"
    using five_dvd_last_digit [OF d, of v] d by (auto simp: X_eq d'_def)
  have "v * 10 + 10 \<le> 10 ^ Suc n"
    using v(2) by simp
  then have fits: "v * 10 + d' < 2 ^ (32 * N)" "v < 2 ^ (32 * N)"
    using assms(8) d'(2) v(1) by linarith+
  have room': "adjust_room r (length (digits_in pre) + Suc 0)"
    using room by (simp add: assms(5))
  obtain r1 where r1: "read_loop s (int (Suc n)) r = read_loop (c # post) 1 r1" "reader_ok N r1" "read_total r1 = v"
    "rd_after_point r1 \<longleftrightarrow> rd_after_point r \<or> 46 \<in> set pre"
    "rd_adjust r1 = rd_adjust r - int (fraction_length (rd_after_point r) pre)" "adjust_room r1 (Suc 0)"
    using read_prefix [OF pre assms(6), of "Suc 0" "c # post"] fits(2) room' assms(2,5,6,7)
    by (auto simp: v_def)
  obtain r2 where "read_loop (c # post) 1 r1 = read_loop post 0 r2" "reader_ok N r2" "read_total r2 = v * 10 + d'"
    "rd_after_point r2 = rd_after_point r1" "rd_adjust r2 = rd_adjust r1 - (if rd_after_point r1 then 1 else 0)"
    using read_digit [OF assms(3) _ r1(2) d_def refl, of 1 post 0] assms(4) fits(1) r1(3,6) by (auto simp: d'_def)
  moreover have "read_loop post 0 r2 = Inr (r2, post)"
    using assms(4) by (cases post) simp_all
  moreover have "int (fraction_length (rd_after_point r) (pre @ [c])) =
      int (fraction_length (rd_after_point r) pre) + (if rd_after_point r1 then 1 else 0)"
    using assms(3) by (simp add: fraction_length_snoc r1(4))
  ultimately show ?thesis
    using r1 d'(1) by (intro that [of r2]) simp_all
qed

section \<open>The value that is read\<close>

definition text_value :: "byte list \<Rightarrow> byte list \<Rightarrow> real" where
  "text_value I F = of_int (dval (I @ F)) * 10 powi (- int (length F))"

definition first_nonzero :: "byte list \<Rightarrow> byte list \<Rightarrow> bool" where
  "first_nonzero I F \<longleftrightarrow> (\<exists>c \<in> set I. c \<noteq> 48) \<or> F \<noteq> [] \<and> hd F \<noteq> 48"

text \<open>Reading \<open>n\<close> digits of the number gives \<open>v\<close> and the exponent \<open>a\<close>.\<close>

definition reads_truncated :: "nat \<Rightarrow> byte list \<Rightarrow> byte list \<Rightarrow> int \<Rightarrow> int \<Rightarrow> bool" where
  "reads_truncated n I F v a \<longleftrightarrow> (\<exists>X. v = (if 5 dvd X then X + 1 else X) \<and> 0 \<le> X \<and> (first_nonzero I F \<longrightarrow> 10 ^ (n - 1) \<le> X) \<and>
     of_int X * 10 powi a < text_value I F \<and> text_value I F < (of_int X + 1) * 10 powi a)"

definition reads :: "nat \<Rightarrow> byte list \<Rightarrow> byte list \<Rightarrow> int \<Rightarrow> int \<Rightarrow> bool" where
  "reads n I F v a \<longleftrightarrow> 0 \<le> v \<and> v < 10 ^ n \<and> - int (length F) \<le> a \<and> a \<le> int (length (dropWhile (\<lambda>c. c = 48) I)) \<and>
     (of_int v * 10 powi a = text_value I F \<or> reads_truncated n I F v a)"

lemma hd_first_nonzero:
  assumes "first_nonzero I F" "prefix D (dropWhile (\<lambda>c. c = 48) I @ F)" "D \<noteq> []"
  shows "hd D \<noteq> 48"
proof -
  have "hd D = hd (dropWhile (\<lambda>c. c = 48) I @ F)"
    using assms(2,3) by (auto simp: prefix_def)
  moreover have "hd (dropWhile (\<lambda>c. c = 48) I @ F) \<noteq> 48"
  proof (cases "dropWhile (\<lambda>c. c = 48) I = []")
    case True
    then have "F \<noteq> [] \<and> hd F \<noteq> 48"
      using assms(1) by (auto simp: first_nonzero_def dropWhile_eq_Nil_conv)
    then show ?thesis
      unfolding True by simp
  next
    case False
    then show ?thesis
      unfolding hd_append2 [OF False] by (rule hd_dropWhile)
  qed
  ultimately show ?thesis
    by simp
qed

lemma digits_value_lower:
  "all_digits Decimal D \<Longrightarrow> D \<noteq> [] \<Longrightarrow> hd D \<noteq> 48 \<Longrightarrow> 10 ^ (length D - 1) \<le> dval D"
  using digits_value_at_least [of Decimal D] by simp

lemma text_value_shift:
  assumes "dval D * 10 ^ (length F + z - f) = dval (I @ F)" "f \<le> length F"
  shows "text_value I F = of_int (dval D) * 10 powi (int z - int f)"
proof -
  have "(10 :: real) powi (int z - int f) = 10 powi (int (length F + z - f) + - int (length F))"
    using assms(2) by (simp add: of_nat_diff)
  also have "\<dots> = 10 ^ (length F + z - f) * 10 powi (- int (length F))"
    by (subst power_int_add) simp_all
  finally show ?thesis
    by (simp add: text_value_def flip: assms(1))
qed

theorem ReadDigits_reads:
  assumes b: "big_ok N b" and s: "number_text s I F" and short: "length s < 2 ^ 31"
    and n: "0 < n" "n \<le> Digits10 N + 1" and fits: "10 ^ n \<le> (2 :: int) ^ (32 * N)"
  shows "returns (ReadDigits s (int n) b) (\<lambda>(b', a). big_ok N b' \<and> reads n I F (big_value b') a)"
proof -
  obtain kept z where kept: "drop_outer_zeros s = Inr (kept, int z)" "kept = [] \<or> last kept \<noteq> 46 \<and> last kept \<noteq> 48"
    "digits_or_points kept" "fraction_length False kept \<le> length F" "z + length (takeWhile (\<lambda>c. c \<noteq> 46) kept) \<le> length (dropWhile (\<lambda>c. c = 48) I)"
    and val: "dval (digits_in kept) * 10 ^ (length F + z - fraction_length False kept) = dval (I @ F)"
    and pre_D: "prefix (digits_in kept) (dropWhile (\<lambda>c. c = 48) I @ F)"
    by (rule drop_outer_zeros_correct [OF s short])
  obtain b0 where b0: "SetToZero b = Inr b0" "big_ok N b0" "big_value b0 = 0"
    using SetToZero_computes [OF b] by (auto simp: returns_iff)
  define r where "r = \<lparr>rd_after_point = False, rd_adjust = int z, rd_queued = 0, rd_digits_queued = 0, rd_big = b0\<rparr>"
  have r: "reader_ok N r" "read_total r = 0"
    using b0 by (simp_all add: r_def reader_ok_def read_total_def)
  have short_parts: "length I + length F < 2 ^ 31" "length (dropWhile (\<lambda>c. c = 48) I) \<le> length I"
    using s short by (auto simp: number_text_def length_dropWhile_le)
  then have room: "adjust_room r m" if "m \<le> length (digits_in kept)" for m
    using that kept(5) prefix_length_le [OF pre_D] by (simp add: adjust_room_def in_int_def r_def)
  have D: "all_digits Decimal (digits_in kept)"
    using digits_in_all_digits [OF kept(3)] .
  have flush: "returns (if rd_digits_queued r' > 0 then flush_digits r' else Inr (rd_big r')) (computes N (read_total r'))"
    if "reader_ok N r'" "read_total r' < 2 ^ (32 * N)" for r'
  proof (cases "rd_digits_queued r' > 0")
    case True
    then show ?thesis
      using flush_digits_computes [of N r'] that by (simp add: reader_ok_def)
  next
    case False
    then have "uint (rd_queued r') < 1"
      using that(1) by (simp add: reader_ok_def)
    then have "uint (rd_queued r') = 0"
      using word32_bounds(1) [of "rd_queued r'"] by linarith
    then show ?thesis
      using False that by (simp add: reader_ok_def read_total_def)
  qed
  have max: "length (bu_words b) = N"
    using b by (simp add: big_ok_def)
  show ?thesis
  proof (cases "length (digits_in kept) \<le> n")
    case True
    have "dval (digits_in kept) < 10 ^ length (digits_in kept)"
      using digits_value_less [OF D] by simp
    also have "\<dots> \<le> 10 ^ n"
      using True by (intro power_increasing) simp_all
    finally have less: "dval (digits_in kept) < 10 ^ n" .
    obtain r' where run: "read_loop kept (int n) r = Inr (r', [])" and r': "reader_ok N r'" "read_total r' = dval (digits_in kept)"
      "rd_adjust r' = int z - int (fraction_length False kept)"
      using read_loop_correct [OF kept(3) _ _ r(1), of "int n"] room kept(2) True less fits r(2) by (auto simp: returns_iff r_def)
    obtain b' where b': "(if rd_digits_queued r' > 0 then flush_digits r' else Inr (rd_big r')) = Inr b'"
      "big_ok N b'" "big_value b' = dval (digits_in kept)"
      using flush [OF r'(1)] r'(2) less fits by (auto simp: returns_iff)
    have "reads n I F (dval (digits_in kept)) (int z - int (fraction_length False kept))"
      using less digits_value_nonneg [OF D] kept(4,5) text_value_shift [OF val kept(4)] by (simp add: reads_def)
    then show ?thesis
      using n(2) b0(1) kept(1) run b' r'(3) max by (simp add: ReadDigits_def Let_def r_def max_words_def)
  next
    case False
    then obtain pre c post where split: "kept = pre @ c # post" "is_digit Decimal c" "length (digits_in pre) = n - 1"
      using split_digits [OF kept(3), of "n - 1"] by force
    have din: "digits_in kept = (digits_in pre @ [c]) @ digits_in post"
      using split(1,2) digit_not_point [OF split(2)] by (simp add: digits_in_def)
    have len: "length (digits_in pre @ [c]) = n"
      using split(3) n(1) by simp
    have "digits_in post \<noteq> []"
      using False din len by auto
    then have "post \<noteq> []"
      by (cases post) simp_all
    then have post: "post \<noteq> []" "digits_or_points post" "last post \<noteq> 46" "last post \<noteq> 48"
      using kept(2,3) by (simp_all add: split(1))
    define X where "X = dval (digits_in pre @ [c])"
    have digits: "all_digits Decimal (digits_in pre @ [c])" "all_digits Decimal (digits_in post)"
      using D unfolding din by simp_all
    have X: "0 \<le> X" "X < 10 ^ n"
      using digits_value_nonneg [OF digits(1)] digits_value_less [OF digits(1)]
      unfolding len X_def [symmetric] by simp_all
    have "(if 5 dvd X then X + 1 else X) < 10 ^ n"
    proof (cases "5 dvd X")
      case True
      have "(10 :: int) ^ n = 10 * 10 ^ (n - 1)"
        using n(1) by (cases n) simp_all
      then have "5 dvd (10 :: int) ^ n"
        by simp
      then have "X + 1 \<noteq> 10 ^ n"
        using True by presburger
      then show ?thesis
        using X(2) True by simp
    qed (use X(2) in simp)
    then have v: "(if 5 dvd X then X + 1 else X) < 10 ^ n" "0 \<le> (if 5 dvd X then X + 1 else X)"
      using X(1) by simp_all
    obtain r' where run: "read_loop kept (int n) r = Inr (r', post)" and r': "reader_ok N r'"
      "read_total r' = (if 5 dvd X then X + 1 else X)" "rd_after_point r' \<longleftrightarrow> 46 \<in> set pre"
      "rd_adjust r' = int z - int (fraction_length False (pre @ [c]))"
    proof -
      have room': "adjust_room r (Suc (n - 1))"
        using False n(1) by (intro room) simp
      have ten: "10 ^ Suc (n - 1) \<le> (2 :: int) ^ (32 * N)" and suc: "int (Suc (n - 1)) = int n"
        using fits n(1) by simp_all
      show thesis
        by (rule read_loop_truncates [OF kept(3) split(1,2) post(1) split(3) r ten X_def room'], unfold suc)
          (rule that; simp add: r_def)
    qed
    obtain b' where b': "(if rd_digits_queued r' > 0 then flush_digits r' else Inr (rd_big r')) = Inr b'"
      "big_ok N b'" "big_value b' = (if 5 dvd X then X + 1 else X)"
      using flush [OF r'(1)] r'(2) v(1) fits by (auto simp: returns_iff)
    define a where "a = (if 46 \<in> set pre then rd_adjust r' else rd_adjust r' + int (length (takeWhile (\<lambda>c. c \<noteq> 46) post)))"
    define L where "L = length (digits_in post)"
    have "c \<noteq> 46"
      using split(2) digit_not_point by blast
    then have frac: "fraction_length False kept = fraction_length False (pre @ [c]) + fraction_length (46 \<in> set pre) post"
      using fraction_length_append [of False "pre @ [c]" post] by (auto simp: split(1))
    have a: "a = int L + int z - int (fraction_length False kept)"
    proof -
      have "fraction_length True post = L" "length (takeWhile (\<lambda>c. c \<noteq> 46) post) + fraction_length False post = L"
        using length_digits_in [of post] by (simp_all add: L_def fraction_length_def)
      then show ?thesis
        unfolding a_def r'(4) frac by (cases "46 \<in> set pre") simp_all
    qed
    have "fraction_length False (pre @ [c]) = 0 \<and> length (takeWhile (\<lambda>c. c \<noteq> 46) post) \<le> length (takeWhile (\<lambda>c. c \<noteq> 46) kept)"
      if "46 \<notin> set pre"
    proof -
      have "dropWhile (\<lambda>c. c \<noteq> 46) (pre @ [c]) = []"
        using that \<open>c \<noteq> 46\<close> by (auto simp: dropWhile_eq_Nil_conv)
      moreover have "takeWhile (\<lambda>c. c \<noteq> 46) ((pre @ [c]) @ post) = (pre @ [c]) @ takeWhile (\<lambda>c. c \<noteq> 46) post"
        using that \<open>c \<noteq> 46\<close> by (intro takeWhile_append2) auto
      then have "length (takeWhile (\<lambda>c. c \<noteq> 46) post) \<le> length (takeWhile (\<lambda>c. c \<noteq> 46) kept)"
        by (simp add: split(1))
      ultimately show ?thesis
        by (simp only: fraction_length_def if_False digits_in_simps list.size)
    qed
    moreover have "fraction_length False (pre @ [c]) \<le> fraction_length False kept"
      by (simp only: frac)
    ultimately have a_bounds: "- int (length F) \<le> a" "a \<le> int (length (dropWhile (\<lambda>c. c = 48) I))"
      using kept(4,5) by (auto simp: a_def r'(4))
    have distance: "add_distance (rd_adjust r') (length (takeWhile (\<lambda>c. c \<noteq> 46) post)) =
        rd_adjust r' + int (length (takeWhile (\<lambda>c. c \<noteq> 46) post))" if "46 \<notin> set pre"
      using that a_bounds short_parts by (intro add_distance_eq) (simp add: a_def in_int_def)
    define Y where "Y = dval (digits_in post)"
    have Y: "0 < Y" "Y < 10 ^ L"
    proof -
      have "last (digits_in post) = last post"
        using digit_at_end [OF post(2,1,3)] by (metis last_snoc)
      then have "\<not> (\<forall>c \<in> set (digits_in post). c = 48)"
        using post(4) last_in_set [OF \<open>digits_in post \<noteq> []\<close>] by auto
      then show "0 < Y"
        using digits_value_eq_0_iff [OF digits(2)] digits_value_nonneg [OF digits(2)] unfolding Y_def by (metis order_le_less)
      show "Y < 10 ^ L"
        using digits_value_less [OF digits(2)] by (simp add: Y_def L_def)
    qed
    have "dval (digits_in kept) = X * 10 ^ L + Y"
      using digits_value_append [of Decimal "digits_in pre @ [c]" "digits_in post"]
      unfolding din X_def [symmetric] Y_def [symmetric] L_def [symmetric] by simp
    then have "text_value I F = (of_int X * 10 ^ L + of_int Y) * 10 powi (a - int L)"
      using text_value_shift [OF val kept(4)] by (simp add: a)
    also have "(10 :: real) powi (a - int L) = 10 powi a / 10 ^ L"
      by (simp add: power_int_diff)
    finally have value_eq: "text_value I F = (of_int X + of_int Y / 10 ^ L) * 10 powi a"
      by (simp add: field_simps)
    have "real_of_int Y < 10 ^ L"
      using Y(2) by (metis of_int_less_iff of_int_numeral of_int_power)
    then have "0 < (of_int Y :: real) / 10 ^ L" "of_int Y / 10 ^ L < (1 :: real)"
      using Y(1) by simp_all
    then have "of_int X * 10 powi a < text_value I F" "text_value I F < (of_int X + 1) * 10 powi a"
      unfolding value_eq by (intro mult_strict_right_mono; simp)+
    moreover have "10 ^ (n - 1) \<le> X" if "first_nonzero I F"
    proof -
      have "prefix (digits_in pre @ [c]) (dropWhile (\<lambda>c. c = 48) I @ F)"
        using pre_D unfolding din by (rule append_prefixD)
      then have "hd (digits_in pre @ [c]) \<noteq> 48"
        using that by (intro hd_first_nonzero) simp_all
      then show ?thesis
        using digits_value_lower [OF digits(1)] unfolding len X_def [symmetric] by simp
    qed
    ultimately have "reads n I F (if 5 dvd X then X + 1 else X) a"
      using v a_bounds X(1) unfolding reads_def reads_truncated_def by blast
    then show ?thesis
      using n(2) b0(1) kept(1) run b' max post(1) r'(3)
      by (auto simp: ReadDigits_def Let_def r_def max_words_def a_def distance)
  qed
qed

end
