(* ===== verification/Charconv_Results.thy ===== *)
theory Charconv_Results
  imports Charconv_Hexadecimal Long_Decimal
begin

text \<open>
  The properties of \<open>from_chars\<close> for floating-point numbers.
\<close>

section \<open>Where the number starts\<close>

text \<open>The sign, the base and the position of the number after sign and prefix.\<close>

definition number_start :: "byte list \<Rightarrow> nat \<Rightarrow> chars_format \<Rightarrow> bool \<times> base \<times> nat" where
  "number_start src first fmt =
     (let neg = (first < length src \<and> src ! first = 45);
          p = (if neg then first + 1 else first)
      in if fmt AND hex_fmt = 0 \<and> p + 2 \<le> length src \<and> src ! p = 48 \<and> (src ! (p + 1) = 120 \<or> src ! (p + 1) = 88)
         then (neg, Hexadecimal, p + 2)
         else (neg, if fmt AND hex_fmt = hex_fmt then Hexadecimal else Decimal, p))"

lemma number_start_le: "first \<le> length src \<Longrightarrow> number_start src first fmt = (neg, base, start) \<Longrightarrow> start \<le> length src"
  by (auto simp: number_start_def Let_def split: if_splits)

lemma from_chars_number:
  assumes "number_start src first fmt = (neg, base, start)" "ParseFloat base src start fmt = Inr r" "pf_end r = Some ptr"
    and "pf_type r = kNumber"
  shows "from_chars MakeNan ft src first v fmt = finish_conversion MakeNan base ft src neg r ptr"
proof -
  define p where "p = (if first < length src \<and> src ! first = 45 then first + 1 else first)"
  define prefixed where "prefixed \<longleftrightarrow> fmt AND hex_fmt = 0 \<and> length src - p \<ge> 2 \<and> src ! p = 48 \<and> (src ! (p + 1) = 120 \<or> src ! (p + 1) = 88)"
  have "length src - p \<ge> 2 \<longleftrightarrow> p + 2 \<le> length src"
    by linarith
  then have start: "neg = (first < length src \<and> src ! first = 45)"
    "(base, start) = (if prefixed then (Hexadecimal, p + 2) else (if fmt AND hex_fmt = hex_fmt then Hexadecimal else Decimal, p))"
    using assms(1) unfolding number_start_def Let_def p_def [symmetric] prefixed_def by (auto split: if_splits)
  show ?thesis
    using assms(2-4) start(2)
    unfolding from_chars_def FromCharsImpl_def Let_def start(1) [symmetric] p_def [folded start(1), symmetric] prefixed_def [symmetric]
    by (auto split: if_splits)
qed

section \<open>The properties\<close>

text \<open>
  Claim C38. A hexadecimal literal, after the sign and the prefix \<open>0x\<close> or with the flag \<open>hex\<close>, is converted to the floating-point
  number that is closest to its value, and of two equally close ones to the one with the even significand, for both formats
  and every literal that the scanner accepts, whose mantissa has fewer than 12.5 million digits on either side of the point and whose exponent may have any
  number of digits; a value too large or too small for the format gives \<open>result_out_of_range\<close> and the
  largest number or zero. No assertion fails on the way and no \<open>int\<close> overflows.
\<close>

theorem from_chars_hexadecimal:
  assumes "first \<le> length src" "number_start src first fmt = (neg, Hexadecimal, start)" "ParseFloat Hexadecimal src start fmt = Inr r"
    and "pf_end r = Some ptr" "pf_type r = kNumber"
  shows "returns (from_chars MakeNan ft src first v fmt) (conversion ft neg (literal_value Hexadecimal fmt (drop start src)) ptr)"
  using hexadecimal_conversion [OF number_start_le [OF assms(1,2)] assms(3) _ assms(5)] from_chars_number [OF assms(2-5)] assms(4) by simp

lemma ParseFloat_hex_example:
  "ParseFloat Hexadecimal [45, 48, 120, 49, 46, 56, 112, 49] 3 general_fmt = Inr (nothing_parsed\<lparr>pf_mantissa := 24, pf_exponent := - 3,
    pf_literal_exponent := 1, pf_end := Some 8\<rparr>)"
  by (simp add: ParseFloat_eq ParseFloat_reference_def special_reference_def starts_with_def lower_case_def within_limits_def
     number_reference_def integer_digits_def fraction_digits_def has_point_def significant_digits_def mantissa_length_def
     exponent_parts_def nothing_parsed_def Let_def exponent_adjust_def mantissa_value_def dropped_nonzero_def nonzero_in_def
     digits_value_def exponent_allowed_def general_fmt_def fixed_fmt_def scientific_fmt_def)

theorem from_chars_hexadecimal_witness:
  "returns (from_chars (\<lambda>_ _. 0) Double [45, 48, 120, 49, 46, 56, 112, 49] 0 0 general_fmt)
     (conversion Double True (literal_value Hexadecimal general_fmt [49, 46, 56, 112, 49]) 8)"
proof -
  have "number_start [45, 48, 120, 49, 46, 56, 112, 49] 0 general_fmt = (True, Hexadecimal, 3)"
    by (simp add: number_start_def Let_def general_fmt_def fixed_fmt_def scientific_fmt_def hex_fmt_def)
  from from_chars_hexadecimal [OF _ this ParseFloat_hex_example] show ?thesis
    by (simp add: nothing_parsed_def)
qed

text \<open>
  Claim C39. The tables of powers of ten are right in all 651 entries: a mantissa of 64 bits, the first of them set, and an
  exponent, which together are the power, if \<open>Power10Exact\<close> says so, and otherwise the power rounded down, strictly.
\<close>

theorem Power10_tables:
  assumes "\<not> Power10Underflow n" "\<not> Power10Overflow n"
  shows "returns (Power10Mantissa n) (\<lambda>m. returns (Power10Exponent n) (\<lambda>e. 2 ^ 63 \<le> uint m \<and>
    (if Power10Exact n then of_int (uint m) * 2 powi e = (10 :: real) powi n
     else of_int (uint m) * 2 powi e < (10 :: real) powi n \<and> (10 :: real) powi n < (of_int (uint m) + 1) * 2 powi e)))"
proof -
  obtain m e where "Power10Mantissa n = Inr m" "Power10Exponent n = Inr e" "2 ^ 63 \<le> uint m"
    "if Power10Exact n then of_int (uint m) * 2 powi e = (10 :: real) powi n
      else of_int (uint m) * 2 powi e < (10 :: real) powi n \<and> 10 powi n < (of_int (uint m) + 1) * (2 :: real) powi e"
    by (rule Power10_correct [OF assms])
  then show ?thesis
    by simp
qed

theorem Power10_tables_witness:
  "returns (Power10Mantissa 28) (\<lambda>m. returns (Power10Exponent 28) (\<lambda>e. 2 ^ 63 \<le> uint m \<and>
    of_int (uint m) * 2 powi e < (10 :: real) ^ 28 \<and> (10 :: real) ^ 28 < (of_int (uint m) + 1) * 2 powi e))"
proof -
  have "\<not> Power10Underflow 28" "\<not> Power10Overflow 28" "\<not> Power10Exact 28"
    by (simp_all add: Power10Underflow_def Power10Overflow_def kPower10TableMin_def kPower10TableMax_def Power10Exact_def)
  then show ?thesis
    using Power10_tables [of 28] by (simp add: power_int_def)
qed



end
