(* ===== verification/Spec2Isabelle.thy ===== *)
theory Spec2Isabelle
  imports Session Demangle_Results Base64_Results Int128_Print Big_Unsigned_Facts Charconv_Results
begin

text \<open>
  The autotrader of \<open>src/\<close>: a client of an exchange simulator that quotes one exchange-traded
  fund around the midpoint of its future. With it, the parts of the
  string library it vendors that parse, print, encode and escape untrusted text.

  \<^bold>\<open>The trading program\<close> (everything under \<open>src/src\<close>). \<open>main\<close> builds a \<open>MarketLink\<close> (two
  sockets) and an \<open>AutoTrader\<close>, connects, logs in and runs the polling loop for ever. The loop reads
  a message from the execution socket or the information socket into one reused buffer and
  passes its content to the trader; the trader passes future books to its \<open>PricingModel\<close> and asks
  its \<open>TradeExecutor\<close> to requote; the executor calls back into \<open>MarketLink\<close>, which sends orders.

  \<^item> \<open>Prelude\<close>: machine types, \<open>fault\<close> (every way a C++ statement can fail, undefined behaviour
    included), programs with state and failure, checked \<open>int\<close> arithmetic.
  \<^item> \<open>Messages\<close>: \<open>constants/types.h\<close> and \<open>constants/messages.h\<close>. A message is the bytes of it that have been written,
    which are 73 to 88: its initialiser writes size, type and the first member of the union, and the 15 bytes behind are
    indeterminate until a read stores them. The fields are loads and stores at the offsets of the packed structs; a load of
    an indeterminate byte is a fault. \<open>Wire\<close> states the format of the commands
    independently of the code, with \<open>decode_command\<close> as the receiving side and \<open>resting\<close> as the
    exchange's book of our orders.
  \<^item> \<open>Order_Entry\<close>: the state of \<open>MarketLink\<close> (market_link.h), the effects of a run, \<open>cancelOrder\<close> and
    \<open>insertOrder\<close>; their bytes decode to the orders passed in.
  \<^item> \<open>Trade_Executor\<close>, \<open>Pricing_Model\<close>: the two abstract classes as records of operations, with their
    contracts as the locales \<open>executor_contract\<close> and \<open>pricing_contract\<close>. \<open>Simple_Executor\<close> and
    \<open>Future_Midpoint\<close> model the two derived classes and interpret the locales on them; requoting
    refines an abstract function on quotes, and the price is bounded against the true midpoint.
  \<^item> \<open>AutoTrader\<close>: the trader over any model and executor (locale \<open>trader_contract\<close>, which combines the
    two contracts, interpreted on the classes that \<open>main\<close> chooses).
  \<^item> \<open>Market_Link\<close>: the rest of market_link.cpp. \<open>Market_Data\<close>: what the handlers make of a buffer, against
    an independent reading of the wire format (\<open>event_of\<close>); what partial, coalesced and empty reads do;
    the loop acts on every read of both sockets.
  \<^item> \<open>Main_Program\<close>: main.cpp, its handlers, the start-up, and the destruction of the objects when it returns, which
    deletes through base classes without virtual destructor. \<open>Session\<close>: the abstract trading session, and
    the refinement of it by the loop over bytes. The properties of the whole program are below.

  \<^bold>\<open>The string library\<close> (\<open>libs/abseil-cpp-master/absl\<close>). It is kept with the program but the present build does not
  link it (\<open>find_package(absl)\<close> is commented out in CMakeLists.txt), so its parts stand for themselves.

  \<^item> The symbol demangler, \<open>debugging/internal/demangle.cc\<close>, whole: \<open>Demangle_State\<close> (tables, state, guard,
    output), \<open>Demangle_Tokens\<close> and \<open>Demangle_Parse\<close> (the parsers, one definition per C++ function, in the
    order of the file). \<open>Demangle_Logic\<close> is a program logic of two judgements, \<open>runs\<close> (returns, inside its
    buffers) and \<open>keeps\<close> (restores the parse state on failure); \<open>Demangle_Output\<close>, \<open>Demangle_Safe\<close> and
    \<open>Demangle_Total\<close> apply it to each function; \<open>Demangle_Exec\<close> has the rules that evaluate the
    parsers on given names, and \<open>Demangle_Results\<close> the properties.
  \<^item> \<open>Ascii\<close>: \<open>strings/ascii.h\<close> and \<open>ascii.cc\<close>.
  \<^item> \<open>C_Escape\<close>: the C escapers and the unescaper of \<open>strings/escaping.cc\<close>, the UTF-8 encoder of
    \<open>strings/internal/utf8.cc\<close>, hexadecimal strings; \<open>C_Escape_Results\<close> has the round trips.
  \<^item> \<open>Base64\<close>: \<open>strings/escaping.cc\<close> and \<open>strings/internal/escaping.cc\<close>, unrolled loops and tables
    included; \<open>Base64_Results\<close> proves them equal to reference functions in the locale \<open>base64_alphabet\<close>,
    interpreted on the two alphabets.
  \<^item> \<open>Numbers\<close>: the integer printers and parsers of \<open>strings/numbers.cc\<close> and \<open>numbers.h\<close>, with
    \<open>strings/match.cc\<close>; \<open>Numbers_Results\<close> proves that they print decimal digits within bounds, and
    that the parsers equal a reference with its own value of digits, sign and prefix, which uses none of their tables.
  \<^item> \<open>Bits\<close>: counting zero bits, \<open>base/internal/bits.h\<close>. \<open>Int128\<close>: 128-bit integers from two halves,
    \<open>numeric/int128.h\<close>, \<open>int128.cc\<close>, \<open>int128_no_intrinsic.inc\<close>; \<open>Int128_Results\<close> proves that the unsigned
    operators are those of a 128-bit word and when the signed ones are exact; \<open>Int128_Print\<close> is their
    output to streams.
  \<^item> The floating-point scanner, \<open>strings/internal/charconv_parse.h\<close> and \<open>charconv_parse.cc\<close>: \<open>Fallible\<close> has values that
    may be faults, with the judgement \<open>returns\<close>; \<open>Parse_Float\<close> models the scanner, \<open>Float_Text\<close> the value of digits,
    \<open>Parse_Float_Results\<close> proves it equal to a reference that splits the text, with digits, limits and words of its own;
    \<open>Parse_Float_Value\<close> relates its result to the number that the text denotes. The scanner keeps nine digits of an exponent, so
    two values appear there: \<open>literal_value\<close>, of the literal as written, and \<open>scanned_value\<close>. \<open>Big_Unsigned\<close> and \<open>Big_Unsigned_Text\<close>: large integers, \<open>charconv_bigint.h\<close> and
    \<open>charconv_bigint.cc\<close>; \<open>Big_Unsigned_Results\<close> proves that the in-place operations compute modulo the width and
    never leave the array, and \<open>Big_Unsigned_Facts\<close> has the properties.
  \<^item> The conversion of literals to \<open>double\<close> and \<open>float\<close>, \<open>strings/charconv.cc\<close>: \<open>Charconv\<close> models it, with the tables of powers of
    ten, which \<open>Charconv_Tables\<close> checks. \<open>Float_Rounding\<close> says what correct rounding is, \<open>Float_Bits\<close> how the bits encode a
    number; \<open>Charconv_Steps\<close> shows that shifting, rounding and normalising a mantissa rounds correctly, \<open>Long_Decimal\<close> what is
    read of a decimal number with hundreds of digits, \<open>Charconv_Hexadecimal\<close> that hexadecimal literals are converted
    correctly; \<open>Charconv_Results\<close> has the properties.

  \<^bold>\<open>Modelling conventions.\<close> A C++ \<open>int\<close> of the trading program is an \<^typ>\<open>int\<close> whose arithmetic faults
  outside 32 bits; unsigned integers are words. Undefined behaviour (overflow, out-of-bounds access,
  reading an uninitialised field or byte, a bad format, a deletion without virtual destructor) and failed assertions are faults, never values. Where a
  count or an index of the library is an \<open>int\<close> that long texts could overflow (the indices of the demangler, the digit counts of
  \<open>ReadDigits\<close>), it is checked, and the properties bound the length of the text. The references that the library is proved against
  (\<open>parse_reference\<close>, \<open>ParseFloat_reference\<close>, \<open>base64_decode\<close> but for the alphabet, which is its parameter) are not made of its functions. The world outside is a
  parameter: the record \<open>os\<close> gives what the calls of the connection phase return, and two lists
  give what successive calls of \<open>read\<close> return; what the program does to the world is a list of effects.

  \<^bold>\<open>Bounds and fuel.\<close> \<open>runLoop\<close> and \<open>readNextMessage\<close> recurse over the input script, every iteration
  consuming a read; the end of the script is the outcome \<open>Waiting\<close>, so nothing is said of a run
  beyond the input observed. The mutually recursive parsers of the demangler take fuel,
  400000 at the entry point: the guard of the code admits at most 131072 nested or successive
  guarded calls, the calls and loop rounds between two of them are bounded, and \<open>Demangle_Total\<close>
  proves that this fuel is never used up, so \<open>Demangle\<close> is total. The counter of guarded calls
  itself is not checked against \<open>int\<close>: beyond its limit of 131072 every guarded call returns at once, so only the
  calls left in the bodies of at most 256 nested functions are still counted. All other loops are structural or
  have a measure.

  \<^bold>\<open>Not modelled.\<close> In the trading program: what the operating system does behind its calls. In the modelled library files: the Base64 decoder
  with a null destination (no caller passes one), the unescaper with source and destination in one
  buffer (\<open>CUnescapeInternal_fits\<close> bounds how far it writes), views whose data pointer is null, the
  wrap-around of \<open>size_t\<close> for lengths no memory can hold, and the routines of \<open>numbers.cc\<close> on floating-point numbers.
  Left out whole: range-v3, concepts, meta and std (templates that only exist when instantiated, of which the program
  instantiates none), the rest of abseil (containers, synchronisation, flags, random numbers,
  hashing, time zones, formatting), which the trading program never calls, and all tests and build files.
\<close>

section \<open>Properties of the whole program\<close>

text \<open>At most one resting order per side, always of ten lots.\<close>

definition one_order_per_side :: "(int \<rightharpoonup> Side \<times> int \<times> int) \<Rightarrow> bool" where
  "one_order_per_side m \<longleftrightarrow>
     (\<forall>i side price volume. m i = Some (side, price, volume) \<longrightarrow> volume = 10 \<and>
        (\<forall>j price' volume'. m j = Some (side, price', volume') \<longrightarrow> i = j))"

text \<open>Some system call of the connection phase fails.\<close>

definition connection_fails :: "os \<Rightarrow> bool" where
  "connection_fails os \<longleftrightarrow>
     \<not> (execution_calls_ok os (MarketLink EXEC_HOST EXEC_PORT INFO_HOST INFO_PORT) \<and>
        information_calls_ok os (MarketLink EXEC_HOST EXEC_PORT INFO_HOST INFO_PORT))"

lemma one_order_per_side_own: "ids_ok e \<Longrightarrow> one_order_per_side (own_orders e)"
  by (auto simp: one_order_per_side_def own_orders_def split: if_splits)

text \<open>
  Claim C1. Whatever the operating system and the exchange do, and however the run ends, the
  commands the program has sent form a sequence that an exchange accepts: order ids
  strictly increase, no insert reuses a resting id, every cancel names a resting order,
  and at most one order of ten lots rests on each side.
\<close>

theorem main_orders_accepted:
  "accepted Map.empty (sent_commands (snd (main_program os exec_in info_in))) \<and>
   sorted_wrt (<) (insert_ids (sent_commands (snd (main_program os exec_in info_in)))) \<and>
   one_order_per_side (resting (sent_commands (snd (main_program os exec_in info_in))))"
proof -
  consider "sent_commands (snd (main_program os exec_in info_in)) = []"
    | e where "executor_inv e (sent_commands (snd (main_program os exec_in info_in)))"
    using main_program_cases(2) [OF prod.collapse [symmetric]] by blast
  then show ?thesis
  proof cases
    case 1
    then show ?thesis by (simp add: one_order_per_side_def)
  next
    case 2
    then show ?thesis by (simp add: executor_inv_def fresh_ids_def one_order_per_side_own)
  qed
qed

text \<open>
  Claim C2. End to end: let all calls of the connection phase succeed, and let the exchange send
  sequences of encodable events on the two sockets, each event in a read of its own and with any
  pauses between them. If no book of the future has a best ask and a best bid whose sum
  exceeds an \<open>int\<close>, and at most 10^9 reads of the execution socket are observed (so that the order
  ids stay below 2^31), then the program is left waiting for more, and the commands it has sent are the login followed by exactly
  those of the abstract session (tick midpoint, quotes 100 around it, position guard) on
  the events in polling order.
\<close>

theorem main_follows_session:
  assumes "execution_calls_ok os (MarketLink EXEC_HOST EXEC_PORT INFO_HOST INFO_PORT)"
    and "information_calls_ok os (MarketLink EXEC_HOST EXEC_PORT INFO_HOST INFO_PORT)"
    and "\<forall>ev \<in> set (events_of es) \<union> set (events_of rs). event_ok ev \<and> no_overflow ev"
    and "length es \<le> 1000000000"
  shows "\<exists>tr. main_program os (map read_of es) (map read_of rs) = (Waiting, tr) \<and>
    sent_commands tr = login_command # fst (session_run (delivered es rs) session_init)"
  using main_runs_session [OF assms(1-3)] length_delivered [of es rs] assms(4) by simp

theorem main_follows_session_witness:
  "\<exists>tr. main_program example_os (map read_of [None, Some (Position_event 0 10), None])
      (map read_of [Some (Book_event FUTURE 1 [10250] [5] [10170] [7]), None]) = (Waiting, tr) \<and>
    sent_commands tr = login_command # fst (session_run
      (delivered [None, Some (Position_event 0 10), None]
        [Some (Book_event FUTURE 1 [10250] [5] [10170] [7]), None]) session_init)"
  by (rule main_follows_session)
    (simp_all add: example_os_def execution_calls_ok_def information_calls_ok_def MarketLink_def
      levels_ok_def in_int_def)


text \<open>
  Claim C11. As long as the book of the future has not been seen with both sides, the program quotes around a price
  of 0. If all calls of the connection phase succeed, the sockets deliver encodable events one per read (at most
  10^9 reads of the execution socket), none of them is a book of the future with both sides, and the
  first event to arrive is a book update, then all the program ever sends after the login is a buy of
  ten lots at -100 and a sale of ten lots at 100, whatever the books show.
\<close>

theorem quotes_zero_before_future:
  assumes "execution_calls_ok os (MarketLink EXEC_HOST EXEC_PORT INFO_HOST INFO_PORT)"
    and "information_calls_ok os (MarketLink EXEC_HOST EXEC_PORT INFO_HOST INFO_PORT)"
    and "\<forall>ev \<in> set (events_of es) \<union> set (events_of rs). event_ok ev \<and> unpriced ev"
    and "length es \<le> 1000000000"
    and "delivered es rs = Book_event i n aps avs bps bvs # evs"
  shows "\<exists>tr. main_program os (map read_of es) (map read_of rs) = (Waiting, tr) \<and>
    sent_commands tr =
      [login_command, Insert_command 2 BUY (- 100) 10 GOOD_FOR_DAY,
       Insert_command 3 SELL 100 10 GOOD_FOR_DAY]"
proof -
  have "list_all unpriced (delivered es rs)"
    using assms(3) delivered_subset [of es rs] by (auto simp: list_all_iff)
  then have "fst (session_run (delivered es rs) session_init) =
      [Insert_command 2 BUY (- 100) 10 GOOD_FOR_DAY, Insert_command 3 SELL 100 10 GOOD_FOR_DAY]"
    unfolding assms(5) by (rule session_run_first_book)
  moreover have "\<forall>ev \<in> set (events_of es) \<union> set (events_of rs). event_ok ev \<and> no_overflow ev"
    using assms(3) by (auto intro: unpriced_no_overflow)
  ultimately show ?thesis
    using main_runs_session [OF assms(1,2), of es rs] length_delivered [of es rs] assms(4) by simp
qed

theorem quotes_zero_before_future_witness:
  "\<exists>tr. main_program example_os (map read_of [None, None])
      (map read_of [Some (Book_event ETF 1 [10250] [5] [10170] [7]), Some (Book_event FUTURE 2 [10300] [5] [] [])])
      = (Waiting, tr) \<and>
    sent_commands tr =
      [login_command, Insert_command 2 BUY (- 100) 10 GOOD_FOR_DAY,
       Insert_command 3 SELL 100 10 GOOD_FOR_DAY]"
  by (rule quotes_zero_before_future [where i = ETF and n = 1 and aps = "[10250]" and avs = "[5]"
        and bps = "[10170]" and bvs = "[7]" and evs = "[Book_event FUTURE 2 [10300] [5] [] []]"])
    (simp_all add: example_os_def execution_calls_ok_def information_calls_ok_def MarketLink_def
      levels_ok_def in_int_def)

end
